(* ===== verification/Prelude.thy ===== *)
theory Prelude
  imports Main "HOL-Library.Word" "HOL-Library.Sublist"
begin

text \<open>
  Shared vocabulary of the development: the machine integers, byte strings and result
  values that every component uses, the byte-order conversions of the Rust standard library
  (\<open>to_be_bytes\<close>, \<open>to_le_bytes\<close>, \<open>from_be_bytes\<close>, \<open>from_le_bytes\<close>), byte-wise exclusive or, and
  the lemma collections the component proofs draw on.
\<close>

unbundle bit_operations_syntax

section \<open>Types\<close>

type_synonym u8 = "8 word"
type_synonym u16 = "16 word"
type_synonym u32 = "32 word"
type_synonym u64 = "64 word"
type_synonym u128 = "128 word"

type_synonym bytes = "u8 list"

text \<open>
  Rust's \<open>Result<T, E>\<close> is \<open>'e + 'a\<close> with the error on the left. A computation that may
  panic (an \<open>expect\<close> or an out-of-range slice) returns \<open>string + 'a\<close>, the panic message on
  the left.
\<close>

type_synonym ('a, 'e) result = "'e + 'a"
type_synonym 'a or_panic = "string + 'a"

abbreviation Ok :: "'a \<Rightarrow> ('a, 'e) result" where "Ok \<equiv> Inr"
abbreviation Err :: "'e \<Rightarrow> ('a, 'e) result" where "Err \<equiv> Inl"
abbreviation Panic :: "string \<Rightarrow> 'a or_panic" where "Panic \<equiv> Inl"

named_theorems bytes_simps \<open>lengths and round trips of the byte conversions\<close>

section \<open>Results\<close>

definition is_ok :: "('a, 'e) result \<Rightarrow> bool" where
  "is_ok r = (case r of Ok _ \<Rightarrow> True | Err _ \<Rightarrow> False)"

lemma is_ok_simps [simp]: "is_ok (Ok x)" "\<not> is_ok (Err e)"
  by (simp_all add: is_ok_def)

lemma is_ok_iff: "is_ok r \<longleftrightarrow> (\<exists>x. r = Ok x)"
  by (cases r) simp_all

text \<open>\<open>Option::ok_or\<close> and \<open>Result::map_err\<close>.\<close>

definition ok_or :: "'e \<Rightarrow> 'a option \<Rightarrow> ('a, 'e) result" where
  "ok_or e x = (case x of None \<Rightarrow> Err e | Some v \<Rightarrow> Ok v)"

definition map_err :: "('e \<Rightarrow> 'f) \<Rightarrow> ('a, 'e) result \<Rightarrow> ('a, 'f) result" where
  "map_err f r = (case r of Ok v \<Rightarrow> Ok v | Err e \<Rightarrow> Err (f e))"

lemma ok_or_simps [simp]: "ok_or e None = Err e" "ok_or e (Some v) = Ok v"
  by (simp_all add: ok_or_def)

lemma ok_or_eq_Ok [simp]: "ok_or e x = Ok v \<longleftrightarrow> x = Some v"
  by (cases x) simp_all

lemma map_err_simps [simp]: "map_err f (Ok v) = Ok v" "map_err f (Err e) = Err (f e)"
  by (simp_all add: map_err_def)

lemma map_err_eq_Ok [simp]: "map_err f r = Ok v \<longleftrightarrow> r = Ok v"
  by (cases r) simp_all

section \<open>Byte order\<close>

definition le_bytes :: "nat \<Rightarrow> 'a::len word \<Rightarrow> bytes" where
  "le_bytes n w = map (\<lambda>i. ucast (drop_bit (8 * i) w)) [0..<n]"

definition be_bytes :: "nat \<Rightarrow> 'a::len word \<Rightarrow> bytes" where
  "be_bytes n w = rev (le_bytes n w)"

fun le_val :: "bytes \<Rightarrow> nat" where
  "le_val [] = 0"
| "le_val (b # bs) = unat b + 256 * le_val bs"

definition from_le_bytes :: "bytes \<Rightarrow> 'a::len word" where
  "from_le_bytes bs = word_of_nat (le_val bs)"

definition from_be_bytes :: "bytes \<Rightarrow> 'a::len word" where
  "from_be_bytes bs = word_of_nat (le_val (rev bs))"

lemma length_le_bytes [simp, bytes_simps]: "length (le_bytes n w) = n"
  by (simp add: le_bytes_def)

lemma length_be_bytes [simp, bytes_simps]: "length (be_bytes n w) = n"
  by (simp add: be_bytes_def)

lemma le_bytes_0 [simp, bytes_simps]: "le_bytes n 0 = replicate n 0"
  by (simp add: le_bytes_def map_replicate_const)

lemma be_bytes_0 [simp, bytes_simps]: "be_bytes n 0 = replicate n 0"
  by (simp add: be_bytes_def)

lemma unat_u8_bound: "unat (b::u8) < 256"
  using unsigned_less [of b] by simp

lemma le_val_bound: "le_val bs < 256 ^ length bs"
proof (induction bs)
  case Nil
  then show ?case by simp
next
  case (Cons b bs)
  have "unat b < 256" by (rule unat_u8_bound)
  with Cons show ?case by simp
qed

lemma le_val_inj:
  "length xs = length ys \<Longrightarrow> le_val xs = le_val ys \<Longrightarrow> xs = ys"
proof (induction xs ys rule: list_induct2)
  case Nil
  then show ?case by simp
next
  case (Cons x xs y ys)
  have b: "unat x < 256" "unat y < 256" by (rule unat_u8_bound)+
  from Cons.prems have e: "unat x + 256 * le_val xs = unat y + 256 * le_val ys" by simp
  have "unat x = (unat x + 256 * le_val xs) mod 256"
    and "le_val xs = (unat x + 256 * le_val xs) div 256" using b by simp_all
  moreover have "unat y = (unat y + 256 * le_val ys) mod 256"
    and "le_val ys = (unat y + 256 * le_val ys) div 256" using b by simp_all
  ultimately have "unat x = unat y" and "le_val xs = le_val ys" using e by metis+
  with Cons.IH show ?case by (simp add: word_unat_eq_iff)
qed

lemma unat_from_le_bytes:
  assumes "8 * length bs \<le> LENGTH('a::len)"
  shows "unat (from_le_bytes bs :: 'a word) = le_val bs"
proof -
  have "(256::nat) ^ length bs = 2 ^ (8 * length bs)"
    by (simp add: power_mult)
  also have "\<dots> \<le> 2 ^ LENGTH('a)" using assms by (simp add: power_increasing)
  finally have "le_val bs < 2 ^ LENGTH('a)" using le_val_bound [of bs] by simp
  then show ?thesis by (simp add: from_le_bytes_def unat_of_nat take_bit_nat_eq_self)
qed

lemma from_be_bytes_alt: "from_be_bytes bs = from_le_bytes (rev bs)"
  by (simp add: from_be_bytes_def from_le_bytes_def)

lemma from_le_bytes_inj:
  assumes "(from_le_bytes xs :: 'a::len word) = from_le_bytes ys"
    and "length xs = length ys" and "8 * length xs \<le> LENGTH('a)"
  shows "xs = ys"
proof (rule le_val_inj [OF assms(2)])
  have "unat (from_le_bytes xs :: 'a word) = unat (from_le_bytes ys :: 'a word)"
    using assms(1) by simp
  then show "le_val xs = le_val ys"
    using assms(2,3) by (simp add: unat_from_le_bytes)
qed

lemma from_be_bytes_inj:
  assumes "(from_be_bytes xs :: 'a::len word) = from_be_bytes ys"
    and "length xs = length ys" and "8 * length xs \<le> LENGTH('a)"
  shows "xs = ys"
  using from_le_bytes_inj [of "rev xs" "rev ys"] assms by (simp add: from_be_bytes_alt)

lemma bit_le_bytes_nth:
  assumes "i < n" and "j < 8"
  shows "bit (le_bytes n w ! i) j = bit w (8 * i + j)"
  using assms by (auto simp: le_bytes_def bit_ucast_iff bit_drop_bit_eq add.commute dest: bit_imp_le_length)

lemma le_bytes_inj:
  fixes v w :: "'a::len word"
  assumes "le_bytes n v = le_bytes n w" and "LENGTH('a) \<le> 8 * n"
  shows "v = w"
proof (rule bit_word_eqI)
  fix k assume k: "k < LENGTH('a)"
  let ?i = "k div 8" and ?j = "k mod 8"
  have i: "?i < n" using k assms(2) by auto
  have "bit v (8 * ?i + ?j) = bit w (8 * ?i + ?j)"
    using bit_le_bytes_nth [OF i, of ?j v] bit_le_bytes_nth [OF i, of ?j w] assms(1) by simp
  then show "bit v k = bit w k" by simp
qed

lemma be_bytes_inj:
  fixes v w :: "'a::len word"
  assumes "be_bytes n v = be_bytes n w" and "LENGTH('a) \<le> 8 * n"
  shows "v = w"
  using le_bytes_inj [of n v w] assms by (simp add: be_bytes_def)

lemma le_val_nth: "i < length bs \<Longrightarrow> le_val bs div 256 ^ i mod 256 = unat (bs ! i)"
proof (induction bs arbitrary: i)
  case Nil
  then show ?case by simp
next
  case (Cons b bs)
  have b: "unat b < 256" by (rule unat_u8_bound)
  show ?case
  proof (cases i)
    case 0
    with b show ?thesis by simp
  next
    case (Suc j)
    have "le_val (b # bs) div 256 ^ Suc j = le_val bs div 256 ^ j"
      using b by (simp add: div_mult2_eq)
    with Cons Suc show ?thesis by simp
  qed
qed

lemma le_bytes_from_le_bytes [bytes_simps]:
  assumes "length bs = n" and "8 * n \<le> LENGTH('a::len)"
  shows "le_bytes n (from_le_bytes bs :: 'a word) = bs"
proof (rule nth_equalityI)
  show "length (le_bytes n (from_le_bytes bs :: 'a word)) = length bs" using assms by simp
  fix i assume "i < length (le_bytes n (from_le_bytes bs :: 'a word))"
  then have i: "i < n" by simp
  have v: "unat (from_le_bytes bs :: 'a word) = le_val bs"
    using assms by (intro unat_from_le_bytes) simp
  have "unat (le_bytes n (from_le_bytes bs :: 'a word) ! i) =
      take_bit 8 (drop_bit (8 * i) (unat (from_le_bytes bs :: 'a word)))"
    using i by (simp add: le_bytes_def unsigned_ucast_eq unsigned_drop_bit_eq
        take_bit_nat_eq_self unsigned_less)
  also have "\<dots> = le_val bs div 256 ^ i mod 256"
    by (simp add: v drop_bit_eq_div take_bit_eq_mod power_mult)
  finally show "le_bytes n (from_le_bytes bs :: 'a word) ! i = bs ! i"
    using i assms(1) by (simp add: le_val_nth word_unat_eq_iff)
qed

lemma be_bytes_from_be_bytes [bytes_simps]:
  assumes "length bs = n" and "8 * n \<le> LENGTH('a::len)"
  shows "be_bytes n (from_be_bytes bs :: 'a word) = bs"
  using le_bytes_from_le_bytes [of "rev bs" n, where 'a = 'a] assms
  by (simp add: be_bytes_def from_be_bytes_alt)

lemma from_be_bytes_be_bytes [bytes_simps]:
  fixes w :: "'a::len word"
  assumes "LENGTH('a) = 8 * n"
  shows "from_be_bytes (be_bytes n w) = w"
  by (rule be_bytes_inj [of n]) (simp_all add: be_bytes_from_be_bytes assms)

section \<open>Byte-wise exclusive or\<close>

definition xor_bytes :: "bytes \<Rightarrow> bytes \<Rightarrow> bytes" where
  "xor_bytes xs ys = map2 (XOR) xs ys"

lemma length_xor_bytes [simp, bytes_simps]:
  "length (xor_bytes xs ys) = min (length xs) (length ys)"
  by (simp add: xor_bytes_def)

lemma nth_xor_bytes:
  "i < length xs \<Longrightarrow> i < length ys \<Longrightarrow> xor_bytes xs ys ! i = xs ! i XOR ys ! i"
  by (simp add: xor_bytes_def)

lemma word_xor_cancel [simp]:
  fixes a :: "'a::len word"
  shows "(a XOR m) XOR m = a"
  by (simp add: xor.assoc)

lemma word_xor_left_inj:
  fixes a :: "'a::len word"
  assumes "a XOR x = a XOR y"
  shows "x = y"
proof -
  have "a XOR (a XOR x) = a XOR (a XOR y)" using assms by simp
  then show ?thesis by (simp add: xor.assoc [symmetric])
qed

lemma xor_bytes_left_inj:
  assumes "xor_bytes k xs = xor_bytes k ys"
    and "length xs = length k" and "length ys = length k"
  shows "xs = ys"
proof (rule nth_equalityI)
  show "length xs = length ys" using assms by simp
  fix i assume i: "i < length xs"
  have "xor_bytes k xs ! i = xor_bytes k ys ! i" using assms(1) by simp
  then have "k ! i XOR xs ! i = k ! i XOR ys ! i"
    using i assms(2,3) by (simp add: nth_xor_bytes)
  then show "xs ! i = ys ! i" by (rule word_xor_left_inj)
qed

end
