(* ===== verification/Rustls_Iface.thy ===== *)
theory Rustls_Iface
  imports Prelude
begin

text \<open>
  The data types of the rustls interface that the sources construct or inspect: error values,
  the algorithm identifiers and the certified key. Each enumeration has the constructors the
  sources name and one constructor for every other code point. The functions of rustls, of
  rustls-rustcrypto and of the RustCrypto crates are never defined here; they are parameters
  of the definitions that call them.
\<close>

datatype certificate_error = BadEncoding | ApplicationVerificationFailure

datatype tls_error =
    EncryptError
  | DecryptError
  | General string
  | InvalidCertificate certificate_error
  | Tls12NotOffered
  | OtherTlsError string

datatype cipher_suite =
    TLS13_CHACHA20_POLY1305_SHA256
  | TLS13_AES_128_GCM_SHA256
  | OtherSuite u16

datatype named_group = X25519 | secp256r1 | OtherGroup u16

datatype signature_scheme =
    ED25519
  | ECDSA_NISTP256_SHA256
  | ECDSA_NISTP384_SHA384
  | RSA_PSS_SHA256
  | RSA_PSS_SHA384
  | RSA_PSS_SHA512
  | RSA_PKCS1_SHA256
  | RSA_PKCS1_SHA384
  | RSA_PKCS1_SHA512
  | OtherScheme u16

datatype signature_algorithm = SA_ED25519 | SA_ECDSA | SA_RSA | SA_Unknown u8

text \<open>
  Private key material: a PKCS#8 document, or one of the other encodings
  \<open>PrivateKeyDer\<close> distinguishes.
\<close>

datatype private_key_der = Pkcs8 (secret_der: bytes) | OtherKeyDer bytes

type_synonym certificate_der = bytes

text \<open>\<open>rustls::sign::CertifiedKey\<close>: a chain, leaf first, and the signer for the leaf's key.\<close>

record 'signer certified_key =
  ck_cert :: "certificate_der list"
  ck_key :: 'signer

end
