(* ===== verification/Packet.thy ===== *)
theory Packet
  imports Rustls_Iface
begin

text \<open>
  RFC 9001 packet protection and header protection
  (\<^verbatim>\<open>src/rust/quic/src/packet.rs\<close>): the two algorithms' key constructors and usage limits,
  the packet key with its RFC 9001 and multipath seal and open operations, the AES and ChaCha20
  header-protection masks, and the masking of the first byte and the packet number.

  The AEADs, the AES block function, the ChaCha20 keystream, rustls's nonce constructors and
  \<open>subtle\<close>'s conditional selection are parameters, grouped in records; the predicates
  \<open>aead_ok\<close>, \<open>nonces_ok\<close> and \<open>hp_prims_ok\<close> state what their documentation promises.
\<close>

unbundle bit_operations_syntax

section \<open>Usage limits\<close>

definition AES_128_GCM_CONFIDENTIALITY_LIMIT :: u64 where
  "AES_128_GCM_CONFIDENTIALITY_LIMIT = push_bit 23 1"

definition AES_128_GCM_INTEGRITY_LIMIT :: u64 where
  "AES_128_GCM_INTEGRITY_LIMIT = push_bit 52 1"

definition CHACHA20_POLY1305_CONFIDENTIALITY_LIMIT :: u64 where
  "CHACHA20_POLY1305_CONFIDENTIALITY_LIMIT = push_bit 62 1"

definition CHACHA20_POLY1305_INTEGRITY_LIMIT :: u64 where
  "CHACHA20_POLY1305_INTEGRITY_LIMIT = push_bit 36 1"

section \<open>Packet keys\<close>

text \<open>
  An AEAD of the \<open>aead\<close> crate over key type \<open>'c\<close>: \<open>new_from_slice\<close>, which fails on a wrong
  key length, and the in-place detached operations. Both operate on a mutable buffer, so they
  return the buffer afterwards, next to the tag or to whether the tag verified.
\<close>

record 'c aead_ops =
  new_from_slice :: "bytes \<Rightarrow> 'c option"
  encrypt_inout_detached :: "'c \<Rightarrow> bytes \<Rightarrow> bytes \<Rightarrow> bytes \<Rightarrow> bytes \<times> bytes option"
  decrypt_inout_detached :: "'c \<Rightarrow> bytes \<Rightarrow> bytes \<Rightarrow> bytes \<Rightarrow> bytes \<Rightarrow> bytes \<times> bool"

text \<open>rustls's \<open>Nonce::new\<close> and \<open>Nonce::for_path\<close>.\<close>

record nonce_ops =
  nonce_new :: "bytes \<Rightarrow> u64 \<Rightarrow> bytes"
  nonce_for_path :: "u32 \<Rightarrow> bytes \<Rightarrow> u64 \<Rightarrow> bytes"

record 'c packet_key =
  cipher :: 'c
  iv :: bytes
  confidentiality_limit :: u64
  integrity_limit :: u64

text \<open>
  The sealing and opening bodies are shared by the plain and the per-path methods of the
  source, which differ only in the nonce.
\<close>

definition seal_with :: "'c aead_ops \<Rightarrow> 'c packet_key \<Rightarrow> bytes \<Rightarrow> bytes \<Rightarrow> bytes
    \<Rightarrow> (bytes, tls_error) result \<times> bytes" where
  "seal_with A k nonce header payload =
     (case encrypt_inout_detached A (cipher k) nonce header payload of
        (payload', None) \<Rightarrow> (Err EncryptError, payload')
      | (payload', Some tag) \<Rightarrow> (Ok tag, payload'))"

definition open_with :: "'c aead_ops \<Rightarrow> 'c packet_key \<Rightarrow> bytes \<Rightarrow> bytes \<Rightarrow> bytes
    \<Rightarrow> (bytes, tls_error) result \<times> bytes" where
  "open_with A k nonce header payload =
     (if length payload < 16 then (Err DecryptError, payload)
      else
        let plain_len = length payload - 16;
            tag = drop plain_len payload
        in case decrypt_inout_detached A (cipher k) nonce header (take plain_len payload) tag of
             (buf, False) \<Rightarrow> (Err DecryptError, buf @ tag)
           | (buf, True) \<Rightarrow> (Ok (take plain_len (buf @ tag)), buf @ tag))"

definition encrypt_in_place :: "'c aead_ops \<Rightarrow> nonce_ops \<Rightarrow> 'c packet_key \<Rightarrow> u64 \<Rightarrow> bytes \<Rightarrow> bytes
    \<Rightarrow> (bytes, tls_error) result \<times> bytes" where
  "encrypt_in_place A N k packet_number header payload =
     seal_with A k (nonce_new N (iv k) packet_number) header payload"

definition decrypt_in_place :: "'c aead_ops \<Rightarrow> nonce_ops \<Rightarrow> 'c packet_key \<Rightarrow> u64 \<Rightarrow> bytes \<Rightarrow> bytes
    \<Rightarrow> (bytes, tls_error) result \<times> bytes" where
  "decrypt_in_place A N k packet_number header payload =
     open_with A k (nonce_new N (iv k) packet_number) header payload"

definition encrypt_in_place_for_path :: "'c aead_ops \<Rightarrow> nonce_ops \<Rightarrow> 'c packet_key \<Rightarrow> u32 \<Rightarrow> u64
    \<Rightarrow> bytes \<Rightarrow> bytes \<Rightarrow> (bytes, tls_error) result \<times> bytes" where
  "encrypt_in_place_for_path A N k path_id packet_number header payload =
     seal_with A k (nonce_for_path N path_id (iv k) packet_number) header payload"

definition decrypt_in_place_for_path :: "'c aead_ops \<Rightarrow> nonce_ops \<Rightarrow> 'c packet_key \<Rightarrow> u32 \<Rightarrow> u64
    \<Rightarrow> bytes \<Rightarrow> bytes \<Rightarrow> (bytes, tls_error) result \<times> bytes" where
  "decrypt_in_place_for_path A N k path_id packet_number header payload =
     open_with A k (nonce_for_path N path_id (iv k) packet_number) header payload"

definition tag_len :: "'c packet_key \<Rightarrow> nat" where
  "tag_len k = 16"

section \<open>The two algorithms\<close>

definition aes_packet_key :: "'c aead_ops \<Rightarrow> bytes \<Rightarrow> bytes \<Rightarrow> 'c packet_key or_panic" where
  "aes_packet_key A key iv0 =
     (case new_from_slice A key of
        None \<Rightarrow> Panic ''invalid key length''
      | Some c \<Rightarrow> Ok \<lparr>cipher = c, iv = iv0,
          confidentiality_limit = AES_128_GCM_CONFIDENTIALITY_LIMIT,
          integrity_limit = AES_128_GCM_INTEGRITY_LIMIT\<rparr>)"

definition chacha_packet_key :: "'c aead_ops \<Rightarrow> bytes \<Rightarrow> bytes \<Rightarrow> 'c packet_key or_panic" where
  "chacha_packet_key A key iv0 =
     (case new_from_slice A key of
        None \<Rightarrow> Panic ''invalid key length''
      | Some c \<Rightarrow> Ok \<lparr>cipher = c, iv = iv0,
          confidentiality_limit = CHACHA20_POLY1305_CONFIDENTIALITY_LIMIT,
          integrity_limit = CHACHA20_POLY1305_INTEGRITY_LIMIT\<rparr>)"

definition aes_aead_key_len :: nat where "aes_aead_key_len = 16"

definition chacha_aead_key_len :: nat where "chacha_aead_key_len = 32"

section \<open>Header protection\<close>

text \<open>
  The primitives header protection calls: \<open>subtle\<close>'s \<open>u8::conditional_select\<close> (its third
  argument is the byte a \<open>Choice\<close> is made from), AES-128 key expansion and block encryption,
  and the byte of the ChaCha20 keystream for a key and nonce at a byte position.
\<close>

record 'a hp_prims =
  conditional_select :: "u8 \<Rightarrow> u8 \<Rightarrow> u8 \<Rightarrow> u8"
  aes128_new :: "bytes \<Rightarrow> 'a option"
  encrypt_block :: "'a \<Rightarrow> bytes \<Rightarrow> bytes"
  chacha20_keystream :: "bytes \<Rightarrow> bytes \<Rightarrow> u64 \<Rightarrow> u8"

definition aes_header_protection_key :: "'a hp_prims \<Rightarrow> bytes \<Rightarrow> 'a or_panic" where
  "aes_header_protection_key P key =
     (case aes128_new P key of None \<Rightarrow> Panic ''invalid key length'' | Some k \<Rightarrow> Ok k)"

definition chacha_header_protection_key :: "bytes \<Rightarrow> bytes or_panic" where
  "chacha_header_protection_key key =
     (if length key = 32 then Ok key else Panic ''invalid key length'')"

definition sample_len :: nat where "sample_len = 16"

definition aes_mask :: "'a hp_prims \<Rightarrow> 'a \<Rightarrow> bytes \<Rightarrow> (bytes, tls_error) result" where
  "aes_mask P k sample =
     (if length sample = 16 then Ok (take 5 (encrypt_block P k sample))
      else Err (General ''sample of invalid length''))"

text \<open>
  \<open>seek\<close> positions the keystream at byte \<open>counter * 64\<close>, a 64-bit product; \<open>apply_keystream\<close>
  exclusive-ors the next bytes into the zeroed mask.
\<close>

definition chacha_seek :: "bytes \<Rightarrow> u64" where
  "chacha_seek sample = ucast (from_le_bytes (take 4 sample) :: u32) * 64"

definition chacha_mask :: "'a hp_prims \<Rightarrow> bytes \<Rightarrow> bytes \<Rightarrow> (bytes, tls_error) result" where
  "chacha_mask P key sample =
     (if length sample = 16 then
        let nonce = drop 4 sample;
            pos = chacha_seek sample
        in Ok (map (\<lambda>i. 0 XOR chacha20_keystream P key nonce (pos + word_of_nat i)) [0..<5])
      else Err (General ''sample of invalid length''))"

text \<open>
  The packet-number loop of \<open>xor_in_place\<close>: every byte of the slice is visited, and the mask
  byte is selected arithmetically by whether the index is below \<open>pn_len\<close>.
\<close>

fun xor_pn_loop :: "'a hp_prims \<Rightarrow> nat \<Rightarrow> nat \<Rightarrow> bytes \<Rightarrow> bytes \<Rightarrow> bytes" where
  "xor_pn_loop P pn_len index (dst # dsts) (m # ms) =
     (let in_pn = (if index < pn_len then 1 else 0)
      in (dst XOR conditional_select P 0 m in_pn) # xor_pn_loop P pn_len (Suc index) dsts ms)"
| "xor_pn_loop P pn_len index dsts ms = dsts"

definition header_bits :: "u8 \<Rightarrow> u8" where
  "header_bits first = (if first AND 0x80 = 0x80 then 0x0f else 0x1f)"

definition pn_length :: "u8 \<Rightarrow> nat" where
  "pn_length first_plain = unat (first_plain AND 0x03) + 1"

definition xor_in_place :: "'a hp_prims \<Rightarrow> bytes \<Rightarrow> u8 \<Rightarrow> bytes \<Rightarrow> bool
    \<Rightarrow> (unit, tls_error) result \<times> u8 \<times> bytes" where
  "xor_in_place P msk first packet_number masked =
     (let first_mask = hd msk; pn_mask = tl msk
      in if length packet_number > length pn_mask
         then (Err (General ''packet number too long''), first, packet_number)
         else
           let bits = header_bits first;
               first_plain = (if masked then first XOR (first_mask AND bits) else first);
               pn_len = pn_length first_plain
           in (Ok (), first XOR (first_mask AND bits),
               xor_pn_loop P pn_len 0 packet_number pn_mask))"

definition aes_hp_encrypt_in_place :: "'a hp_prims \<Rightarrow> 'a \<Rightarrow> bytes \<Rightarrow> u8 \<Rightarrow> bytes
    \<Rightarrow> (unit, tls_error) result \<times> u8 \<times> bytes" where
  "aes_hp_encrypt_in_place P k sample first packet_number =
     (case aes_mask P k sample of
        Err e \<Rightarrow> (Err e, first, packet_number)
      | Ok m \<Rightarrow> xor_in_place P m first packet_number False)"

definition aes_hp_decrypt_in_place :: "'a hp_prims \<Rightarrow> 'a \<Rightarrow> bytes \<Rightarrow> u8 \<Rightarrow> bytes
    \<Rightarrow> (unit, tls_error) result \<times> u8 \<times> bytes" where
  "aes_hp_decrypt_in_place P k sample first packet_number =
     (case aes_mask P k sample of
        Err e \<Rightarrow> (Err e, first, packet_number)
      | Ok m \<Rightarrow> xor_in_place P m first packet_number True)"

definition chacha_hp_encrypt_in_place :: "'a hp_prims \<Rightarrow> bytes \<Rightarrow> bytes \<Rightarrow> u8 \<Rightarrow> bytes
    \<Rightarrow> (unit, tls_error) result \<times> u8 \<times> bytes" where
  "chacha_hp_encrypt_in_place P k sample first packet_number =
     (case chacha_mask P k sample of
        Err e \<Rightarrow> (Err e, first, packet_number)
      | Ok m \<Rightarrow> xor_in_place P m first packet_number False)"

definition chacha_hp_decrypt_in_place :: "'a hp_prims \<Rightarrow> bytes \<Rightarrow> bytes \<Rightarrow> u8 \<Rightarrow> bytes
    \<Rightarrow> (unit, tls_error) result \<times> u8 \<times> bytes" where
  "chacha_hp_decrypt_in_place P k sample first packet_number =
     (case chacha_mask P k sample of
        Err e \<Rightarrow> (Err e, first, packet_number)
      | Ok m \<Rightarrow> xor_in_place P m first packet_number True)"

section \<open>What the primitives promise\<close>

text \<open>
  The AEAD contract: buffers keep their length, tags have 16 bytes, and decrypting a sealed
  buffer under the same key, nonce and associated data restores it.
\<close>

definition aead_ok :: "'c aead_ops \<Rightarrow> bool" where
  "aead_ok A \<longleftrightarrow> (\<forall>c n a p q t. encrypt_inout_detached A c n a p = (q, Some t) \<longrightarrow>
     length q = length p \<and> length t = 16 \<and> decrypt_inout_detached A c n a q t = (p, True))"

text \<open>
  rustls documents the nonce as the IV exclusive-or the packet number, left-padded to 96 bits,
  and the multipath nonce as the IV exclusive-or the concatenation of path id and packet number.
\<close>

definition nonces_ok :: "nonce_ops \<Rightarrow> bool" where
  "nonces_ok N \<longleftrightarrow>
     (\<forall>i pn. nonce_new N i pn = xor_bytes i (replicate 4 0 @ be_bytes 8 pn)) \<and>
     (\<forall>p i pn. nonce_for_path N p i pn = xor_bytes i (be_bytes 4 p @ be_bytes 8 pn))"

definition hp_prims_ok :: "'a hp_prims \<Rightarrow> bool" where
  "hp_prims_ok P \<longleftrightarrow>
     (\<forall>a b. conditional_select P a b 0 = a) \<and> (\<forall>a b. conditional_select P a b 1 = b) \<and>
     (\<forall>k b. length b = 16 \<longrightarrow> length (encrypt_block P k b) = 16)"

section \<open>Header protection: the masking step\<close>

lemma xor_pn_loop_eq:
  assumes "hp_prims_ok P" and "length dsts \<le> length ms"
  shows "xor_pn_loop P n i dsts ms =
    xor_bytes (take (n - i) dsts) (take (n - i) ms) @ drop (n - i) dsts"
  using assms(2)
proof (induction dsts arbitrary: ms i)
  case Nil
  then show ?case by (simp add: xor_bytes_def)
next
  case (Cons d ds)
  then obtain m ms' where ms: "ms = m # ms'" by (cases ms) auto
  with Cons.prems have "length ds \<le> length ms'" by simp
  note IH = Cons.IH [OF this, of "Suc i"]
  show ?case
  proof (cases "i < n")
    case True
    then obtain r where "n - i = Suc r" and "n - Suc i = r"
      by (metis Suc_diff_Suc)
    with IH ms True assms(1) show ?thesis
      by (simp add: hp_prims_ok_def xor_bytes_def)
  next
    case False
    with IH ms assms(1) show ?thesis
      by (simp add: hp_prims_ok_def xor_bytes_def)
  qed
qed

lemma length_xor_pn_loop [simp]: "length (xor_pn_loop P n i ds ms) = length ds"
  by (induction P n i ds ms rule: xor_pn_loop.induct) (simp_all add: Let_def)

lemma header_bits_masks_form_bit: "(m AND header_bits f) AND 0x80 = 0"
  by (simp add: header_bits_def and.assoc)

lemma form_bit_kept: "(f XOR (m AND header_bits f)) AND 0x80 = f AND 0x80"
  by (simp add: bit.conj_xor_distrib2 header_bits_masks_form_bit)

lemma header_bits_masked [simp]: "header_bits (f XOR (m AND header_bits f)) = header_bits f"
  using form_bit_kept [of f m] by (simp add: header_bits_def)

lemma pn_length_bounds: "1 \<le> pn_length f" "pn_length f \<le> 4"
proof -
  have "f AND 3 \<le> 3" by (rule word_and_le1)
  then have "unat (f AND 3) \<le> unat (3::u8)" by (simp add: word_le_nat_alt)
  then show "1 \<le> pn_length f" "pn_length f \<le> 4" by (simp_all add: pn_length_def)
qed

lemma xor_in_place_Ok:
  assumes "length msk = 5" and "length pn \<le> 4"
  shows "xor_in_place P msk f pn masked =
    (let g = f XOR (hd msk AND header_bits f) in
       (Ok (), g, xor_pn_loop P (pn_length (if masked then g else f)) 0 pn (tl msk)))"
  using assms by (simp add: xor_in_place_def Let_def)

lemma xor_in_place_too_long:
  assumes "length msk = 5" and "4 < length pn"
  shows "xor_in_place P msk f pn masked = (Err (General ''packet number too long''), f, pn)"
  using assms by (simp add: xor_in_place_def)

text \<open>
  Unmasking a full region after masking exactly the packet number restores both and leaves the
  bytes behind the packet number alone.
\<close>

lemma xor_in_place_roundtrip:
  assumes P: "hp_prims_ok P" and m: "length msk = 5"
    and pn: "length pn = pn_length f" and rest: "length pn + length rest \<le> 4"
    and enc: "xor_in_place P msk f pn False = (r, g, pn')"
  shows "xor_in_place P msk g (pn' @ rest) True = (Ok (), f, pn @ rest)"
proof -
  let ?n = "pn_length f"
  have "length pn \<le> length (tl msk)" using m rest by simp
  then have g: "g = f XOR (hd msk AND header_bits f)"
    and pn': "pn' = xor_bytes pn (take ?n (tl msk))"
    using enc m rest pn by (simp_all add: xor_in_place_Ok Let_def xor_pn_loop_eq [OF P])
  have gf: "g XOR (hd msk AND header_bits g) = f" by (simp add: g)
  have len: "length pn' = ?n" using pn pn' m pn_length_bounds [of f] by simp
  have undo: "xor_bytes pn' (take ?n (tl msk)) = pn"
    using pn pn' m pn_length_bounds [of f] by (auto intro: nth_equalityI simp: nth_xor_bytes)
  have "xor_pn_loop P ?n 0 (pn' @ rest) (tl msk) = pn @ rest"
    using len rest pn m undo by (simp add: xor_pn_loop_eq [OF P])
  with gf len pn rest m show ?thesis by (simp add: xor_in_place_Ok Let_def)
qed

text \<open>
  The interface of a header-protection key, as the QUIC stack uses it: a mask that exists
  exactly for 16-byte samples and has 5 bytes, and the two in-place operations that apply it.
\<close>

locale header_protection =
  fixes msk :: "'a hp_prims \<Rightarrow> 'k \<Rightarrow> bytes \<Rightarrow> (bytes, tls_error) result"
    and protect :: "'a hp_prims \<Rightarrow> 'k \<Rightarrow> bytes \<Rightarrow> u8 \<Rightarrow> bytes \<Rightarrow> (unit, tls_error) result \<times> u8 \<times> bytes"
    and unprotect :: "'a hp_prims \<Rightarrow> 'k \<Rightarrow> bytes \<Rightarrow> u8 \<Rightarrow> bytes \<Rightarrow> (unit, tls_error) result \<times> u8 \<times> bytes"
  assumes msk_len: "hp_prims_ok P \<Longrightarrow> msk P k s = Ok m \<Longrightarrow> length m = 5"
    and msk_Ok: "length s = 16 \<Longrightarrow> \<exists>m. msk P k s = Ok m"
    and msk_Err: "length s \<noteq> 16 \<Longrightarrow> msk P k s = Err (General ''sample of invalid length'')"
    and protect_eq: "protect P k s f pn =
      (case msk P k s of Err e \<Rightarrow> (Err e, f, pn) | Ok m \<Rightarrow> xor_in_place P m f pn False)"
    and unprotect_eq: "unprotect P k s f pn =
      (case msk P k s of Err e \<Rightarrow> (Err e, f, pn) | Ok m \<Rightarrow> xor_in_place P m f pn True)"
begin

lemma protect_roundtrip:
  assumes P: "hp_prims_ok P" and s: "length s = 16"
    and pn: "length pn = pn_length f" and rest: "length pn + length rest \<le> 4"
  shows "\<exists>g pn'. protect P k s f pn = (Ok (), g, pn') \<and> length pn' = length pn \<and>
    unprotect P k s g (pn' @ rest) = (Ok (), f, pn @ rest)"
proof -
  obtain m where m: "msk P k s = Ok m" using msk_Ok [OF s] by blast
  have len: "length m = 5" by (rule msk_len [OF P m])
  obtain g pn' where e: "xor_in_place P m f pn False = (Ok (), g, pn')" "length pn' = length pn"
    using rest len by (simp add: xor_in_place_Ok Let_def)
  have "xor_in_place P m g (pn' @ rest) True = (Ok (), f, pn @ rest)"
    by (rule xor_in_place_roundtrip [OF P len pn rest e(1)])
  with e m show ?thesis by (simp add: protect_eq unprotect_eq)
qed

lemma protect_rejects:
  assumes "hp_prims_ok P" and "length s \<noteq> 16 \<or> 4 < length pn"
  shows "\<exists>e. protect P k s f pn = (Err e, f, pn) \<and> unprotect P k s f pn = (Err e, f, pn)"
proof (cases "length s = 16")
  case True
  then obtain m where m: "msk P k s = Ok m" using msk_Ok by blast
  with assms True msk_len show ?thesis
    by (simp add: protect_eq unprotect_eq xor_in_place_too_long)
next
  case False
  then show ?thesis by (simp add: protect_eq unprotect_eq msk_Err)
qed

end

interpretation hp_aes: header_protection aes_mask aes_hp_encrypt_in_place aes_hp_decrypt_in_place
  by unfold_locales
    (auto simp: aes_mask_def hp_prims_ok_def aes_hp_encrypt_in_place_def
      aes_hp_decrypt_in_place_def split: if_splits)

interpretation hp_chacha: header_protection chacha_mask chacha_hp_encrypt_in_place
    chacha_hp_decrypt_in_place
  by unfold_locales
    (auto simp: chacha_mask_def chacha_hp_encrypt_in_place_def chacha_hp_decrypt_in_place_def
      split: if_splits)

section \<open>Packet protection: sealing and opening\<close>

lemma seal_with_Ok:
  "seal_with A k n h p = (Ok t, q) \<longleftrightarrow> encrypt_inout_detached A (cipher k) n h p = (q, Some t)"
  by (auto simp: seal_with_def split: prod.splits option.splits)

lemma open_with_seal:
  assumes A: "aead_ok A" and s: "seal_with A k n h p = (Ok t, q)"
  shows "open_with A k n h (q @ t) = (Ok p, p @ t)"
proof -
  have "length q = length p \<and> length t = 16 \<and>
      decrypt_inout_detached A (cipher k) n h q t = (p, True)"
    using A s by (simp add: aead_ok_def seal_with_Ok)
  then show ?thesis by (simp add: open_with_def Let_def)
qed

lemma open_with_short: "length c < 16 \<Longrightarrow> open_with A k n h c = (Err DecryptError, c)"
  by (simp add: open_with_def)

lemma open_with_Ok:
  assumes "open_with A k n h c = (Ok p, buf)"
  shows "\<exists>ct tag out. c = ct @ tag \<and> length tag = 16 \<and>
    decrypt_inout_detached A (cipher k) n h ct tag = (out, True) \<and>
    p = take (length ct) (out @ tag) \<and> buf = out @ tag"
proof -
  let ?l = "length c - 16"
  have len: "16 \<le> length c" using assms by (auto simp: open_with_def split: if_splits)
  obtain out b where d:
    "decrypt_inout_detached A (cipher k) n h (take ?l c) (drop ?l c) = (out, b)"
    by (cases "decrypt_inout_detached A (cipher k) n h (take ?l c) (drop ?l c)")
  with assms len have "b" "p = take ?l (out @ drop ?l c)" "buf = out @ drop ?l c"
    by (auto simp: open_with_def Let_def split: bool.splits)
  with d len show ?thesis
    by (intro exI [of _ "take ?l c"] exI [of _ "drop ?l c"] exI [of _ out]) simp
qed

text \<open>
  The bytes a sealed packet has on the wire: the encrypted payload followed by the tag.
\<close>

definition wire :: "(bytes, 'e) result \<times> bytes \<Rightarrow> bytes option" where
  "wire r = (case r of (Ok t, q) \<Rightarrow> Some (q @ t) | (Err _, _) \<Rightarrow> None)"

definition opened :: "(bytes, 'e) result \<times> bytes \<Rightarrow> bytes option" where
  "opened r = (case fst r of Ok p \<Rightarrow> Some p | Err _ \<Rightarrow> None)"

lemma wire_eq_Some: "wire r = Some w \<longleftrightarrow> (\<exists>t q. r = (Ok t, q) \<and> w = q @ t)"
  by (auto simp: wire_def split: prod.splits sum.splits)

text \<open>
  The contract between a sealer and an opener that share a key: what is sealed under an
  identifier (a packet number, a path and packet number, a token nonce) and a header opens
  under the same identifier and header, and anything shorter than a tag is refused. The laws
  are relative to a promise \<open>ok\<close> about the primitives of the environment.
\<close>

locale seal_open =
  fixes ok :: "'env \<Rightarrow> bool"
    and seal :: "'env \<Rightarrow> 'k \<Rightarrow> 'id \<Rightarrow> bytes \<Rightarrow> bytes \<Rightarrow> bytes option"
    and unseal :: "'env \<Rightarrow> 'k \<Rightarrow> 'id \<Rightarrow> bytes \<Rightarrow> bytes \<Rightarrow> bytes option"
  assumes unseal_seal: "ok E \<Longrightarrow> seal E k i h p = Some w \<Longrightarrow> unseal E k i h w = Some p"
    and seal_length: "ok E \<Longrightarrow> seal E k i h p = Some w \<Longrightarrow> length w = length p + 16"
    and unseal_short: "length w < 16 \<Longrightarrow> unseal E k i h w = None"
begin

lemma seal_injective:
  assumes "ok E" and "seal E k i h p = Some w" and "seal E k i h p' = Some w"
  shows "p = p'"
  using unseal_seal [OF assms(1,2)] unseal_seal [OF assms(1,3)] by simp

lemma unseal_session:
  assumes "ok E"
    and "list_all2 (\<lambda>(i, h, p) w. seal E k i h p = Some w) msgs ws"
  shows "map2 (\<lambda>(i, h, _) w. unseal E k i h w) msgs ws = map (\<lambda>(_, _, p). Some p) msgs"
  using assms(2) by (induction rule: list_all2_induct) (auto intro: unseal_seal [OF assms(1)])

end

interpretation plain: seal_open "\<lambda>E. aead_ok (fst E)"
  "\<lambda>E k pn h p. wire (encrypt_in_place (fst E) (snd E) k pn h p)"
  "\<lambda>E k pn h w. opened (decrypt_in_place (fst E) (snd E) k pn h w)"
proof (unfold_locales, goal_cases)
  case (1 E k i h p w)
  then show ?case
    by (auto simp: wire_eq_Some encrypt_in_place_def decrypt_in_place_def open_with_seal opened_def)
next
  case (2 E k i h p w)
  then show ?case
    by (auto simp: wire_eq_Some encrypt_in_place_def seal_with_Ok aead_ok_def)
next
  case (3 w E k i h)
  then show ?case by (simp add: decrypt_in_place_def open_with_short opened_def)
qed

interpretation path: seal_open "\<lambda>E. aead_ok (fst E)"
  "\<lambda>E k i h p. wire (encrypt_in_place_for_path (fst E) (snd E) k (fst i) (snd i) h p)"
  "\<lambda>E k i h w. opened (decrypt_in_place_for_path (fst E) (snd E) k (fst i) (snd i) h w)"
proof (unfold_locales, goal_cases)
  case (1 E k i h p w)
  then show ?case
    by (auto simp: wire_eq_Some encrypt_in_place_for_path_def decrypt_in_place_for_path_def
        open_with_seal opened_def)
next
  case (2 E k i h p w)
  then show ?case
    by (auto simp: wire_eq_Some encrypt_in_place_for_path_def seal_with_Ok aead_ok_def)
next
  case (3 w E k i h)
  then show ?case by (simp add: decrypt_in_place_for_path_def open_with_short opened_def)
qed

lemma path_zero_nonce:
  "nonces_ok N \<Longrightarrow> nonce_for_path N 0 i pn = nonce_new N i pn"
  by (simp add: nonces_ok_def)

lemma path_nonce_inj:
  assumes N: "nonces_ok N" and i: "length i = 12"
    and eq: "nonce_for_path N p i pn = nonce_for_path N p' i pn'"
  shows "p = p' \<and> pn = pn'"
proof -
  let ?x = "be_bytes 4 p @ be_bytes 8 pn" and ?y = "be_bytes 4 p' @ be_bytes 8 pn'"
  have "xor_bytes i ?x = xor_bytes i ?y"
    using N eq unfolding nonces_ok_def by metis
  then have xy: "?x = ?y" by (rule xor_bytes_left_inj) (simp_all add: i)
  then have "be_bytes 4 p = be_bytes 4 p'" by simp
  then have p: "p = p'" by (rule be_bytes_inj) simp
  from xy have "be_bytes 8 pn = be_bytes 8 pn'" by simp
  then have "pn = pn'" by (rule be_bytes_inj) simp
  with p show ?thesis by simp
qed

section \<open>Concrete primitives\<close>

text \<open>
  Instances of the parameters that satisfy the promises: a one-byte stream cipher whose tag
  repeats the key, the documented nonces, and selection by branch with an identity block
  function and a counting keystream. The witnesses below evaluate on them.
\<close>

definition demo_aead :: "u8 aead_ops" where
  "demo_aead = \<lparr>new_from_slice = (\<lambda>key. case key of [] \<Rightarrow> None | b # _ \<Rightarrow> Some b),
     encrypt_inout_detached = (\<lambda>k n a p. (map (\<lambda>b. b XOR k) p, Some (replicate 16 k))),
     decrypt_inout_detached = (\<lambda>k n a c t. (map (\<lambda>b. b XOR k) c, t = replicate 16 k))\<rparr>"

definition demo_nonces :: nonce_ops where
  "demo_nonces = \<lparr>nonce_new = (\<lambda>i pn. xor_bytes i (replicate 4 0 @ be_bytes 8 pn)),
     nonce_for_path = (\<lambda>p i pn. xor_bytes i (be_bytes 4 p @ be_bytes 8 pn))\<rparr>"

definition demo_prims :: "unit hp_prims" where
  "demo_prims = \<lparr>conditional_select = (\<lambda>a b c. if c = 1 then b else a),
     aes128_new = (\<lambda>key. if length key = 16 then Some () else None),
     encrypt_block = (\<lambda>_ b. b),
     chacha20_keystream = (\<lambda>key nonce pos. ucast pos + 7)\<rparr>"

definition demo_key :: "u8 packet_key" where
  "demo_key = \<lparr>cipher = 5, iv = replicate 12 9, confidentiality_limit = 8, integrity_limit = 9\<rparr>"

definition demo_sample :: bytes where
  "demo_sample = [67, 123, 154, 236, 54, 6, 7, 8, 9, 10, 11, 12, 13, 14, 15, 16]"

lemma demo_aead_ok: "aead_ok demo_aead"
  by (auto simp: aead_ok_def demo_aead_def comp_def)

lemma demo_nonces_ok: "nonces_ok demo_nonces"
  by (simp add: nonces_ok_def demo_nonces_def)

lemma demo_prims_ok: "hp_prims_ok demo_prims"
  by (simp add: hp_prims_ok_def demo_prims_def)

section \<open>Properties\<close>

text \<open>
  C1. AES header protection round trip: for every key, 16-byte sample, first byte and packet
  number of the length the first byte announces, protecting succeeds, and unprotecting the
  result together with any bytes that follow within the four-byte region restores the first
  byte and the packet number and leaves the following bytes unchanged.
\<close>

theorem aes_header_protection_roundtrip:
  assumes "hp_prims_ok P" and "length sample = 16"
    and "length pn = pn_length first" and "length pn + length rest \<le> 4"
  shows "\<exists>first' pn'. aes_hp_encrypt_in_place P k sample first pn = (Ok (), first', pn') \<and>
    length pn' = length pn \<and>
    aes_hp_decrypt_in_place P k sample first' (pn' @ rest) = (Ok (), first, pn @ rest)"
  by (rule hp_aes.protect_roundtrip [OF assms])

theorem aes_header_protection_roundtrip_witness:
  "\<exists>first' pn'. aes_hp_encrypt_in_place demo_prims () demo_sample 0x41 [0, 1] = (Ok (), first', pn') \<and>
    length pn' = length [0, 1 :: u8] \<and>
    aes_hp_decrypt_in_place demo_prims () demo_sample first' (pn' @ [0xaa, 0xbb]) =
      (Ok (), 0x41, [0, 1] @ [0xaa, 0xbb])"
  by (rule aes_header_protection_roundtrip)
    (simp_all add: demo_prims_ok demo_sample_def pn_length_def)

text \<open>The same round trip for ChaCha20 header protection.\<close>

theorem chacha_header_protection_roundtrip:
  assumes "hp_prims_ok P" and "length sample = 16"
    and "length pn = pn_length first" and "length pn + length rest \<le> 4"
  shows "\<exists>first' pn'. chacha_hp_encrypt_in_place P k sample first pn = (Ok (), first', pn') \<and>
    length pn' = length pn \<and>
    chacha_hp_decrypt_in_place P k sample first' (pn' @ rest) = (Ok (), first, pn @ rest)"
  by (rule hp_chacha.protect_roundtrip [OF assms])

theorem chacha_header_protection_roundtrip_witness:
  "\<exists>first' pn'. chacha_hp_encrypt_in_place demo_prims [] demo_sample 0xc0 [9] = (Ok (), first', pn') \<and>
    length pn' = length [9 :: u8] \<and>
    chacha_hp_decrypt_in_place demo_prims [] demo_sample first' (pn' @ [1, 2, 3]) =
      (Ok (), 0xc0, [9] @ [1, 2, 3])"
  by (rule chacha_header_protection_roundtrip)
    (simp_all add: demo_prims_ok demo_sample_def pn_length_def)

text \<open>
  C13. The uniform masking loop is the masking of exactly the packet number: for any region of at
  most four bytes, \<open>xor_in_place\<close> exclusive-ors the first \<open>pn_len\<close> bytes with the mask and
  returns every later byte as it was, and of the first byte it changes only the bits header
  protection covers, the low four of a long header and the low five of a short one.
\<close>

theorem xor_in_place_masks_packet_number_only:
  assumes "hp_prims_ok P" and "length msk = 5" and "length region \<le> 4"
    and "xor_in_place P msk first region masked = (r, first', region')"
  shows "r = Ok () \<and> first' AND NOT (header_bits first) = first AND NOT (header_bits first) \<and>
    (let n = pn_length (if masked then first' else first) in
       region' = xor_bytes (take n region) (take n (tl msk)) @ drop n region)"
proof -
  have f: "first' = first XOR (hd msk AND header_bits first)" and "r = Ok ()"
    and "region' = xor_pn_loop P (pn_length (if masked then first' else first)) 0 region (tl msk)"
    using assms(2-4) by (auto simp: xor_in_place_Ok Let_def)
  moreover have "first' AND NOT (header_bits first) = first AND NOT (header_bits first)"
    by (simp add: f bit.conj_xor_distrib2 and.assoc)
  ultimately show ?thesis using assms(2,3) by (simp add: xor_pn_loop_eq [OF assms(1)] Let_def)
qed

theorem xor_in_place_masks_packet_number_only_witness:
  "(Ok () :: (unit, tls_error) result) = Ok () \<and> (0x42::u8) AND NOT (header_bits 0x41) = 0x41 AND NOT (header_bits 0x41) \<and>
    (let n = pn_length (if False then 0x42 else 0x41) in
       [10, 21, 30, 40] = xor_bytes (take n [0, 0, 30, 40]) (take n (tl [3, 10, 21, 32, 43])) @
         drop n [0, 0, 30, 40::u8])"
  by (rule xor_in_place_masks_packet_number_only [where P = demo_prims and masked = False])
    (rule demo_prims_ok, simp_all add: xor_in_place_def header_bits_def pn_length_def demo_prims_def)

text \<open>
  Header protection fails closed: a sample that is not 16 bytes long, or a packet-number
  region longer than four bytes, is an error in both directions of both algorithms, and the
  header is left as it was.
\<close>

theorem header_protection_rejects:
  assumes "hp_prims_ok P" and "length sample \<noteq> 16 \<or> 4 < length pn"
  shows "(\<exists>e. aes_hp_encrypt_in_place P ak sample first pn = (Err e, first, pn) \<and>
              aes_hp_decrypt_in_place P ak sample first pn = (Err e, first, pn)) \<and>
         (\<exists>e. chacha_hp_encrypt_in_place P ck sample first pn = (Err e, first, pn) \<and>
              chacha_hp_decrypt_in_place P ck sample first pn = (Err e, first, pn))"
  using hp_aes.protect_rejects [OF assms] hp_chacha.protect_rejects [OF assms] by blast

theorem header_protection_rejects_witness:
  "(\<exists>e. aes_hp_encrypt_in_place demo_prims () demo_sample 1 [1, 2, 3, 4, 5] = (Err e, 1, [1, 2, 3, 4, 5]) \<and>
        aes_hp_decrypt_in_place demo_prims () demo_sample 1 [1, 2, 3, 4, 5] = (Err e, 1, [1, 2, 3, 4, 5])) \<and>
   (\<exists>e. chacha_hp_encrypt_in_place demo_prims [] demo_sample 1 [1, 2, 3, 4, 5] = (Err e, 1, [1, 2, 3, 4, 5]) \<and>
        chacha_hp_decrypt_in_place demo_prims [] demo_sample 1 [1, 2, 3, 4, 5] = (Err e, 1, [1, 2, 3, 4, 5]))"
  by (rule header_protection_rejects) (simp_all add: demo_prims_ok)

text \<open>
  C5. Packet protection round trip over a session: every packet sealed under its path and
  packet number opens under them to its payload, whatever the sequence of packets.
\<close>

theorem packet_protection_session:
  assumes "aead_ok A"
    and "list_all2 (\<lambda>(i, h, p) w.
      wire (encrypt_in_place_for_path A N k (fst i) (snd i) h p) = Some w) msgs ws"
  shows "map2 (\<lambda>(i, h, _) w. opened (decrypt_in_place_for_path A N k (fst i) (snd i) h w)) msgs ws =
    map (\<lambda>(_, _, p). Some p) msgs"
  using path.unseal_session [of "(A, N)"] assms by simp

theorem packet_protection_session_witness:
  "map2 (\<lambda>(i, h, _) w. opened (decrypt_in_place_for_path demo_aead demo_nonces demo_key (fst i) (snd i) h w))
     [((0, 7), [1], [1, 2]), ((2, 7), [], [3::u8])]
     [[4, 7] @ replicate 16 5, 6 # replicate 16 5] =
   map (\<lambda>(_, _, p). Some p) [((0::u32, 7::u64), [1::u8], [1, 2]), ((2, 7), [], [3::u8])]"
  by (rule packet_protection_session [OF demo_aead_ok])
    (simp add: encrypt_in_place_for_path_def seal_with_def demo_aead_def demo_key_def wire_def)

text \<open>
  Path 0 is the RFC 9001 case: with the documented nonces, sealing and opening on path 0
  are sealing and opening without a path.
\<close>

theorem path_zero_is_rfc9001:
  assumes "nonces_ok N"
  shows "encrypt_in_place_for_path A N k 0 pn header payload = encrypt_in_place A N k pn header payload \<and>
    decrypt_in_place_for_path A N k 0 pn header payload = decrypt_in_place A N k pn header payload"
  by (simp_all add: path_zero_nonce [OF assms] encrypt_in_place_for_path_def encrypt_in_place_def
      decrypt_in_place_for_path_def decrypt_in_place_def)

theorem path_zero_is_rfc9001_witness:
  "encrypt_in_place_for_path demo_aead demo_nonces demo_key 0 7 [1] [2] =
     encrypt_in_place demo_aead demo_nonces demo_key 7 [1] [2] \<and>
   decrypt_in_place_for_path demo_aead demo_nonces demo_key 0 7 [1] [2] =
     decrypt_in_place demo_aead demo_nonces demo_key 7 [1] [2]"
  by (rule path_zero_is_rfc9001 [OF demo_nonces_ok])

text \<open>
  C12. No nonce is used twice under a key: two packets on different paths or with different
  packet numbers are sealed under different 12-byte nonces.
\<close>

theorem packet_nonces_distinct:
  assumes "nonces_ok N" and "length (iv k) = 12" and "(p, pn) \<noteq> (p', pn')"
  shows "\<exists>n n'. n \<noteq> n' \<and> length n = 12 \<and> length n' = 12 \<and>
    encrypt_in_place_for_path A N k p pn h x = seal_with A k n h x \<and>
    encrypt_in_place_for_path A N k p' pn' h' x' = seal_with A k n' h' x'"
proof (intro exI conjI)
  let ?n = "nonce_for_path N p (iv k) pn" and ?n' = "nonce_for_path N p' (iv k) pn'"
  show "?n \<noteq> ?n'" using path_nonce_inj [OF assms(1,2)] assms(3) by blast
  show "length ?n = 12" "length ?n' = 12" using assms(1,2) by (simp_all add: nonces_ok_def)
qed (simp_all add: encrypt_in_place_for_path_def)

theorem packet_nonces_distinct_witness:
  "\<exists>n n'. n \<noteq> n' \<and> length n = 12 \<and> length n' = 12 \<and>
    encrypt_in_place_for_path demo_aead demo_nonces demo_key 0 1 [] [] = seal_with demo_aead demo_key n [] [] \<and>
    encrypt_in_place_for_path demo_aead demo_nonces demo_key 1 1 [] [] = seal_with demo_aead demo_key n' [] []"
  by (rule packet_nonces_distinct) (simp_all add: demo_nonces_ok demo_key_def)

text \<open>
  Opening never releases unauthenticated bytes: a payload shorter than a tag is refused
  with the buffer untouched, and a successful open means that the AEAD verified the last 16
  bytes as the tag of the rest under this key, the packet's nonce and this header.
\<close>

theorem decrypt_in_place_authentic:
  "(length payload < 16 \<longrightarrow> decrypt_in_place A N k pn header payload = (Err DecryptError, payload)) \<and>
   (\<forall>p buf. decrypt_in_place A N k pn header payload = (Ok p, buf) \<longrightarrow>
      (\<exists>ct tag out. payload = ct @ tag \<and> length tag = 16 \<and>
         decrypt_inout_detached A (cipher k) (nonce_new N (iv k) pn) header ct tag = (out, True) \<and>
         p = take (length ct) (out @ tag)))"
  using open_with_Ok by (fastforce simp: decrypt_in_place_def open_with_short)

theorem decrypt_in_place_authentic_witness:
  "decrypt_in_place demo_aead demo_nonces demo_key 3 [] [1, 2] = (Err DecryptError, [1, 2])"
  using decrypt_in_place_authentic [of "[1, 2]" demo_aead demo_nonces demo_key 3 "[]"] by simp

text \<open>
  The ChaCha20 mask reads inside the keystream: the seek position is the little-endian block
  counter times 64 without wrap-around, and the five mask bytes end within the 2^38 bytes a
  32-bit block counter reaches.
\<close>

theorem chacha_seek_in_keystream:
  assumes "length sample = 16"
  shows "unat (chacha_seek sample) = le_val (take 4 sample) * 64 \<and>
    unat (chacha_seek sample) + 5 \<le> 2 ^ 38"
proof -
  let ?c = "from_le_bytes (take 4 sample) :: u32"
  have c: "unat ?c = le_val (take 4 sample)"
    by (rule unat_from_le_bytes) simp
  have "unat ?c < 2 ^ 32" using unsigned_less [of ?c] by simp
  then have b: "unat ?c \<le> 2 ^ 32 - 1" by simp
  have u: "unat (ucast ?c :: u64) = unat ?c"
    using b by (simp add: unsigned_ucast_eq take_bit_nat_eq_self)
  have "unat (ucast ?c * 64 :: u64) = unat ?c * 64"
    using b u by (subst unat_mult_lem [THEN iffD1]) simp_all
  with b c show ?thesis by (simp add: chacha_seek_def)
qed

theorem chacha_seek_in_keystream_witness:
  "unat (chacha_seek demo_sample) = le_val (take 4 demo_sample) * 64 \<and>
   unat (chacha_seek demo_sample) + 5 \<le> 2 ^ 38"
  by (rule chacha_seek_in_keystream) (simp add: demo_sample_def)

end
