(* ===== verification/Keys.thy ===== *)
theory Keys
  imports Packet
begin

text \<open>
  The endpoint-level keys (\<^verbatim>\<open>src/rust/quic/src/keys.rs\<close>): the HMAC-SHA-256 stateless-reset key
  and the HKDF-SHA-256 retry-token key, which expands a fresh AES-256-GCM key from every token
  nonce. HMAC, HKDF and the AEAD are parameters; \<open>hmac_ok\<close> and \<open>token_prims_ok\<close> state what their
  documentation promises.
\<close>

section \<open>Stateless reset\<close>

datatype crypto_error = CryptoError

record 'm hmac_ops =
  hmac_new :: "bytes \<Rightarrow> 'm option"
  hmac_update :: "'m \<Rightarrow> bytes \<Rightarrow> 'm"
  hmac_finalize :: "'m \<Rightarrow> bytes"
  hmac_verify_slice :: "'m \<Rightarrow> bytes \<Rightarrow> bool"

definition reset_key_new :: "'m hmac_ops \<Rightarrow> bytes \<Rightarrow> 'm or_panic" where
  "reset_key_new H secret =
     (case hmac_new H secret of
        None \<Rightarrow> Panic ''HMAC accepts any key length'' | Some k \<Rightarrow> Ok k)"

text \<open>\<open>copy_from_slice\<close> panics unless the output slice has the length of the code.\<close>

definition reset_sign :: "'m hmac_ops \<Rightarrow> 'm \<Rightarrow> bytes \<Rightarrow> bytes \<Rightarrow> bytes or_panic" where
  "reset_sign H k msg signature_out =
     (let code = hmac_finalize H (hmac_update H k msg)
      in if length signature_out = length code then Ok code
         else Panic ''source slice length does not match destination slice length'')"

definition reset_signature_len :: nat where "reset_signature_len = 32"

definition reset_verify :: "'m hmac_ops \<Rightarrow> 'm \<Rightarrow> bytes \<Rightarrow> bytes \<Rightarrow> (unit, crypto_error) result" where
  "reset_verify H k msg signature =
     (if hmac_verify_slice H (hmac_update H k msg) signature then Ok () else Err CryptoError)"

section \<open>Retry tokens\<close>

text \<open>
  HKDF extraction and expansion, and the AES-256-GCM operations: \<open>encrypt_in_place\<close> works on a
  growing vector, the detached operations are those of a packet key's AEAD.
\<close>

record ('h, 'c) token_prims =
  hkdf_new :: "bytes option \<Rightarrow> bytes \<Rightarrow> 'h"
  hkdf_expand :: "'h \<Rightarrow> bytes \<Rightarrow> nat \<Rightarrow> bytes option"
  token_aead :: "'c aead_ops"
  aead_encrypt_in_place :: "'c \<Rightarrow> bytes \<Rightarrow> bytes \<Rightarrow> bytes \<Rightarrow> bytes \<times> bool"

definition ZERO_NONCE :: bytes where "ZERO_NONCE = replicate 12 0"

definition token_key_new :: "('h, 'c) token_prims \<Rightarrow> bytes \<Rightarrow> 'h" where
  "token_key_new T master_secret = hkdf_new T None master_secret"

definition derive_aead :: "('h, 'c) token_prims \<Rightarrow> 'h \<Rightarrow> u128 \<Rightarrow> 'c or_panic" where
  "derive_aead T k token_nonce =
     (case hkdf_expand T k (le_bytes 16 token_nonce) 32 of
        None \<Rightarrow> Panic ''32 bytes is a valid HKDF-SHA256 output length''
      | Some key \<Rightarrow>
          (case new_from_slice (token_aead T) key of
             None \<Rightarrow> Panic ''invalid key length''
           | Some c \<Rightarrow> Ok c))"

definition token_seal :: "('h, 'c) token_prims \<Rightarrow> 'h \<Rightarrow> u128 \<Rightarrow> bytes
    \<Rightarrow> ((unit, crypto_error) result \<times> bytes) or_panic" where
  "token_seal T k token_nonce data =
     (case derive_aead T k token_nonce of
        Inl m \<Rightarrow> Panic m
      | Inr c \<Rightarrow>
          (case aead_encrypt_in_place T c ZERO_NONCE [] data of
             (data', True) \<Rightarrow> Ok (Ok (), data')
           | (data', False) \<Rightarrow> Ok (Err CryptoError, data')))"

definition token_open :: "('h, 'c) token_prims \<Rightarrow> 'h \<Rightarrow> u128 \<Rightarrow> bytes
    \<Rightarrow> ((bytes, crypto_error) result \<times> bytes) or_panic" where
  "token_open T k token_nonce data =
     (if length data < 16 then Ok (Err CryptoError, data)
      else
        let plain_len = length data - 16;
            tag = drop plain_len data
        in case derive_aead T k token_nonce of
             Inl m \<Rightarrow> Panic m
           | Inr c \<Rightarrow>
               (case decrypt_inout_detached (token_aead T) c ZERO_NONCE [] (take plain_len data) tag of
                  (buf, False) \<Rightarrow> Ok (Err CryptoError, buf @ tag)
                | (buf, True) \<Rightarrow> Ok (Ok (take plain_len (buf @ tag)), buf @ tag)))"

section \<open>What the primitives promise\<close>

definition hmac_ok :: "'m hmac_ops \<Rightarrow> bool" where
  "hmac_ok H \<longleftrightarrow> (\<forall>s. \<exists>k. hmac_new H s = Some k) \<and> (\<forall>m. length (hmac_finalize H m) = 32) \<and>
     (\<forall>m s. hmac_verify_slice H m s \<longleftrightarrow> s = hmac_finalize H m)"

text \<open>
  HKDF yields 32 bytes for a 32-byte request, AES-256-GCM accepts 32-byte keys, and the
  in-place encryption appends the tag of the detached one.
\<close>

definition token_prims_ok :: "('h, 'c) token_prims \<Rightarrow> bool" where
  "token_prims_ok T \<longleftrightarrow>
     (\<forall>k info. \<exists>out. hkdf_expand T k info 32 = Some out \<and> length out = 32) \<and>
     (\<forall>key. length key = 32 \<longrightarrow> (\<exists>c. new_from_slice (token_aead T) key = Some c)) \<and>
     aead_ok (token_aead T) \<and>
     (\<forall>c n a p q. aead_encrypt_in_place T c n a p = (q, True) \<longrightarrow>
        (\<exists>ct t. encrypt_inout_detached (token_aead T) c n a p = (ct, Some t) \<and> q = ct @ t))"

lemma derive_aead_total:
  assumes "token_prims_ok T"
  shows "\<exists>c. derive_aead T k nonce = Ok c"
proof -
  obtain out where "hkdf_expand T k (le_bytes 16 nonce) 32 = Some out" and "length out = 32"
    using assms unfolding token_prims_ok_def by blast
  moreover from this obtain c where "new_from_slice (token_aead T) out = Some c"
    using assms unfolding token_prims_ok_def by blast
  ultimately show ?thesis by (simp add: derive_aead_def)
qed

lemma token_open_short: "length w < 16 \<Longrightarrow> token_open T k n w = Ok (Err CryptoError, w)"
  by (simp add: token_open_def)

lemma token_open_seal:
  assumes T: "token_prims_ok T" and s: "token_seal T k n p = Ok (Ok (), w)"
  shows "token_open T k n w = Ok (Ok p, p @ drop (length p) w) \<and> length w = length p + 16"
proof -
  obtain c where c: "derive_aead T k n = Ok c" using derive_aead_total [OF T] by blast
  with s have "aead_encrypt_in_place T c ZERO_NONCE [] p = (w, True)"
    by (auto simp: token_seal_def split: prod.splits bool.splits)
  then obtain ct t where e: "encrypt_inout_detached (token_aead T) c ZERO_NONCE [] p = (ct, Some t)"
    and w: "w = ct @ t" using T unfolding token_prims_ok_def by blast
  with T have "length ct = length p \<and> length t = 16 \<and>
      decrypt_inout_detached (token_aead T) c ZERO_NONCE [] ct t = (p, True)"
    by (simp add: token_prims_ok_def aead_ok_def)
  with c w show ?thesis by (simp add: token_open_def Let_def)
qed

text \<open>A token key is a sealer in the sense of the packet keys, with no header.\<close>

definition token_wire :: "((unit, crypto_error) result \<times> bytes) or_panic \<Rightarrow> bytes option" where
  "token_wire r = (case r of Inr (Inr _, w) \<Rightarrow> Some w | _ \<Rightarrow> None)"

definition token_opened :: "((bytes, crypto_error) result \<times> bytes) or_panic \<Rightarrow> bytes option" where
  "token_opened r = (case r of Inr (Inr p, _) \<Rightarrow> Some p | _ \<Rightarrow> None)"

lemma token_wire_eq: "token_wire r = Some w \<longleftrightarrow> r = Ok (Ok (), w)"
  by (auto simp: token_wire_def split: sum.splits prod.splits)

interpretation token: seal_open token_prims_ok
  "\<lambda>T k n h p. token_wire (token_seal T k n p)"
  "\<lambda>T k n h w. token_opened (token_open T k n w)"
proof (unfold_locales, goal_cases)
  case (1 T k n h p w)
  then show ?case using token_open_seal [of T k n p w] by (simp add: token_wire_eq token_opened_def)
next
  case (2 T k n h p w)
  then show ?case using token_open_seal [of T k n p w] by (simp add: token_wire_eq)
next
  case (3 w T k n h)
  then show ?case by (simp add: token_open_short token_opened_def)
qed

section \<open>Concrete primitives\<close>

definition demo_hmac :: "bytes hmac_ops" where
  "demo_hmac = \<lparr>hmac_new = (\<lambda>s. Some s), hmac_update = (\<lambda>m d. m @ d),
     hmac_finalize = (\<lambda>m. take 32 (m @ replicate 32 0)),
     hmac_verify_slice = (\<lambda>m s. s = take 32 (m @ replicate 32 0))\<rparr>"

definition demo_token_prims :: "(bytes, u8) token_prims" where
  "demo_token_prims = \<lparr>hkdf_new = (\<lambda>_ s. s),
     hkdf_expand = (\<lambda>k info n. Some (take n (info @ k @ replicate n 0))),
     token_aead = demo_aead,
     aead_encrypt_in_place = (\<lambda>k n a p. (map (\<lambda>b. b XOR k) p @ replicate 16 k, True))\<rparr>"

lemma demo_hmac_ok: "hmac_ok demo_hmac"
  by (auto simp: hmac_ok_def demo_hmac_def min_def)

lemma demo_token_prims_ok: "token_prims_ok demo_token_prims"
proof -
  have "\<exists>c. new_from_slice demo_aead key = Some c" if "length key = 32" for key
    using that by (cases key) (simp_all add: demo_aead_def)
  moreover have "encrypt_inout_detached demo_aead k n a p = (map (\<lambda>b. b XOR k) p, Some (replicate 16 k))"
    for k n a p by (simp add: demo_aead_def)
  ultimately show ?thesis
    using demo_aead_ok by (auto simp: token_prims_ok_def demo_token_prims_def min_def)
qed

section \<open>Properties\<close>

text \<open>
  C14. Retry tokens round trip: with the documented primitives sealing never panics, and what it
  seals under a token nonce opens under that nonce to the original contents.
\<close>

theorem token_roundtrip:
  assumes "token_prims_ok T"
  shows "(\<exists>r data'. token_seal T k nonce data = Ok (r, data') \<and>
    (r = Ok () \<longrightarrow> length data' = length data + 16 \<and>
       (\<exists>buf. token_open T k nonce data' = Ok (Ok data, buf))))"
proof -
  obtain c where c: "derive_aead T k nonce = Ok c" using derive_aead_total [OF assms] by blast
  obtain d' b where e: "aead_encrypt_in_place T c ZERO_NONCE [] data = (d', b)"
    by (cases "aead_encrypt_in_place T c ZERO_NONCE [] data")
  show ?thesis
  proof (cases b)
    case True
    with c e have "token_seal T k nonce data = Ok (Ok (), d')" by (simp add: token_seal_def)
    with token_open_seal [OF assms this] show ?thesis by blast
  next
    case False
    with c e show ?thesis by (simp add: token_seal_def)
  qed
qed

theorem token_roundtrip_witness:
  "\<exists>r data'. token_seal demo_token_prims [1] 7 [10, 20] = Ok (r, data') \<and>
    (r = Ok () \<longrightarrow> length data' = length [10, 20 :: u8] + 16 \<and>
       (\<exists>buf. token_open demo_token_prims [1] 7 data' = Ok (Ok [10, 20], buf)))"
  by (rule token_roundtrip [OF demo_token_prims_ok])

text \<open>
  A reset token verifies exactly when it is the token signing produces: signing into a
  buffer of the announced length does not panic, its result verifies, and no other signature
  does.
\<close>

theorem reset_token_verifies:
  assumes "hmac_ok H" and "length out = reset_signature_len"
  shows "\<exists>sig. reset_sign H k msg out = Ok sig \<and> length sig = reset_signature_len \<and>
    (\<forall>s. reset_verify H k msg s = Ok () \<longleftrightarrow> s = sig)"
  using assms by (simp add: hmac_ok_def reset_sign_def reset_verify_def reset_signature_len_def Let_def)

theorem reset_token_verifies_witness:
  "\<exists>sig. reset_sign demo_hmac [1, 2] [3] (replicate 32 0) = Ok sig \<and>
    length sig = reset_signature_len \<and>
    (\<forall>s. reset_verify demo_hmac [1, 2] [3] s = Ok () \<longleftrightarrow> s = sig)"
  by (rule reset_token_verifies [OF demo_hmac_ok]) (simp add: reset_signature_len_def)

end
