(* ===== verification/Profile.thy ===== *)
theory Profile
  imports Rustls_Iface
begin

text \<open>
  The algorithm profile (\<^verbatim>\<open>src/rust/profile/src/lib.rs\<close>): the policy lists, the identity types
  that enforce the signing policy by their shape, and the DER encoding of Ed25519 raw public
  keys. The Ed25519 PKCS#8 parser of \<open>ed25519_dalek\<close> and the \<open>public_key\<close> method of an external
  signer are parameters.
\<close>

section \<open>Policy lists\<close>

definition CIPHER_SUITES :: "cipher_suite list" where
  "CIPHER_SUITES = [TLS13_CHACHA20_POLY1305_SHA256, TLS13_AES_128_GCM_SHA256]"

definition KEY_EXCHANGE_GROUPS :: "named_group list" where
  "KEY_EXCHANGE_GROUPS = [X25519, secp256r1]"

definition SIGNATURE_VERIFICATION_SCHEMES :: "signature_scheme list" where
  "SIGNATURE_VERIFICATION_SCHEMES =
     [ED25519, ECDSA_NISTP256_SHA256, ECDSA_NISTP384_SHA384,
      RSA_PSS_SHA256, RSA_PSS_SHA384, RSA_PSS_SHA512,
      RSA_PKCS1_SHA256, RSA_PKCS1_SHA384, RSA_PKCS1_SHA512]"

definition IN_GUEST_SIGNING_SCHEME :: signature_scheme where
  "IN_GUEST_SIGNING_SCHEME = ED25519"

section \<open>Identities\<close>

text \<open>\<open>SigningKey::from_pkcs8_der\<close> and \<open>verifying_key().to_bytes()\<close> of \<open>ed25519_dalek\<close>.\<close>

record 'sk ed25519_ops =
  dalek_from_pkcs8_der :: "bytes \<Rightarrow> 'sk option"
  verifying_key_bytes :: "'sk \<Rightarrow> bytes"

datatype invalid_identity = InvalidIdentity string

definition invalid_identity_to_string :: "invalid_identity \<Rightarrow> string" where
  "invalid_identity_to_string e = (case e of InvalidIdentity m \<Rightarrow> m)"

record ed25519_identity =
  eid_chain :: "certificate_der list"
  eid_key_der :: private_key_der

definition ed25519_identity_from_pkcs8_der :: "'sk ed25519_ops \<Rightarrow> certificate_der list \<Rightarrow> bytes
    \<Rightarrow> (ed25519_identity, invalid_identity) result" where
  "ed25519_identity_from_pkcs8_der D chain pkcs8_der =
     (case dalek_from_pkcs8_der D pkcs8_der of
        None \<Rightarrow> Err (InvalidIdentity ''key material is not an Ed25519 PKCS#8 document'')
      | Some _ \<Rightarrow> Ok \<lparr>eid_chain = chain, eid_key_der = Pkcs8 pkcs8_der\<rparr>)"

definition into_parts :: "ed25519_identity \<Rightarrow> certificate_der list \<times> private_key_der" where
  "into_parts i = (eid_chain i, eid_key_der i)"

datatype 'signer server_identity =
    SI_Ed25519 ed25519_identity
  | SI_External "certificate_der list" 'signer

section \<open>Raw public keys\<close>

definition ED25519_SPKI_PREFIX :: bytes where
  "ED25519_SPKI_PREFIX =
     [0x30, 0x2a, 0x30, 0x05, 0x06, 0x03, 0x2b, 0x65, 0x70, 0x03, 0x21, 0x00]"

definition ed25519_spki :: "bytes \<Rightarrow> bytes" where
  "ed25519_spki public_key = ED25519_SPKI_PREFIX @ public_key"

text \<open>
  \<open>split_at_checked\<close> fails when the input is shorter than the prefix; the final \<open>try_into\<close>
  fails unless exactly 32 bytes remain.
\<close>

definition public_key_from_ed25519_spki :: "bytes \<Rightarrow> bytes option" where
  "public_key_from_ed25519_spki spki =
     (if length spki < length ED25519_SPKI_PREFIX then None
      else
        let prefix = take (length ED25519_SPKI_PREFIX) spki;
            key = drop (length ED25519_SPKI_PREFIX) spki
        in if prefix \<noteq> ED25519_SPKI_PREFIX then None
           else if length key = 32 then Some key else None)"

datatype 'signer rpk_signer_inner =
    Inner_Ed25519 private_key_der
  | Inner_External 'signer

datatype 'signer rpk_signer =
    Ed25519Pkcs8 private_key_der
  | Rpk_External 'signer

record 'signer rpk_identity =
  rpk_public_key :: bytes
  rpk_inner :: "'signer rpk_signer_inner"

definition rpk_from_pkcs8_der :: "'sk ed25519_ops \<Rightarrow> bytes
    \<Rightarrow> ('signer rpk_identity, invalid_identity) result" where
  "rpk_from_pkcs8_der D pkcs8_der =
     (case dalek_from_pkcs8_der D pkcs8_der of
        None \<Rightarrow> Err (InvalidIdentity ''key material is not an Ed25519 PKCS#8 document'')
      | Some key \<Rightarrow> Ok \<lparr>rpk_public_key = verifying_key_bytes D key,
                         rpk_inner = Inner_Ed25519 (Pkcs8 pkcs8_der)\<rparr>)"

definition rpk_external :: "('signer \<Rightarrow> bytes option) \<Rightarrow> 'signer
    \<Rightarrow> ('signer rpk_identity, invalid_identity) result" where
  "rpk_external signer_public_key signer =
     (case signer_public_key signer of
        None \<Rightarrow> Err (InvalidIdentity ''signer does not expose its public key'')
      | Some spki \<Rightarrow>
          (case public_key_from_ed25519_spki spki of
             None \<Rightarrow> Err (InvalidIdentity ''signer's public key is not an Ed25519 SPKI'')
           | Some public_key \<Rightarrow> Ok \<lparr>rpk_public_key = public_key,
                                    rpk_inner = Inner_External signer\<rparr>))"

definition rpk_spki_der :: "'signer rpk_identity \<Rightarrow> bytes" where
  "rpk_spki_der i = ed25519_spki (rpk_public_key i)"

definition rpk_signer_of :: "'signer rpk_identity \<Rightarrow> 'signer rpk_signer" where
  "rpk_signer_of i =
     (case rpk_inner i of
        Inner_Ed25519 key_der \<Rightarrow> Ed25519Pkcs8 key_der
      | Inner_External signer \<Rightarrow> Rpk_External signer)"

section \<open>Laws of the encoding\<close>

text \<open>An Ed25519 public key has 32 bytes, so \<open>verifying_key().to_bytes()\<close> does.\<close>

definition ed25519_ok :: "'sk ed25519_ops \<Rightarrow> bool" where
  "ed25519_ok D \<longleftrightarrow> (\<forall>k. length (verifying_key_bytes D k) = 32)"

lemma spki_prefix_length [simp]: "length ED25519_SPKI_PREFIX = 12"
  by (simp add: ED25519_SPKI_PREFIX_def)

lemma length_ed25519_spki: "length (ed25519_spki k) = 12 + length k"
  by (simp add: ed25519_spki_def)

lemma spki_decode_iff:
  "public_key_from_ed25519_spki s = Some k \<longleftrightarrow> s = ed25519_spki k \<and> length k = 32"
proof
  assume s: "public_key_from_ed25519_spki s = Some k"
  then have "take 12 s = ED25519_SPKI_PREFIX" and "k = drop 12 s" and "length k = 32"
    by (auto simp: public_key_from_ed25519_spki_def Let_def split: if_splits)
  then show "s = ed25519_spki k \<and> length k = 32"
    unfolding ed25519_spki_def by (metis append_take_drop_id)
next
  assume "s = ed25519_spki k \<and> length k = 32"
  then show "public_key_from_ed25519_spki s = Some k"
    by (simp add: public_key_from_ed25519_spki_def ed25519_spki_def)
qed

lemma ed25519_spki_inj [simp]: "ed25519_spki k = ed25519_spki k' \<longleftrightarrow> k = k'"
  by (simp add: ed25519_spki_def)

text \<open>
  The interface of a raw-public-key identity towards the deliveries: its SPKI decodes to its
  public key, whichever constructor made it.
\<close>

definition rpk_wf :: "'signer rpk_identity \<Rightarrow> bool" where
  "rpk_wf i \<longleftrightarrow> public_key_from_ed25519_spki (rpk_spki_der i) = Some (rpk_public_key i)"

lemma rpk_wf_iff: "rpk_wf i \<longleftrightarrow> length (rpk_public_key i) = 32"
  by (simp add: rpk_wf_def rpk_spki_der_def spki_decode_iff)

locale identity_source =
  fixes ok :: "'env \<Rightarrow> bool"
    and build :: "'env \<Rightarrow> 'material \<Rightarrow> ('signer rpk_identity, invalid_identity) result"
    and origin :: "'env \<Rightarrow> 'material \<Rightarrow> 'signer rpk_signer"
  assumes build_wf: "ok E \<Longrightarrow> build E m = Ok i \<Longrightarrow> rpk_wf i"
    and build_origin: "build E m = Ok i \<Longrightarrow> rpk_signer_of i = origin E m"
begin

lemma presented_key:
  assumes "ok E" and "build E m = Ok i"
  shows "length (rpk_spki_der i) = 44 \<and>
    public_key_from_ed25519_spki (rpk_spki_der i) = Some (rpk_public_key i)"
  using build_wf [OF assms]
  by (simp add: rpk_wf_def rpk_spki_der_def spki_decode_iff length_ed25519_spki)

end

interpretation pkcs8_identity: identity_source ed25519_ok rpk_from_pkcs8_der
  "\<lambda>_ der. Ed25519Pkcs8 (Pkcs8 der)"
  by unfold_locales
    (auto simp: rpk_from_pkcs8_der_def ed25519_ok_def rpk_wf_iff rpk_signer_of_def split: option.splits)

interpretation external_identity: identity_source "\<lambda>_. True" rpk_external "\<lambda>_. Rpk_External"
  by unfold_locales
    (auto simp: rpk_external_def rpk_wf_iff spki_decode_iff rpk_signer_of_def split: option.splits)

section \<open>Properties\<close>

text \<open>
  The SPKI codec is exact: a byte string decodes to a key exactly when it is the encoding of
  that 32-byte key, so encoding and decoding invert each other and nothing else is accepted.
\<close>

theorem ed25519_spki_codec:
  "public_key_from_ed25519_spki s = Some k \<longleftrightarrow> s = ed25519_spki k \<and> length k = 32"
  by (rule spki_decode_iff)

text \<open>
  A raw-public-key identity presents the key it was built from: both constructors yield
  identities whose 44-byte SPKI decodes to their public key; one built from PKCS#8 signs with
  that document, and one built around an external signer presents the signer's own SPKI and
  signs with that signer.
\<close>

theorem rpk_identity_presents_its_key:
  assumes "ed25519_ok D"
  shows "(rpk_from_pkcs8_der D der = Ok (i :: 'signer rpk_identity) \<longrightarrow>
      length (rpk_spki_der i) = 44 \<and>
      public_key_from_ed25519_spki (rpk_spki_der i) = Some (rpk_public_key i) \<and>
      rpk_signer_of i = Ed25519Pkcs8 (Pkcs8 der)) \<and>
    (rpk_external pk signer = Ok i' \<longrightarrow>
      pk signer = Some (rpk_spki_der i') \<and>
      public_key_from_ed25519_spki (rpk_spki_der i') = Some (rpk_public_key i') \<and>
      rpk_signer_of i' = Rpk_External signer)"
proof (intro conjI impI)
  assume b: "rpk_from_pkcs8_der D der = Ok i"
  show "length (rpk_spki_der i) = 44"
    and "public_key_from_ed25519_spki (rpk_spki_der i) = Some (rpk_public_key i)"
    using pkcs8_identity.presented_key [OF assms b] by simp_all
  show "rpk_signer_of i = Ed25519Pkcs8 (Pkcs8 der)" by (rule pkcs8_identity.build_origin [OF b])
next
  assume b: "rpk_external pk signer = Ok i'"
  show "pk signer = Some (rpk_spki_der i')"
    using b by (auto simp: rpk_external_def rpk_spki_der_def spki_decode_iff split: option.splits)
  show "public_key_from_ed25519_spki (rpk_spki_der i') = Some (rpk_public_key i')"
    using external_identity.presented_key [OF _ b] by simp
  show "rpk_signer_of i' = Rpk_External signer" by (rule external_identity.build_origin [OF b])
qed

definition demo_dalek :: "bytes ed25519_ops" where
  "demo_dalek = \<lparr>dalek_from_pkcs8_der = (\<lambda>d. if length d = 32 then Some d else None),
     verifying_key_bytes = (\<lambda>k. take 32 (k @ replicate 32 0))\<rparr>"

lemma demo_dalek_ok: "ed25519_ok demo_dalek"
  by (auto simp: ed25519_ok_def demo_dalek_def min_def)

definition demo_rpk :: "bytes rpk_identity" where
  "demo_rpk = \<lparr>rpk_public_key = replicate 32 7, rpk_inner = Inner_Ed25519 (Pkcs8 (replicate 32 7))\<rparr>"

definition demo_external_rpk :: "bytes rpk_identity" where
  "demo_external_rpk =
     \<lparr>rpk_public_key = replicate 32 9, rpk_inner = Inner_External (ed25519_spki (replicate 32 9))\<rparr>"

lemma demo_rpk_built: "rpk_from_pkcs8_der demo_dalek (replicate 32 7) = Ok demo_rpk"
  by (simp add: rpk_from_pkcs8_der_def demo_dalek_def demo_rpk_def)

lemma demo_external_rpk_built: "rpk_external Some (ed25519_spki (replicate 32 9)) = Ok demo_external_rpk"
proof -
  have "public_key_from_ed25519_spki (ed25519_spki (replicate 32 9)) = Some (replicate 32 9)"
    by (simp add: spki_decode_iff)
  then show ?thesis by (simp add: rpk_external_def demo_external_rpk_def)
qed

theorem rpk_identity_presents_its_key_witness:
  "length (rpk_spki_der demo_rpk) = 44 \<and>
   rpk_signer_of demo_rpk = Ed25519Pkcs8 (Pkcs8 (replicate 32 7)) \<and>
   rpk_signer_of demo_external_rpk = Rpk_External (ed25519_spki (replicate 32 9))"
  using rpk_identity_presents_its_key [OF demo_dalek_ok, of "replicate 32 7" demo_rpk Some
      "ed25519_spki (replicate 32 9)" demo_external_rpk]
    demo_rpk_built demo_external_rpk_built by blast

end
