(* ===== verification/Provider.thy ===== *)
theory Provider
  imports Profile Packet
begin

text \<open>
  The assembled crypto providers: the core one (\<open>provider\<close> of \<^verbatim>\<open>src/rust/tls/src/lib.rs\<close>), the QUIC
  one (\<open>provider\<close> of \<^verbatim>\<open>src/rust/quic/src/lib.rs\<close>) and the QUIC-capable cipher suites it carries
  (\<^verbatim>\<open>src/rust/quic/src/suites.rs\<close>). What rustls-rustcrypto provides is a parameter: its provider
  value, its two TLS 1.3 suites, the identifier each suite and group reports and the EdDSA key
  loader.
\<close>

section \<open>Data\<close>

record ('suite, 'group, 'verif, 'rng, 'signer) crypto_provider =
  cipher_suites :: "'suite list"
  kx_groups :: "'group list"
  signature_verification_algorithms :: 'verif
  secure_random :: 'rng
  key_provider :: "private_key_der \<Rightarrow> ('signer, tls_error) result"

datatype quic_algorithm = Aes128GcmAlgorithm | ChaCha20Poly1305Algorithm

text \<open>\<open>rustls::Tls13CipherSuite\<close>, with the fields of its \<open>common\<close> part inlined.\<close>

record ('hash, 'hkdf, 'aead) tls13_cipher_suite =
  suite :: cipher_suite
  hash_provider :: 'hash
  suite_confidentiality_limit :: u64
  hkdf_provider :: 'hkdf
  aead_alg :: 'aead
  quic :: "quic_algorithm option"

datatype ('hash, 'hkdf, 'aead) supported_cipher_suite =
    Tls13 "('hash, 'hkdf, 'aead) tls13_cipher_suite"
  | Tls12 cipher_suite

definition suite_id :: "('hash, 'hkdf, 'aead) supported_cipher_suite \<Rightarrow> cipher_suite" where
  "suite_id s = (case s of Tls13 inner \<Rightarrow> suite inner | Tls12 i \<Rightarrow> i)"

record ('hash, 'hkdf, 'aead, 'group, 'verif, 'rng, 'signer) rustcrypto =
  base_provider :: "(('hash, 'hkdf, 'aead) supported_cipher_suite, 'group, 'verif, 'rng, 'signer) crypto_provider"
  base_chacha :: "('hash, 'hkdf, 'aead) supported_cipher_suite"
  base_aes :: "('hash, 'hkdf, 'aead) supported_cipher_suite"
  kx_name :: "'group \<Rightarrow> named_group"
  any_eddsa_type :: "private_key_der \<Rightarrow> ('signer, tls_error) result"

section \<open>The Ed25519-only key loader\<close>

definition load_private_key :: "('hash, 'hkdf, 'aead, 'group, 'verif, 'rng, 'signer) rustcrypto
    \<Rightarrow> private_key_der \<Rightarrow> ('signer, tls_error) result" where
  "load_private_key R key_der = any_eddsa_type R key_der"

section \<open>The core provider\<close>

text \<open>\<open>map\<close> with \<open>find\<close> and \<open>expect\<close>, collected: the first missing item panics.\<close>

primrec collect_expect :: "string \<Rightarrow> 'a option list \<Rightarrow> 'a list or_panic" where
  "collect_expect m [] = Ok []"
| "collect_expect m (x # xs) =
     (case x of
        None \<Rightarrow> Panic m
      | Some v \<Rightarrow> (case collect_expect m xs of Inl e \<Rightarrow> Panic e | Inr vs \<Rightarrow> Ok (v # vs)))"

definition profile_kx_groups :: "('hash, 'hkdf, 'aead, 'group, 'verif, 'rng, 'signer) rustcrypto
    \<Rightarrow> 'group list or_panic" where
  "profile_kx_groups R =
     collect_expect ''rustls-rustcrypto provides every profile key-exchange group''
       (map (\<lambda>g. List.find (\<lambda>kx. kx_name R kx = g) (kx_groups (base_provider R)))
          KEY_EXCHANGE_GROUPS)"

definition core_provider :: "('hash, 'hkdf, 'aead, 'group, 'verif, 'rng, 'signer) rustcrypto
    \<Rightarrow> (('hash, 'hkdf, 'aead) supported_cipher_suite, 'group, 'verif, 'rng, 'signer) crypto_provider or_panic" where
  "core_provider R =
     (case collect_expect ''rustls-rustcrypto provides every profile cipher suite''
         (map (\<lambda>i. List.find (\<lambda>s. suite_id s = i) (cipher_suites (base_provider R))) CIPHER_SUITES) of
        Inl m \<Rightarrow> Panic m
      | Inr suites \<Rightarrow>
          (case profile_kx_groups R of
             Inl m \<Rightarrow> Panic m
           | Inr groups \<Rightarrow> Ok \<lparr>cipher_suites = suites, kx_groups = groups,
               signature_verification_algorithms =
                 signature_verification_algorithms (base_provider R),
               secure_random = secure_random (base_provider R),
               key_provider = load_private_key R\<rparr>))"

section \<open>The QUIC suites and provider\<close>

definition tls13_suite :: "('hash, 'hkdf, 'aead) supported_cipher_suite
    \<Rightarrow> ('hash, 'hkdf, 'aead) tls13_cipher_suite or_panic" where
  "tls13_suite s = (case s of Tls13 inner \<Rightarrow> Ok inner | Tls12 _ \<Rightarrow> Panic ''not a TLS 1.3 suite'')"

definition quic_chacha_suite :: "('hash, 'hkdf, 'aead, 'group, 'verif, 'rng, 'signer) rustcrypto
    \<Rightarrow> ('hash, 'hkdf, 'aead) supported_cipher_suite or_panic" where
  "quic_chacha_suite R =
     (case tls13_suite (base_chacha R) of
        Inl m \<Rightarrow> Panic m
      | Inr b \<Rightarrow> Ok (Tls13 \<lparr>suite = TLS13_CHACHA20_POLY1305_SHA256,
          hash_provider = hash_provider b,
          suite_confidentiality_limit = suite_confidentiality_limit b,
          hkdf_provider = hkdf_provider b, aead_alg = aead_alg b,
          quic = Some ChaCha20Poly1305Algorithm\<rparr>))"

definition quic_aes_suite :: "('hash, 'hkdf, 'aead, 'group, 'verif, 'rng, 'signer) rustcrypto
    \<Rightarrow> ('hash, 'hkdf, 'aead) supported_cipher_suite or_panic" where
  "quic_aes_suite R =
     (case tls13_suite (base_aes R) of
        Inl m \<Rightarrow> Panic m
      | Inr b \<Rightarrow> Ok (Tls13 \<lparr>suite = TLS13_AES_128_GCM_SHA256,
          hash_provider = hash_provider b,
          suite_confidentiality_limit = suite_confidentiality_limit b,
          hkdf_provider = hkdf_provider b, aead_alg = aead_alg b,
          quic = Some Aes128GcmAlgorithm\<rparr>))"

definition quic_provider :: "('hash, 'hkdf, 'aead, 'group, 'verif, 'rng, 'signer) rustcrypto
    \<Rightarrow> (('hash, 'hkdf, 'aead) supported_cipher_suite, 'group, 'verif, 'rng, 'signer) crypto_provider or_panic" where
  "quic_provider R =
     (case profile_kx_groups R of
        Inl m \<Rightarrow> Panic m
      | Inr groups \<Rightarrow>
          (case (quic_chacha_suite R, quic_aes_suite R) of
             (Inr c, Inr a) \<Rightarrow> Ok \<lparr>cipher_suites = [c, a], kx_groups = groups,
               signature_verification_algorithms =
                 signature_verification_algorithms (base_provider R),
               secure_random = secure_random (base_provider R),
               key_provider = load_private_key R\<rparr>
           | (Inl m, _) \<Rightarrow> Panic m
           | (Inr _, Inl m) \<Rightarrow> Panic m))"

section \<open>Laws\<close>

lemma collect_expect_map_Some: "collect_expect m (map Some ys) = Ok ys"
  by (induction ys) simp_all

lemma collect_expect_Ok: "collect_expect m xs = Ok ys \<longleftrightarrow> xs = map Some ys"
proof
  show "collect_expect m xs = Ok ys \<Longrightarrow> xs = map Some ys"
    by (induction xs arbitrary: ys) (auto split: option.splits sum.splits)
qed (simp add: collect_expect_map_Some)

lemma collect_expect_total:
  "(\<exists>ys. collect_expect m xs = Ok ys) \<longleftrightarrow> None \<notin> set xs"
  by (induction xs) (auto split: option.splits sum.splits)

lemma map_find_ids:
  assumes "map (\<lambda>i. List.find (\<lambda>x. f x = i) xs) ids = map Some ys"
  shows "map f ys = ids \<and> set ys \<subseteq> set xs"
  using assms
proof (induction ids arbitrary: ys)
  case Nil
  then show ?case by simp
next
  case (Cons i ids)
  then show ?case by (auto simp: find_Some_iff)
qed

lemma find_None_mem: "None \<in> set (map (\<lambda>i. List.find (\<lambda>x. f x = i) xs) ids) \<longleftrightarrow>
    \<not> set ids \<subseteq> f ` set xs"
  by (force simp: find_None_iff2 image_iff)

lemmas provider_expect_simps = collect_expect_Ok profile_kx_groups_def

lemma profile_kx_groups_Ok:
  "profile_kx_groups R = Ok gs \<Longrightarrow>
    map (kx_name R) gs = KEY_EXCHANGE_GROUPS \<and> set gs \<subseteq> set (kx_groups (base_provider R))"
  using map_find_ids by (fastforce simp: provider_expect_simps)

lemma profile_kx_groups_total:
  "(\<exists>gs. profile_kx_groups R = Ok gs) \<longleftrightarrow>
     set KEY_EXCHANGE_GROUPS \<subseteq> kx_name R ` set (kx_groups (base_provider R))"
  by (simp only: profile_kx_groups_def collect_expect_total find_None_mem not_not)

text \<open>
  The contract both deliveries offer: a provider whose suites and groups are the profile's, in
  the profile's order, whose verification set and randomness are the base provider's and whose
  key loader is the EdDSA loader.
\<close>

locale profile_provider =
  fixes make :: "('hash, 'hkdf, 'aead, 'group, 'verif, 'rng, 'signer) rustcrypto
    \<Rightarrow> (('hash, 'hkdf, 'aead) supported_cipher_suite, 'group, 'verif, 'rng, 'signer) crypto_provider or_panic"
  assumes make_suites: "make R = Ok p \<Longrightarrow> map suite_id (cipher_suites p) = CIPHER_SUITES"
    and make_groups: "make R = Ok p \<Longrightarrow> map (kx_name R) (kx_groups p) = KEY_EXCHANGE_GROUPS"
    and make_loader: "make R = Ok p \<Longrightarrow> key_provider p = any_eddsa_type R"
    and make_base: "make R = Ok p \<Longrightarrow>
      signature_verification_algorithms p = signature_verification_algorithms (base_provider R) \<and>
      secure_random p = secure_random (base_provider R)"
begin

lemma prefers_chacha:
  assumes "make R = Ok p"
  shows "\<exists>c a. cipher_suites p = [c, a] \<and> suite_id c = TLS13_CHACHA20_POLY1305_SHA256 \<and>
    suite_id a = TLS13_AES_128_GCM_SHA256"
  using make_suites [OF assms] by (auto simp: CIPHER_SUITES_def map_eq_Cons_conv)

end

lemma core_provider_Ok:
  assumes "core_provider R = Ok p"
  shows "map suite_id (cipher_suites p) = CIPHER_SUITES"
    and "set (cipher_suites p) \<subseteq> set (cipher_suites (base_provider R))"
    and "profile_kx_groups R = Ok (kx_groups p)"
  using assms map_find_ids [of suite_id "cipher_suites (base_provider R)" CIPHER_SUITES]
  by (fastforce simp: core_provider_def collect_expect_Ok split: sum.splits)+

lemma quic_provider_Ok:
  assumes "quic_provider R = Ok p"
  shows "\<exists>c a. cipher_suites p = [c, a] \<and> quic_chacha_suite R = Ok c \<and> quic_aes_suite R = Ok a"
    and "profile_kx_groups R = Ok (kx_groups p)"
  using assms by (auto simp: quic_provider_def split: sum.splits prod.splits)

lemma quic_suite_ids:
  "quic_chacha_suite R = Ok c \<Longrightarrow> suite_id c = TLS13_CHACHA20_POLY1305_SHA256"
  "quic_aes_suite R = Ok a \<Longrightarrow> suite_id a = TLS13_AES_128_GCM_SHA256"
  by (auto simp: quic_chacha_suite_def quic_aes_suite_def suite_id_def split: sum.splits)

interpretation core_delivery: profile_provider core_provider
proof (unfold_locales, goal_cases)
  case (1 R p)
  then show ?case by (rule core_provider_Ok(1))
next
  case (2 R p)
  then show ?case using core_provider_Ok(3) profile_kx_groups_Ok by blast
next
  case (3 R p)
  then show ?case
    by (auto simp: core_provider_def load_private_key_def fun_eq_iff split: sum.splits)
next
  case (4 R p)
  then show ?case by (auto simp: core_provider_def split: sum.splits)
qed

interpretation quic_delivery: profile_provider quic_provider
proof (unfold_locales, goal_cases)
  case (1 R p)
  then show ?case
    using quic_provider_Ok(1) quic_suite_ids by (fastforce simp: CIPHER_SUITES_def)
next
  case (2 R p)
  then show ?case using quic_provider_Ok(2) profile_kx_groups_Ok by blast
next
  case (3 R p)
  then show ?case
    by (auto simp: quic_provider_def load_private_key_def fun_eq_iff split: sum.splits prod.splits)
next
  case (4 R p)
  then show ?case by (auto simp: quic_provider_def split: sum.splits prod.splits)
qed

end
