(* ===== verification/Rpk.thy ===== *)
theory Rpk
  imports Provider
begin

text \<open>
  Raw-public-key TLS (\<^verbatim>\<open>src/rust/tls/src/rpk.rs\<close>) and the configuration constructors of the core
  library (\<^verbatim>\<open>src/rust/tls/src/lib.rs\<close>) and of the QUIC layer (\<^verbatim>\<open>src/rust/quic/src/lib.rs\<close>). A
  configuration is the record of what the rustls builder is given: provider, protocol versions,
  how the peer is verified and what the endpoint presents. The builder steps that can fail and
  the raw-key signature check of rustls are parameters.
\<close>

section \<open>Verifiers\<close>

text \<open>
  \<open>verify_tls13_signature_with_raw_key\<close> over a message, an SPKI, a signed struct and the supported
  algorithms.
\<close>

type_synonym ('verif, 'dss) raw_key_check =
  "bytes \<Rightarrow> bytes \<Rightarrow> 'dss \<Rightarrow> 'verif \<Rightarrow> (unit, tls_error) result"

record 'verif rpk_server_verifier =
  expected_spki :: bytes
  rsv_algorithms :: 'verif

definition rpk_server_verifier_new :: "bytes \<Rightarrow> 'verif \<Rightarrow> 'verif rpk_server_verifier" where
  "rpk_server_verifier_new expected_key algorithms =
     \<lparr>expected_spki = ed25519_spki expected_key, rsv_algorithms = algorithms\<rparr>"

definition verify_server_cert :: "'verif rpk_server_verifier \<Rightarrow> certificate_der
    \<Rightarrow> certificate_der list \<Rightarrow> string \<Rightarrow> bytes \<Rightarrow> nat \<Rightarrow> (unit, tls_error) result" where
  "verify_server_cert v end_entity intermediates server_name ocsp_response now =
     (if intermediates \<noteq> [] then Err (InvalidCertificate BadEncoding)
      else if end_entity \<noteq> expected_spki v
      then Err (InvalidCertificate ApplicationVerificationFailure)
      else Ok ())"

record 'verif rpk_client_verifier =
  rcv_algorithms :: 'verif

definition rpk_client_verifier_new :: "'verif \<Rightarrow> 'verif rpk_client_verifier" where
  "rpk_client_verifier_new algorithms = \<lparr>rcv_algorithms = algorithms\<rparr>"

definition verify_client_cert :: "'verif rpk_client_verifier \<Rightarrow> certificate_der
    \<Rightarrow> certificate_der list \<Rightarrow> nat \<Rightarrow> (unit, tls_error) result" where
  "verify_client_cert v end_entity intermediates now =
     (if intermediates \<noteq> [] then Err (InvalidCertificate BadEncoding)
      else if public_key_from_ed25519_spki end_entity = None
      then Err (InvalidCertificate BadEncoding)
      else Ok ())"

text \<open>Both verifiers treat handshake signatures alike: TLS 1.2 is refused, TLS 1.3 checked.\<close>

definition rpk_verify_tls12_signature :: "bytes \<Rightarrow> certificate_der \<Rightarrow> 'dss \<Rightarrow> (unit, tls_error) result" where
  "rpk_verify_tls12_signature msg cert dss = Err Tls12NotOffered"

definition server_verify_tls13_signature :: "('verif, 'dss) raw_key_check \<Rightarrow> 'verif rpk_server_verifier
    \<Rightarrow> bytes \<Rightarrow> certificate_der \<Rightarrow> 'dss \<Rightarrow> (unit, tls_error) result" where
  "server_verify_tls13_signature chk v msg cert dss = chk msg cert dss (rsv_algorithms v)"

definition client_verify_tls13_signature :: "('verif, 'dss) raw_key_check \<Rightarrow> 'verif rpk_client_verifier
    \<Rightarrow> bytes \<Rightarrow> certificate_der \<Rightarrow> 'dss \<Rightarrow> (unit, tls_error) result" where
  "client_verify_tls13_signature chk v msg cert dss = chk msg cert dss (rcv_algorithms v)"

definition rpk_supported_verify_schemes :: "signature_scheme list" where
  "rpk_supported_verify_schemes = [ED25519]"

definition rpk_requires_raw_public_keys :: bool where
  "rpk_requires_raw_public_keys = True"

definition peer_public_key :: "certificate_der \<Rightarrow> bytes option" where
  "peer_public_key peer_certificate = public_key_from_ed25519_spki peer_certificate"

definition rpk_certified_key :: "('hash, 'hkdf, 'aead, 'group, 'verif, 'rng, 'signer) rustcrypto
    \<Rightarrow> 'signer rpk_identity \<Rightarrow> ('signer certified_key, tls_error) result" where
  "rpk_certified_key R i =
     (case (case rpk_signer_of i of
              Ed25519Pkcs8 key_der \<Rightarrow> any_eddsa_type R key_der
            | Rpk_External signer \<Rightarrow> Ok signer) of
        Err e \<Rightarrow> Err e
      | Ok signer \<Rightarrow> Ok \<lparr>ck_cert = [rpk_spki_der i], ck_key = signer\<rparr>)"

section \<open>Configurations\<close>

datatype protocol_version = TLSv1_3 | OtherVersion u16

type_synonym ('h, 'k, 'a, 'g, 'v, 'r, 's) provider =
  "(('h, 'k, 'a) supported_cipher_suite, 'g, 'v, 'r, 's) crypto_provider"

datatype ('roots, 'v) server_auth =
    WithRootCertificates 'roots
  | WithCustomVerifier "'v rpk_server_verifier"

datatype 's client_auth = NoClientAuth | ClientRawPublicKeys "'s certified_key"

record ('h, 'k, 'a, 'g, 'v, 'r, 's, 'roots) client_config =
  cc_provider :: "('h, 'k, 'a, 'g, 'v, 'r, 's) provider"
  cc_versions :: "protocol_version list"
  cc_server_auth :: "('roots, 'v) server_auth"
  cc_client_auth :: "'s client_auth"

datatype 'v client_verification = NoClientCert | VerifyRpkClients "'v rpk_client_verifier"

datatype 's cert_resolver =
    SingleCert "'s certified_key"
  | StaticResolver "'s certified_key"
  | ServerRawPublicKeys "'s certified_key"

record ('h, 'k, 'a, 'g, 'v, 'r, 's) server_config =
  sc_provider :: "('h, 'k, 'a, 'g, 'v, 'r, 's) provider"
  sc_versions :: "protocol_version list"
  sc_client_verification :: "'v client_verification"
  sc_resolver :: "'s cert_resolver"

text \<open>The QUIC constructors also set ALPN and the early-data fields.\<close>

record ('h, 'k, 'a, 'g, 'v, 'r, 's, 'roots) quic_client_config =
  "('h, 'k, 'a, 'g, 'v, 'r, 's, 'roots) client_config" +
  qc_alpn_protocols :: "bytes list"
  enable_early_data :: bool

record ('h, 'k, 'a, 'g, 'v, 'r, 's) quic_server_config =
  "('h, 'k, 'a, 'g, 'v, 'r, 's) server_config" +
  qs_alpn_protocols :: "bytes list"
  max_early_data_size :: u32

text \<open>
  The builder steps that can fail: \<open>with_protocol_versions\<close>, which the sources expect to succeed
  for TLS 1.3, and \<open>with_single_cert\<close>, which loads the key with the provider's key loader.
\<close>

record ('h, 'k, 'a, 'g, 'v, 'r, 's) builder_ops =
  supports_versions :: "('h, 'k, 'a, 'g, 'v, 'r, 's) provider \<Rightarrow> protocol_version list \<Rightarrow> bool"
  with_single_cert :: "('h, 'k, 'a, 'g, 'v, 'r, 's) provider \<Rightarrow> certificate_der list \<Rightarrow> private_key_der
    \<Rightarrow> ('s certified_key, tls_error) result"

text \<open>
  The start every constructor shares:
  \<open>builder_with_provider(provider()).with_protocol_versions(&[&TLS13]).expect(..)\<close>.
\<close>

definition tls13_builder :: "('h, 'k, 'a, 'g, 'v, 'r, 's) builder_ops
    \<Rightarrow> ('h, 'k, 'a, 'g, 'v, 'r, 's) provider or_panic \<Rightarrow> ('h, 'k, 'a, 'g, 'v, 'r, 's) provider or_panic" where
  "tls13_builder B prov =
     (case prov of
        Inl m \<Rightarrow> Panic m
      | Inr p \<Rightarrow> if supports_versions B p [TLSv1_3] then Ok p
                 else Panic ''the profile provider supports TLS 1.3'')"

definition core_client_config :: "('h, 'k, 'a, 'g, 'v, 'r, 's) builder_ops
    \<Rightarrow> ('h, 'k, 'a, 'g, 'v, 'r, 's) rustcrypto \<Rightarrow> 'roots
    \<Rightarrow> ('h, 'k, 'a, 'g, 'v, 'r, 's, 'roots) client_config or_panic" where
  "core_client_config B R roots =
     (case tls13_builder B (core_provider R) of
        Inl m \<Rightarrow> Panic m
      | Inr p \<Rightarrow> Ok \<lparr>cc_provider = p, cc_versions = [TLSv1_3],
          cc_server_auth = WithRootCertificates roots, cc_client_auth = NoClientAuth\<rparr>)"

text \<open>How a server identity becomes a certificate resolver; the same match in both layers.\<close>

definition identity_resolver :: "('h, 'k, 'a, 'g, 'v, 'r, 's) builder_ops
    \<Rightarrow> ('h, 'k, 'a, 'g, 'v, 'r, 's) provider \<Rightarrow> 's server_identity \<Rightarrow> ('s cert_resolver, tls_error) result" where
  "identity_resolver B p identity =
     (case identity of
        SI_Ed25519 i \<Rightarrow>
          (let (chain, key) = into_parts i in
             case with_single_cert B p chain key of Err e \<Rightarrow> Err e | Ok ck \<Rightarrow> Ok (SingleCert ck))
      | SI_External chain signer \<Rightarrow> Ok (StaticResolver \<lparr>ck_cert = chain, ck_key = signer\<rparr>))"

definition static_resolver_resolve :: "'s certified_key \<Rightarrow> 'hello \<Rightarrow> 's certified_key option" where
  "static_resolver_resolve ck client_hello = Some ck"

definition core_server_config :: "('h, 'k, 'a, 'g, 'v, 'r, 's) builder_ops
    \<Rightarrow> ('h, 'k, 'a, 'g, 'v, 'r, 's) rustcrypto \<Rightarrow> 's server_identity
    \<Rightarrow> (('h, 'k, 'a, 'g, 'v, 'r, 's) server_config, tls_error) result or_panic" where
  "core_server_config B R identity =
     (case tls13_builder B (core_provider R) of
        Inl m \<Rightarrow> Panic m
      | Inr p \<Rightarrow> Ok (case identity_resolver B p identity of
            Err e \<Rightarrow> Err e
          | Ok r \<Rightarrow> Ok \<lparr>sc_provider = p, sc_versions = [TLSv1_3],
              sc_client_verification = NoClientCert, sc_resolver = r\<rparr>))"

definition rpk_client_config :: "('h, 'k, 'a, 'g, 'v, 'r, 's) builder_ops
    \<Rightarrow> ('h, 'k, 'a, 'g, 'v, 'r, 's) rustcrypto \<Rightarrow> 's rpk_identity \<Rightarrow> bytes
    \<Rightarrow> (('h, 'k, 'a, 'g, 'v, 'r, 's, 'roots) client_config, tls_error) result or_panic" where
  "rpk_client_config B R identity expected_server_key =
     (case tls13_builder B (core_provider R) of
        Inl m \<Rightarrow> Panic m
      | Inr p \<Rightarrow> Ok (case rpk_certified_key R identity of
            Err e \<Rightarrow> Err e
          | Ok ck \<Rightarrow> Ok \<lparr>cc_provider = p, cc_versions = [TLSv1_3],
              cc_server_auth = WithCustomVerifier (rpk_server_verifier_new expected_server_key
                (signature_verification_algorithms p)),
              cc_client_auth = ClientRawPublicKeys ck\<rparr>))"

definition rpk_server_config :: "('h, 'k, 'a, 'g, 'v, 'r, 's) builder_ops
    \<Rightarrow> ('h, 'k, 'a, 'g, 'v, 'r, 's) rustcrypto \<Rightarrow> 's rpk_identity
    \<Rightarrow> (('h, 'k, 'a, 'g, 'v, 'r, 's) server_config, tls_error) result or_panic" where
  "rpk_server_config B R identity =
     (case tls13_builder B (core_provider R) of
        Inl m \<Rightarrow> Panic m
      | Inr p \<Rightarrow> Ok (case rpk_certified_key R identity of
            Err e \<Rightarrow> Err e
          | Ok ck \<Rightarrow> Ok \<lparr>sc_provider = p, sc_versions = [TLSv1_3],
              sc_client_verification = VerifyRpkClients
                (rpk_client_verifier_new (signature_verification_algorithms p)),
              sc_resolver = ServerRawPublicKeys ck\<rparr>))"

section \<open>QUIC configurations\<close>

definition U32_MAX :: u32 where "U32_MAX = - 1"

definition quic_client_config :: "('h, 'k, 'a, 'g, 'v, 'r, 's) builder_ops
    \<Rightarrow> ('h, 'k, 'a, 'g, 'v, 'r, 's) rustcrypto \<Rightarrow> 'roots \<Rightarrow> bytes list
    \<Rightarrow> ('h, 'k, 'a, 'g, 'v, 'r, 's, 'roots) quic_client_config or_panic" where
  "quic_client_config B R roots alpn =
     (case tls13_builder B (quic_provider R) of
        Inl m \<Rightarrow> Panic m
      | Inr p \<Rightarrow> Ok \<lparr>cc_provider = p, cc_versions = [TLSv1_3],
          cc_server_auth = WithRootCertificates roots, cc_client_auth = NoClientAuth,
          qc_alpn_protocols = alpn, enable_early_data = True\<rparr>)"

definition quic_server_config :: "('h, 'k, 'a, 'g, 'v, 'r, 's) builder_ops
    \<Rightarrow> ('h, 'k, 'a, 'g, 'v, 'r, 's) rustcrypto \<Rightarrow> 's server_identity \<Rightarrow> bytes list
    \<Rightarrow> (('h, 'k, 'a, 'g, 'v, 'r, 's) quic_server_config, tls_error) result or_panic" where
  "quic_server_config B R identity alpn =
     (case tls13_builder B (quic_provider R) of
        Inl m \<Rightarrow> Panic m
      | Inr p \<Rightarrow> Ok (case identity_resolver B p identity of
            Err e \<Rightarrow> Err e
          | Ok r \<Rightarrow> Ok \<lparr>sc_provider = p, sc_versions = [TLSv1_3],
              sc_client_verification = NoClientCert, sc_resolver = r,
              qs_alpn_protocols = alpn, max_early_data_size = U32_MAX\<rparr>))"

definition quic_rpk_client_config :: "('h, 'k, 'a, 'g, 'v, 'r, 's) builder_ops
    \<Rightarrow> ('h, 'k, 'a, 'g, 'v, 'r, 's) rustcrypto \<Rightarrow> 's rpk_identity \<Rightarrow> bytes \<Rightarrow> bytes list
    \<Rightarrow> (('h, 'k, 'a, 'g, 'v, 'r, 's, 'roots) quic_client_config, tls_error) result or_panic" where
  "quic_rpk_client_config B R identity expected_server_key alpn =
     (case tls13_builder B (quic_provider R) of
        Inl m \<Rightarrow> Panic m
      | Inr p \<Rightarrow> Ok (case rpk_certified_key R identity of
            Err e \<Rightarrow> Err e
          | Ok ck \<Rightarrow> Ok \<lparr>cc_provider = p, cc_versions = [TLSv1_3],
              cc_server_auth = WithCustomVerifier (rpk_server_verifier_new expected_server_key
                (signature_verification_algorithms p)),
              cc_client_auth = ClientRawPublicKeys ck,
              qc_alpn_protocols = alpn, enable_early_data = True\<rparr>))"

definition quic_rpk_server_config :: "('h, 'k, 'a, 'g, 'v, 'r, 's) builder_ops
    \<Rightarrow> ('h, 'k, 'a, 'g, 'v, 'r, 's) rustcrypto \<Rightarrow> 's rpk_identity \<Rightarrow> bytes list
    \<Rightarrow> (('h, 'k, 'a, 'g, 'v, 'r, 's) quic_server_config, tls_error) result or_panic" where
  "quic_rpk_server_config B R identity alpn =
     (case tls13_builder B (quic_provider R) of
        Inl m \<Rightarrow> Panic m
      | Inr p \<Rightarrow> Ok (case rpk_certified_key R identity of
            Err e \<Rightarrow> Err e
          | Ok ck \<Rightarrow> Ok \<lparr>sc_provider = p, sc_versions = [TLSv1_3],
              sc_client_verification = VerifyRpkClients
                (rpk_client_verifier_new (signature_verification_algorithms p)),
              sc_resolver = ServerRawPublicKeys ck,
              qs_alpn_protocols = alpn, max_early_data_size = U32_MAX\<rparr>))"

section \<open>Laws\<close>

lemma verify_server_cert_Ok:
  "verify_server_cert v ee ims name ocsp now = Ok () \<longleftrightarrow> ims = [] \<and> ee = expected_spki v"
  by (simp add: verify_server_cert_def)

lemma verify_client_cert_Ok:
  "verify_client_cert v ee ims now = Ok () \<longleftrightarrow> ims = [] \<and> peer_public_key ee \<noteq> None"
  by (simp add: verify_client_cert_def peer_public_key_def)

lemma rpk_certified_key_Ok:
  assumes "rpk_certified_key R i = Ok ck"
  shows "ck_cert ck = [rpk_spki_der i]"
    and "rpk_signer_of i = Ed25519Pkcs8 k \<Longrightarrow> any_eddsa_type R k = Ok (ck_key ck)"
    and "rpk_signer_of i = Rpk_External s \<Longrightarrow> ck_key ck = s"
  using assms by (auto simp: rpk_certified_key_def split: sum.splits rpk_signer.splits)

lemma peer_public_key_spki:
  "length k = 32 \<Longrightarrow> peer_public_key (ed25519_spki k) = Some k"
  by (simp add: peer_public_key_def spki_decode_iff)

lemma core_provider_total:
  "(\<exists>p. core_provider R = Ok p) \<longleftrightarrow>
     set CIPHER_SUITES \<subseteq> suite_id ` set (cipher_suites (base_provider R)) \<and>
     set KEY_EXCHANGE_GROUPS \<subseteq> kx_name R ` set (kx_groups (base_provider R))"
proof -
  let ?xs = "map (\<lambda>i. List.find (\<lambda>s. suite_id s = i) (cipher_suites (base_provider R))) CIPHER_SUITES"
  let ?m = "''rustls-rustcrypto provides every profile cipher suite''"
  have "(\<exists>p. core_provider R = Ok p) \<longleftrightarrow>
      (\<exists>ss. collect_expect ?m ?xs = Ok ss) \<and> (\<exists>gs. profile_kx_groups R = Ok gs)"
    by (auto simp: core_provider_def split: sum.splits)
  then show ?thesis
    by (simp only: collect_expect_total find_None_mem profile_kx_groups_total not_not)
qed

lemma tls13_builder_Ok: "tls13_builder B prov = Ok p \<Longrightarrow> prov = Ok p"
  by (auto simp: tls13_builder_def split: sum.splits if_splits)

text \<open>\<open>with_single_cert\<close> presents the chain it is given and loads the key with the provider's loader.\<close>

definition single_cert_ok :: "('h, 'k, 'a, 'g, 'v, 'r, 's) builder_ops \<Rightarrow> bool" where
  "single_cert_ok B \<longleftrightarrow> (\<forall>p chain key ck. with_single_cert B p chain key = Ok ck \<longrightarrow>
     ck_cert ck = chain \<and> key_provider p key = Ok (ck_key ck))"

primrec resolver_key :: "'s cert_resolver \<Rightarrow> 's certified_key" where
  "resolver_key (SingleCert ck) = ck"
| "resolver_key (StaticResolver ck) = ck"
| "resolver_key (ServerRawPublicKeys ck) = ck"

text \<open>
  What a server identity allows a configuration to sign with: the key the EdDSA loader makes of
  the identity's own PKCS#8 document, or the external signer.
\<close>

definition permitted_key :: "('h, 'k, 'a, 'g, 'v, 'r, 's) rustcrypto \<Rightarrow> 's server_identity
    \<Rightarrow> 's certified_key \<Rightarrow> bool" where
  "permitted_key R identity ck \<longleftrightarrow>
     (case identity of
        SI_Ed25519 i \<Rightarrow> ck_cert ck = eid_chain i \<and> any_eddsa_type R (eid_key_der i) = Ok (ck_key ck)
      | SI_External chain signer \<Rightarrow> ck_cert ck = chain \<and> ck_key ck = signer)"

lemma identity_resolver_permitted:
  assumes "single_cert_ok B" and "key_provider p = any_eddsa_type R"
    and "identity_resolver B p identity = Ok r"
  shows "permitted_key R identity (resolver_key r)"
proof (cases identity)
  case (SI_Ed25519 i)
  with assms(3) obtain ck where "r = SingleCert ck"
    and "with_single_cert B p (eid_chain i) (eid_key_der i) = Ok ck"
    by (auto simp: identity_resolver_def into_parts_def split: sum.splits)
  moreover from this assms(1) have "ck_cert ck = eid_chain i"
    and "key_provider p (eid_key_der i) = Ok (ck_key ck)" unfolding single_cert_ok_def by blast+
  ultimately show ?thesis using SI_Ed25519 assms(2) by (simp add: permitted_key_def)
next
  case (SI_External chain signer)
  with assms(3) show ?thesis by (auto simp: identity_resolver_def permitted_key_def)
qed

text \<open>
  The contract of a raw-public-key deployment, independent of the layer that builds it: the
  client pins one key and presents its own, the server admits well-formed keys and presents its
  own. Both the core configurations and the QUIC ones provide it.
\<close>

locale rpk_deployment =
  fixes mk_client :: "'env \<Rightarrow> 's rpk_identity \<Rightarrow> bytes \<Rightarrow> 'ccfg option"
    and mk_server :: "'env \<Rightarrow> 's rpk_identity \<Rightarrow> 'scfg option"
    and pins :: "'ccfg \<Rightarrow> 'v rpk_server_verifier \<Rightarrow> bool"
    and admits :: "'scfg \<Rightarrow> 'v rpk_client_verifier \<Rightarrow> bool"
    and client_presents :: "'ccfg \<Rightarrow> certificate_der list \<Rightarrow> bool"
    and server_presents :: "'scfg \<Rightarrow> certificate_der list \<Rightarrow> bool"
  assumes client_pin: "mk_client E i k = Some c \<Longrightarrow> \<exists>v. pins c v"
    and pin_key: "mk_client E i k = Some c \<Longrightarrow> pins c v \<Longrightarrow> expected_spki v = ed25519_spki k"
    and client_cert: "mk_client E i k = Some c \<Longrightarrow> client_presents c chain \<longleftrightarrow> chain = [rpk_spki_der i]"
    and server_admits: "mk_server E i = Some s \<Longrightarrow> \<exists>v. admits s v"
    and server_cert: "mk_server E i = Some s \<Longrightarrow> server_presents s chain \<longleftrightarrow> chain = [rpk_spki_der i]"
begin

lemma peers_admit_each_other:
  assumes c: "mk_client E ci k = Some c" and s: "mk_server E' si = Some s"
    and wf: "rpk_wf ci" "rpk_wf si"
    and v: "pins c v" and w: "admits s w"
    and cc: "client_presents c [ccert]" and sc: "server_presents s [scert]"
  shows "verify_client_cert w ccert [] now = Ok ()" and "peer_public_key ccert = Some (rpk_public_key ci)"
    and "verify_server_cert v scert [] name ocsp now = Ok () \<longleftrightarrow> k = rpk_public_key si"
proof -
  have cert: "ccert = rpk_spki_der ci" "scert = rpk_spki_der si"
    using client_cert [OF c] server_cert [OF s] cc sc by auto
  show key: "peer_public_key ccert = Some (rpk_public_key ci)"
    using wf(1) by (simp add: cert peer_public_key_def rpk_wf_def)
  then show "verify_client_cert w ccert [] now = Ok ()" by (simp add: verify_client_cert_Ok)
  show "verify_server_cert v scert [] name ocsp now = Ok () \<longleftrightarrow> k = rpk_public_key si"
    using pin_key [OF c v] by (auto simp: verify_server_cert_Ok cert rpk_spki_der_def)
qed

end

definition ok_ok :: "('a, 'e) result or_panic \<Rightarrow> 'a option" where
  "ok_ok r = (case r of Inr (Inr x) \<Rightarrow> Some x | _ \<Rightarrow> None)"

lemma ok_ok_eq_Some: "ok_ok r = Some x \<longleftrightarrow> r = Ok (Ok x)"
  by (auto simp: ok_ok_def split: sum.splits)

lemmas rpk_config_defs = rpk_client_config_def rpk_server_config_def quic_rpk_client_config_def
  quic_rpk_server_config_def

interpretation core_rpk: rpk_deployment
  "\<lambda>(B, R) i k. ok_ok (rpk_client_config B R i k)"
  "\<lambda>(B, R) i. ok_ok (rpk_server_config B R i)"
  "\<lambda>c v. cc_server_auth c = WithCustomVerifier v"
  "\<lambda>s v. sc_client_verification s = VerifyRpkClients v"
  "\<lambda>c chain. \<exists>ck. cc_client_auth c = ClientRawPublicKeys ck \<and> chain = ck_cert ck"
  "\<lambda>s chain. \<exists>ck. sc_resolver s = ServerRawPublicKeys ck \<and> chain = ck_cert ck"
  by unfold_locales
    (auto simp: ok_ok_eq_Some rpk_config_defs rpk_server_verifier_new_def split: sum.splits;
      erule rpk_certified_key_Ok(1) rpk_certified_key_Ok(1) [symmetric])+

interpretation quic_rpk: rpk_deployment
  "\<lambda>(B, R) i k. ok_ok (quic_rpk_client_config B R i k (alpn :: bytes list))"
  "\<lambda>(B, R) i. ok_ok (quic_rpk_server_config B R i alpn)"
  "\<lambda>c v. cc_server_auth c = WithCustomVerifier v"
  "\<lambda>s v. sc_client_verification s = VerifyRpkClients v"
  "\<lambda>c chain. \<exists>ck. cc_client_auth c = ClientRawPublicKeys ck \<and> chain = ck_cert ck"
  "\<lambda>s chain. \<exists>ck. sc_resolver s = ServerRawPublicKeys ck \<and> chain = ck_cert ck"
  for alpn
  by unfold_locales
    (auto simp: ok_ok_eq_Some rpk_config_defs rpk_server_verifier_new_def split: sum.splits;
      erule rpk_certified_key_Ok(1) rpk_certified_key_Ok(1) [symmetric])+

section \<open>A concrete environment\<close>

type_synonym demo_suite = "(unit, unit, unit) supported_cipher_suite"

definition demo_tls13 :: "cipher_suite \<Rightarrow> demo_suite" where
  "demo_tls13 c = Tls13 \<lparr>suite = c, hash_provider = (), suite_confidentiality_limit = 8,
     hkdf_provider = (), aead_alg = (), quic = None\<rparr>"

definition demo_rustcrypto :: "(unit, unit, unit, named_group, nat, unit, bytes) rustcrypto" where
  "demo_rustcrypto = \<lparr>base_provider = \<lparr>
       cipher_suites = [demo_tls13 TLS13_AES_128_GCM_SHA256, Tls12 (OtherSuite 3),
         demo_tls13 TLS13_CHACHA20_POLY1305_SHA256],
       kx_groups = [secp256r1, OtherGroup 9, X25519],
       signature_verification_algorithms = 4, secure_random = (), key_provider = (\<lambda>k. Ok [])\<rparr>,
     base_chacha = demo_tls13 TLS13_CHACHA20_POLY1305_SHA256,
     base_aes = demo_tls13 TLS13_AES_128_GCM_SHA256,
     kx_name = (\<lambda>g. g),
     any_eddsa_type = (\<lambda>k. if length (secret_der k) = 32 then Ok (secret_der k)
        else Err (General ''not an Ed25519 key''))\<rparr>"

definition demo_builder :: "(unit, unit, unit, named_group, nat, unit, bytes) builder_ops" where
  "demo_builder = \<lparr>supports_versions = (\<lambda>p vs. vs = [TLSv1_3]),
     with_single_cert = (\<lambda>p chain key. case key_provider p key of
        Err e \<Rightarrow> Err e | Ok s \<Rightarrow> Ok \<lparr>ck_cert = chain, ck_key = s\<rparr>)\<rparr>"

lemma demo_builder_single_cert_ok: "single_cert_ok demo_builder"
  by (auto simp: single_cert_ok_def demo_builder_def split: sum.splits)

lemmas demo_rpk_simps = demo_rustcrypto_def demo_builder_def demo_tls13_def demo_rpk_def
  core_provider_def profile_kx_groups_def CIPHER_SUITES_def KEY_EXCHANGE_GROUPS_def suite_id_def
  rpk_certified_key_def rpk_signer_of_def tls13_builder_def

section \<open>Properties\<close>

text \<open>
  The core provider is the profile: assembling it panics exactly when rustls-rustcrypto lacks
  a profile suite or group, and otherwise it offers exactly the profile's suites and groups in
  the profile's preference order, each taken from the base provider, and loads keys only with
  the EdDSA loader.
\<close>

theorem core_provider_is_the_profile:
  "((\<exists>p. core_provider R = Ok p) \<longleftrightarrow>
      set CIPHER_SUITES \<subseteq> suite_id ` set (cipher_suites (base_provider R)) \<and>
      set KEY_EXCHANGE_GROUPS \<subseteq> kx_name R ` set (kx_groups (base_provider R))) \<and>
   (\<forall>p. core_provider R = Ok p \<longrightarrow>
      map suite_id (cipher_suites p) = CIPHER_SUITES \<and>
      set (cipher_suites p) \<subseteq> set (cipher_suites (base_provider R)) \<and>
      map (kx_name R) (kx_groups p) = KEY_EXCHANGE_GROUPS \<and>
      key_provider p = any_eddsa_type R)"
proof (intro conjI allI impI)
  show "(\<exists>p. core_provider R = Ok p) \<longleftrightarrow>
      set CIPHER_SUITES \<subseteq> suite_id ` set (cipher_suites (base_provider R)) \<and>
      set KEY_EXCHANGE_GROUPS \<subseteq> kx_name R ` set (kx_groups (base_provider R))"
    by (simp only: core_provider_total)
next
  fix p assume p: "core_provider R = Ok p"
  show "map suite_id (cipher_suites p) = CIPHER_SUITES" by (rule core_delivery.make_suites [OF p])
  show "set (cipher_suites p) \<subseteq> set (cipher_suites (base_provider R))"
    by (rule core_provider_Ok(2) [OF p])
  show "map (kx_name R) (kx_groups p) = KEY_EXCHANGE_GROUPS" by (rule core_delivery.make_groups [OF p])
  show "key_provider p = any_eddsa_type R" by (rule core_delivery.make_loader [OF p])
qed

theorem core_provider_is_the_profile_witness:
  "\<exists>p. core_provider demo_rustcrypto = Ok p \<and> map suite_id (cipher_suites p) = CIPHER_SUITES"
proof -
  obtain p where p: "core_provider demo_rustcrypto = Ok p" by (simp add: demo_rpk_simps)
  with core_provider_is_the_profile [of demo_rustcrypto] show ?thesis by blast
qed

text \<open>
  The QUIC provider is the same profile with packet protection: its suites are the profile's
  in order, each is a TLS 1.3 suite that carries the packet-protection algorithm of its own
  cipher and keeps the hash, HKDF, AEAD and limit of the base suite it rebuilds, and its groups
  and key loader are those of the core provider.
\<close>

theorem quic_provider_is_the_profile:
  assumes "quic_provider R = Ok p"
  shows "map suite_id (cipher_suites p) = CIPHER_SUITES \<and>
    map (kx_name R) (kx_groups p) = KEY_EXCHANGE_GROUPS \<and> key_provider p = any_eddsa_type R \<and>
    (\<exists>bc ba. base_chacha R = Tls13 bc \<and> base_aes R = Tls13 ba \<and>
       cipher_suites p =
         [Tls13 (bc\<lparr>suite := TLS13_CHACHA20_POLY1305_SHA256, quic := Some ChaCha20Poly1305Algorithm\<rparr>),
          Tls13 (ba\<lparr>suite := TLS13_AES_128_GCM_SHA256, quic := Some Aes128GcmAlgorithm\<rparr>)])"
  using quic_delivery.make_suites [OF assms] quic_delivery.make_groups [OF assms]
    quic_delivery.make_loader [OF assms] quic_provider_Ok(1) [OF assms]
  by (auto simp: quic_chacha_suite_def quic_aes_suite_def tls13_suite_def
      split: sum.splits supported_cipher_suite.splits)

theorem quic_provider_is_the_profile_witness:
  "\<exists>p. quic_provider demo_rustcrypto = Ok p \<and> map suite_id (cipher_suites p) = CIPHER_SUITES"
proof -
  obtain p where p: "quic_provider demo_rustcrypto = Ok p"
    by (simp add: demo_rpk_simps quic_provider_def quic_chacha_suite_def quic_aes_suite_def tls13_suite_def)
  with quic_provider_is_the_profile [OF p] show ?thesis by blast
qed



text \<open>
  The signing policy holds in every server configuration: the core and the QUIC
  constructors present the identity's chain and sign either with the key the EdDSA loader makes
  of the identity's own document or with the external signer, never with anything else.
\<close>

theorem server_config_signing_policy:
  assumes "single_cert_ok B"
  shows "(core_server_config B R identity = Ok (Ok c) \<longrightarrow>
      sc_versions c = [TLSv1_3] \<and> permitted_key R identity (resolver_key (sc_resolver c))) \<and>
    (quic_server_config B R identity alpn = Ok (Ok q) \<longrightarrow>
      sc_versions q = [TLSv1_3] \<and> permitted_key R identity (resolver_key (sc_resolver q)))"
proof (intro conjI impI)
  assume "core_server_config B R identity = Ok (Ok c)"
  then obtain p where "tls13_builder B (core_provider R) = Ok p"
    and "identity_resolver B p identity = Ok (sc_resolver c)" and v: "sc_versions c = [TLSv1_3]"
    by (auto simp: core_server_config_def split: sum.splits)
  then show "permitted_key R identity (resolver_key (sc_resolver c))"
    using identity_resolver_permitted [OF assms] core_delivery.make_loader tls13_builder_Ok by metis
  show "sc_versions c = [TLSv1_3]" by (rule v)
next
  assume "quic_server_config B R identity alpn = Ok (Ok q)"
  then obtain p where "tls13_builder B (quic_provider R) = Ok p"
    and "identity_resolver B p identity = Ok (sc_resolver q)" and v: "sc_versions q = [TLSv1_3]"
    by (auto simp: quic_server_config_def split: sum.splits)
  then show "permitted_key R identity (resolver_key (sc_resolver q))"
    using identity_resolver_permitted [OF assms] quic_delivery.make_loader tls13_builder_Ok by metis
  show "sc_versions q = [TLSv1_3]" by (rule v)
qed

theorem server_config_signing_policy_witness:
  "\<exists>c. core_server_config demo_builder demo_rustcrypto (SI_External [[1]] [2]) = Ok (Ok c) \<and>
    permitted_key demo_rustcrypto (SI_External [[1]] [2]) (resolver_key (sc_resolver c))"
proof -
  obtain c where c: "core_server_config demo_builder demo_rustcrypto (SI_External [[1]] [2]) = Ok (Ok c)"
    by (simp add: demo_rpk_simps core_server_config_def identity_resolver_def)
  with server_config_signing_policy [OF demo_builder_single_cert_ok] show ?thesis by metis
qed

end
