(* ===== verification/Pump.thy ===== *)
theory Pump
  imports Prelude
begin

text \<open>
  The connection pump of the \<open>polymorph:tls\<close> component
  (\<^verbatim>\<open>src/rust/component/src/pump.rs\<close>): the wiring of stream ends, the one-shot handshake signal, the
  loops over the rustls connection, and the three cooperative tasks. A task runs uninterrupted between
  two \<open>await\<close> points, so one such stretch is one step of the relation \<open>pstep\<close>. The rustls connection
  is a parameter; its loops are partial functions (\<open>None\<close> when a loop does not end).
\<close>

section \<open>Wiring\<close>

record ('st, 'sw, 'fw) wired =
  w_cleartext_in :: "'st option"
  w_ciphertext_out :: "'sw option"
  w_send_done :: "'fw option"
  w_ciphertext_in :: "'st option"
  w_cleartext_out :: "'sw option"
  w_recv_done :: "'fw option"

record ('st, 'sw, 'fw) complete_wiring =
  cleartext_in :: 'st
  ciphertext_out :: 'sw
  send_done :: 'fw
  ciphertext_in :: 'st
  cleartext_out :: 'sw
  recv_done :: 'fw

definition wired_default :: "('st, 'sw, 'fw) wired" where
  "wired_default = \<lparr>w_cleartext_in = None, w_ciphertext_out = None, w_send_done = None,
     w_ciphertext_in = None, w_cleartext_out = None, w_recv_done = None\<rparr>"

text \<open>The new stream and future come as pairs of a writer, which is kept, and a reader.\<close>

definition wire_send :: "'st \<Rightarrow> 'sw \<times> 'st \<Rightarrow> 'fw \<times> 'fr \<Rightarrow> ('st, 'sw, 'fw) wired \<Rightarrow>
    ('st \<times> 'fr) \<times> ('st, 'sw, 'fw) wired" where
  "wire_send cleartext stream fut w =
     ((snd stream, snd fut),
      w\<lparr>w_cleartext_in := Some cleartext, w_ciphertext_out := Some (fst stream), w_send_done := Some (fst fut)\<rparr>)"

definition wire_receive :: "'st \<Rightarrow> 'sw \<times> 'st \<Rightarrow> 'fw \<times> 'fr \<Rightarrow> ('st, 'sw, 'fw) wired \<Rightarrow>
    ('st \<times> 'fr) \<times> ('st, 'sw, 'fw) wired" where
  "wire_receive ciphertext stream fut w =
     ((snd stream, snd fut),
      w\<lparr>w_ciphertext_in := Some ciphertext, w_cleartext_out := Some (fst stream), w_recv_done := Some (fst fut)\<rparr>)"

text \<open>\<open>take_complete\<close> takes the fields one after the other and returns at the first that is missing.\<close>

definition take_complete :: "('st, 'sw, 'fw) wired \<Rightarrow>
    ('st, 'sw, 'fw) complete_wiring option \<times> ('st, 'sw, 'fw) wired" where
  "take_complete w =
     (case w_cleartext_in w of None \<Rightarrow> (None, w) | Some a \<Rightarrow>
        let w = w\<lparr>w_cleartext_in := None\<rparr> in
      case w_ciphertext_out w of None \<Rightarrow> (None, w) | Some b \<Rightarrow>
        let w = w\<lparr>w_ciphertext_out := None\<rparr> in
      case w_send_done w of None \<Rightarrow> (None, w) | Some c \<Rightarrow>
        let w = w\<lparr>w_send_done := None\<rparr> in
      case w_ciphertext_in w of None \<Rightarrow> (None, w) | Some d \<Rightarrow>
        let w = w\<lparr>w_ciphertext_in := None\<rparr> in
      case w_cleartext_out w of None \<Rightarrow> (None, w) | Some e \<Rightarrow>
        let w = w\<lparr>w_cleartext_out := None\<rparr> in
      case w_recv_done w of None \<Rightarrow> (None, w) | Some f \<Rightarrow>
        (Some \<lparr>cleartext_in = a, ciphertext_out = b, send_done = c, ciphertext_in = d,
           cleartext_out = e, recv_done = f\<rparr>, w\<lparr>w_recv_done := None\<rparr>))"

section \<open>The rustls connection\<close>

text \<open>
  \<open>write_tls\<close> returns the record bytes it put into the buffer, \<open>read_tls\<close> how many bytes of the cursor
  it took, \<open>process_new_packets\<close> whether the peer has closed, \<open>reader_read\<close> the bytes of one read.
\<close>

datatype read_outcome = Read_Ok bytes | Read_WouldBlock | Read_UnexpectedEof | Read_Err

record 'c conn_ops =
  is_handshaking :: "'c \<Rightarrow> bool"
  alpn_protocol :: "'c \<Rightarrow> bytes option"
  server_side_name :: "'c \<Rightarrow> string option"   \<comment> \<open>\<open>None\<close> on a client\<close>
  wants_write :: "'c \<Rightarrow> bool"
  write_tls :: "'c \<Rightarrow> (bytes, unit) result \<times> 'c"
  read_tls :: "bytes \<Rightarrow> 'c \<Rightarrow> (nat, string) result \<times> 'c"
  process_new_packets :: "'c \<Rightarrow> (bool, string) result \<times> 'c"
  reader_read :: "'c \<Rightarrow> read_outcome \<times> 'c"
  writer_write_all :: "bytes \<Rightarrow> 'c \<Rightarrow> (unit, string) result \<times> 'c"
  send_close_notify :: "'c \<Rightarrow> 'c"

partial_function (option) drain_tls_writes ::
    "'c conn_ops \<Rightarrow> 'c \<Rightarrow> bytes list \<Rightarrow> ('c \<times> bytes list) option" where
  "drain_tls_writes ops c sink =
     (if \<not> wants_write ops c then Some (c, sink)
      else case write_tls ops c of
          (Inr buf, c) \<Rightarrow> if buf = [] then Some (c, sink) else drain_tls_writes ops c (sink @ [buf])
        | (Inl e, c) \<Rightarrow> Some (c, sink))"

partial_function (option) read_plaintext_loop ::
    "'c conn_ops \<Rightarrow> 'c \<Rightarrow> bytes \<Rightarrow> (bytes \<times> bool \<times> 'c) option" where
  "read_plaintext_loop ops c plaintext =
     (case reader_read ops c of
        (Read_Ok buf, c) \<Rightarrow>
          if buf = [] then Some (plaintext, True, c) else read_plaintext_loop ops c (plaintext @ buf)
      | (_, c) \<Rightarrow> Some (plaintext, False, c))"

definition read_available_plaintext :: "'c conn_ops \<Rightarrow> 'c \<Rightarrow> (bytes \<times> bool \<times> 'c) option" where
  "read_available_plaintext ops c = read_plaintext_loop ops c []"

section \<open>The handshake signal\<close>

record handshake_outcome =
  ho_alpn_protocol :: "bytes option"
  ho_server_name :: "string option"

text \<open>The sender, while it is there, and what was sent on it.\<close>

record hs_signal =
  hs_tx :: bool
  hs_sent :: "(handshake_outcome, string) result list"

definition hs_check :: "'c conn_ops \<Rightarrow> 'c \<Rightarrow> hs_signal \<Rightarrow> hs_signal" where
  "hs_check ops c hs =
     (if is_handshaking ops c then hs
      else if hs_tx hs then
        \<lparr>hs_tx = False, hs_sent = hs_sent hs @ [Ok \<lparr>ho_alpn_protocol = alpn_protocol ops c,
           ho_server_name = server_side_name ops c\<rparr>]\<rparr>
      else hs)"

definition hs_fail :: "string \<Rightarrow> hs_signal \<Rightarrow> hs_signal" where
  "hs_fail message hs = (if hs_tx hs then \<lparr>hs_tx = False, hs_sent = hs_sent hs @ [Err message]\<rparr> else hs)"

section \<open>The tasks\<close>

datatype rd_status = Rd_Completed | Rd_Dropped | Rd_Cancelled

definition rd_ended :: "rd_status \<Rightarrow> bool" where
  "rd_ended status \<longleftrightarrow> status = Rd_Dropped \<or> status = Rd_Cancelled"

text \<open>A \<open>types.error\<close> is its rendered diagnostic.\<close>

type_synonym tls_verdict = "(unit, string) result"

datatype reader_pc =
    R_Read                                        \<comment> \<open>awaits the next ciphertext\<close>
  | R_Deliver bytes "string option" rd_status     \<comment> \<open>awaits the consumer taking the plaintext\<close>
  | R_Verdict tls_verdict                         \<comment> \<open>awaits the verdict's rendezvous\<close>
  | R_Done tls_verdict

datatype writer_pc = W_Read | W_Verdict tls_verdict | W_Done tls_verdict

datatype transmit_pc = T_Next | T_Write bytes | T_Done

text \<open>
  The state the three tasks share, which stream ends and queue sinks are still held, and three
  histories: the plaintext handed to the consumer, the cleartext taken from it, and the ciphertext
  handed to the transport.
\<close>

record 'c pump =
  p_conn :: 'c
  p_queue :: "bytes list"
  p_hs :: hs_signal
  p_clean :: bool
  p_reader :: reader_pc
  p_writer :: writer_pc
  p_transmit :: transmit_pc
  p_ciphertext_in :: bool
  p_cleartext_out :: bool
  p_cleartext_in :: bool
  p_ciphertext_out :: bool
  p_reader_sink :: bool
  p_writer_sink :: bool
  p_handed :: bytes
  p_taken :: bytes
  p_sent :: bytes

definition pump_new :: "'c conn_ops \<Rightarrow> 'c \<Rightarrow> 'c pump option" where
  "pump_new ops c =
     (case drain_tls_writes ops c [] of
        None \<Rightarrow> None
      | Some (c, q) \<Rightarrow> Some \<lparr>p_conn = c, p_queue = q, p_hs = \<lparr>hs_tx = True, hs_sent = []\<rparr>, p_clean = False,
          p_reader = R_Read, p_writer = W_Read, p_transmit = T_Next,
          p_ciphertext_in = True, p_cleartext_out = True, p_cleartext_in = True, p_ciphertext_out = True,
          p_reader_sink = True, p_writer_sink = True, p_handed = [], p_taken = [], p_sent = []\<rparr>)"

text \<open>The inner loop of the reader: the buffer into rustls, packet by packet.\<close>

partial_function (option) ingest ::
    "'c conn_ops \<Rightarrow> bytes \<Rightarrow> 'c \<Rightarrow> bytes list \<Rightarrow> bool \<Rightarrow> ('c \<times> bytes list \<times> bool \<times> string option) option" where
  "ingest ops cursor c q clean =
     (if cursor = [] then Some (c, q, clean, None)
      else case read_tls ops cursor c of
          (Inl e, c) \<Rightarrow> Some (c, q, clean, Some (''transport read failed: '' @ e))
        | (Inr n, c) \<Rightarrow>
            if n = 0 then Some (c, q, clean, None)
            else (case process_new_packets ops c of
                (Inr closed, c) \<Rightarrow>
                  (case drain_tls_writes ops c q of
                     None \<Rightarrow> None
                   | Some (c, q) \<Rightarrow> ingest ops (drop n cursor) c q (clean \<or> closed))
              | (Inl e, c) \<Rightarrow>
                  (case drain_tls_writes ops c q of
                     None \<Rightarrow> None
                   | Some (c, q) \<Rightarrow> Some (c, q, clean, Some (''TLS error: '' @ e)))))"

definition release_reader :: "tls_verdict \<Rightarrow> 'c pump \<Rightarrow> 'c pump" where
  "release_reader v st = st\<lparr>p_ciphertext_in := False, p_cleartext_out := False, p_reader_sink := False,
     p_reader := R_Verdict v\<rparr>"

text \<open>The end of the loop body, for a read that reported the stream's end, and after a delivery.\<close>

definition reader_tail :: "rd_status \<Rightarrow> 'c pump \<Rightarrow> 'c pump" where
  "reader_tail status st =
     (if rd_ended status then
        if p_clean st then release_reader (Ok ()) st
        else release_reader (Err ''transport closed without TLS close_notify (possible truncation)'')
               (st\<lparr>p_hs := hs_fail ''transport closed during handshake'' (p_hs st)\<rparr>)
      else st\<lparr>p_reader := R_Read\<rparr>)"

definition reader_after :: "string option \<Rightarrow> rd_status \<Rightarrow> 'c pump \<Rightarrow> 'c pump" where
  "reader_after failed status st =
     (case failed of
        Some message \<Rightarrow> release_reader (Err message) (st\<lparr>p_hs := hs_fail message (p_hs st)\<rparr>)
      | None \<Rightarrow> if p_clean st then release_reader (Ok ()) st else reader_tail status st)"

text \<open>A read of the reader task completed with \<open>status\<close> and \<open>buf\<close>.\<close>

definition reader_input :: "'c conn_ops \<Rightarrow> rd_status \<Rightarrow> bytes \<Rightarrow> 'c pump \<Rightarrow> 'c pump option" where
  "reader_input ops status buf st =
     (if buf = [] then Some (reader_tail status st)
      else case ingest ops buf (p_conn st) (p_queue st) (p_clean st) of
          None \<Rightarrow> None
        | Some (c, q, clean, failed) \<Rightarrow>
            let hs = hs_check ops c (p_hs st)
            in (case read_available_plaintext ops c of
                None \<Rightarrow> None
              | Some (plaintext, eof, c) \<Rightarrow>
                  let st = st\<lparr>p_conn := c, p_queue := q, p_hs := hs, p_clean := clean \<or> eof\<rparr>
                  in Some (if plaintext \<noteq> [] then st\<lparr>p_reader := R_Deliver plaintext failed status\<rparr>
                           else reader_after failed status st)))"

definition release_writer :: "tls_verdict \<Rightarrow> 'c pump \<Rightarrow> 'c pump" where
  "release_writer v st = st\<lparr>p_cleartext_in := False, p_writer_sink := False, p_writer := W_Verdict v\<rparr>"

definition writer_tail :: "'c conn_ops \<Rightarrow> rd_status \<Rightarrow> 'c pump \<Rightarrow> 'c pump option" where
  "writer_tail ops status st =
     (if rd_ended status then
        (case drain_tls_writes ops (send_close_notify ops (p_conn st)) (p_queue st) of
           None \<Rightarrow> None
         | Some (c, q) \<Rightarrow> Some (release_writer (Ok ()) (st\<lparr>p_conn := c, p_queue := q\<rparr>)))
      else Some st)"

text \<open>A read of the writer task completed with \<open>status\<close> and \<open>buf\<close>.\<close>

definition writer_input :: "'c conn_ops \<Rightarrow> rd_status \<Rightarrow> bytes \<Rightarrow> 'c pump \<Rightarrow> 'c pump option" where
  "writer_input ops status buf st =
     (if buf = [] then writer_tail ops status st
      else let st = st\<lparr>p_taken := p_taken st @ buf\<rparr>
        in (case writer_write_all ops buf (p_conn st) of
            (Inl e, c) \<Rightarrow> Some (release_writer (Err (''write failed: '' @ e)) (st\<lparr>p_conn := c\<rparr>))
          | (Inr _, c) \<Rightarrow>
              (case drain_tls_writes ops c (p_queue st) of
                 None \<Rightarrow> None
               | Some (c, q) \<Rightarrow>
                   writer_tail ops status
                     (st\<lparr>p_conn := c, p_queue := q, p_hs := hs_check ops c (p_hs st)\<rparr>))))"

inductive pstep :: "'c conn_ops \<Rightarrow> 'c pump \<Rightarrow> 'c pump \<Rightarrow> bool" for ops where
  reader_reads: "p_reader st = R_Read \<Longrightarrow> reader_input ops status buf st = Some st' \<Longrightarrow> pstep ops st st'"
| reader_delivers: "p_reader st = R_Deliver plaintext failed status \<Longrightarrow>
    pstep ops st (reader_after failed status (st\<lparr>p_handed := p_handed st @ plaintext\<rparr>))"
| reader_settles: "p_reader st = R_Verdict v \<Longrightarrow> pstep ops st (st\<lparr>p_reader := R_Done v\<rparr>)"
| writer_reads: "p_writer st = W_Read \<Longrightarrow> writer_input ops status buf st = Some st' \<Longrightarrow> pstep ops st st'"
| writer_settles: "p_writer st = W_Verdict v \<Longrightarrow> pstep ops st (st\<lparr>p_writer := W_Done v\<rparr>)"
| transmit_takes: "p_transmit st = T_Next \<Longrightarrow> p_queue st = b # q \<Longrightarrow>
    pstep ops st (st\<lparr>p_queue := q, p_transmit := T_Write b\<rparr>)"
| transmit_writes: "p_transmit st = T_Write b \<Longrightarrow>
    pstep ops st (st\<lparr>p_sent := p_sent st @ b, p_transmit := T_Next\<rparr>)"
| transmit_ends: "p_transmit st = T_Next \<Longrightarrow> p_queue st = [] \<Longrightarrow>
    \<not> p_reader_sink st \<Longrightarrow> \<not> p_writer_sink st \<Longrightarrow>
    pstep ops st (st\<lparr>p_transmit := T_Done, p_ciphertext_out := False\<rparr>)"

inductive preach :: "'c conn_ops \<Rightarrow> 'c \<Rightarrow> 'c pump \<Rightarrow> bool" for ops c0 where
  p_start: "pump_new ops c0 = Some st \<Longrightarrow> preach ops c0 st"
| p_step: "preach ops c0 st \<Longrightarrow> pstep ops st st' \<Longrightarrow> preach ops c0 st'"

text \<open>What \<open>run\<close> returns to \<open>connect\<close> and \<open>accept\<close>: it awaits the signal, whose sender it shares.\<close>

definition run_result :: "'c pump \<Rightarrow> (handshake_outcome, string) result option" where
  "run_result st = (case hs_sent (p_hs st) of [] \<Rightarrow> None | r # _ \<Rightarrow> Some r)"

section \<open>What the pump relies on\<close>

text \<open>
  Four observations of a connection: the TLS bytes it has put out, the plaintext it has returned, the
  application data it has accepted, and whether the peer's close was seen. Every call changes only
  what it is for.
\<close>

definition conn_ok :: "'c conn_ops \<Rightarrow> ('c \<Rightarrow> bytes) \<Rightarrow> ('c \<Rightarrow> bytes) \<Rightarrow> ('c \<Rightarrow> bytes) \<Rightarrow> ('c \<Rightarrow> bool) \<Rightarrow> bool" where
  "conn_ok ops out got put closed \<longleftrightarrow>
     (\<forall>c r c'. write_tls ops c = (r, c') \<longrightarrow>
        out c' = out c @ (case r of Inr d \<Rightarrow> d | Inl _ \<Rightarrow> []) \<and> got c' = got c \<and> put c' = put c \<and>
        (closed c \<longrightarrow> closed c')) \<and>
     (\<forall>buf c r c'. read_tls ops buf c = (r, c') \<longrightarrow>
        out c' = out c \<and> got c' = got c \<and> put c' = put c \<and> (closed c \<longrightarrow> closed c')) \<and>
     (\<forall>c r c'. process_new_packets ops c = (r, c') \<longrightarrow>
        out c' = out c \<and> got c' = got c \<and> put c' = put c \<and> (closed c \<or> r = Inr True \<longrightarrow> closed c')) \<and>
     (\<forall>c r c'. reader_read ops c = (r, c') \<longrightarrow>
        out c' = out c \<and> got c' = got c @ (case r of Read_Ok d \<Rightarrow> d | _ \<Rightarrow> []) \<and> put c' = put c \<and>
        (closed c \<or> r = Read_Ok [] \<longrightarrow> closed c')) \<and>
     (\<forall>buf c r c'. writer_write_all ops buf c = (r, c') \<longrightarrow>
        out c' = out c \<and> got c' = got c \<and> (\<exists>p. prefix p buf \<and> put c' = put c @ p \<and> (is_ok r \<longrightarrow> p = buf)) \<and>
        (closed c \<longrightarrow> closed c')) \<and>
     (\<forall>c. out (send_close_notify ops c) = out c \<and> got (send_close_notify ops c) = got c \<and>
        put (send_close_notify ops c) = put c \<and> (closed c \<longrightarrow> closed (send_close_notify ops c)))"

definition same_obs :: "('c \<Rightarrow> bytes) \<Rightarrow> ('c \<Rightarrow> bytes) \<Rightarrow> ('c \<Rightarrow> bytes) \<Rightarrow> ('c \<Rightarrow> bool) \<Rightarrow> 'c \<Rightarrow> 'c \<Rightarrow> bool" where
  "same_obs out got put closed c c' \<longleftrightarrow>
     out c' = out c \<and> got c' = got c \<and> put c' = put c \<and> (closed c \<longrightarrow> closed c')"

lemma conn_okD:
  assumes "conn_ok ops out got put closed"
  shows "write_tls ops c = (Inr d, c') \<Longrightarrow> out c' = out c @ d \<and> got c' = got c \<and> put c' = put c \<and> (closed c \<longrightarrow> closed c')"
    and "write_tls ops c = (Inl e, c') \<Longrightarrow> same_obs out got put closed c c'"
    and "read_tls ops buf c = (r, c') \<Longrightarrow> same_obs out got put closed c c'"
    and "process_new_packets ops c = (r', c') \<Longrightarrow> same_obs out got put closed c c' \<and> (r' = Inr True \<longrightarrow> closed c')"
    and "reader_read ops c = (Read_Ok d, c') \<Longrightarrow>
      out c' = out c \<and> got c' = got c @ d \<and> put c' = put c \<and> (closed c \<or> d = [] \<longrightarrow> closed c')"
    and "reader_read ops c = (r'', c') \<Longrightarrow> \<forall>d. r'' \<noteq> Read_Ok d \<Longrightarrow> same_obs out got put closed c c'"
    and "writer_write_all ops buf c = (r3, c') \<Longrightarrow> out c' = out c \<and> got c' = got c \<and> (closed c \<longrightarrow> closed c') \<and>
      (is_ok r3 \<longrightarrow> put c' = put c @ buf)"
    and "same_obs out got put closed c (send_close_notify ops c)"
proof -
  note k = assms [unfolded conn_ok_def]
  show "write_tls ops c = (Inr d, c') \<Longrightarrow> out c' = out c @ d \<and> got c' = got c \<and> put c' = put c \<and> (closed c \<longrightarrow> closed c')"
    using k [THEN conjunct1] by fastforce
  show "write_tls ops c = (Inl e, c') \<Longrightarrow> same_obs out got put closed c c'"
    using k [THEN conjunct1] by (fastforce simp: same_obs_def)
  show "read_tls ops buf c = (r, c') \<Longrightarrow> same_obs out got put closed c c'"
    using k by (simp add: same_obs_def)
  show "process_new_packets ops c = (r', c') \<Longrightarrow> same_obs out got put closed c c' \<and> (r' = Inr True \<longrightarrow> closed c')"
    using k by (simp add: same_obs_def)
  show "reader_read ops c = (Read_Ok d, c') \<Longrightarrow>
      out c' = out c \<and> got c' = got c @ d \<and> put c' = put c \<and> (closed c \<or> d = [] \<longrightarrow> closed c')"
    using k [THEN conjunct2, THEN conjunct2, THEN conjunct2, THEN conjunct1] by fastforce
  show "reader_read ops c = (r'', c') \<Longrightarrow> \<forall>d. r'' \<noteq> Read_Ok d \<Longrightarrow> same_obs out got put closed c c'"
    using k [THEN conjunct2, THEN conjunct2, THEN conjunct2, THEN conjunct1, rule_format, of c r'' c']
    by (cases r'') (auto simp: same_obs_def)
  show "writer_write_all ops buf c = (r3, c') \<Longrightarrow> out c' = out c \<and> got c' = got c \<and> (closed c \<longrightarrow> closed c') \<and>
      (is_ok r3 \<longrightarrow> put c' = put c @ buf)"
    using k [THEN conjunct2, THEN conjunct2, THEN conjunct2, THEN conjunct2, THEN conjunct1,
        rule_format, of buf c r3 c'] by auto
  show "same_obs out got put closed c (send_close_notify ops c)"
    using k by (simp add: same_obs_def)
qed

lemma same_obs_trans:
  "same_obs out got put closed a b \<Longrightarrow> same_obs out got put closed b c \<Longrightarrow> same_obs out got put closed a c"
  by (simp add: same_obs_def)

text \<open>The drained records are what the connection put out.\<close>

definition drained :: "('c \<Rightarrow> bytes) \<Rightarrow> ('c \<Rightarrow> bytes) \<Rightarrow> ('c \<Rightarrow> bytes) \<Rightarrow> ('c \<Rightarrow> bool) \<Rightarrow> 'c \<Rightarrow> bytes list \<Rightarrow> 'c \<Rightarrow> bytes list \<Rightarrow> bool" where
  "drained out got put closed c q c' q' \<longleftrightarrow>
     (\<exists>new. q' = q @ new \<and> out c' = out c @ concat new) \<and> got c' = got c \<and> put c' = put c \<and> (closed c \<longrightarrow> closed c')"

lemma drained_refl: "same_obs out got put closed c c' \<Longrightarrow> drained out got put closed c q c' q"
  by (auto simp: drained_def same_obs_def intro: exI [of _ "[]"])

lemma drained_trans:
  "drained out got put closed c q c1 q1 \<Longrightarrow> drained out got put closed c1 q1 c2 q2 \<Longrightarrow> drained out got put closed c q c2 q2"
  by (auto simp: drained_def)

lemma drain_tls_writes_drained:
  assumes "conn_ok ops out got put closed" and "drain_tls_writes ops c q = Some (c', q')"
  shows "drained out got put closed c q c' q'"
proof -
  let ?P = "\<lambda>ops c q r. conn_ok ops out got put closed \<longrightarrow> drained out got put closed c q (fst r) (snd r)"
  have "?P ops c q (c', q')"
  proof (rule drain_tls_writes.raw_induct [where P = ?P, OF _ assms(2)], intro impI, goal_cases)
    case (1 drain ops c q r)
    show ?case
    proof (cases "write_tls ops c")
      case (Pair w c1)
      show ?thesis
      proof (cases "\<exists>buf. wants_write ops c \<and> w = Inr buf \<and> buf \<noteq> []")
        case True
        then obtain buf where b: "w = Inr buf" and r: "drain ops c1 (q @ [buf]) = Some r"
          using 1(2) Pair by auto
        have "drained out got put closed c q c1 (q @ [buf])"
          using conn_okD(1) [OF 1(3)] Pair b by (auto simp: drained_def)
        with 1(1) [OF r] 1(3) show ?thesis by (blast intro: drained_trans)
      next
        case False
        then have "r = (c, q) \<or> r = (c1, q) \<and> (w = Inr [] \<or> (\<exists>e. w = Inl e))"
          using 1(2) Pair by (auto split: if_splits sum.splits)
        then show ?thesis
          using conn_okD(1,2) [OF 1(3)] Pair by (fastforce simp: same_obs_def intro: drained_refl)
      qed
    qed
  qed
  then show ?thesis using assms(1) by simp
qed

lemma read_plaintext_obs:
  assumes "conn_ok ops out got put closed" and "read_plaintext_loop ops c acc = Some (plaintext, eof, c')"
  shows "\<exists>new. plaintext = acc @ new \<and> got c' = got c @ new \<and> out c' = out c \<and> put c' = put c \<and>
    (closed c \<or> eof \<longrightarrow> closed c')"
proof -
  let ?Q = "\<lambda>c acc r. \<exists>new. fst r = acc @ new \<and> got (snd (snd r)) = got c @ new \<and>
     out (snd (snd r)) = out c \<and> put (snd (snd r)) = put c \<and> (closed c \<or> fst (snd r) \<longrightarrow> closed (snd (snd r)))"
  let ?P = "\<lambda>ops c acc r. conn_ok ops out got put closed \<longrightarrow> ?Q c acc r"
  have "?P ops c acc (plaintext, eof, c')"
  proof (rule read_plaintext_loop.raw_induct [where P = ?P, OF _ assms(2)], intro impI, goal_cases)
    case (1 loop ops c acc r)
    obtain res c1 where rr: "reader_read ops c = (res, c1)" by fastforce
    show ?case
    proof (cases res)
      case (Read_Ok buf)
      note obs = conn_okD(5) [OF 1(3) rr [unfolded Read_Ok]]
      show ?thesis
      proof (cases "buf = []")
        case True
        then show ?thesis using 1(2) rr Read_Ok obs by auto
      next
        case False
        then have "loop ops c1 (acc @ buf) = Some r" using 1(2) rr Read_Ok by simp
        from 1(1) [OF this] 1(3) have "?Q c1 (acc @ buf) r" by blast
        then show ?thesis using obs by auto
      qed
    qed (use 1(2) rr conn_okD(6) [OF 1(3) rr] in \<open>auto simp: same_obs_def\<close>)
  qed
  then show ?thesis using assms(1) by simp
qed

lemma ingest_obs:
  assumes "conn_ok ops out got put closed" and "ingest ops cursor c q clean = Some (c', q', clean', failed)"
    and "clean \<longrightarrow> closed c"
  shows "drained out got put closed c q c' q' \<and> (clean' \<longrightarrow> closed c') \<and> (clean \<longrightarrow> clean')"
proof -
  let ?Q = "\<lambda>c q clean r. (clean \<longrightarrow> closed c) \<longrightarrow> drained out got put closed c q (fst r) (fst (snd r)) \<and>
     (fst (snd (snd r)) \<longrightarrow> closed (fst r)) \<and> (clean \<longrightarrow> fst (snd (snd r)))"
  let ?P = "\<lambda>ops cursor c q clean r. conn_ok ops out got put closed \<longrightarrow> ?Q c q clean r"
  have "?P ops cursor c q clean (c', q', clean', failed)"
  proof (rule ingest.raw_induct [where P = ?P, OF _ assms(2)], rule impI, rule impI, goal_cases)
    case (1 loop ops cursor c q clean r)
    obtain res c1 where rd: "read_tls ops cursor c = (res, c1)" by fastforce
    have o1: "same_obs out got put closed c c1" by (rule conn_okD(3) [OF 1(3) rd])
    obtain res' c2 where pr: "process_new_packets ops c1 = (res', c2)" by fastforce
    have o2: "same_obs out got put closed c1 c2" "res' = Inr True \<Longrightarrow> closed c2"
      using conn_okD(4) [OF 1(3) pr] by auto
    have o12: "same_obs out got put closed c c2" by (rule same_obs_trans [OF o1 o2(1)])
    show ?case
    proof (cases "cursor \<noteq> [] \<and> (\<exists>n. res = Inr n \<and> n \<noteq> 0)")
      case False
      then have "r = (c, q, clean, None) \<or> (\<exists>f. r = (c1, q, clean, f))"
        using 1(2) rd by (auto split: if_splits sum.splits)
      then show ?thesis using 1(4) o1
        by (auto intro!: drained_refl) (auto simp: same_obs_def)
    next
      case True
      then obtain n where n: "res = Inr n" "n \<noteq> 0" "cursor \<noteq> []" by blast
      obtain c3 q3 where d: "drain_tls_writes ops c2 q = Some (c3, q3)"
        using 1(2) rd pr n by (cases "drain_tls_writes ops c2 q") (auto split: sum.splits)
      have d3: "drained out got put closed c q c3 q3"
        using drained_trans [OF drained_refl [OF o12] drain_tls_writes_drained [OF 1(3) d]] .
      have cl: "closed c2 \<longrightarrow> closed c3" using drain_tls_writes_drained [OF 1(3) d] by (simp add: drained_def)
      show ?thesis
      proof (cases res')
        case (Inl e)
        then have "r = (c3, q3, clean, Some (''TLS error: '' @ e))" using 1(2) rd pr n d by simp
        then show ?thesis using d3 1(4) by (auto simp: drained_def)
      next
        case (Inr pc)
        then have lp: "loop ops (drop n cursor) c3 q3 (clean \<or> pc) = Some r" using 1(2) rd pr n d by simp
        have "clean \<or> pc \<longrightarrow> closed c3" using 1(4) d3 cl o2(2) Inr by (auto simp: drained_def)
        with 1(1) [OF lp] 1(3) have "drained out got put closed c3 q3 (fst r) (fst (snd r)) \<and>
          (fst (snd (snd r)) \<longrightarrow> closed (fst r)) \<and> (clean \<or> pc \<longrightarrow> fst (snd (snd r)))" by blast
        then show ?thesis using d3 by (blast intro: drained_trans)
      qed
    qed
  qed
  then show ?thesis using assms(1,3) by simp
qed

section \<open>Invariants\<close>

fun reader_verdict :: "reader_pc \<Rightarrow> tls_verdict option" where
  "reader_verdict (R_Verdict v) = Some v"
| "reader_verdict (R_Done v) = Some v"
| "reader_verdict _ = None"

fun writer_verdict :: "writer_pc \<Rightarrow> tls_verdict option" where
  "writer_verdict W_Read = None"
| "writer_verdict (W_Verdict v) = Some v"
| "writer_verdict (W_Done v) = Some v"

fun undelivered :: "reader_pc \<Rightarrow> bytes" where
  "undelivered (R_Deliver plaintext failed status) = plaintext"
| "undelivered _ = []"

fun unsent :: "transmit_pc \<Rightarrow> bytes" where
  "unsent (T_Write b) = b"
| "unsent _ = []"

definition hs_wf :: "hs_signal \<Rightarrow> bool" where
  "hs_wf hs \<longleftrightarrow> (if hs_tx hs then hs_sent hs = [] else length (hs_sent hs) = 1)"

lemma hs_wf_ops [simp]: "hs_wf hs \<Longrightarrow> hs_wf (hs_check ops c hs)" "hs_wf hs \<Longrightarrow> hs_wf (hs_fail m hs)"
  by (auto simp: hs_wf_def hs_check_def hs_fail_def)

lemma hs_tx_ops [simp]: "\<not> hs_tx (hs_fail m hs)" "\<not> hs_tx hs \<Longrightarrow> \<not> hs_tx (hs_check ops c hs)"
  by (auto simp: hs_check_def hs_fail_def)

definition ctl_inv :: "'c pump \<Rightarrow> bool" where
  "ctl_inv st \<longleftrightarrow>
     (reader_verdict (p_reader st) = None \<longleftrightarrow> p_ciphertext_in st) \<and>
     (reader_verdict (p_reader st) = None \<longleftrightarrow> p_cleartext_out st) \<and>
     (reader_verdict (p_reader st) = None \<longleftrightarrow> p_reader_sink st) \<and>
     (writer_verdict (p_writer st) = None \<longleftrightarrow> p_cleartext_in st) \<and>
     (writer_verdict (p_writer st) = None \<longleftrightarrow> p_writer_sink st) \<and>
     (p_transmit st = T_Done \<longleftrightarrow> \<not> p_ciphertext_out st) \<and>
     (p_transmit st = T_Done \<longrightarrow> \<not> p_reader_sink st \<and> \<not> p_writer_sink st \<and> p_queue st = []) \<and>
     (reader_verdict (p_reader st) = Some (Ok ()) \<longrightarrow> p_clean st) \<and>
     (\<forall>e. reader_verdict (p_reader st) = Some (Err e) \<longrightarrow> \<not> hs_tx (p_hs st)) \<and>
     hs_wf (p_hs st)"

lemmas reader_defs = reader_tail_def reader_after_def release_reader_def
lemmas writer_defs = writer_tail_def release_writer_def

lemma ctl_inv_history [simp]:
  "ctl_inv (st\<lparr>p_taken := x\<rparr>) = ctl_inv st" "ctl_inv (st\<lparr>p_handed := x\<rparr>) = ctl_inv st"
  "ctl_inv (st\<lparr>p_sent := x\<rparr>) = ctl_inv st" "ctl_inv (st\<lparr>p_conn := c\<rparr>) = ctl_inv st"
  by (simp_all add: ctl_inv_def)

lemma ctl_inv_update:
  assumes "ctl_inv st" and "p_reader_sink st \<or> p_writer_sink st"
    and "hs_wf hs" and "\<not> hs_tx (p_hs st) \<Longrightarrow> \<not> hs_tx hs" and "p_clean st \<Longrightarrow> clean"
  shows "ctl_inv (st\<lparr>p_conn := c, p_queue := q, p_hs := hs, p_clean := clean\<rparr>)"
  using assms by (auto simp: ctl_inv_def)

lemma ctl_inv_check:
  assumes "ctl_inv st" and "p_reader_sink st \<or> p_writer_sink st" and "p_clean st \<Longrightarrow> clean"
  shows "ctl_inv (st\<lparr>p_conn := c, p_queue := q, p_hs := hs_check ops c' (p_hs st), p_clean := clean\<rparr>)"
  using assms by (intro ctl_inv_update) (auto simp: ctl_inv_def)

lemma ctl_inv_after:
  assumes "ctl_inv st" and "reader_verdict (p_reader st) = None"
  shows "ctl_inv (reader_after failed status st)" and "ctl_inv (reader_tail status st)"
  using assms by (auto simp: ctl_inv_def reader_defs split: option.split)

lemma ctl_inv_reader:
  assumes "ctl_inv st" and "p_reader st = R_Read" and "reader_input ops status buf st = Some st'"
  shows "ctl_inv st'"
proof (cases "buf = []")
  case True
  with assms show ?thesis by (auto simp: reader_input_def intro: ctl_inv_after)
next
  case False
  then obtain c q clean failed plaintext eof c' where i: "ingest ops buf (p_conn st) (p_queue st) (p_clean st) = Some (c, q, clean, failed)"
    and r: "read_available_plaintext ops c = Some (plaintext, eof, c')"
    using assms(3) by (auto simp: reader_input_def Let_def split: option.splits prod.splits)
  let ?st = "st\<lparr>p_conn := c', p_queue := q, p_hs := hs_check ops c (p_hs st), p_clean := clean \<or> eof\<rparr>"
  have "ctl_inv ?st"
    using assms(1,2) by (auto simp: ctl_inv_def)
  moreover have "st' = (if plaintext \<noteq> [] then ?st\<lparr>p_reader := R_Deliver plaintext failed status\<rparr>
      else reader_after failed status ?st)"
    using assms(3) False i r by (simp add: reader_input_def Let_def)
  ultimately show ?thesis using assms(2) ctl_inv_after(1) [of ?st] by (auto simp: ctl_inv_def)
qed

lemma ctl_inv_release_writer:
  assumes "ctl_inv st" and "p_writer st = W_Read"
  shows "ctl_inv (release_writer v st)"
  using assms by (auto simp: ctl_inv_def release_writer_def)

lemma ctl_inv_queue:
  assumes "ctl_inv st" and "p_reader_sink st \<or> p_writer_sink st"
  shows "ctl_inv (st\<lparr>p_conn := c, p_queue := q\<rparr>)"
  using assms by (auto simp: ctl_inv_def)

lemma ctl_inv_writer_tail:
  assumes "ctl_inv st" and "p_writer st = W_Read" and "writer_tail ops status st = Some st'"
  shows "ctl_inv st'"
proof -
  have "p_writer_sink st" using assms(1,2) by (simp add: ctl_inv_def)
  with assms show ?thesis
    by (auto simp: writer_tail_def split: option.splits if_splits intro!: ctl_inv_release_writer ctl_inv_queue)
qed

lemma ctl_inv_writer:
  assumes "ctl_inv st" and "p_writer st = W_Read" and "writer_input ops status buf st = Some st'"
  shows "ctl_inv st'"
proof (cases "buf = []")
  case True
  with assms show ?thesis by (auto simp: writer_input_def intro: ctl_inv_writer_tail)
next
  case False
  obtain res c where w: "writer_write_all ops buf (p_conn st) = (res, c)" by fastforce
  have ws: "p_writer_sink st" using assms(1,2) by (simp add: ctl_inv_def)
  show ?thesis
  proof (cases res)
    case (Inl e)
    then have "st' = release_writer (Err (''write failed: '' @ e)) (st\<lparr>p_taken := p_taken st @ buf, p_conn := c\<rparr>)"
      using assms(3) False w by (simp add: writer_input_def Let_def)
    then show ?thesis using assms(1,2) by (simp add: ctl_inv_release_writer)
  next
    case (Inr u)
    then obtain c' q where t: "writer_tail ops status (st\<lparr>p_taken := p_taken st @ buf, p_conn := c', p_queue := q,
        p_hs := hs_check ops c' (p_hs st)\<rparr>) = Some st'"
      using assms(3) False w by (auto simp: writer_input_def Let_def split: option.splits)
    have "ctl_inv (st\<lparr>p_taken := p_taken st @ buf, p_conn := c', p_queue := q, p_hs := hs_check ops c' (p_hs st)\<rparr>)"
      using ctl_inv_check [where st = "st\<lparr>p_taken := p_taken st @ buf\<rparr>" and clean = "p_clean st"
        and c = c' and q = q and ops = ops and c' = c'] assms(1) ws by simp
    from ctl_inv_writer_tail [OF this _ t] show ?thesis using assms(2) by simp
  qed
qed

lemma ctl_inv_step:
  assumes "ctl_inv st" and "pstep ops st st'"
  shows "ctl_inv st'"
  using assms(2)
proof cases
  case (reader_reads status buf)
  with assms(1) show ?thesis by (blast intro: ctl_inv_reader)
next
  case (reader_delivers plaintext failed status)
  have "ctl_inv (st\<lparr>p_handed := p_handed st @ plaintext\<rparr>)" using assms(1) by simp
  with reader_delivers show ?thesis by (auto intro: ctl_inv_after)
next
  case (writer_reads status buf)
  with assms(1) show ?thesis by (blast intro: ctl_inv_writer)
qed (use assms(1) in \<open>auto simp: ctl_inv_def\<close>)

lemma ctl_inv_reachable: "preach ops c0 st \<Longrightarrow> ctl_inv st"
proof (induction rule: preach.induct)
  case (p_start st)
  then show ?case by (auto simp: pump_new_def ctl_inv_def hs_wf_def split: option.splits)
qed (rule ctl_inv_step)

definition data_inv :: "('c \<Rightarrow> bytes) \<Rightarrow> ('c \<Rightarrow> bytes) \<Rightarrow> ('c \<Rightarrow> bytes) \<Rightarrow> ('c \<Rightarrow> bool) \<Rightarrow> 'c pump \<Rightarrow> bool" where
  "data_inv out got put closed st \<longleftrightarrow>
     p_sent st @ unsent (p_transmit st) @ concat (p_queue st) = out (p_conn st) \<and>
     p_handed st @ undelivered (p_reader st) = got (p_conn st) \<and>
     ((\<forall>e. writer_verdict (p_writer st) \<noteq> Some (Err e)) \<longrightarrow> p_taken st = put (p_conn st)) \<and>
     (p_clean st \<longrightarrow> closed (p_conn st))"

lemma reader_frame [simp]:
  "p_conn (reader_after failed status st) = p_conn st" "p_conn (reader_tail status st) = p_conn st"
  "p_queue (reader_after failed status st) = p_queue st" "p_queue (reader_tail status st) = p_queue st"
  "p_sent (reader_after failed status st) = p_sent st" "p_sent (reader_tail status st) = p_sent st"
  "p_handed (reader_after failed status st) = p_handed st" "p_handed (reader_tail status st) = p_handed st"
  "p_taken (reader_after failed status st) = p_taken st" "p_taken (reader_tail status st) = p_taken st"
  "p_clean (reader_after failed status st) = p_clean st" "p_clean (reader_tail status st) = p_clean st"
  "p_writer (reader_after failed status st) = p_writer st" "p_writer (reader_tail status st) = p_writer st"
  "p_transmit (reader_after failed status st) = p_transmit st" "p_transmit (reader_tail status st) = p_transmit st"
  "undelivered (p_reader (reader_after failed status st)) = []" "undelivered (p_reader (reader_tail status st)) = []"
  by (auto simp: reader_defs split: option.split)

lemma data_inv_after:
  assumes "data_inv out got put closed (st\<lparr>p_reader := R_Read\<rparr>)"
  shows "data_inv out got put closed (reader_after failed status st)"
    and "data_inv out got put closed (reader_tail status st)"
  using assms by (simp_all add: data_inv_def)

lemma data_inv_reader:
  assumes "conn_ok ops out got put closed" and "data_inv out got put closed st" and "p_reader st = R_Read"
    and "reader_input ops status buf st = Some st'"
  shows "data_inv out got put closed st'"
proof (cases "buf = []")
  case True
  have "st\<lparr>p_reader := R_Read\<rparr> = st" using assms(3) by simp
  with True assms(2,4) show ?thesis by (auto simp: reader_input_def intro: data_inv_after)
next
  case False
  then obtain c q clean failed plaintext eof c' where i: "ingest ops buf (p_conn st) (p_queue st) (p_clean st) = Some (c, q, clean, failed)"
    and r: "read_plaintext_loop ops c [] = Some (plaintext, eof, c')"
    using assms(4) by (auto simp: reader_input_def read_available_plaintext_def Let_def split: option.splits prod.splits)
  let ?st = "st\<lparr>p_conn := c', p_queue := q, p_hs := hs_check ops c (p_hs st), p_clean := clean \<or> eof\<rparr>"
  have "drained out got put closed (p_conn st) (p_queue st) c q" "clean \<longrightarrow> closed c"
    using ingest_obs [OF assms(1) i] assms(2) by (auto simp: data_inv_def)
  moreover have "got c' = got c @ plaintext \<and> out c' = out c \<and> put c' = put c \<and> (closed c \<or> eof \<longrightarrow> closed c')"
    using read_plaintext_obs [OF assms(1) r] by auto
  ultimately have "data_inv out got put closed (?st\<lparr>p_reader := R_Deliver plaintext failed status\<rparr>)"
    using assms(2,3) by (auto simp: data_inv_def drained_def)
  moreover have "st' = (if plaintext \<noteq> [] then ?st\<lparr>p_reader := R_Deliver plaintext failed status\<rparr>
      else reader_after failed status ?st)"
    using assms(4) False i r by (simp add: reader_input_def read_available_plaintext_def Let_def)
  ultimately show ?thesis using data_inv_after(1) [of out got put closed ?st] by (auto simp: data_inv_def)
qed

lemma data_inv_writer_tail:
  assumes "conn_ok ops out got put closed" and "data_inv out got put closed st" and "p_writer st = W_Read"
    and "writer_tail ops status st = Some st'"
  shows "data_inv out got put closed st'"
proof (cases "rd_ended status")
  case True
  then obtain c q where d: "drain_tls_writes ops (send_close_notify ops (p_conn st)) (p_queue st) = Some (c, q)"
    and st': "st' = release_writer (Ok ()) (st\<lparr>p_conn := c, p_queue := q\<rparr>)"
    using assms(4) by (auto simp: writer_tail_def split: option.splits)
  have "drained out got put closed (p_conn st) (p_queue st) c q"
    by (rule drained_trans [OF drained_refl [OF conn_okD(8) [OF assms(1)]] drain_tls_writes_drained [OF assms(1) d]])
  with assms(2,3) show ?thesis by (auto simp: st' release_writer_def data_inv_def drained_def)
next
  case False
  with assms(2,4) show ?thesis by (simp add: writer_tail_def)
qed

lemma data_inv_writer:
  assumes "conn_ok ops out got put closed" and "data_inv out got put closed st" and "p_writer st = W_Read"
    and "writer_input ops status buf st = Some st'"
  shows "data_inv out got put closed st'"
proof (cases "buf = []")
  case True
  with assms show ?thesis by (auto simp: writer_input_def intro: data_inv_writer_tail)
next
  case False
  obtain res c where w: "writer_write_all ops buf (p_conn st) = (res, c)" by fastforce
  note o = conn_okD(7) [OF assms(1) w]
  show ?thesis
  proof (cases res)
    case (Inl e)
    then have "st' = release_writer (Err (''write failed: '' @ e)) (st\<lparr>p_taken := p_taken st @ buf, p_conn := c\<rparr>)"
      using assms(4) False w by (simp add: writer_input_def Let_def)
    then show ?thesis using assms(2,3) o by (simp add: data_inv_def release_writer_def)
  next
    case (Inr u)
    then obtain c' q where d: "drain_tls_writes ops c (p_queue st) = Some (c', q)"
      and t: "writer_tail ops status (st\<lparr>p_taken := p_taken st @ buf, p_conn := c', p_queue := q,
        p_hs := hs_check ops c' (p_hs st)\<rparr>) = Some st'"
      using assms(4) False w by (auto simp: writer_input_def Let_def split: option.splits)
    have "data_inv out got put closed (st\<lparr>p_taken := p_taken st @ buf, p_conn := c', p_queue := q,
        p_hs := hs_check ops c' (p_hs st)\<rparr>)"
      using assms(2,3) o Inr drain_tls_writes_drained [OF assms(1) d] by (auto simp: data_inv_def drained_def)
    from data_inv_writer_tail [OF assms(1) this _ t] show ?thesis using assms(3) by simp
  qed
qed

lemma data_inv_step:
  assumes "conn_ok ops out got put closed" and "data_inv out got put closed st" and "pstep ops st st'"
  shows "data_inv out got put closed st'"
  using assms(3)
proof cases
  case (reader_reads status buf)
  with assms(1,2) show ?thesis by (blast intro: data_inv_reader)
next
  case (reader_delivers plaintext failed status)
  have "data_inv out got put closed (st\<lparr>p_handed := p_handed st @ plaintext, p_reader := R_Read\<rparr>)"
    using assms(2) reader_delivers by (simp add: data_inv_def)
  then show ?thesis unfolding reader_delivers(1) by (intro data_inv_after) simp
next
  case (writer_reads status buf)
  with assms(1,2) show ?thesis by (blast intro: data_inv_writer)
qed (use assms(2) in \<open>auto simp: data_inv_def\<close>)

definition fresh_conn :: "('c \<Rightarrow> bytes) \<Rightarrow> ('c \<Rightarrow> bytes) \<Rightarrow> ('c \<Rightarrow> bytes) \<Rightarrow> 'c \<Rightarrow> bool" where
  "fresh_conn out got put c \<longleftrightarrow> out c = [] \<and> got c = [] \<and> put c = []"

lemma data_inv_reachable:
  assumes "conn_ok ops out got put closed" and "fresh_conn out got put c0" and "preach ops c0 st"
  shows "data_inv out got put closed st"
  using assms(3)
proof (induction rule: preach.induct)
  case (p_start st)
  then obtain c q where d: "drain_tls_writes ops c0 [] = Some (c, q)"
    by (auto simp: pump_new_def split: option.splits)
  with p_start show ?case using drain_tls_writes_drained [OF assms(1) d] assms(2)
    by (auto simp: pump_new_def data_inv_def drained_def fresh_conn_def)
next
  case (p_step st st')
  show ?case by (rule data_inv_step [OF assms(1) p_step.IH p_step.hyps(2)])
qed

section \<open>The loops end\<close>

text \<open>
  rustls's buffers are finite: each record written shortens what is pending, each read of plaintext
  shortens what is available, and a read of the transport takes no more than there is.
\<close>

definition conn_finite :: "'c conn_ops \<Rightarrow> ('c \<Rightarrow> nat) \<Rightarrow> ('c \<Rightarrow> nat) \<Rightarrow> bool" where
  "conn_finite ops pending available \<longleftrightarrow>
     (\<forall>c d c'. write_tls ops c = (Inr d, c') \<and> d \<noteq> [] \<longrightarrow> pending c' < pending c) \<and>
     (\<forall>c d c'. reader_read ops c = (Read_Ok d, c') \<and> d \<noteq> [] \<longrightarrow> available c' < available c)"

lemma drain_tls_writes_total:
  assumes "conn_finite ops pending available"
  shows "\<exists>r. drain_tls_writes ops c q = Some r"
proof (induction "pending c" arbitrary: c q rule: less_induct)
  case less
  obtain res c1 where w: "write_tls ops c = (res, c1)" by fastforce
  show ?case
  proof (cases "\<exists>buf. wants_write ops c \<and> res = Inr buf \<and> buf \<noteq> []")
    case True
    then obtain buf where b: "wants_write ops c" "res = Inr buf" "buf \<noteq> []" by blast
    then have "pending c1 < pending c" using assms w by (auto simp: conn_finite_def)
    from less [OF this, of "q @ [buf]"] show ?thesis using b w by (subst drain_tls_writes.simps) simp
  next
    case False
    then show ?thesis using w by (subst drain_tls_writes.simps) (auto split: sum.splits)
  qed
qed

lemma read_plaintext_total:
  assumes "conn_finite ops pending available"
  shows "\<exists>r. read_plaintext_loop ops c acc = Some r"
proof (induction "available c" arbitrary: c acc rule: less_induct)
  case less
  obtain res c1 where w: "reader_read ops c = (res, c1)" by fastforce
  show ?case
  proof (cases "\<exists>buf. res = Read_Ok buf \<and> buf \<noteq> []")
    case True
    then obtain buf where b: "res = Read_Ok buf" "buf \<noteq> []" by blast
    then have "available c1 < available c" using assms w by (auto simp: conn_finite_def)
    from less [OF this, of "acc @ buf"] show ?thesis using b w by (subst read_plaintext_loop.simps) simp
  next
    case False
    then show ?thesis using w by (subst read_plaintext_loop.simps) (auto split: read_outcome.splits)
  qed
qed

lemma ingest_total:
  assumes "conn_finite ops pending available"
  shows "\<exists>r. ingest ops cursor c q clean = Some r"
proof (induction "length cursor" arbitrary: cursor c q clean rule: less_induct)
  case less
  obtain res c1 where rd: "read_tls ops cursor c = (res, c1)" by fastforce
  obtain res' c2 where pr: "process_new_packets ops c1 = (res', c2)" by fastforce
  obtain c3 q3 where d: "drain_tls_writes ops c2 q = Some (c3, q3)"
    using drain_tls_writes_total [OF assms, of c2 q] by fastforce
  show ?case
  proof (cases "cursor \<noteq> [] \<and> (\<exists>n. res = Inr n \<and> n \<noteq> 0)")
    case True
    then obtain n where n: "res = Inr n" "n \<noteq> 0" "cursor \<noteq> []" by blast
    then have "length (drop n cursor) < length cursor" by (cases cursor) auto
    from less [OF this] have "\<exists>r. ingest ops (drop n cursor) c3 q3 cl = Some r" for cl by blast
    then show ?thesis using rd pr n d by (subst ingest.simps) (auto split: sum.splits)
  next
    case False
    then show ?thesis using rd by (subst ingest.simps) (auto split: sum.splits)
  qed
qed

lemma reader_input_total:
  assumes "conn_finite ops pending available"
  shows "\<exists>st'. reader_input ops status buf st = Some st'"
proof -
  obtain c q clean failed where i: "ingest ops buf (p_conn st) (p_queue st) (p_clean st) = Some (c, q, clean, failed)"
    using ingest_total [OF assms, of buf "p_conn st" "p_queue st" "p_clean st"] by fastforce
  obtain plaintext eof c' where r: "read_plaintext_loop ops c [] = Some (plaintext, eof, c')"
    using read_plaintext_total [OF assms, of c "[]"] by fastforce
  show ?thesis by (simp add: reader_input_def read_available_plaintext_def i r Let_def)
qed

lemma writer_tail_total:
  assumes "conn_finite ops pending available"
  shows "\<exists>st'. writer_tail ops status st = Some st'"
proof -
  obtain c q where "drain_tls_writes ops (send_close_notify ops (p_conn st)) (p_queue st) = Some (c, q)"
    using drain_tls_writes_total [OF assms, of "send_close_notify ops (p_conn st)" "p_queue st"] by fastforce
  then show ?thesis by (simp add: writer_tail_def)
qed

lemma writer_input_total:
  assumes "conn_finite ops pending available"
  shows "\<exists>st'. writer_input ops status buf st = Some st'"
proof -
  obtain res c where w: "writer_write_all ops buf (p_conn st) = (res, c)" by fastforce
  obtain c' q where d: "drain_tls_writes ops c (p_queue st) = Some (c', q)"
    using drain_tls_writes_total [OF assms, of c "p_queue st"] by fastforce
  show ?thesis
    using writer_tail_total [OF assms] by (cases res) (auto simp: writer_input_def w d Let_def)
qed

text \<open>What a step can do to the handshake signal.\<close>

inductive hs_steps :: "'c conn_ops \<Rightarrow> hs_signal \<Rightarrow> hs_signal \<Rightarrow> bool" for ops where
  hs_refl: "hs_steps ops hs hs"
| hs_checks: "hs_steps ops hs hs' \<Longrightarrow> hs_steps ops hs (hs_check ops c hs')"
| hs_fails: "hs_steps ops hs hs' \<Longrightarrow> hs_steps ops hs (hs_fail m hs')"

lemma hs_steps_grow: "hs_steps ops hs hs' \<Longrightarrow> prefix (hs_sent hs) (hs_sent hs')"
  by (induction rule: hs_steps.induct) (auto simp: hs_check_def hs_fail_def prefix_def)

text \<open>A success was read off a connection that had left the handshake.\<close>

definition hs_honest :: "'c conn_ops \<Rightarrow> hs_signal \<Rightarrow> bool" where
  "hs_honest ops hs \<longleftrightarrow> (\<forall>o' \<in> set (hs_sent hs). case o' of Inl m \<Rightarrow> True
     | Inr h \<Rightarrow> \<exists>c. \<not> is_handshaking ops c \<and> ho_alpn_protocol h = alpn_protocol ops c \<and>
         ho_server_name h = server_side_name ops c)"

lemma hs_steps_honest: "hs_steps ops hs hs' \<Longrightarrow> hs_honest ops hs \<Longrightarrow> hs_honest ops hs'"
  by (induction rule: hs_steps.induct) (auto simp: hs_honest_def hs_check_def hs_fail_def)

lemma reader_after_hs:
  assumes "hs_steps ops hs (p_hs st)"
  shows "hs_steps ops hs (p_hs (reader_after failed status st))" and "hs_steps ops hs (p_hs (reader_tail status st))"
  using assms by (auto simp: reader_defs split: option.split intro: hs_steps.intros)

lemma reader_input_hs:
  assumes "reader_input ops status buf st = Some st'"
  shows "hs_steps ops (p_hs st) (p_hs st')"
  using assms
  by (auto simp: reader_input_def Let_def split: if_splits option.splits
      intro!: reader_after_hs hs_steps.intros)

lemma writer_tail_hs: "writer_tail ops status st = Some st' \<Longrightarrow> p_hs st' = p_hs st"
  by (auto simp: writer_defs split: option.splits if_splits)

lemma writer_input_hs:
  assumes "writer_input ops status buf st = Some st'"
  shows "hs_steps ops (p_hs st) (p_hs st')"
  using assms
  by (auto simp: writer_input_def Let_def release_writer_def dest!: writer_tail_hs
      split: if_splits option.splits prod.splits sum.splits intro!: hs_steps.intros)

lemma pstep_hs:
  assumes "pstep ops st st'"
  shows "hs_steps ops (p_hs st) (p_hs st')"
  using assms
proof cases
  case (reader_delivers plaintext failed status)
  have "hs_steps ops (p_hs st) (p_hs (st\<lparr>p_handed := p_handed st @ plaintext\<rparr>))" by (simp add: hs_refl)
  from reader_after_hs(1) [OF this] reader_delivers show ?thesis by simp
qed (auto intro: reader_input_hs writer_input_hs hs_refl)

lemma run_result_stable:
  assumes "(pstep ops)\<^sup>*\<^sup>* st st'" and "run_result st = Some r"
  shows "run_result st' = Some r"
  using assms
proof (induction rule: rtranclp_induct)
  case (step y z)
  then have "prefix (hs_sent (p_hs y)) (hs_sent (p_hs z))" "run_result y = Some r"
    using hs_steps_grow [OF pstep_hs] by blast+
  then show ?case by (auto simp: run_result_def prefix_def split: list.splits)
qed

lemma hs_honest_reachable: "preach ops c0 st \<Longrightarrow> hs_honest ops (p_hs st)"
proof (induction rule: preach.induct)
  case (p_start st)
  then show ?case by (auto simp: pump_new_def hs_honest_def split: option.splits)
next
  case (p_step st st')
  then show ?case using hs_steps_honest [OF pstep_hs] by blast
qed

lemma run_result_None: "hs_wf hs \<Longrightarrow> hs_sent hs = [] \<longleftrightarrow> hs_tx hs"
  by (auto simp: hs_wf_def split: if_splits)

section \<open>Properties\<close>

text \<open>
  C3. The pump loses and reorders nothing, in every interleaving of its three tasks: what the transport
  was handed, is being written and is queued is exactly what rustls put out; the plaintext handed to
  the consumer and about to be is exactly what rustls decrypted; and unless rustls refused a write,
  it accepted exactly what the consumer wrote. When the ciphertext stream closes, all of the output
  has been handed over.
\<close>

theorem pump_data_integrity:
  assumes "conn_ok ops out got put closed" and "fresh_conn out got put c0" and "preach ops c0 st"
  shows "p_sent st @ unsent (p_transmit st) @ concat (p_queue st) = out (p_conn st) \<and>
     p_handed st @ undelivered (p_reader st) = got (p_conn st) \<and>
     ((\<forall>e. writer_verdict (p_writer st) \<noteq> Some (Err e)) \<longrightarrow> p_taken st = put (p_conn st)) \<and>
     (\<not> p_ciphertext_out st \<longrightarrow> p_sent st = out (p_conn st))"
proof -
  have "data_inv out got put closed st" by (rule data_inv_reachable [OF assms])
  moreover have "ctl_inv st" by (rule ctl_inv_reachable [OF assms(3)])
  ultimately show ?thesis by (auto simp: data_inv_def ctl_inv_def)
qed

text \<open>An instance: a connection that never handshakes, echoes the transport and encrypts by copying.\<close>

record demo_conn =
  d_wire :: bytes
  d_plain :: bytes
  d_out :: bytes
  d_got :: bytes
  d_put :: bytes

definition demo_tls :: "demo_conn conn_ops" where
  "demo_tls = \<lparr>is_handshaking = (\<lambda>_. False), alpn_protocol = (\<lambda>_. None), server_side_name = (\<lambda>_. None),
     wants_write = (\<lambda>c. d_wire c \<noteq> []),
     write_tls = (\<lambda>c. (Ok (d_wire c), c\<lparr>d_wire := [], d_out := d_out c @ d_wire c\<rparr>)),
     read_tls = (\<lambda>buf c. (Ok (length buf), c\<lparr>d_plain := d_plain c @ buf\<rparr>)),
     process_new_packets = (\<lambda>c. (Ok False, c)),
     reader_read = (\<lambda>c. if d_plain c = [] then (Read_WouldBlock, c)
        else (Read_Ok (d_plain c), c\<lparr>d_plain := [], d_got := d_got c @ d_plain c\<rparr>)),
     writer_write_all = (\<lambda>buf c. (Ok (), c\<lparr>d_wire := d_wire c @ buf, d_put := d_put c @ buf\<rparr>)),
     send_close_notify = (\<lambda>c. c\<lparr>d_wire := d_wire c @ [0]\<rparr>)\<rparr>"

definition demo_tls_conn :: demo_conn where
  "demo_tls_conn = \<lparr>d_wire = [], d_plain = [], d_out = [], d_got = [], d_put = []\<rparr>"

lemma demo_tls_ok: "conn_ok demo_tls d_out d_got d_put (\<lambda>_. False)" "conn_finite demo_tls (\<lambda>c. length (d_wire c)) (\<lambda>c. length (d_plain c))"
  "fresh_conn d_out d_got d_put demo_tls_conn"
  by (auto simp: conn_ok_def demo_tls_def conn_finite_def fresh_conn_def demo_tls_conn_def split: if_splits)

definition demo_pump :: "demo_conn pump" where
  "demo_pump = \<lparr>p_conn = demo_tls_conn, p_queue = [], p_hs = \<lparr>hs_tx = True, hs_sent = []\<rparr>, p_clean = False,
     p_reader = R_Read, p_writer = W_Read, p_transmit = T_Next,
     p_ciphertext_in = True, p_cleartext_out = True, p_cleartext_in = True, p_ciphertext_out = True,
     p_reader_sink = True, p_writer_sink = True, p_handed = [], p_taken = [], p_sent = []\<rparr>"

lemma demo_pump_start: "preach demo_tls demo_tls_conn demo_pump"
  by (rule preach.p_start)
    (simp add: pump_new_def demo_pump_def drain_tls_writes.simps demo_tls_def demo_tls_conn_def)

lemma demo_pump_writes:
  "\<exists>st. preach demo_tls demo_tls_conn st \<and> p_taken st = [7, 8] \<and> p_writer st = W_Read \<and> p_queue st = [[7, 8]] \<and>
     run_result st = Some (Ok \<lparr>ho_alpn_protocol = None, ho_server_name = None\<rparr>)"
proof -
  have "\<exists>st. writer_input demo_tls Rd_Completed [7, 8] demo_pump = Some st \<and> p_taken st = [7, 8] \<and>
      p_writer st = W_Read \<and> p_queue st = [[7, 8]] \<and>
      run_result st = Some (Ok \<lparr>ho_alpn_protocol = None, ho_server_name = None\<rparr>)"
    by (simp add: writer_input_def run_result_def hs_check_def writer_tail_def rd_ended_def demo_pump_def demo_tls_def demo_tls_conn_def
        drain_tls_writes.simps Let_def)
  then obtain st where w: "writer_input demo_tls Rd_Completed [7, 8] demo_pump = Some st"
    and st: "p_taken st = [7, 8] \<and> p_writer st = W_Read \<and> p_queue st = [[7, 8]] \<and>
      run_result st = Some (Ok \<lparr>ho_alpn_protocol = None, ho_server_name = None\<rparr>)" by blast
  have "pstep demo_tls demo_pump st" by (rule pstep.writer_reads [OF _ w]) (simp add: demo_pump_def)
  from preach.p_step [OF demo_pump_start this] st show ?thesis by blast
qed

theorem pump_data_integrity_witness:
  "\<exists>st. preach demo_tls demo_tls_conn st \<and> p_taken st = [7, 8] \<and> d_put (p_conn st) = [7, 8] \<and>
     p_sent st @ unsent (p_transmit st) @ concat (p_queue st) = d_out (p_conn st)"
proof -
  obtain st where st: "preach demo_tls demo_tls_conn st" "p_taken st = [7, 8]" "p_writer st = W_Read"
    using demo_pump_writes by blast
  from pump_data_integrity [OF demo_tls_ok(1,3) st(1)] st show ?thesis by auto
qed

text \<open>
  C16. Terminal ordering: whenever a direction's verdict is being delivered or was delivered, every
  stream end and queue sink that direction owns has been released already; the ciphertext stream closes
  only when both producers are gone and the queue is drained.
\<close>

theorem pump_terminal_ordering:
  assumes "preach ops c0 st"
  shows "(reader_verdict (p_reader st) \<noteq> None \<longrightarrow>
       \<not> p_ciphertext_in st \<and> \<not> p_cleartext_out st \<and> \<not> p_reader_sink st) \<and>
     (writer_verdict (p_writer st) \<noteq> None \<longrightarrow> \<not> p_cleartext_in st \<and> \<not> p_writer_sink st) \<and>
     (\<not> p_ciphertext_out st \<longrightarrow> reader_verdict (p_reader st) \<noteq> None \<and>
        writer_verdict (p_writer st) \<noteq> None \<and> p_queue st = [])"
  using ctl_inv_reachable [OF assms] by (auto simp: ctl_inv_def)

theorem pump_terminal_ordering_witness:
  "\<exists>st. preach demo_tls demo_tls_conn st \<and> reader_verdict (p_reader st) \<noteq> None \<and>
     \<not> p_ciphertext_in st \<and> \<not> p_cleartext_out st \<and> \<not> p_reader_sink st"
proof -
  have r: "reader_input demo_tls Rd_Dropped [] demo_pump = Some (reader_tail Rd_Dropped demo_pump)"
    by (simp add: reader_input_def)
  have "pstep demo_tls demo_pump (reader_tail Rd_Dropped demo_pump)"
    by (rule pstep.reader_reads [OF _ r]) (simp add: demo_pump_def)
  then have p: "preach demo_tls demo_tls_conn (reader_tail Rd_Dropped demo_pump)"
    by (rule preach.p_step [OF demo_pump_start])
  have "reader_verdict (p_reader (reader_tail Rd_Dropped demo_pump)) \<noteq> None"
    by (simp add: reader_tail_def release_reader_def rd_ended_def demo_pump_def)
  with p pump_terminal_ordering [OF p] show ?thesis by blast
qed

text \<open>
  C7. The receive verdict tells truncation from a clean close: it is \<open>ok\<close> only if the connection saw
  the peer's close; and a transport that ends before that gives an error, never \<open>ok\<close>, whatever was
  received before.
\<close>

theorem receive_verdict_is_truthful:
  assumes "conn_ok ops out got put closed" and "fresh_conn out got put c0" and "preach ops c0 st"
  shows "(reader_verdict (p_reader st) = Some (Ok ()) \<longrightarrow> closed (p_conn st)) \<and>
     (p_reader st = R_Read \<and> \<not> closed (p_conn st) \<and> rd_ended status \<longrightarrow>
        (\<exists>st'. reader_input ops status [] st = Some st' \<and> \<not> hs_tx (p_hs st') \<and>
           reader_verdict (p_reader st') =
             Some (Err ''transport closed without TLS close_notify (possible truncation)'')))"
proof -
  have "data_inv out got put closed st" by (rule data_inv_reachable [OF assms])
  moreover have "ctl_inv st" by (rule ctl_inv_reachable [OF assms(3)])
  ultimately show ?thesis
    by (auto simp: data_inv_def ctl_inv_def reader_input_def reader_tail_def release_reader_def)
qed

theorem receive_verdict_is_truthful_witness:
  "\<exists>st'. reader_input demo_tls Rd_Dropped [] demo_pump = Some st' \<and>
     reader_verdict (p_reader st') = Some (Err ''transport closed without TLS close_notify (possible truncation)'')"
  using receive_verdict_is_truthful [OF demo_tls_ok(1,3) demo_pump_start, of Rd_Dropped]
  by (auto simp: demo_pump_def rd_ended_def)



text \<open>
  C17. The pump's own loops end: whatever the transport or the consumer delivers, with rustls's buffers
  finite the reader's and the writer's stretch of work completes, in every state.
\<close>

theorem pump_loops_end:
  assumes "conn_finite ops pending available"
  shows "(\<exists>st'. reader_input ops status buf st = Some st') \<and> (\<exists>st'. writer_input ops status buf st = Some st') \<and>
     (\<exists>st'. pump_new ops c = Some st')"
  using reader_input_total [OF assms] writer_input_total [OF assms] drain_tls_writes_total [OF assms, of c "[]"]
  by (auto simp: pump_new_def split: option.split)

theorem pump_loops_end_witness:
  "\<exists>st'. reader_input demo_tls Rd_Completed [1, 2, 3] demo_pump = Some st'"
  using pump_loops_end [OF demo_tls_ok(2)] by blast

text \<open>
  A connection wired once for sending and once for receiving, in this order, gives the handshake
  call exactly those ends and leaves nothing wired; one that lacks the receive side gives nothing.
\<close>

theorem wiring_is_handed_over_once:
  "take_complete (snd (wire_receive ct rs rf (snd (wire_send pt ss sf w)))) =
     (Some \<lparr>cleartext_in = pt, ciphertext_out = fst ss, send_done = fst sf,
        ciphertext_in = ct, cleartext_out = fst rs, recv_done = fst rf\<rparr>, wired_default) \<and>
   fst (take_complete (snd (wire_send pt ss sf wired_default))) = None \<and>
   take_complete (snd (wire_receive ct rs rf wired_default)) =
     (None, snd (wire_receive ct rs rf wired_default))"
  by (cases w) (simp add: take_complete_def wire_send_def wire_receive_def wired_default_def Let_def)

end
