(* ===== verification/Component.thy ===== *)
theory Component
  imports Rpk Pump
begin

text \<open>
  The \<open>polymorph:tls\<close> component's resources (\<^verbatim>\<open>src/rust/component/src/component.rs\<close>): the client's
  \<open>connector\<close>, the server's \<open>identity\<close> and \<open>acceptor\<close>, and the bridge to a composed signer. The
  profile's configurations are those of \<open>Rpk\<close>; a successful handshake call enters the pump of theory
  \<open>Pump\<close> with the connection and the wiring it returns here. An error is its rendered diagnostic.
\<close>

section \<open>Parameters\<close>

record ('h, 'k, 'a, 'g, 'v, 'r, 's, 'roots, 'name, 'c) component_ops =
  roots_empty :: 'roots
  roots_add :: "certificate_der \<Rightarrow> 'roots \<Rightarrow> ('roots, string) result"
  parse_name :: "string \<Rightarrow> 'name option"
  client_connection :: "('h, 'k, 'a, 'g, 'v, 'r, 's, 'roots) client_config \<Rightarrow> bytes list \<Rightarrow> 'name \<Rightarrow> ('c, string) result"
  server_connection :: "('h, 'k, 'a, 'g, 'v, 'r, 's) server_config \<Rightarrow> bytes list \<Rightarrow> ('c, string) result"
  show_error :: "tls_error \<Rightarrow> string"
  show_name :: "string \<Rightarrow> string"

section \<open>The connector\<close>

record ('st, 'sw, 'fw) connector =
  con_roots :: "certificate_der list"
  con_wired :: "('st, 'sw, 'fw) wired"

definition connector_new :: "bytes list \<Rightarrow> ('st, 'sw, 'fw) connector" where
  "connector_new roots = \<lparr>con_roots = roots, con_wired = wired_default\<rparr>"

definition connector_send :: "'st \<Rightarrow> 'sw \<times> 'st \<Rightarrow> 'fw \<times> 'fr \<Rightarrow> ('st, 'sw, 'fw) connector \<Rightarrow>
    ('st \<times> 'fr) \<times> ('st, 'sw, 'fw) connector" where
  "connector_send cleartext stream fut k =
     (case wire_send cleartext stream fut (con_wired k) of (r, w) \<Rightarrow> (r, k\<lparr>con_wired := w\<rparr>))"

definition connector_receive :: "'st \<Rightarrow> 'sw \<times> 'st \<Rightarrow> 'fw \<times> 'fr \<Rightarrow> ('st, 'sw, 'fw) connector \<Rightarrow>
    ('st \<times> 'fr) \<times> ('st, 'sw, 'fw) connector" where
  "connector_receive ciphertext stream fut k =
     (case wire_receive ciphertext stream fut (con_wired k) of (r, w) \<Rightarrow> (r, k\<lparr>con_wired := w\<rparr>))"

fun add_roots :: "('h, 'k, 'a, 'g, 'v, 'r, 's, 'roots, 'name, 'c) component_ops \<Rightarrow> certificate_der list \<Rightarrow>
    'roots \<Rightarrow> ('roots, string) result" where
  "add_roots C [] store = Ok store"
| "add_roots C (cert # certs) store =
     (case roots_add C cert store of
        Inl e \<Rightarrow> Err (''invalid root certificate: '' @ e)
      | Inr store \<Rightarrow> add_roots C certs store)"

text \<open>
  \<open>connect\<close> up to the pump: the connection and the wiring that \<open>pump::run\<close> is entered with, and the
  connector.
\<close>

definition connector_connect ::
    "('h, 'k, 'a, 'g, 'v, 'r, 's) builder_ops \<Rightarrow> ('h, 'k, 'a, 'g, 'v, 'r, 's) rustcrypto \<Rightarrow>
     ('h, 'k, 'a, 'g, 'v, 'r, 's, 'roots, 'name, 'c) component_ops \<Rightarrow> string \<Rightarrow> bytes list \<Rightarrow>
     ('st, 'sw, 'fw) connector \<Rightarrow>
     (('c \<times> ('st, 'sw, 'fw) complete_wiring, string) result \<times> ('st, 'sw, 'fw) connector) or_panic" where
  "connector_connect B R C server alpn k =
     (case add_roots C (con_roots k) (roots_empty C) of
        Inl e \<Rightarrow> Ok (Err e, k)
      | Inr roots \<Rightarrow>
          (case core_client_config B R roots of
             Inl p \<Rightarrow> Panic p
           | Inr config \<Rightarrow>
               (case parse_name C server of
                  None \<Rightarrow> Ok (Err (''invalid server name: '' @ show_name C server), k)
                | Some name \<Rightarrow>
                    (case client_connection C config alpn name of
                       Inl e \<Rightarrow> Ok (Err (''connection setup failed: '' @ e), k)
                     | Inr conn \<Rightarrow>
                         (case take_complete (con_wired k) of
                            (None, w) \<Rightarrow> Ok (Err ''send and receive must be wired before connect'', k\<lparr>con_wired := w\<rparr>)
                          | (Some wiring, w) \<Rightarrow> Ok (Ok (conn, wiring), k\<lparr>con_wired := w\<rparr>))))))"

section \<open>The composed signer\<close>

datatype wit_scheme =
    EcdsaSecp256r1Sha256 | EcdsaSecp384r1Sha384 | RsaPssRsaeSha256 | RsaPssRsaeSha384
  | RsaPssRsaeSha512 | WitEd25519

fun from_wit :: "wit_scheme \<Rightarrow> signature_scheme" where
  "from_wit EcdsaSecp256r1Sha256 = ECDSA_NISTP256_SHA256"
| "from_wit EcdsaSecp384r1Sha384 = ECDSA_NISTP384_SHA384"
| "from_wit RsaPssRsaeSha256 = RSA_PSS_SHA256"
| "from_wit RsaPssRsaeSha384 = RSA_PSS_SHA384"
| "from_wit RsaPssRsaeSha512 = RSA_PSS_SHA512"
| "from_wit WitEd25519 = ED25519"

definition to_wit :: "signature_scheme \<Rightarrow> wit_scheme or_panic" where
  "to_wit scheme =
     (case scheme of
        ECDSA_NISTP256_SHA256 \<Rightarrow> Ok EcdsaSecp256r1Sha256
      | ECDSA_NISTP384_SHA384 \<Rightarrow> Ok EcdsaSecp384r1Sha384
      | RSA_PSS_SHA256 \<Rightarrow> Ok RsaPssRsaeSha256
      | RSA_PSS_SHA384 \<Rightarrow> Ok RsaPssRsaeSha384
      | RSA_PSS_SHA512 \<Rightarrow> Ok RsaPssRsaeSha512
      | ED25519 \<Rightarrow> Ok WitEd25519
      | _ \<Rightarrow> Panic ''scheme set originates from from_wit'')"

text \<open>\<open>reported\<close> is what the composed signer's \<open>schemes\<close> returns.\<close>

definition signer_schemes :: "wit_scheme list \<Rightarrow> signature_scheme list" where
  "signer_schemes reported = map from_wit reported"

record delegated_key =
  dk_schemes :: "signature_scheme list"

definition delegated_key_new :: "signature_scheme list \<Rightarrow> delegated_key" where
  "delegated_key_new schemes = \<lparr>dk_schemes = schemes\<rparr>"

record delegated_signer =
  ds_scheme :: signature_scheme

definition choose_scheme :: "delegated_key \<Rightarrow> signature_scheme list \<Rightarrow> delegated_signer option" where
  "choose_scheme key offered =
     map_option (\<lambda>s. \<lparr>ds_scheme = s\<rparr>) (List.find (\<lambda>s. s \<in> set offered) (dk_schemes key))"

definition delegated_algorithm :: "delegated_key \<Rightarrow> signature_algorithm" where
  "delegated_algorithm key =
     (case dk_schemes key of
        [] \<Rightarrow> SA_Unknown 0
      | s # _ \<Rightarrow>
          (case s of
             ED25519 \<Rightarrow> SA_ED25519
           | ECDSA_NISTP256_SHA256 \<Rightarrow> SA_ECDSA
           | ECDSA_NISTP384_SHA384 \<Rightarrow> SA_ECDSA
           | RSA_PSS_SHA256 \<Rightarrow> SA_RSA
           | RSA_PSS_SHA384 \<Rightarrow> SA_RSA
           | RSA_PSS_SHA512 \<Rightarrow> SA_RSA
           | _ \<Rightarrow> SA_Unknown 0))"

definition delegated_sign :: "(wit_scheme \<Rightarrow> bytes \<Rightarrow> (bytes, string) result) \<Rightarrow> delegated_signer \<Rightarrow> bytes \<Rightarrow>
    (bytes, tls_error) result or_panic" where
  "delegated_sign import_sign s message =
     (case to_wit (ds_scheme s) of
        Inl p \<Rightarrow> Panic p
      | Inr w \<Rightarrow> Ok (map_err (\<lambda>e. General (''delegated signer failed: '' @ e)) (import_sign w message)))"

section \<open>Identities and acceptors\<close>

datatype identity =
    Id_Ed25519 ed25519_identity
  | Id_Delegated "certificate_der list" "signature_scheme list"

definition identity_ed25519 :: "'sk ed25519_ops \<Rightarrow> bytes list \<Rightarrow> bytes \<Rightarrow> (identity, string) result" where
  "identity_ed25519 D chain pkcs8 =
     (case ed25519_identity_from_pkcs8_der D chain pkcs8 of
        Inl e \<Rightarrow> Err (invalid_identity_to_string e)
      | Inr i \<Rightarrow> Ok (Id_Ed25519 i))"

text \<open>\<open>feature\<close>: whether the build serves the \<open>tls-delegated\<close> world.\<close>

definition identity_delegated :: "bool \<Rightarrow> wit_scheme list \<Rightarrow> bytes list \<Rightarrow> (identity, string) result" where
  "identity_delegated feature reported chain =
     (if \<not> feature then
        Err (''no signer is composed: this build serves the `tls` world; delegated identities '' @
             ''require the `tls-delegated` world'')
      else let schemes = signer_schemes reported
        in if schemes = [] then Err ''the composed signer reports no usable signature schemes''
           else Ok (Id_Delegated chain schemes))"

record ('s, 'st, 'sw, 'fw) acceptor =
  acc_identity :: "'s server_identity option"
  acc_wired :: "('st, 'sw, 'fw) wired"

fun key_secret_der :: "private_key_der \<Rightarrow> bytes" where
  "key_secret_der (Pkcs8 d) = d"
| "key_secret_der (OtherKeyDer d) = d"

text \<open>\<open>boxed\<close> is the coercion of a delegated key to rustls's \<open>SigningKey\<close>.\<close>

definition acceptor_new :: "bool \<Rightarrow> 'sk ed25519_ops \<Rightarrow> (delegated_key \<Rightarrow> 's) \<Rightarrow> identity \<Rightarrow>
    ('s, 'st, 'sw, 'fw) acceptor" where
  "acceptor_new feature D boxed ident =
     \<lparr>acc_identity =
        (case ident of
           Id_Ed25519 i \<Rightarrow>
             (case ed25519_identity_from_pkcs8_der D (eid_chain i) (key_secret_der (eid_key_der i)) of
                Inl e \<Rightarrow> None
              | Inr i \<Rightarrow> Some (SI_Ed25519 i))
         | Id_Delegated chain schemes \<Rightarrow>
             if feature then Some (SI_External chain (boxed (delegated_key_new schemes))) else None),
      acc_wired = wired_default\<rparr>"

definition acceptor_send :: "'st \<Rightarrow> 'sw \<times> 'st \<Rightarrow> 'fw \<times> 'fr \<Rightarrow> ('s, 'st, 'sw, 'fw) acceptor \<Rightarrow>
    ('st \<times> 'fr) \<times> ('s, 'st, 'sw, 'fw) acceptor" where
  "acceptor_send cleartext stream fut a =
     (case wire_send cleartext stream fut (acc_wired a) of (r, w) \<Rightarrow> (r, a\<lparr>acc_wired := w\<rparr>))"

definition acceptor_receive :: "'st \<Rightarrow> 'sw \<times> 'st \<Rightarrow> 'fw \<times> 'fr \<Rightarrow> ('s, 'st, 'sw, 'fw) acceptor \<Rightarrow>
    ('st \<times> 'fr) \<times> ('s, 'st, 'sw, 'fw) acceptor" where
  "acceptor_receive ciphertext stream fut a =
     (case wire_receive ciphertext stream fut (acc_wired a) of (r, w) \<Rightarrow> (r, a\<lparr>acc_wired := w\<rparr>))"

definition acceptor_accept ::
    "('h, 'k, 'a, 'g, 'v, 'r, 's) builder_ops \<Rightarrow> ('h, 'k, 'a, 'g, 'v, 'r, 's) rustcrypto \<Rightarrow>
     ('h, 'k, 'a, 'g, 'v, 'r, 's, 'roots, 'name, 'c) component_ops \<Rightarrow> bytes list \<Rightarrow>
     ('s, 'st, 'sw, 'fw) acceptor \<Rightarrow>
     (('c \<times> ('st, 'sw, 'fw) complete_wiring, string) result \<times> ('s, 'st, 'sw, 'fw) acceptor) or_panic" where
  "acceptor_accept B R C alpn acc =
     (case acc_identity acc of
        None \<Rightarrow> Ok (Err ''acceptor has no usable identity'', acc)
      | Some ident \<Rightarrow>
          let acc = acc\<lparr>acc_identity := None\<rparr>
          in (case core_server_config B R ident of
              Inl p \<Rightarrow> Panic p
            | Inr (Inl e) \<Rightarrow> Ok (Err (''server config failed: '' @ show_error C e), acc)
            | Inr (Inr config) \<Rightarrow>
                (case server_connection C config alpn of
                   Inl e \<Rightarrow> Ok (Err (''connection setup failed: '' @ e), acc)
                 | Inr conn \<Rightarrow>
                     (case take_complete (acc_wired acc) of
                        (None, w) \<Rightarrow> Ok (Err ''send and receive must be wired before accept'', acc\<lparr>acc_wired := w\<rparr>)
                      | (Some wiring, w) \<Rightarrow> Ok (Ok (conn, wiring), acc\<lparr>acc_wired := w\<rparr>)))))"

text \<open>What the handshake call reports of the outcome.\<close>

record connection_info =
  ci_alpn_protocol :: "bytes option"
  ci_server_name :: "string option"

definition connection_info_from :: "handshake_outcome \<Rightarrow> connection_info" where
  "connection_info_from h = \<lparr>ci_alpn_protocol = ho_alpn_protocol h, ci_server_name = ho_server_name h\<rparr>"

section \<open>Laws\<close>

lemma to_wit_from_wit [simp]: "to_wit (from_wit w) = Ok w"
  by (cases w) (simp_all add: to_wit_def)

lemma core_server_config_permitted:
  assumes "single_cert_ok B" and "core_server_config B R ident = Ok (Ok c)"
  shows "permitted_key R ident (resolver_key (sc_resolver c)) \<and> sc_versions c = [TLSv1_3] \<and>
    sc_client_verification c = NoClientCert"
proof -
  obtain p where "tls13_builder B (core_provider R) = Ok p"
    and "identity_resolver B p ident = Ok (sc_resolver c)" "sc_versions c = [TLSv1_3]"
    "sc_client_verification c = NoClientCert"
    using assms(2) by (auto simp: core_server_config_def split: sum.splits)
  then show ?thesis
    using identity_resolver_permitted [OF assms(1)] core_delivery.make_loader tls13_builder_Ok by metis
qed

lemma connector_connect_Ok:
  assumes "connector_connect B R C server alpn k = Ok (Ok (conn, wiring), k')"
  shows "\<exists>roots config name. add_roots C (con_roots k) (roots_empty C) = Ok roots \<and>
     core_client_config B R roots = Ok config \<and> parse_name C server = Some name \<and>
     client_connection C config alpn name = Ok conn \<and>
     take_complete (con_wired k) = (Some wiring, con_wired k') \<and> con_roots k' = con_roots k"
  using assms by (auto simp: connector_connect_def split: sum.splits option.splits prod.splits)

lemma core_client_config_shape:
  assumes "core_client_config B R roots = Ok config"
  shows "cc_server_auth config = WithRootCertificates roots \<and> cc_versions config = [TLSv1_3] \<and>
    cc_client_auth config = NoClientAuth \<and> core_provider R = Ok (cc_provider config)"
  using assms tls13_builder_Ok by (auto simp: core_client_config_def split: sum.splits)

lemma acceptor_accept_Ok:
  assumes "acceptor_accept B R C alpn acc = Ok (Ok (conn, wiring), acc')"
  shows "\<exists>ident config. acc_identity acc = Some ident \<and> core_server_config B R ident = Ok (Ok config) \<and>
     server_connection C config alpn = Ok conn \<and> take_complete (acc_wired acc) = (Some wiring, acc_wired acc')"
  using assms by (auto simp: acceptor_accept_def Let_def split: sum.splits option.splits prod.splits)

lemma acceptor_accept_spends:
  assumes "acceptor_accept B R C alpn acc = Ok (r, acc')"
  shows "acc_identity acc' = None"
  using assms by (auto simp: acceptor_accept_def Let_def split: sum.splits option.splits prod.splits)

lemma take_complete_empties: "take_complete w = (Some wiring, w') \<Longrightarrow> w' = wired_default"
  by (cases w) (auto simp: take_complete_def wired_default_def Let_def split: option.splits)

lemma find_first:
  "List.find P xs = Some x \<longleftrightarrow> (\<exists>ys zs. xs = ys @ x # zs \<and> P x \<and> (\<forall>y \<in> set ys. \<not> P y))"
proof
  assume "List.find P xs = Some x"
  then show "\<exists>ys zs. xs = ys @ x # zs \<and> P x \<and> (\<forall>y \<in> set ys. \<not> P y)"
  proof (induction xs)
    case (Cons a xs)
    show ?case
    proof (cases "P a")
      case True
      then show ?thesis using Cons.prems by (intro exI [of _ "[]"] exI [of _ xs]) simp
    next
      case False
      then obtain ys zs where "xs = ys @ x # zs \<and> P x \<and> (\<forall>y \<in> set ys. \<not> P y)" using Cons by auto
      then show ?thesis using False by (intro exI [of _ "a # ys"] exI [of _ zs]) simp
    qed
  qed simp
next
  assume "\<exists>ys zs. xs = ys @ x # zs \<and> P x \<and> (\<forall>y \<in> set ys. \<not> P y)"
  then obtain ys zs where "xs = ys @ x # zs" "P x" "\<forall>y \<in> set ys. \<not> P y" by blast
  then show "List.find P xs = Some x" by (induction ys arbitrary: xs) auto
qed

section \<open>Properties\<close>

definition demo_component ::
    "(unit, unit, unit, named_group, nat, unit, bytes, bytes list, string, string \<times> bytes list) component_ops" where
  "demo_component = \<lparr>roots_empty = [], roots_add = (\<lambda>c s. Ok (s @ [c])), parse_name = Some,
     client_connection = (\<lambda>c alpn name. Ok (name, alpn)), server_connection = (\<lambda>c alpn. Ok (''server'', alpn)),
     show_error = (\<lambda>_. ''error''), show_name = (\<lambda>s. s)\<rparr>"

definition demo_wired :: "(nat, nat, nat) wired" where
  "demo_wired = snd (wire_receive 4 (5, 6) (7, ()) (snd (wire_send 1 (2, 3) (9, ()) wired_default)))"

lemma demo_wired_complete: "take_complete demo_wired = (Some \<lparr>cleartext_in = 1, ciphertext_out = 2,
    send_done = 9, ciphertext_in = 4, cleartext_out = 5, recv_done = 7\<rparr>, wired_default)"
  by (simp add: demo_wired_def take_complete_def wire_send_def wire_receive_def wired_default_def)



text \<open>
  An acceptor serves the identity it was made from: for an Ed25519 identity resource, every accept
  that enters the pump uses a TLS-1.3-only configuration that presents the resource's chain and signs
  with the key the EdDSA loader makes of its own PKCS#8 document; and an acceptor accepts once.
\<close>

theorem accept_serves_the_identity:
  assumes "single_cert_ok B" and "identity_ed25519 D chain pkcs8 = Ok ident"
    and "acc_identity acc = acc_identity (acceptor_new feature D boxed ident)"
    and "acceptor_accept B R C alpn acc = Ok (Ok (conn, wiring), acc')"
  shows "(\<exists>config. server_connection C config alpn = Ok conn \<and> sc_versions config = [TLSv1_3] \<and>
       ck_cert (resolver_key (sc_resolver config)) = chain \<and>
       any_eddsa_type R (Pkcs8 pkcs8) = Ok (ck_key (resolver_key (sc_resolver config)))) \<and>
     acceptor_accept B R C alpn' acc' = Ok (Err ''acceptor has no usable identity'', acc')"
proof
  have "ident = Id_Ed25519 \<lparr>eid_chain = chain, eid_key_der = Pkcs8 pkcs8\<rparr>" "dalek_from_pkcs8_der D pkcs8 \<noteq> None"
    using assms(2) by (auto simp: identity_ed25519_def ed25519_identity_from_pkcs8_der_def split: option.splits)
  then have i: "acc_identity acc = Some (SI_Ed25519 \<lparr>eid_chain = chain, eid_key_der = Pkcs8 pkcs8\<rparr>)"
    using assms(3) by (auto simp: acceptor_new_def ed25519_identity_from_pkcs8_der_def)
  obtain config where c: "core_server_config B R (SI_Ed25519 \<lparr>eid_chain = chain, eid_key_der = Pkcs8 pkcs8\<rparr>) = Ok (Ok config)"
    and s: "server_connection C config alpn = Ok conn"
    using acceptor_accept_Ok [OF assms(4)] i by auto
  show "\<exists>config. server_connection C config alpn = Ok conn \<and> sc_versions config = [TLSv1_3] \<and>
       ck_cert (resolver_key (sc_resolver config)) = chain \<and>
       any_eddsa_type R (Pkcs8 pkcs8) = Ok (ck_key (resolver_key (sc_resolver config)))"
    using core_server_config_permitted [OF assms(1) c] s by (auto simp: permitted_key_def)
  show "acceptor_accept B R C alpn' acc' = Ok (Err ''acceptor has no usable identity'', acc')"
    using acceptor_accept_spends [OF assms(4)] by (simp add: acceptor_accept_def)
qed

theorem accept_serves_the_identity_witness:
  "\<exists>acc'. acceptor_accept demo_builder demo_rustcrypto demo_component []
     ((acceptor_new False demo_dalek (\<lambda>_. []) (Id_Ed25519 \<lparr>eid_chain = [[1]], eid_key_der = Pkcs8 (replicate 32 7)\<rparr>))
        \<lparr>acc_wired := demo_wired\<rparr>) = Ok (Ok ((''server'', []), \<lparr>cleartext_in = 1, ciphertext_out = 2,
      send_done = 9, ciphertext_in = 4, cleartext_out = 5, recv_done = 7\<rparr>), acc') \<and>
    acceptor_accept demo_builder demo_rustcrypto demo_component [] acc' =
      Ok (Err ''acceptor has no usable identity'', acc')"
proof -
  let ?i = "Id_Ed25519 \<lparr>eid_chain = [[1]], eid_key_der = Pkcs8 (replicate 32 7)\<rparr>"
  let ?acc = "(acceptor_new False demo_dalek (\<lambda>_. []) ?i)\<lparr>acc_wired := demo_wired\<rparr> :: (bytes, nat, nat, nat) acceptor"
  let ?w = "\<lparr>cleartext_in = 1, ciphertext_out = 2, send_done = 9, ciphertext_in = 4, cleartext_out = 5,
    recv_done = 7\<rparr> :: (nat, nat, nat) complete_wiring"
  have ident: "identity_ed25519 demo_dalek [[1]] (replicate 32 7) = Ok ?i"
    by (simp add: identity_ed25519_def ed25519_identity_from_pkcs8_der_def demo_dalek_def)
  have a: "acc_identity ?acc = Some (SI_Ed25519 \<lparr>eid_chain = [[1]], eid_key_der = Pkcs8 (replicate 32 7)\<rparr>)"
    "acc_wired ?acc = demo_wired"
    by (simp_all add: acceptor_new_def ed25519_identity_from_pkcs8_der_def demo_dalek_def)
  have i: "acc_identity ?acc = acc_identity (acceptor_new False demo_dalek (\<lambda>_. []) ?i :: (bytes, nat, nat, nat) acceptor)"
    by simp
  obtain config where "core_server_config demo_builder demo_rustcrypto
      (SI_Ed25519 \<lparr>eid_chain = [[1]], eid_key_der = Pkcs8 (replicate 32 7)\<rparr>) = Ok (Ok config)"
    by (simp add: demo_rpk_simps core_server_config_def identity_resolver_def into_parts_def load_private_key_def)
  then have acc: "acceptor_accept demo_builder demo_rustcrypto demo_component [] ?acc =
      Ok (Ok ((''server'', []), ?w), ?acc\<lparr>acc_identity := None, acc_wired := wired_default\<rparr>)"
    using a by (simp add: acceptor_accept_def demo_component_def demo_wired_complete)
  from accept_serves_the_identity [OF demo_builder_single_cert_ok ident i acc] acc show ?thesis by blast
qed

text \<open>
  Delegated signing stays within what both sides can do: the delegated key signs only with a scheme
  that the peer offered and the composed signer reported, the first such in the signer's preference,
  and it signs whenever there is one; the signer is then called with exactly that scheme and the
  mapping back to the interface's schemes never panics.
\<close>

theorem delegated_signing_is_the_signers:
  "case choose_scheme (delegated_key_new (signer_schemes reported)) offered of
     None \<Rightarrow> set (signer_schemes reported) \<inter> set offered = {}
   | Some s \<Rightarrow> \<exists>before w after. reported = before @ w # after \<and> ds_scheme s = from_wit w \<and>
       ds_scheme s \<in> set offered \<and> (\<forall>b \<in> set before. from_wit b \<notin> set offered) \<and>
       delegated_sign import_sign s msg =
         Ok (map_err (\<lambda>e. General (''delegated signer failed: '' @ e)) (import_sign w msg))"
proof (cases "List.find (\<lambda>s. s \<in> set offered) (map from_wit reported)")
  case None
  then have "\<forall>w \<in> set reported. from_wit w \<notin> set offered" by (simp add: find_None_iff)
  with None show ?thesis
    by (simp only: choose_scheme_def delegated_key_new_def signer_schemes_def delegated_key.select_convs
        option.map option.case) auto
next
  case (Some s)
  then obtain ys zs where m: "map from_wit reported = ys @ s # zs" "s \<in> set offered" "\<forall>y \<in> set ys. y \<notin> set offered"
    by (auto simp: find_first)
  from m(1) obtain before w after where r: "reported = before @ w # after" "ys = map from_wit before" "s = from_wit w"
    by (auto simp: map_eq_append_conv map_eq_Cons_conv)
  with m have "\<exists>before w after. reported = before @ w # after \<and> s = from_wit w \<and> s \<in> set offered \<and>
      (\<forall>b \<in> set before. from_wit b \<notin> set offered) \<and> delegated_sign import_sign \<lparr>ds_scheme = s\<rparr> msg =
         Ok (map_err (\<lambda>e. General (''delegated signer failed: '' @ e)) (import_sign w msg))"
    by (intro exI [of _ before] exI [of _ w] exI [of _ after]) (auto simp: delegated_sign_def)
  with Some show ?thesis by (simp add: choose_scheme_def delegated_key_new_def signer_schemes_def)
qed

theorem delegated_signing_is_the_signers_witness:
  "choose_scheme (delegated_key_new (signer_schemes [RsaPssRsaeSha256, WitEd25519])) [ED25519] = Some \<lparr>ds_scheme = ED25519\<rparr> \<and>
   (\<exists>w. ds_scheme \<lparr>ds_scheme = ED25519\<rparr> = from_wit w)"
proof -
  have c: "choose_scheme (delegated_key_new (signer_schemes [RsaPssRsaeSha256, WitEd25519])) [ED25519] = Some \<lparr>ds_scheme = ED25519\<rparr>"
    by (simp add: choose_scheme_def delegated_key_new_def signer_schemes_def)
  from delegated_signing_is_the_signers [of "[RsaPssRsaeSha256, WitEd25519]" "[ED25519]" "\<lambda>_ m. Ok m" "[]"]
  show ?thesis unfolding c by auto
qed

end
