(* ===== verification/Virt_Common.thy ===== *)
theory Virt_Common
  imports Prelude
begin

text \<open>
  The tls-virt scheme shared by both deliveries
  (\<^verbatim>\<open>src/rust/tls-virt-common/src/lib.rs\<close>): the name opt-in, the handle-address table and the
  choice of a destination. Addresses are \<open>std::net\<close>'s: an IPv4 address is its four octets, an
  IPv6 address its eight 16-bit segments. The bytes \<open>getrandom::fill\<close> delivers are an argument
  (\<open>None\<close> when the platform has no randomness).
\<close>

section \<open>Addresses\<close>

type_synonym ipv4_addr = "u8 \<times> u8 \<times> u8 \<times> u8"
type_synonym ipv6_addr = "u16 \<times> u16 \<times> u16 \<times> u16 \<times> u16 \<times> u16 \<times> u16 \<times> u16"

datatype ip_addr = V4 ipv4_addr | V6 ipv6_addr

text \<open>\<open>SocketAddrV6\<close> also carries flow information and a scope id.\<close>

datatype socket_addr = SocketV4 ipv4_addr u16 | SocketV6 ipv6_addr u16 u32 u32

fun socket_addr_new :: "ip_addr \<Rightarrow> u16 \<Rightarrow> socket_addr" where
  "socket_addr_new (V4 a) port = SocketV4 a port"
| "socket_addr_new (V6 a) port = SocketV6 a port 0 0"

fun socket_ip :: "socket_addr \<Rightarrow> ip_addr" where
  "socket_ip (SocketV4 a port) = V4 a"
| "socket_ip (SocketV6 a port flow scope) = V6 a"

fun socket_port :: "socket_addr \<Rightarrow> u16" where
  "socket_port (SocketV4 a port) = port"
| "socket_port (SocketV6 a port flow scope) = port"

fun ipv6_octets :: "ipv6_addr \<Rightarrow> bytes" where
  "ipv6_octets (a, b, c, d, e, f, g, h) = concat (map (be_bytes 2) [a, b, c, d, e, f, g, h])"

definition ipv6_segment :: "bytes \<Rightarrow> nat \<Rightarrow> u16" where
  "ipv6_segment bs i = from_be_bytes (take 2 (drop (2 * i) bs))"

definition ipv6_from_octets :: "bytes \<Rightarrow> ipv6_addr" where
  "ipv6_from_octets bs =
     (ipv6_segment bs 0, ipv6_segment bs 1, ipv6_segment bs 2, ipv6_segment bs 3,
      ipv6_segment bs 4, ipv6_segment bs 5, ipv6_segment bs 6, ipv6_segment bs 7)"

section \<open>The scheme\<close>

definition SUFFIX :: string where "SUFFIX = ''.tls-virt.alt''"

definition strip_suffix :: "string \<Rightarrow> string option" where
  "strip_suffix name =
     (let n = length name - length SUFFIX in
        if length SUFFIX \<le> length name \<and> drop n name = SUFFIX then Some (take n name) else None)"

record entry =
  hostname :: string
  addrs :: "ip_addr list"

record handle_table =
  ht_prefix :: bytes
  entries :: "u64 \<rightharpoonup> entry"

definition handle_table_new :: "bytes option \<Rightarrow> handle_table or_panic" where
  "handle_table_new random =
     (case random of
        None \<Rightarrow> Panic ''randomness available''
      | Some p \<Rightarrow> Ok \<lparr>ht_prefix = p[0 := 0xfd], entries = Map.empty\<rparr>)"

definition mint :: "handle_table \<Rightarrow> entry \<Rightarrow> bytes option \<Rightarrow> (ipv6_addr \<times> handle_table) or_panic" where
  "mint t ent random =
     (case random of
        None \<Rightarrow> Panic ''randomness available''
      | Some sfx \<Rightarrow>
          let key = from_be_bytes sfx
          in Ok (ipv6_from_octets (ht_prefix t @ sfx),
                 t\<lparr>entries := (entries t)(key \<mapsto> ent)\<rparr>))"

definition lookup :: "handle_table \<Rightarrow> ipv6_addr \<Rightarrow> entry option" where
  "lookup t addr =
     (let bs = ipv6_octets addr in
        if take 8 bs \<noteq> ht_prefix t then None else entries t (from_be_bytes (drop 8 bs)))"

fun is_v6 :: "ip_addr \<Rightarrow> bool" where
  "is_v6 (V6 _) = True"
| "is_v6 (V4 _) = False"

definition pick_addr :: "ip_addr list \<Rightarrow> u16 \<Rightarrow> socket_addr option" where
  "pick_addr addresses port =
     map_option (\<lambda>ip. socket_addr_new ip port)
       (case List.find is_v6 addresses of
          Some a \<Rightarrow> Some a
        | None \<Rightarrow> (case addresses of [] \<Rightarrow> None | a # _ \<Rightarrow> Some a))"

section \<open>Laws of addresses and names\<close>

lemma ipv6_exhaust:
  fixes a :: ipv6_addr
  obtains a0 a1 a2 a3 a4 a5 a6 a7 where "a = (a0, a1, a2, a3, a4, a5, a6, a7)"
  by (cases a) auto

lemma length_ipv6_octets [simp]: "length (ipv6_octets a) = 16"
  by (cases a rule: ipv6_exhaust) simp

lemma list16_pairs:
  assumes "length bs = 16"
  shows "concat (map (\<lambda>i. take 2 (drop (2 * i) bs)) [0, 1, 2, 3, 4, 5, 6, 7]) = bs"
  using assms by (auto simp: numeral_eq_Suc length_Suc_conv)

lemma be_bytes_segment:
  assumes "length bs = 16" and "i < 8"
  shows "be_bytes 2 (ipv6_segment bs i) = take 2 (drop (2 * i) bs)"
  unfolding ipv6_segment_def using assms by (intro be_bytes_from_be_bytes) simp_all

lemma ipv6_octets_from_octets [simp]:
  assumes "length bs = 16"
  shows "ipv6_octets (ipv6_from_octets bs) = bs"
proof -
  have "ipv6_octets (ipv6_from_octets bs) =
      concat (map (\<lambda>i. take 2 (drop (2 * i) bs)) [0, 1, 2, 3, 4, 5, 6, 7])"
    using assms by (simp add: ipv6_from_octets_def be_bytes_segment)
  then show ?thesis using list16_pairs [OF assms] by simp
qed

lemma ipv6_octets_inj:
  assumes "ipv6_octets a = ipv6_octets b"
  shows "a = b"
proof -
  obtain a0 a1 a2 a3 a4 a5 a6 a7 where a: "a = (a0, a1, a2, a3, a4, a5, a6, a7)" by (rule ipv6_exhaust)
  obtain b0 b1 b2 b3 b4 b5 b6 b7 where b: "b = (b0, b1, b2, b3, b4, b5, b6, b7)" by (rule ipv6_exhaust)
  have inj: "be_bytes 2 x = be_bytes 2 y \<longleftrightarrow> x = y" for x y :: u16
    using be_bytes_inj [of 2 x y] by auto
  from assms show ?thesis by (simp add: a b inj)
qed

lemma strip_suffix_iff: "strip_suffix name = Some real \<longleftrightarrow> name = real @ SUFFIX"
proof
  assume "strip_suffix name = Some real"
  then have "drop (length name - length SUFFIX) name = SUFFIX"
    and "take (length name - length SUFFIX) name = real"
    by (auto simp: strip_suffix_def Let_def split: if_splits)
  then show "name = real @ SUFFIX" by (metis append_take_drop_id)
next
  assume "name = real @ SUFFIX"
  then show "strip_suffix name = Some real" by (simp add: strip_suffix_def)
qed

lemma find_SomeD: "List.find P xs = Some x \<Longrightarrow> x \<in> set xs \<and> P x"
  by (induction xs) (auto split: if_splits)

lemma pick_addr_chosen:
  assumes "pick_addr as port = Some a"
  shows "\<exists>ip \<in> set as. a = socket_addr_new ip port"
proof (cases "List.find is_v6 as")
  case None
  with assms show ?thesis by (cases as) (simp_all add: pick_addr_def)
next
  case (Some ip)
  with assms find_SomeD [OF Some] show ?thesis by (auto simp: pick_addr_def)
qed

lemma socket_addr_new_simps [simp]:
  "socket_ip (socket_addr_new ip port) = ip" "socket_port (socket_addr_new ip port) = port"
  by (cases ip; simp)+

lemma pick_addr_Some:
  assumes "pick_addr as port = Some a"
  shows "socket_ip a \<in> set as" and "socket_port a = port"
  using pick_addr_chosen [OF assms] by auto

lemma pick_addr_None: "pick_addr as port = None \<longleftrightarrow> as = []"
  by (auto simp: pick_addr_def find_None_iff split: option.splits list.splits)

lemma pick_addr_prefers_v6:
  assumes "pick_addr as port = Some a" and "\<exists>ip \<in> set as. is_v6 ip"
  shows "is_v6 (socket_ip a)"
proof -
  obtain ip where "List.find is_v6 as = Some ip"
    using assms(2) by (cases "List.find is_v6 as") (auto simp: find_None_iff)
  moreover from this have "is_v6 ip" by (rule find_SomeD [THEN conjunct2])
  ultimately show ?thesis using assms(1) by (auto simp: pick_addr_def)
qed

section \<open>Laws of the handle table\<close>

definition table_wf :: "handle_table \<Rightarrow> bool" where
  "table_wf t \<longleftrightarrow> length (ht_prefix t) = 8 \<and> hd (ht_prefix t) = 0xfd"

lemma mint_Some: "mint t ent (Some s) =
    Ok (ipv6_from_octets (ht_prefix t @ s), t\<lparr>entries := (entries t)(from_be_bytes s \<mapsto> ent)\<rparr>)"
  by (simp add: mint_def Let_def)

lemma mint_Ok:
  assumes "mint t ent random = Ok (a, t')"
  shows "\<exists>s. random = Some s \<and> a = ipv6_from_octets (ht_prefix t @ s) \<and>
    t' = t\<lparr>entries := (entries t)(from_be_bytes s \<mapsto> ent)\<rparr>"
  using assms by (cases random) (simp_all add: mint_def Let_def)

lemma lookup_outside_prefix: "take 8 (ipv6_octets a) \<noteq> ht_prefix t \<Longrightarrow> lookup t a = None"
  by (simp add: lookup_def Let_def)

lemma lookup_handle_key:
  assumes "length (ht_prefix t) = 8" and "length s = 8"
  shows "lookup t (ipv6_from_octets (ht_prefix t @ s)) = entries t (from_be_bytes s)"
  using assms by (simp add: lookup_def)

lemma handle_of_lookup:
  assumes "length (ht_prefix t) = 8" and "take 8 (ipv6_octets a) = ht_prefix t"
  shows "a = ipv6_from_octets (ht_prefix t @ drop 8 (ipv6_octets a))"
proof (rule ipv6_octets_inj)
  have "ht_prefix t @ drop 8 (ipv6_octets a) = ipv6_octets a"
    using assms(2) by (metis append_take_drop_id)
  then show "ipv6_octets a = ipv6_octets (ipv6_from_octets (ht_prefix t @ drop 8 (ipv6_octets a)))"
    by simp
qed

text \<open>
  The interface the three clients of the scheme rely on: a store of destinations with minted
  addresses, where a fresh handle finds its own entry and no other address changes meaning, and
  where only addresses of the store's region mean anything.
\<close>

locale handle_store =
  fixes invar :: "'t \<Rightarrow> bool"
    and minted :: "'t \<Rightarrow> 'e \<Rightarrow> bytes \<Rightarrow> 'a \<times> 't"
    and find_entry :: "'t \<Rightarrow> 'a \<Rightarrow> 'e option"
    and region :: "'t \<Rightarrow> 'a \<Rightarrow> bool"
  assumes minted_invar: "invar t \<Longrightarrow> length s = 8 \<Longrightarrow> invar (snd (minted t e s))"
    and find_minted: "invar t \<Longrightarrow> length s = 8 \<Longrightarrow>
      find_entry (snd (minted t e s)) a =
        (if a = fst (minted t e s) then Some e else find_entry t a)"
    and minted_region: "invar t \<Longrightarrow> length s = 8 \<Longrightarrow> region t (fst (minted t e s))"
    and region_minted: "region (snd (minted t e s)) a \<longleftrightarrow> region t a"
    and find_region: "find_entry t a = Some e \<Longrightarrow> region t a"
begin

primrec mint_all :: "'t \<Rightarrow> ('e \<times> bytes) list \<Rightarrow> 't" where
  "mint_all t [] = t"
| "mint_all t (x # xs) = mint_all (snd (minted t (fst x) (snd x))) xs"

lemma mint_all_invar:
  "invar t \<Longrightarrow> list_all (\<lambda>x. length (snd x) = 8) xs \<Longrightarrow> invar (mint_all t xs)"
  by (induction xs arbitrary: t) (auto intro: minted_invar)

lemma mint_all_keeps:
  assumes "invar t" and "list_all (\<lambda>x. length (snd x) = 8) xs" and "find_entry t a = Some e"
  shows "\<exists>e'. find_entry (mint_all t xs) a = Some e' \<and> (e' = e \<or> e' \<in> fst ` set xs)"
  using assms
proof (induction xs arbitrary: t e)
  case Nil
  then show ?case by simp
next
  case (Cons x xs)
  let ?t = "snd (minted t (fst x) (snd x))"
  have "invar ?t" using Cons.prems by (auto intro: minted_invar)
  moreover have "\<exists>e1. find_entry ?t a = Some e1 \<and> (e1 = e \<or> e1 = fst x)"
    using Cons.prems by (auto simp: find_minted)
  ultimately show ?case using Cons.IH [of ?t] Cons.prems(2) by fastforce
qed

lemma find_all_region:
  "find_entry (mint_all t xs) a = Some e \<Longrightarrow> region t a"
proof (induction xs arbitrary: t)
  case Nil
  then show ?case by (simp add: find_region)
next
  case (Cons x xs)
  then have "region (snd (minted t (fst x) (snd x))) a" by simp
  then show ?case by (simp only: region_minted)
qed

end

definition mint_with :: "handle_table \<Rightarrow> entry \<Rightarrow> bytes \<Rightarrow> ipv6_addr \<times> handle_table" where
  "mint_with t ent s = (ipv6_from_octets (ht_prefix t @ s),
     t\<lparr>entries := (entries t)(from_be_bytes s \<mapsto> ent)\<rparr>)"

lemma mint_eq_mint_with: "mint t ent (Some s) = Ok (mint_with t ent s)"
  by (simp add: mint_Some mint_with_def)

interpretation handles: handle_store table_wf mint_with lookup
  "\<lambda>t a. take 8 (ipv6_octets a) = ht_prefix t"
proof (unfold_locales, goal_cases)
  case (1 t s e)
  then show ?case by (simp add: table_wf_def mint_with_def)
next
  case (2 t s e a)
  then have l: "length (ht_prefix t) = 8" "length s = 8" by (simp_all add: table_wf_def)
  show ?case
  proof (cases "take 8 (ipv6_octets a) = ht_prefix t")
    case True
    let ?r = "drop 8 (ipv6_octets a)"
    have a: "a = ipv6_from_octets (ht_prefix t @ ?r)" by (rule handle_of_lookup [OF l(1) True])
    have r: "length ?r = 8" by simp
    have "(from_be_bytes ?r :: u64) = from_be_bytes s \<longleftrightarrow> ?r = s"
      using from_be_bytes_inj [of ?r s, where 'a = 64] l(2) by auto
    moreover have "a = ipv6_from_octets (ht_prefix t @ s) \<longleftrightarrow> ?r = s"
      using a l ipv6_octets_from_octets [of "ht_prefix t @ s"] by (metis append_eq_conv_conj length_append
          l(1) numeral_Bit0)
    ultimately show ?thesis using True by (simp add: mint_with_def lookup_def Let_def)
  next
    case False
    with l have "a \<noteq> ipv6_from_octets (ht_prefix t @ s)" by auto
    with False show ?thesis by (simp add: mint_with_def lookup_def)
  qed
next
  case (3 t s e)
  then show ?case by (simp add: table_wf_def mint_with_def)
next
  case (4 t e s a)
  show ?case by (simp add: mint_with_def)
next
  case (5 t a e)
  then show ?case using lookup_outside_prefix by fastforce
qed

section \<open>Properties\<close>

text \<open>
  C8. Minting a handle: in a table with a ULA prefix, minting with eight random bytes succeeds;
  the handle starts with 0xfd and stands for exactly the stored destination, every other
  address means what it meant before, and the table keeps its prefix.
\<close>

theorem mint_then_lookup:
  assumes "table_wf t" and "length s = 8"
  shows "\<exists>a t'. mint t ent (Some s) = Ok (a, t') \<and> table_wf t' \<and> ht_prefix t' = ht_prefix t \<and>
    hd (ipv6_octets a) = 0xfd \<and>
    (\<forall>b. lookup t' b = (if b = a then Some ent else lookup t b))"
proof -
  have "ipv6_octets (fst (mint_with t ent s)) = ht_prefix t @ s"
    using assms by (simp add: mint_with_def table_wf_def)
  moreover have "ht_prefix t \<noteq> []" using assms(1) by (auto simp: table_wf_def)
  ultimately have "hd (ipv6_octets (fst (mint_with t ent s))) = 0xfd"
    using assms(1) by (simp add: table_wf_def)
  moreover have "ht_prefix (snd (mint_with t ent s)) = ht_prefix t" by (simp add: mint_with_def)
  ultimately show ?thesis
    using handles.minted_invar [OF assms] handles.find_minted [OF assms]
    by (metis mint_eq_mint_with prod.collapse)
qed

definition demo_table :: handle_table where
  "demo_table = \<lparr>ht_prefix = [0xfd, 1, 2, 3, 4, 5, 6, 7], entries = Map.empty\<rparr>"

definition demo_entry :: entry where
  "demo_entry = \<lparr>hostname = ''example.com'', addrs = [V4 (192, 0, 2, 1), V6 (8193, 0, 0, 0, 0, 0, 0, 1)]\<rparr>"

lemma demo_table_wf: "table_wf demo_table"
  by (simp add: table_wf_def demo_table_def)

theorem mint_then_lookup_witness:
  "\<exists>a t'. mint demo_table demo_entry (Some [1, 2, 3, 4, 5, 6, 7, 8]) = Ok (a, t') \<and> table_wf t' \<and>
    ht_prefix t' = ht_prefix demo_table \<and> hd (ipv6_octets a) = 0xfd \<and>
    (\<forall>b. lookup t' b = (if b = a then Some demo_entry else lookup demo_table b))"
  by (rule mint_then_lookup [OF demo_table_wf]) simp

text \<open>
  Only the table's own addresses are handles: however many destinations a fresh table has
  stored, an address it recognises lies under its 0xfd prefix, so loopback, unspecified and
  every address of another prefix pass through.
\<close>

theorem handles_are_under_the_prefix:
  assumes "handle_table_new (Some r) = Ok t" and "length r = 8"
    and "lookup (handles.mint_all t xs) a = Some e"
  shows "take 8 (ipv6_octets a) = r[0 := 0xfd] \<and> hd (ipv6_octets a) = 0xfd"
proof -
  have t: "ht_prefix t = r[0 := 0xfd]" using assms(1) by (auto simp: handle_table_new_def)
  have p: "take 8 (ipv6_octets a) = r[0 := 0xfd]"
    using handles.find_all_region [OF assms(3)] t by simp
  obtain r0 rs where r: "r = r0 # rs" using assms(2) by (cases r) auto
  have "hd (ipv6_octets a) = hd (take 8 (ipv6_octets a))"
    using length_ipv6_octets [of a] by (cases "ipv6_octets a") auto
  with p r show ?thesis by simp
qed

theorem handles_are_under_the_prefix_witness:
  "\<exists>t a e. handle_table_new (Some (replicate 8 9)) = Ok t \<and>
    lookup (handles.mint_all t [(demo_entry, replicate 8 1)]) a = Some e \<and>
    take 8 (ipv6_octets a) = (replicate 8 9)[0 := 0xfd] \<and> hd (ipv6_octets a) = 0xfd"
proof -
  let ?t = "\<lparr>ht_prefix = (replicate 8 9)[0 := 0xfd], entries = Map.empty\<rparr>"
  let ?a = "fst (mint_with ?t demo_entry (replicate 8 1))"
  have n: "handle_table_new (Some (replicate 8 9)) = Ok ?t" by (simp add: handle_table_new_def)
  have "table_wf ?t" by (simp add: table_wf_def numeral_eq_Suc)
  then have l: "lookup (handles.mint_all ?t [(demo_entry, replicate 8 1)]) ?a = Some demo_entry"
    by (simp add: handles.find_minted)
  have "take 8 (ipv6_octets ?a) = (replicate 8 9)[0 := 0xfd] \<and> hd (ipv6_octets ?a) = 0xfd"
    by (rule handles_are_under_the_prefix [OF n _ l]) simp
  with n l show ?thesis by blast
qed

text \<open>
  The destination of a connection: for every resolved list the picked address is one of
  the resolved ones at the requested port, an IPv6 one if there is any, and there is none only
  when the list is empty.
\<close>

theorem pick_addr_correct:
  "(pick_addr as port = None \<longleftrightarrow> as = []) \<and>
   (\<forall>a. pick_addr as port = Some a \<longrightarrow>
      socket_ip a \<in> set as \<and> socket_port a = port \<and>
      ((\<exists>ip \<in> set as. is_v6 ip) \<longrightarrow> is_v6 (socket_ip a)))"
  by (auto simp: pick_addr_None intro: pick_addr_Some pick_addr_prefers_v6)

theorem pick_addr_correct_witness:
  "is_v6 (socket_ip (SocketV6 (8193, 0, 0, 0, 0, 0, 0, 1) 443 0 0))"
proof -
  have p: "pick_addr (addrs demo_entry) 443 = Some (SocketV6 (8193, 0, 0, 0, 0, 0, 0, 1) 443 0 0)"
    by (simp add: pick_addr_def demo_entry_def)
  have v: "\<exists>ip \<in> set (addrs demo_entry). is_v6 ip" by (simp add: demo_entry_def)
  show ?thesis
    by (rule pick_addr_correct [THEN conjunct2, THEN spec, THEN mp, OF p, THEN conjunct2,
          THEN conjunct2, THEN mp, OF v])
qed

text \<open>A name opts in exactly when it ends in the suffix, and what is stripped is the rest.\<close>

theorem strip_suffix_correct:
  "strip_suffix name = Some real \<longleftrightarrow> name = real @ SUFFIX"
  by (rule strip_suffix_iff)

end
