(* ===== verification/P2_Streams.thy ===== *)
theory P2_Streams
  imports Prelude
begin

text \<open>
  The \<open>wasi:io\<close> streams a WASI 0.2 guest gets for a tunnel
  (\<^verbatim>\<open>src/rust/tls-virt-wasmtime/src/p2.rs\<close>): the guest-facing \<open>TlsInputStream\<close> and
  \<open>TlsOutputStream\<close>, and \<open>write_task\<close>, the task that owns the TLS write half. Every critical section
  under the mutex is one function; the ways they interleave are the step relations \<open>wstep\<close> (send
  direction) and \<open>rstep\<close> (receive direction). The TLS halves are parameters.
\<close>

section \<open>Stream states and errors\<close>

definition CHUNK :: nat where "CHUNK = 16 * 1024"

datatype stream_error = StreamClosed | LastOperationFailed string | StreamTrap string

datatype stream_state = Open | Closed | Failed string

fun check :: "stream_state \<Rightarrow> (unit, stream_error) result" where
  "check Open = Ok ()"
| "check Closed = Err StreamClosed"
| "check (Failed message) = Err (LastOperationFailed message)"

section \<open>The receive direction\<close>

record 'r read_slot =
  rd_half :: "'r option"
  rd_buf :: bytes
  rd_state :: stream_state

definition input_read :: "nat \<Rightarrow> 'r read_slot \<Rightarrow> (bytes, stream_error) result \<times> 'r read_slot" where
  "input_read n_max slot =
     (if rd_buf slot \<noteq> [] then
        let n = min (length (rd_buf slot)) n_max
        in (Ok (take n (rd_buf slot)), slot\<lparr>rd_buf := drop n (rd_buf slot)\<rparr>)
      else case check (rd_state slot) of
          Err e \<Rightarrow> (Err e, slot)
        | Ok _ \<Rightarrow> (Ok [], slot))"

text \<open>
  \<open>TlsInputStream::ready\<close> up to its \<open>await\<close> (\<open>None\<close>: it returns at once; \<open>Some half\<close>: it awaits a read
  of the half it took), and from the completed read to its end.
\<close>

definition ready_begin :: "'r read_slot \<Rightarrow> 'r option \<times> 'r read_slot" where
  "ready_begin slot =
     (if rd_buf slot \<noteq> [] \<or> rd_state slot \<noteq> Open then (None, slot)
      else case rd_half slot of
          Some half \<Rightarrow> (Some half, slot\<lparr>rd_half := None\<rparr>)
        | None \<Rightarrow> (None, slot))"

definition ready_end :: "'r \<Rightarrow> (bytes, string) result \<Rightarrow> 'r read_slot \<Rightarrow> 'r read_slot" where
  "ready_end half outcome slot =
     (case outcome of
        Ok data \<Rightarrow>
          if data = [] then slot\<lparr>rd_state := Closed\<rparr>
          else slot\<lparr>rd_buf := rd_buf slot @ data, rd_half := Some half\<rparr>
      | Err e \<Rightarrow> slot\<lparr>rd_state := Failed (''TLS receive failed: '' @ e)\<rparr>)"

definition close_read :: "'r read_slot \<Rightarrow> 'r read_slot" where
  "close_read slot =
     (let slot = slot\<lparr>rd_half := None, rd_buf := []\<rparr>
      in if rd_state slot = Open then slot\<lparr>rd_state := Closed\<rparr> else slot)"

section \<open>The send direction: critical sections\<close>

record write_inner =
  queued :: bytes
  flushing :: bool
  shutting :: bool
  wr_state :: stream_state

definition write_ctl_new :: write_inner where
  "write_ctl_new = \<lparr>queued = [], flushing = False, shutting = False, wr_state = Open\<rparr>"

datatype work = Io bytes bool bool | Wait | End

definition next_work :: "write_inner \<Rightarrow> work \<times> write_inner" where
  "next_work inner =
     (if wr_state inner \<noteq> Open then (End, inner)
      else if queued inner = [] \<and> \<not> flushing inner \<and> \<not> shutting inner then (Wait, inner)
      else (Io (queued inner) (flushing inner) (shutting inner), inner\<lparr>queued := []\<rparr>))"

text \<open>The permit \<open>write\<close> and \<open>check_write\<close> compute; natural subtraction is \<open>saturating_sub\<close>.\<close>

definition permitted :: "write_inner \<Rightarrow> nat" where
  "permitted inner = (if flushing inner then 0 else CHUNK - length (queued inner))"

definition output_write :: "bytes \<Rightarrow> write_inner \<Rightarrow> (unit, stream_error) result \<times> write_inner" where
  "output_write data inner =
     (case check (wr_state inner) of
        Err e \<Rightarrow> (Err e, inner)
      | Ok _ \<Rightarrow>
          if shutting inner then (Err StreamClosed, inner)
          else if permitted inner < length data
            then (Err (StreamTrap ''write exceeds check-write permit''), inner)
          else (Ok (), inner\<lparr>queued := queued inner @ data\<rparr>))"

definition output_flush :: "write_inner \<Rightarrow> (unit, stream_error) result \<times> write_inner" where
  "output_flush inner =
     (case check (wr_state inner) of
        Err e \<Rightarrow> (Err e, inner)
      | Ok _ \<Rightarrow>
          if shutting inner then (Err StreamClosed, inner)
          else (Ok (), inner\<lparr>flushing := True\<rparr>))"

definition check_write :: "write_inner \<Rightarrow> (nat, stream_error) result" where
  "check_write inner =
     (case check (wr_state inner) of
        Err e \<Rightarrow> Err e
      | Ok _ \<Rightarrow> if shutting inner then Err StreamClosed else Ok (permitted inner))"

text \<open>The condition on which \<open>TlsOutputStream::ready\<close> returns.\<close>

definition output_ready :: "write_inner \<Rightarrow> bool" where
  "output_ready inner \<longleftrightarrow>
     (\<not> flushing inner \<and> length (queued inner) < CHUNK) \<or> wr_state inner \<noteq> Open \<or> shutting inner"

text \<open>\<open>request_shutdown\<close>: the new state and whether the task is woken.\<close>

definition request_shutdown :: "write_inner \<Rightarrow> bool \<times> write_inner" where
  "request_shutdown inner =
     (if wr_state inner \<noteq> Open \<or> shutting inner then (False, inner)
      else (True, inner\<lparr>shutting := True\<rparr>))"

section \<open>The send direction: the writer task\<close>

text \<open>The TLS write half: what the three calls of the task return and make of it.\<close>

record 'w half_ops =
  write_all :: "bytes \<Rightarrow> 'w \<Rightarrow> (unit, string) result \<times> 'w"
  half_flush :: "'w \<Rightarrow> (unit, string) result \<times> 'w"
  half_shutdown :: "'w \<Rightarrow> (unit, string) result \<times> 'w"

definition task_io ::
    "'w half_ops \<Rightarrow> bytes \<Rightarrow> bool \<Rightarrow> bool \<Rightarrow> 'w \<Rightarrow> (unit, string) result \<times> 'w" where
  "task_io ops chunk fl sh w =
     (let (res, w) = write_all ops chunk w;
          (res, w) = (if is_ok res \<and> fl then half_flush ops w else (res, w))
      in if is_ok res \<and> sh then half_shutdown ops w else (res, w))"

text \<open>The section after the IO: whether the task returns, and the new state.\<close>

definition settle ::
    "(unit, string) result \<Rightarrow> bool \<Rightarrow> bool \<Rightarrow> write_inner \<Rightarrow> bool \<times> write_inner" where
  "settle res fl sh inner =
     (case res of
        Ok _ \<Rightarrow>
          let inner = (if fl \<and> queued inner = [] then inner\<lparr>flushing := False\<rparr> else inner)
          in if sh then (True, inner\<lparr>wr_state := Closed\<rparr>) else (False, inner)
      | Err e \<Rightarrow> (True, inner\<lparr>wr_state := Failed (''TLS send failed: '' @ e)\<rparr>))"

text \<open>
  \<open>tokio::sync::Notify\<close>, used by one waiter: \<open>notify_one\<close> completes a registered waiter and otherwise
  stores one permit, which \<open>enable\<close> consumes (\<open>Completed\<close>). A waiter that is dropped after it was
  notified hands the notification on, here back to the permit.
\<close>

datatype waiter = Registered | Notified | Completed

datatype task_pc =
    AtLoop                                       \<comment> \<open>about to call \<open>next_work\<close>\<close>
  | Register                                     \<comment> \<open>\<open>next_work\<close> said wait; about to \<open>enable\<close>\<close>
  | Recheck waiter                               \<comment> \<open>about to call \<open>next_work\<close> again\<close>
  | Parked waiter                                \<comment> \<open>at \<open>wake.await\<close>\<close>
  | Doing bytes bool bool                        \<comment> \<open>the IO of a chunk\<close>
  | Settling "(unit, string) result" bool bool   \<comment> \<open>about to take the lock after the IO\<close>
  | Finished

text \<open>What the guest's thread is at: idle, about to call \<open>notify_one\<close>, or inside \<open>ready\<close>.\<close>

datatype guest_pc = Idle | Owes_Wake | Polling waiter | Poll_Parked waiter

text \<open>
  \<open>accepted\<close> and \<open>discarded\<close> are history variables: the bytes whose \<open>write\<close> returned \<open>Ok\<close>, and those
  the task dropped on the floor.
\<close>

record 'w chan =
  inner :: write_inner
  permit :: bool
  task :: task_pc
  guest :: guest_pc
  half :: 'w
  accepted :: bytes
  discarded :: bytes

definition chan_new :: "'w \<Rightarrow> 'w chan" where
  "chan_new w = \<lparr>inner = write_ctl_new, permit = False, task = AtLoop, guest = Idle, half = w,
     accepted = [], discarded = []\<rparr>"

definition notify_one :: "'w chan \<Rightarrow> 'w chan" where
  "notify_one c =
     (case task c of
        Recheck Registered \<Rightarrow> c\<lparr>task := Recheck Notified\<rparr>
      | Parked Registered \<Rightarrow> c\<lparr>task := Parked Notified\<rparr>
      | _ \<Rightarrow> c\<lparr>permit := True\<rparr>)"

definition notify_waiters :: "'w chan \<Rightarrow> 'w chan" where
  "notify_waiters c =
     (case guest c of
        Polling _ \<Rightarrow> c\<lparr>guest := Polling Notified\<rparr>
      | Poll_Parked _ \<Rightarrow> c\<lparr>guest := Poll_Parked Notified\<rparr>
      | _ \<Rightarrow> c)"

text \<open>One step of \<open>write_task\<close>; \<open>None\<close> when it waits or has returned.\<close>

fun io_chunk :: "work \<Rightarrow> bytes" where
  "io_chunk (Io chunk fl sh) = chunk"
| "io_chunk Wait = []"
| "io_chunk End = []"

definition task_step :: "'w half_ops \<Rightarrow> 'w chan \<Rightarrow> 'w chan option" where
  "task_step ops c =
     (case task c of
        AtLoop \<Rightarrow>
          (case next_work (inner c) of
             (End, i) \<Rightarrow> Some (c\<lparr>inner := i, task := Finished\<rparr>)
           | (Wait, i) \<Rightarrow> Some (c\<lparr>inner := i, task := Register\<rparr>)
           | (Io chunk fl sh, i) \<Rightarrow> Some (c\<lparr>inner := i, task := Doing chunk fl sh\<rparr>))
      | Register \<Rightarrow>
          Some (c\<lparr>task := Recheck (if permit c then Completed else Registered), permit := False\<rparr>)
      | Recheck w \<Rightarrow>
          (case next_work (inner c) of
             (Wait, i) \<Rightarrow> Some (c\<lparr>inner := i, task := Parked w\<rparr>)
           | (wk, i) \<Rightarrow>
               Some (c\<lparr>inner := i, task := AtLoop, permit := permit c \<or> w = Notified,
                 discarded := discarded c @ io_chunk wk\<rparr>))
      | Parked w \<Rightarrow> if w = Registered then None else Some (c\<lparr>task := AtLoop\<rparr>)
      | Doing chunk fl sh \<Rightarrow>
          (let (res, w) = task_io ops chunk fl sh (half c)
           in Some (c\<lparr>half := w, task := Settling res fl sh\<rparr>))
      | Settling res fl sh \<Rightarrow>
          (let (fin, i) = settle res fl sh (inner c)
           in Some (notify_waiters (c\<lparr>inner := i, task := (if fin then Finished else AtLoop)\<rparr>)))
      | Finished \<Rightarrow> None)"

text \<open>
  The guest's calls on the stream and on the socket, one lock section each; a call that succeeded
  owes the task a wake-up, which is a step of its own.
\<close>

datatype stream_call = Write bytes | Flush | Shutdown_Send | Check_Write

definition guest_call :: "stream_call \<Rightarrow> 'w chan \<Rightarrow> 'w chan" where
  "guest_call call c =
     (case call of
        Write data \<Rightarrow>
          (case output_write data (inner c) of
             (Ok _, i) \<Rightarrow> c\<lparr>inner := i, accepted := accepted c @ data, guest := Owes_Wake\<rparr>
           | (Err _, i) \<Rightarrow> c\<lparr>inner := i\<rparr>)
      | Flush \<Rightarrow>
          (case output_flush (inner c) of
             (Ok _, i) \<Rightarrow> c\<lparr>inner := i, guest := Owes_Wake\<rparr>
           | (Err _, i) \<Rightarrow> c\<lparr>inner := i\<rparr>)
      | Shutdown_Send \<Rightarrow>
          (case request_shutdown (inner c) of
             (True, i) \<Rightarrow> c\<lparr>inner := i, guest := Owes_Wake\<rparr>
           | (False, i) \<Rightarrow> c\<lparr>inner := i\<rparr>)
      | Check_Write \<Rightarrow> c)"

inductive wstep :: "'w half_ops \<Rightarrow> 'w chan \<Rightarrow> 'w chan \<Rightarrow> bool" for ops where
  task: "task_step ops c = Some c' \<Longrightarrow> wstep ops c c'"
| call: "guest c = Idle \<Longrightarrow> wstep ops c (guest_call call c)"
| wake: "guest c = Owes_Wake \<Longrightarrow> wstep ops c (notify_one (c\<lparr>guest := Idle\<rparr>))"
| poll: "guest c = Idle \<Longrightarrow> wstep ops c (c\<lparr>guest := Polling Registered\<rparr>)"
| poll_ready: "guest c = Polling w \<Longrightarrow> output_ready (inner c) \<Longrightarrow> wstep ops c (c\<lparr>guest := Idle\<rparr>)"
| poll_park: "guest c = Polling w \<Longrightarrow> \<not> output_ready (inner c) \<Longrightarrow>
    wstep ops c (c\<lparr>guest := Poll_Parked w\<rparr>)"
| poll_again: "guest c = Poll_Parked Notified \<Longrightarrow> wstep ops c (c\<lparr>guest := Polling Registered\<rparr>)"
| poll_cancel: "guest c = Poll_Parked w \<Longrightarrow> wstep ops c (c\<lparr>guest := Idle\<rparr>)"

inductive wreach :: "'w half_ops \<Rightarrow> 'w \<Rightarrow> 'w chan \<Rightarrow> bool" for ops w0 where
  start: "wreach ops w0 (chan_new w0)"
| step: "wreach ops w0 c \<Longrightarrow> wstep ops c c' \<Longrightarrow> wreach ops w0 c'"

section \<open>What the writer task relies on\<close>

text \<open>
  The promises of the TLS write half, over two observations: the cleartext handed to the peer and
  whether close_notify was sent. A failing \<open>write_all\<close> may have sent part of the chunk.
\<close>

definition half_ok :: "'w half_ops \<Rightarrow> ('w \<Rightarrow> bytes) \<Rightarrow> ('w \<Rightarrow> bool) \<Rightarrow> bool" where
  "half_ok ops sent ended \<longleftrightarrow>
     (\<forall>data w. case write_all ops data w of
        (Ok _, w') \<Rightarrow> sent w' = sent w @ data \<and> ended w' = ended w
      | (Err _, w') \<Rightarrow> (\<exists>p. prefix p data \<and> sent w' = sent w @ p) \<and> ended w' = ended w) \<and>
     (\<forall>w. case half_flush ops w of (_, w') \<Rightarrow> sent w' = sent w \<and> ended w' = ended w) \<and>
     (\<forall>w. case half_shutdown ops w of (res, w') \<Rightarrow> sent w' = sent w \<and> (is_ok res \<longrightarrow> ended w'))"

lemma half_okD:
  assumes "half_ok ops sent ended"
  shows "write_all ops data w = (Ok u, w') \<Longrightarrow> sent w' = sent w @ data \<and> ended w' = ended w"
    and "write_all ops data w = (Err e, w') \<Longrightarrow> \<exists>p. prefix p data \<and> sent w' = sent w @ p"
    and "half_flush ops w = (res, w') \<Longrightarrow> sent w' = sent w \<and> ended w' = ended w"
    and "half_shutdown ops w = (res, w') \<Longrightarrow> sent w' = sent w"
    and "half_shutdown ops w = (Ok u, w') \<Longrightarrow> ended w'"
  using assms unfolding half_ok_def by (auto split: prod.splits sum.splits) (metis sum.distinct sum.inject)+

lemma task_io_sent:
  assumes "half_ok ops sent ended" and "task_io ops chunk fl sh w = (res, w')"
  shows "\<exists>p. prefix p chunk \<and> sent w' = sent w @ p \<and> (is_ok res \<longrightarrow> p = chunk \<and> (sh \<longrightarrow> ended w'))"
proof -
  obtain r1 w1 where 1: "write_all ops chunk w = (r1, w1)" by fastforce
  obtain r2 w2 where 2: "(if is_ok r1 \<and> fl then half_flush ops w1 else (r1, w1)) = (r2, w2)" by fastforce
  have 3: "(if is_ok r2 \<and> sh then half_shutdown ops w2 else (r2, w2)) = (res, w')"
    using assms(2) by (simp add: task_io_def 1 2)
  have s2: "sent w2 = sent w1" using 2 half_okD(3) [OF assms(1)] by (auto split: if_splits)
  have s3: "sent w' = sent w2" using 3 half_okD(4) [OF assms(1)] by (auto split: if_splits)
  have ok: "is_ok res \<Longrightarrow> is_ok r1" using 2 3 by (auto split: if_splits)
  have fin: "is_ok res \<Longrightarrow> sh \<Longrightarrow> ended w'"
    using 3 half_okD(5) [OF assms(1)] by (auto split: if_splits simp: is_ok_iff)
  show ?thesis
  proof (cases r1)
    case (Inl e)
    then show ?thesis using half_okD(2) [OF assms(1)] 1 s2 s3 ok by (metis is_ok_simps(2))
  next
    case (Inr u)
    then have "sent w1 = sent w @ chunk" using half_okD(1) [OF assms(1)] 1 by blast
    then show ?thesis using s2 s3 fin by auto
  qed
qed

section \<open>Invariants of the send direction\<close>

fun in_flight :: "task_pc \<Rightarrow> bytes" where
  "in_flight (Doing chunk fl sh) = chunk"
| "in_flight _ = []"

fun broken_pc :: "task_pc \<Rightarrow> bool" where
  "broken_pc (Settling (Inl e) fl sh) = True"
| "broken_pc _ = False"

definition broken :: "'w chan \<Rightarrow> bool" where
  "broken c \<longleftrightarrow> broken_pc (task c) \<or> (\<exists>m. wr_state (inner c) = Failed m)"

fun closing_pc :: "task_pc \<Rightarrow> bool" where
  "closing_pc (Doing chunk fl sh) = sh"
| "closing_pc (Settling res fl sh) = sh"
| "closing_pc _ = False"

definition outgoing :: "('w \<Rightarrow> bytes) \<Rightarrow> 'w chan \<Rightarrow> bytes" where
  "outgoing sent c = sent (half c) @ in_flight (task c) @ queued (inner c)"

definition idle :: "write_inner \<Rightarrow> bool" where
  "idle i \<longleftrightarrow> queued i = [] \<and> \<not> flushing i \<and> \<not> shutting i"

definition control_inv :: "'w chan \<Rightarrow> bool" where
  "control_inv c \<longleftrightarrow>
     length (queued (inner c)) \<le> CHUNK \<and>
     (wr_state (inner c) \<noteq> Open \<longrightarrow> task c = Finished) \<and>
     (task c = Finished \<longrightarrow> wr_state (inner c) \<noteq> Open) \<and>
     (wr_state (inner c) = Closed \<longrightarrow> shutting (inner c) \<and> queued (inner c) = []) \<and>
     (closing_pc (task c) \<longrightarrow> shutting (inner c) \<and> queued (inner c) = []) \<and>
     (task c = Parked Registered \<and> \<not> idle (inner c) \<longrightarrow> guest c = Owes_Wake)"

lemmas section_defs = next_work_def output_write_def output_flush_def request_shutdown_def
  settle_def permitted_def

lemma guest_call_simps [simp]:
  "task (guest_call call c) = task c" "half (guest_call call c) = half c"
  "permit (guest_call call c) = permit c" "discarded (guest_call call c) = discarded c"
  "wr_state (inner (guest_call call c)) = wr_state (inner c)"
  by (auto simp: guest_call_def section_defs split: stream_call.splits sum.splits)

lemma notify_simps [simp]:
  "inner (notify_one c) = inner c" "half (notify_one c) = half c" "guest (notify_one c) = guest c"
  "accepted (notify_one c) = accepted c" "discarded (notify_one c) = discarded c"
  "in_flight (task (notify_one c)) = in_flight (task c)"
  "closing_pc (task (notify_one c)) = closing_pc (task c)"
  "broken_pc (task (notify_one c)) = broken_pc (task c)"
  "task (notify_one c) = Finished \<longleftrightarrow> task c = Finished"
  "task (notify_one c) = Settling res fl sh \<longleftrightarrow> task c = Settling res fl sh"
  "task (notify_one c) \<noteq> Parked Registered"
  by (auto simp: notify_one_def split: task_pc.splits waiter.splits)

lemma notify_waiters_simps [simp]:
  "inner (notify_waiters c) = inner c" "half (notify_waiters c) = half c"
  "task (notify_waiters c) = task c" "permit (notify_waiters c) = permit c"
  "accepted (notify_waiters c) = accepted c" "discarded (notify_waiters c) = discarded c"
  "guest (notify_waiters c) = Owes_Wake \<longleftrightarrow> guest c = Owes_Wake"
  by (auto simp: notify_waiters_def split: guest_pc.splits)

lemma control_inv_task:
  assumes "control_inv c" and "task_step ops c = Some c'"
  shows "control_inv c'"
proof (cases "task c")
  case (Settling res fl sh)
  with assms show ?thesis
    by (auto simp: control_inv_def idle_def task_step_def settle_def Let_def split: sum.splits if_splits)
qed (use assms in \<open>auto simp: control_inv_def idle_def task_step_def next_work_def
       split: if_splits prod.splits\<close>)

lemma guest_call_control:
  assumes "control_inv c" and "guest c = Idle"
  shows "control_inv (guest_call call c)"
proof (cases "wr_state (inner c)")
  case Open
  with assms show ?thesis
    by (cases call) (auto simp: control_inv_def idle_def guest_call_def section_defs)
next
  case Closed
  with assms show ?thesis
    by (cases call) (auto simp: control_inv_def idle_def guest_call_def section_defs)
next
  case (Failed m)
  with assms show ?thesis
    by (cases call) (auto simp: control_inv_def idle_def guest_call_def section_defs)
qed

lemma control_inv_step:
  assumes "control_inv c" and "wstep ops c c'"
  shows "control_inv c'"
  using assms(2)
proof cases
  case task
  with assms(1) show ?thesis by (blast intro: control_inv_task)
next
  case (call call)
  with assms(1) show ?thesis by (simp add: guest_call_control)
qed (use assms(1) in \<open>auto simp: control_inv_def idle_def\<close>)

lemma control_inv_reachable: "wreach ops w0 c \<Longrightarrow> control_inv c"
proof (induction rule: wreach.induct)
  case start
  show ?case by (simp add: control_inv_def idle_def chan_new_def write_ctl_new_def)
qed (rule control_inv_step)

definition account_inv :: "('w \<Rightarrow> bytes) \<Rightarrow> ('w \<Rightarrow> bool) \<Rightarrow> bytes \<Rightarrow> 'w chan \<Rightarrow> bool" where
  "account_inv sent ended s0 c \<longleftrightarrow>
     subseq (outgoing sent c) (s0 @ accepted c) \<and>
     (discarded c = [] \<and> \<not> broken c \<longrightarrow> outgoing sent c = s0 @ accepted c) \<and>
     (\<forall>fl. task c = Settling (Ok ()) fl True \<longrightarrow> ended (half c)) \<and>
     (wr_state (inner c) = Closed \<longrightarrow> ended (half c))"

lemma subseq_drop_tail: "subseq (a @ b) d \<Longrightarrow> subseq a d"
  by (meson list_emb_append2 subseq_order.trans subseq_append' subseq_rev_drop_many subseq_order.refl)


lemma subseq_same_tail: "subseq a b \<Longrightarrow> subseq (a @ d) (b @ d)"
  by (simp add: list_emb_append_mono)

lemma subseq_skip_mid: "subseq (a @ b @ d) (a @ b @ m @ d)"
  by (simp add: subseq_append' list_emb_append2)

lemma outgoing_io:
  assumes "half_ok ops sent ended" and "task c = Doing chunk fl sh"
    and "task_io ops chunk fl sh (half c) = (res, w)"
  shows "subseq (outgoing sent (c\<lparr>half := w, task := Settling res fl sh\<rparr>)) (outgoing sent c)"
    and "is_ok res \<Longrightarrow> outgoing sent (c\<lparr>half := w, task := Settling res fl sh\<rparr>) = outgoing sent c"
    and "is_ok res \<Longrightarrow> sh \<Longrightarrow> ended w"
proof -
  obtain p where p: "prefix p chunk" "sent w = sent (half c) @ p"
    "is_ok res \<Longrightarrow> p = chunk" "is_ok res \<Longrightarrow> sh \<Longrightarrow> ended w"
    using task_io_sent [OF assms(1,3)] by blast
  show "subseq (outgoing sent (c\<lparr>half := w, task := Settling res fl sh\<rparr>)) (outgoing sent c)"
    using p(1,2) assms(2) by (auto simp: outgoing_def prefix_def subseq_skip_mid)
  show "is_ok res \<Longrightarrow> outgoing sent (c\<lparr>half := w, task := Settling res fl sh\<rparr>) = outgoing sent c"
    using p(2,3) assms(2) by (simp add: outgoing_def)
  show "is_ok res \<Longrightarrow> sh \<Longrightarrow> ended w" by (rule p(4))
qed

lemma account_inv_task:
  assumes "half_ok ops sent ended" and "control_inv c" and "account_inv sent ended s0 c"
    and "task_step ops c = Some c'"
  shows "account_inv sent ended s0 c'"
proof (cases "task c")
  case (Doing chunk fl sh)
  obtain res w where io: "task_io ops chunk fl sh (half c) = (res, w)" by fastforce
  then have c': "c' = c\<lparr>half := w, task := Settling res fl sh\<rparr>"
    using assms(4) Doing by (simp add: task_step_def)
  note out = outgoing_io [OF assms(1) Doing io]
  have op: "wr_state (inner c) = Open" using assms(2) Doing by (auto simp: control_inv_def idle_def)
  have brk: "broken c' \<longleftrightarrow> \<not> is_ok res" "\<not> broken c"
    using op Doing by (cases res; simp add: broken_def c')+
  show ?thesis
    using assms(3) out brk op
    by (auto simp: account_inv_def c' intro: subseq_order.trans)
next
  case (Settling res fl sh)
  with assms(2-4) show ?thesis
    by (cases res) (auto simp: account_inv_def task_step_def settle_def Let_def outgoing_def broken_def
        control_inv_def idle_def split: if_splits)
next
  case (Recheck w)
  with assms(2-4) show ?thesis
    by (auto simp: account_inv_def task_step_def next_work_def outgoing_def broken_def control_inv_def idle_def
        split: if_splits dest: subseq_drop_tail)
qed (use assms(2-4) in \<open>auto simp: account_inv_def task_step_def next_work_def outgoing_def broken_def
       control_inv_def idle_def split: if_splits\<close>)

lemma account_inv_call:
  assumes "control_inv c" and "account_inv sent ended s0 c"
  shows "account_inv sent ended s0 (guest_call call c)"
proof -
  have eq: "outgoing sent (guest_call call c) = outgoing sent c \<and> accepted (guest_call call c) = accepted c
     \<or> (\<exists>d. outgoing sent (guest_call call c) = outgoing sent c @ d \<and>
           accepted (guest_call call c) = accepted c @ d)"
    by (cases call) (auto simp: guest_call_def section_defs outgoing_def split: sum.splits)
  have "broken (guest_call call c) = broken c" by (simp add: broken_def)
  with eq assms(2) show ?thesis
    by (auto simp: account_inv_def simp flip: append_assoc intro: subseq_same_tail)
qed

lemma account_inv_step:
  assumes "half_ok ops sent ended" and "control_inv c" and "account_inv sent ended s0 c"
    and "wstep ops c c'"
  shows "account_inv sent ended s0 c'"
  using assms(4)
proof cases
  case task
  with assms(1-3) show ?thesis by (rule account_inv_task)
next
  case (call call)
  with assms(2,3) show ?thesis by (simp add: account_inv_call)
next
  case wake
  with assms(3) show ?thesis
    by (auto simp: account_inv_def outgoing_def broken_def)
qed (use assms(3) in \<open>auto simp: account_inv_def outgoing_def broken_def\<close>)

lemma account_inv_reachable:
  assumes "half_ok ops sent ended" and "wreach ops w0 c"
  shows "account_inv sent ended (sent w0) c"
  using assms(2)
proof (induction rule: wreach.induct)
  case start
  show ?case by (simp add: account_inv_def chan_new_def write_ctl_new_def outgoing_def)
next
  case (step c c')
  show ?case
    by (rule account_inv_step [OF assms(1) control_inv_reachable [OF step.hyps(1)] step.IH step.hyps(2)])
qed

section \<open>Progress, and the re-check race\<close>

primrec task_run :: "'w half_ops \<Rightarrow> nat \<Rightarrow> 'w chan \<Rightarrow> 'w chan" where
  "task_run ops 0 c = c"
| "task_run ops (Suc n) c = (case task_step ops c of None \<Rightarrow> c | Some c' \<Rightarrow> task_run ops n c')"

lemma task_run_wreach: "wreach ops w0 c \<Longrightarrow> wreach ops w0 (task_run ops n c)"
proof (induction n arbitrary: c)
  case (Suc n)
  then show ?case by (auto split: option.split intro: wreach.step wstep.task)
qed simp

lemma task_round:
  assumes "task c = AtLoop" and "wr_state (inner c) = Open" and "\<not> idle (inner c)"
    and "task_io ops (queued (inner c)) (flushing (inner c)) (shutting (inner c)) (half c) = (Ok u, w)"
  shows "task_run ops 3 c = notify_waiters (c\<lparr>half := w,
     inner := (inner c)\<lparr>queued := [], flushing := False,
        wr_state := (if shutting (inner c) then Closed else Open)\<rparr>,
     task := (if shutting (inner c) then Finished else AtLoop)\<rparr>)"
  using assms
  by (cases "inner c") (auto simp: numeral_3_eq_3 task_step_def next_work_def settle_def idle_def notify_waiters_def split: guest_pc.splits)

text \<open>
  \<open>race w0 data\<close>: the guest wrote \<open>data\<close> after the task's first look at the queue and before its
  re-check; \<open>next_work\<close> in the re-check takes the bytes out and its result is not used.
\<close>

definition race :: "'w \<Rightarrow> bytes \<Rightarrow> 'w chan" where
  "race w0 data = (chan_new w0)\<lparr>inner := write_ctl_new\<lparr>queued := data\<rparr>, permit := True,
     task := Register, accepted := data\<rparr>"

lemma race_reachable:
  assumes "length data \<le> CHUNK"
  shows "wreach ops w0 (race w0 data)"
proof -
  have 1: "wreach ops w0 ((chan_new w0)\<lparr>task := Register\<rparr>)"
    by (rule wreach.step [OF wreach.start])
      (rule wstep.task, simp add: task_step_def next_work_def chan_new_def write_ctl_new_def)
  have "wreach ops w0 (guest_call (Write data) ((chan_new w0)\<lparr>task := Register\<rparr>))"
    by (rule wreach.step [OF 1], rule wstep.call) (simp add: chan_new_def)
  then have "wreach ops w0 (notify_one ((guest_call (Write data) ((chan_new w0)\<lparr>task := Register\<rparr>))\<lparr>guest := Idle\<rparr>))"
    by (rule wreach.step, intro wstep.wake)
      (use assms in \<open>simp add: guest_call_def section_defs chan_new_def write_ctl_new_def\<close>)
  then show ?thesis
    using assms by (simp add: race_def guest_call_def section_defs chan_new_def write_ctl_new_def notify_one_def)
qed

lemma race_run:
  assumes "data \<noteq> []"
  shows "task_run ops 5 ((race w0 data)\<lparr>guest := g\<rparr>) = (race w0 data)\<lparr>guest := g, inner := write_ctl_new,
    permit := False, task := Parked Registered, discarded := data\<rparr>"
  using assms by (simp add: race_def numeral_eq_Suc task_step_def next_work_def chan_new_def write_ctl_new_def)

section \<open>The receive direction as a step relation\<close>

text \<open>
  \<open>awaiting\<close> is the half the future of \<open>ready\<close> holds across its \<open>await\<close>; dropping the future
  (\<open>ready_cancel\<close>: \<open>poll\<close> drops the futures of the pollables that did not win) drops the half with
  it. \<open>received\<close>, \<open>delivered\<close>, \<open>peer_ended\<close> and \<open>guest_closed\<close> are history variables: the cleartext
  the TLS half returned, the cleartext handed to the guest, whether the half reported the clean end
  and whether the guest shut the direction down. \<open>rd\<close> is the half's read into a buffer of \<open>CHUNK\<close>.
\<close>

record 'r rchan =
  slot :: "'r read_slot"
  awaiting :: "'r option"
  received :: bytes
  delivered :: bytes
  peer_ended :: bool
  guest_closed :: bool

definition rchan_new :: "'r \<Rightarrow> 'r rchan" where
  "rchan_new r = \<lparr>slot = \<lparr>rd_half = Some r, rd_buf = [], rd_state = Open\<rparr>, awaiting = None,
     received = [], delivered = [], peer_ended = False, guest_closed = False\<rparr>"

fun ok_bytes :: "(bytes, 'e) result \<Rightarrow> bytes" where
  "ok_bytes (Inr data) = data"
| "ok_bytes (Inl e) = []"

inductive rstep :: "('r \<Rightarrow> (bytes, string) result \<times> 'r) \<Rightarrow> 'r rchan \<Rightarrow> 'r rchan \<Rightarrow> bool" for rd where
  ready_take: "awaiting c = None \<Longrightarrow> ready_begin (slot c) = (Some h, s) \<Longrightarrow>
    rstep rd c (c\<lparr>slot := s, awaiting := Some h\<rparr>)"
| ready_done: "awaiting c = Some h \<Longrightarrow> rd h = (res, h') \<Longrightarrow>
    rstep rd c (c\<lparr>slot := ready_end h' res (slot c), awaiting := None,
      received := received c @ ok_bytes res, peer_ended := peer_ended c \<or> res = Ok []\<rparr>)"
| ready_cancel: "awaiting c = Some h \<Longrightarrow> rstep rd c (c\<lparr>awaiting := None\<rparr>)"
| guest_read: "awaiting c = None \<Longrightarrow> input_read n (slot c) = (res, s) \<Longrightarrow>
    rstep rd c (c\<lparr>slot := s, delivered := delivered c @ ok_bytes res\<rparr>)"
| guest_close: "awaiting c = None \<Longrightarrow> rstep rd c (c\<lparr>slot := close_read (slot c), guest_closed := True\<rparr>)"

inductive rreach :: "('r \<Rightarrow> (bytes, string) result \<times> 'r) \<Rightarrow> 'r \<Rightarrow> 'r rchan \<Rightarrow> bool" for rd r0 where
  r_start: "rreach rd r0 (rchan_new r0)"
| r_step: "rreach rd r0 c \<Longrightarrow> rstep rd c c' \<Longrightarrow> rreach rd r0 c'"

definition read_inv :: "'r rchan \<Rightarrow> bool" where
  "read_inv c \<longleftrightarrow>
     prefix (delivered c @ rd_buf (slot c)) (received c) \<and>
     (\<not> guest_closed c \<longrightarrow> delivered c @ rd_buf (slot c) = received c) \<and>
     (awaiting c \<noteq> None \<longrightarrow> rd_state (slot c) = Open \<and> rd_buf (slot c) = [] \<and>
        rd_half (slot c) = None) \<and>
     (guest_closed c \<longrightarrow> awaiting c = None \<and> rd_buf (slot c) = [] \<and> rd_state (slot c) \<noteq> Open) \<and>
     (rd_state (slot c) = Closed \<longrightarrow> peer_ended c \<or> guest_closed c)"

lemma read_inv_step:
  assumes "read_inv c" and "rstep rd c c'"
  shows "read_inv c'"
  using assms(2)
proof cases
  case (ready_take h s)
  with assms(1) show ?thesis
    by (auto simp: read_inv_def ready_begin_def split: if_splits option.splits)
next
  case (ready_done h res h')
  with assms(1) show ?thesis
    by (cases res) (auto simp: read_inv_def ready_end_def split: if_splits)
next
  case (ready_cancel h)
  with assms(1) show ?thesis by (auto simp: read_inv_def)
next
  case (guest_read n res s)
  have "delivered c @ ok_bytes res @ rd_buf s = delivered c @ rd_buf (slot c)" "rd_state s = rd_state (slot c)"
    and "rd_buf (slot c) = [] \<Longrightarrow> rd_buf s = []"
    using guest_read(3)
    by (auto simp: input_read_def Let_def split: if_splits sum.splits)
  with guest_read(1,2) assms(1) show ?thesis by (auto simp: read_inv_def)
next
  case guest_close
  with assms(1) show ?thesis
    by (auto simp: read_inv_def close_read_def Let_def dest: append_prefixD)
qed

lemma read_inv_reachable: "rreach rd r0 c \<Longrightarrow> read_inv c"
proof (induction rule: rreach.induct)
  case r_start
  show ?case by (simp add: read_inv_def rchan_new_def)
qed (rule read_inv_step)

definition wedged :: "'r rchan \<Rightarrow> bool" where
  "wedged c \<longleftrightarrow> awaiting c = None \<and> rd_half (slot c) = None \<and> rd_buf (slot c) = [] \<and>
     rd_state (slot c) = Open"

lemma wedged_read: "wedged c \<Longrightarrow> input_read n (slot c) = (Ok [], slot c)"
  by (simp add: wedged_def input_read_def)

lemma wedged_ready: "wedged c \<Longrightarrow> ready_begin (slot c) = (None, slot c)"
  by (simp add: wedged_def ready_begin_def)

inductive_cases rstepE: "rstep rd c c'"

lemma wedged_step:
  assumes "wedged c" and "rstep rd c c'"
  shows "(wedged c' \<and> received c' = received c) \<or> guest_closed c'"
  using assms(2)
proof cases
  case (guest_read n res s)
  with assms(1) show ?thesis by (auto simp: wedged_read)
qed (use assms(1) in \<open>auto simp: wedged_ready\<close>, auto simp: wedged_def)

lemma guest_closed_step: "rstep rd c c' \<Longrightarrow> guest_closed c \<Longrightarrow> guest_closed c'"
  by (erule rstepE) simp_all

lemma wedged_forever:
  assumes "wedged c" and "(rstep rd)\<^sup>*\<^sup>* c c'"
  shows "(wedged c' \<and> received c' = received c) \<or> guest_closed c'"
  using assms(2)
proof (induction rule: rtranclp_induct)
  case base
  then show ?case using assms(1) by simp
next
  case (step y z)
  then show ?case using wedged_step guest_closed_step by metis
qed

section \<open>Properties\<close>

text \<open>
  C4. In every interleaving of the guest's calls with the writer task, what the peer was sent, what is
  in flight and what is queued is a subsequence of what the guest's writes accepted: bytes are never
  duplicated, reordered or made up. It is exactly the accepted bytes, in order, as long as the TLS
  half has not failed and the task's re-check has discarded nothing.
\<close>

theorem writer_task_delivers_in_order:
  assumes "half_ok ops sent ended" and "wreach ops w0 c"
  shows "subseq (outgoing sent c) (sent w0 @ accepted c) \<and>
     (discarded c = [] \<and> \<not> broken c \<longrightarrow> outgoing sent c = sent w0 @ accepted c) \<and>
     length (queued (inner c)) \<le> CHUNK"
  using account_inv_reachable [OF assms] control_inv_reachable [OF assms(2)]
  by (auto simp: account_inv_def control_inv_def)

definition demo_half :: "(bytes \<times> bool) half_ops" where
  "demo_half = \<lparr>write_all = (\<lambda>data (out, fin). (Ok (), (out @ data, fin))),
     half_flush = (\<lambda>w. (Ok (), w)), half_shutdown = (\<lambda>(out, fin). (Ok (), (out, True)))\<rparr>"

lemma demo_half_ok: "half_ok demo_half fst snd"
  by (auto simp: half_ok_def demo_half_def)

theorem writer_task_delivers_in_order_witness:
  "half_ok demo_half fst snd \<and> wreach demo_half ([], False) (race ([], False) [7, 8]) \<and>
   outgoing fst (race ([], False) [7, 8]) = [7, 8]"
proof -
  have r: "wreach demo_half ([], False) (race ([], False) [7, 8])"
    by (rule race_reachable) (simp add: CHUNK_def)
  have "discarded (race ([]::bytes, False) [7, 8]) = []" "\<not> broken (race ([]::bytes, False) [7, 8])"
    "accepted (race ([]::bytes, False) [7, 8]) = [7, 8]"
    by (simp_all add: race_def chan_new_def broken_def write_ctl_new_def)
  then show ?thesis using writer_task_delivers_in_order [OF demo_half_ok r] r demo_half_ok by simp
qed

text \<open>
  C18. The send direction never goes to sleep on work: in every reachable state with queued bytes, a
  requested flush or a requested shutdown, either the task can take a step or the guest's wake-up is
  still on its way.
\<close>

theorem writer_task_never_sleeps_on_work:
  assumes "wreach ops w0 c" and "\<not> idle (inner c)" and "wr_state (inner c) = Open" and "guest c \<noteq> Owes_Wake"
  shows "task_step ops c \<noteq> None"
proof -
  have "control_inv c" using assms(1) by (rule control_inv_reachable)
  with assms(2-4) show ?thesis
    by (cases "task c") (auto simp: control_inv_def idle_def task_step_def next_work_def
         split: prod.splits work.splits)
qed

theorem writer_task_never_sleeps_on_work_witness:
  "wreach demo_half ([], False) (race ([], False) [7, 8]) \<and>
   task_step demo_half (race ([], False) [7, 8]) \<noteq> None"
proof
  show r: "wreach demo_half ([], False) (race ([], False) [7, 8])"
    by (rule race_reachable) (simp add: CHUNK_def)
  show "task_step demo_half (race ([], False) [7, 8]) \<noteq> None"
    by (rule writer_task_never_sleeps_on_work [OF r]) (simp_all add: race_def chan_new_def write_ctl_new_def idle_def)
qed

text \<open>
  One round of the task with a working TLS half sends the whole queue in order, empties it and
  completes the requested flush; a requested shutdown is performed after the last byte, close_notify
  included, and ends the task with the stream closed.
\<close>

theorem writer_task_round_completes:
  assumes "half_ok ops sent ended"
    and "task c = AtLoop" and "wr_state (inner c) = Open" and "\<not> idle (inner c)"
    and "is_ok (fst (task_io ops (queued (inner c)) (flushing (inner c)) (shutting (inner c)) (half c)))"
  shows "let c' = task_run ops 3 c in
     sent (half c') = sent (half c) @ queued (inner c) \<and> queued (inner c') = [] \<and>
     \<not> flushing (inner c') \<and>
     (if shutting (inner c) then task c' = Finished \<and> wr_state (inner c') = Closed \<and> ended (half c')
      else task c' = AtLoop \<and> wr_state (inner c') = Open)"
proof -
  obtain u w where io:
    "task_io ops (queued (inner c)) (flushing (inner c)) (shutting (inner c)) (half c) = (Ok u, w)"
    using assms(5) by (auto simp: is_ok_iff prod_eq_iff)
  then have "sent w = sent (half c) @ queued (inner c) \<and> (shutting (inner c) \<longrightarrow> ended w)"
    using task_io_sent [OF assms(1) io] by auto
  then show ?thesis by (simp add: task_round [OF assms(2-4) io] Let_def)
qed

theorem writer_task_round_completes_witness:
  "let c = (chan_new ([], False))\<lparr>inner := write_ctl_new\<lparr>queued := [1, 2], shutting := True\<rparr>\<rparr>;
       c' = task_run demo_half 3 c
   in half c' = ([1, 2], True) \<and> task c' = Finished"
proof -
  let ?c = "(chan_new ([], False))\<lparr>inner := write_ctl_new\<lparr>queued := [1, 2], shutting := True\<rparr>\<rparr>"
  have "fst (half (task_run demo_half 3 ?c)) = [1, 2]" "snd (half (task_run demo_half 3 ?c))"
    "task (task_run demo_half 3 ?c) = Finished"
    using writer_task_round_completes [OF demo_half_ok, of ?c]
    by (simp_all add: chan_new_def write_ctl_new_def idle_def task_io_def demo_half_def Let_def)
  then show ?thesis by (simp add: Let_def prod_eq_iff)
qed

text \<open>
  A closed send direction was closed cleanly: close_notify is out, nothing is left in the queue,
  and every accepted byte was sent before it (those the re-check discarded excepted).
\<close>

theorem closed_send_direction_is_clean:
  assumes "half_ok ops sent ended" and "wreach ops w0 c" and "wr_state (inner c) = Closed"
  shows "ended (half c) \<and> queued (inner c) = [] \<and> task c = Finished \<and>
     (discarded c = [] \<longrightarrow> sent (half c) = sent w0 @ accepted c)"
proof -
  have a: "account_inv sent ended (sent w0) c" by (rule account_inv_reachable [OF assms(1,2)])
  have k: "control_inv c" by (rule control_inv_reachable [OF assms(2)])
  have "task c = Finished" "queued (inner c) = []" using k assms(3) by (auto simp: control_inv_def)
  with a assms(3) show ?thesis by (auto simp: account_inv_def broken_def outgoing_def)
qed

lemma closed_reachable:
  "wreach demo_half ([], False) (task_run demo_half 3
     ((notify_one (guest_call Shutdown_Send (chan_new ([], False))\<lparr>guest := Idle\<rparr>))))"
proof (rule task_run_wreach)
  have "wreach demo_half ([], False) (guest_call Shutdown_Send (chan_new ([], False)))"
    by (rule wreach.step [OF wreach.start], rule wstep.call) (simp add: chan_new_def)
  then show "wreach demo_half ([], False)
      (notify_one (guest_call Shutdown_Send (chan_new ([], False))\<lparr>guest := Idle\<rparr>))"
    by (rule wreach.step, intro wstep.wake) (simp add: guest_call_def chan_new_def request_shutdown_def write_ctl_new_def)
qed

theorem closed_send_direction_is_clean_witness:
  "\<exists>c. wreach demo_half ([], False) c \<and> wr_state (inner c) = Closed \<and> snd (half c)"
proof -
  let ?c = "task_run demo_half 3 (notify_one (guest_call Shutdown_Send (chan_new ([]::bytes, False))\<lparr>guest := Idle\<rparr>))"
  have c: "wr_state (inner ?c) = Closed"
    by (simp add: guest_call_def chan_new_def request_shutdown_def write_ctl_new_def notify_one_def
        numeral_3_eq_3 task_step_def next_work_def task_io_def demo_half_def settle_def Let_def
        notify_waiters_def)
  then show ?thesis
    using closed_send_direction_is_clean [OF demo_half_ok closed_reachable c] closed_reachable by blast
qed

text \<open>
  \<open>check_write\<close> is exact: it fails exactly when \<open>write\<close> of nothing would, with the same error, and
  otherwise reports the largest length \<open>write\<close> accepts; a longer write traps and changes nothing. The
  permit never exceeds 16 KiB and is zero while a flush is pending.
\<close>

theorem check_write_is_exact:
  "case check_write i of
     Err e \<Rightarrow> (\<forall>data. output_write data i = (Err e, i)) \<and> output_flush i = (Err e, i)
   | Ok n \<Rightarrow> n \<le> CHUNK \<and> (flushing i \<longrightarrow> n = 0) \<and>
       (\<forall>data. output_write data i =
          (if length data \<le> n then (Ok (), i\<lparr>queued := queued i @ data\<rparr>)
           else (Err (StreamTrap ''write exceeds check-write permit''), i)))"
  by (cases "wr_state i") (auto simp: check_write_def section_defs)

theorem check_write_is_exact_witness:
  "check_write write_ctl_new = Ok 16384 \<and>
   output_write [1, 2] write_ctl_new = (Ok (), write_ctl_new\<lparr>queued := [1, 2]\<rparr>)"
proof -
  have "check_write write_ctl_new = Ok 16384"
    by (simp add: check_write_def write_ctl_new_def permitted_def CHUNK_def)
  then show ?thesis using check_write_is_exact [of write_ctl_new] by (simp add: write_ctl_new_def)
qed

text \<open>
  C39. The re-check of the writer task loses data: for every chunk a write can accept there is an
  interleaving after which the guest's write has returned \<open>Ok\<close>, the stream is open, nothing of the
  chunk was sent or is queued, and the task sleeps.
\<close>

theorem accepted_bytes_can_be_lost:
  assumes "data \<noteq> []" and "length data \<le> CHUNK"
  shows "\<exists>c. wreach ops w0 c \<and> accepted c = data \<and> outgoing sent c = sent w0 \<and>
     task_step ops c = None \<and> guest c = Idle \<and> wr_state (inner c) = Open"
proof (intro exI conjI)
  let ?c = "(race w0 data)\<lparr>inner := write_ctl_new,
    permit := False, task := Parked Registered, discarded := data\<rparr>"
  have idle: "(race w0 data)\<lparr>guest := Idle\<rparr> = race w0 data" by (simp add: race_def chan_new_def)
  show "wreach ops w0 ?c"
    using task_run_wreach [OF race_reachable [OF assms(2)], of ops w0 5] race_run [OF assms(1), of ops Idle w0]
    by (simp add: idle)
qed (simp_all add: race_def outgoing_def chan_new_def write_ctl_new_def task_step_def)

theorem accepted_bytes_can_be_lost_witness:
  "\<exists>c. wreach demo_half ([], False) c \<and> accepted c = [1, 2, 3] \<and> fst (half c) = []"
  using accepted_bytes_can_be_lost [of "[1, 2, 3]" demo_half "([], False)" fst]
  by (auto simp: CHUNK_def outgoing_def)

text \<open>
  The same race deadlocks a guest that fills its permit and then polls: the guest waits for the
  task to free budget and the task waits for the guest to write, although the queue is empty.
\<close>

theorem writer_and_guest_deadlock:
  "\<exists>c. wreach ops w0 c \<and> task_step ops c = None \<and> guest c = Poll_Parked Registered \<and>
     idle (inner c) \<and> wr_state (inner c) = Open"
proof (intro exI conjI)
  let ?d = "replicate CHUNK (0::u8)"
  let ?p = "(race w0 ?d)\<lparr>guest := Poll_Parked Registered\<rparr>"
  have "wreach ops w0 ((race w0 ?d)\<lparr>guest := Polling Registered\<rparr>)"
    by (rule wreach.step [OF race_reachable wstep.poll]) (simp_all add: race_def chan_new_def)
  then have "wreach ops w0 (((race w0 ?d)\<lparr>guest := Polling Registered\<rparr>)\<lparr>guest := Poll_Parked Registered\<rparr>)"
    by (rule wreach.step, intro wstep.poll_park)
      (simp_all add: race_def chan_new_def output_ready_def write_ctl_new_def)
  then have "wreach ops w0 ?p" by simp
  from task_run_wreach [OF this, of 5]
  show "wreach ops w0 (?p\<lparr>inner := write_ctl_new, permit := False, task := Parked Registered,
      discarded := ?d\<rparr>)"
    using race_run [of ?d ops "Poll_Parked Registered" w0] by (simp add: CHUNK_def)
qed (simp_all add: task_step_def idle_def write_ctl_new_def)

text \<open>
  C19. The receive stream hands over the received cleartext in order and without gaps, and reports the
  end of the stream only after a clean TLS end whose data was all delivered, or after the guest
  itself shut the direction down; a failed transport is never the end of the data.
\<close>

theorem receive_stream_faithful:
  assumes "rreach rd r0 c"
  shows "prefix (delivered c) (received c) \<and>
     (\<forall>n s. input_read n (slot c) = (Err StreamClosed, s) \<longrightarrow>
        guest_closed c \<or> (peer_ended c \<and> delivered c = received c))"
proof (intro conjI allI impI)
  have inv: "read_inv c" using assms by (rule read_inv_reachable)
  then show "prefix (delivered c) (received c)" by (auto simp: read_inv_def dest: append_prefixD)
  fix n s
  assume "input_read n (slot c) = (Err StreamClosed, s)"
  then have "rd_buf (slot c) = []" "rd_state (slot c) = Closed"
    by (auto simp: input_read_def Let_def split: if_splits sum.splits)
      (cases "rd_state (slot c)"; simp)
  with inv show "guest_closed c \<or> (peer_ended c \<and> delivered c = received c)"
    by (auto simp: read_inv_def)
qed

definition demo_read :: "bytes list \<Rightarrow> (bytes, string) result \<times> bytes list" where
  "demo_read h = (case h of [] \<Rightarrow> (Ok [], []) | d # ds \<Rightarrow> (Ok d, ds))"

lemma demo_polled: "rreach demo_read [[1, 2]] ((rchan_new [[1, 2]])\<lparr>slot :=
    \<lparr>rd_half = None, rd_buf = [], rd_state = Open\<rparr>, awaiting := Some [[1, 2]]\<rparr>)"
  by (rule rreach.r_step [OF rreach.r_start], rule rstep.ready_take)
    (simp_all add: rchan_new_def ready_begin_def)

theorem receive_stream_faithful_witness:
  "\<exists>c s. rreach demo_read [] c \<and> input_read 5 (slot c) = (Err StreamClosed, s) \<and> peer_ended c \<and>
     delivered c = received c"
proof -
  let ?s = "\<lparr>rd_half = None, rd_buf = [], rd_state = Open\<rparr> :: bytes list read_slot"
  let ?c1 = "(rchan_new [])\<lparr>slot := ?s, awaiting := Some []\<rparr>"
  let ?c2 = "?c1\<lparr>slot := ready_end [] (Ok []) (slot ?c1), awaiting := None,
      received := received ?c1 @ ok_bytes (Ok [] :: (bytes, string) result), peer_ended := peer_ended ?c1 \<or> Ok [] = (Ok [] :: (bytes, string) result)\<rparr>"
  have "rreach demo_read [] ?c1"
    by (rule rreach.r_step [OF rreach.r_start], rule rstep.ready_take) (simp_all add: rchan_new_def ready_begin_def)
  then have r: "rreach demo_read [] ?c2"
    by (rule rreach.r_step, intro rstep.ready_done [where h = "[]"]) (simp, simp add: demo_read_def)
  have i: "input_read 5 (slot ?c2) = (Err StreamClosed, slot ?c2)" "\<not> guest_closed ?c2"
    by (simp_all add: input_read_def ready_end_def rchan_new_def)
  with receive_stream_faithful [OF r] r show ?thesis by blast
qed

text \<open>
  C40. A cancelled poll kills the receive direction: when the future of \<open>ready\<close> is dropped while it
  awaits the TLS half, the half is gone for good. Whatever happens next short of the guest's own
  shutdown, nothing is received any more, \<open>ready\<close> returns at once and \<open>read\<close> returns no bytes and no
  error.
\<close>

theorem cancelled_poll_wedges_the_stream:
  assumes "rreach rd r0 c" and "awaiting c = Some h"
  shows "\<exists>c1. rstep rd c c1 \<and> (\<forall>c2. (rstep rd)\<^sup>*\<^sup>* c1 c2 \<and> \<not> guest_closed c2 \<longrightarrow>
     received c2 = received c \<and> ready_begin (slot c2) = (None, slot c2) \<and>
     (\<forall>n. input_read n (slot c2) = (Ok [], slot c2)))"
proof (intro exI conjI allI impI)
  let ?c1 = "c\<lparr>awaiting := None\<rparr>"
  show "rstep rd c ?c1" using assms(2) by (rule rstep.ready_cancel)
  have "wedged ?c1" using read_inv_reachable [OF assms(1)] assms(2) by (simp add: read_inv_def wedged_def)
  note forever = wedged_forever [OF this]
  fix c2 n
  assume "(rstep rd)\<^sup>*\<^sup>* ?c1 c2 \<and> \<not> guest_closed c2"
  then have w: "wedged c2" "received c2 = received c" using forever by fastforce+
  show "received c2 = received c" by (rule w)
  show "ready_begin (slot c2) = (None, slot c2)" by (rule wedged_ready [OF w(1)])
  show "input_read n (slot c2) = (Ok [], slot c2)" by (rule wedged_read [OF w(1)])
qed

theorem cancelled_poll_wedges_the_stream_witness:
  "\<exists>c1. rreach demo_read [[1, 2]] c1 \<and> input_read 5 (slot c1) = (Ok [], slot c1)"
proof -
  let ?c = "(rchan_new [[1::u8, 2]])\<lparr>slot := \<lparr>rd_half = None, rd_buf = [], rd_state = Open\<rparr>,
    awaiting := Some [[1, 2]]\<rparr>"
  obtain c1 where s: "rstep demo_read ?c c1"
    and w: "\<forall>c2. (rstep demo_read)\<^sup>*\<^sup>* c1 c2 \<and> \<not> guest_closed c2 \<longrightarrow>
      received c2 = received ?c \<and> ready_begin (slot c2) = (None, slot c2) \<and>
      (\<forall>n. input_read n (slot c2) = (Ok [], slot c2))"
    using cancelled_poll_wedges_the_stream [OF demo_polled, of "[[1, 2]]"] by auto
  have "\<not> guest_closed c1" using s by cases (simp_all add: rchan_new_def)
  then have "input_read 5 (slot c1) = (Ok [], slot c1)" using w by blast
  then show ?thesis using rreach.r_step [OF demo_polled s] by blast
qed

end
