(* ===== verification/Virt_Ctx.thy ===== *)
theory Virt_Ctx
  imports Virt_Common P2_Streams
begin

text \<open>
  The data of the host delivery (\<^verbatim>\<open>src/rust/tls-virt-wasmtime/src/main.rs\<close> and its \<^verbatim>\<open>p2.rs\<close>): the
  \<open>wasi:sockets\<close> types, the provider's own state \<open>VirtCtx\<close>, the store projection \<open>VirtView\<close>, and the
  parameters that stand for wasmtime-wasi, tokio's TCP and tokio-rustls.
\<close>

section \<open>The types of wasi:sockets\<close>

datatype ip_address = Ipv4 ipv4_addr | Ipv6 ipv6_addr

datatype ip_address_family = FamilyIpv4 | FamilyIpv6

record ipv4_socket_address =
  v4_port :: u16
  v4_address :: ipv4_addr

record ipv6_socket_address =
  v6_port :: u16
  v6_flow_info :: u32
  v6_address :: ipv6_addr
  v6_scope_id :: u32

datatype ip_socket_address = SockV4 ipv4_socket_address | SockV6 ipv6_socket_address

datatype error_code =
    AccessDenied | NotSupported | InvalidArgument | InvalidState | RemoteUnreachable
  | ConnectionReset | NameUnresolvable | WouldBlock | NotInProgress | OtherCode string

text \<open>\<open>SocketError\<close>: an error code for the guest, or an error of the host that traps.\<close>

datatype socket_error = Code error_code | HostTrap string

type_synonym 'a socket_result = "('a, socket_error) result"

text \<open>The addresses of the handle table are \<open>std::net\<close>'s.\<close>

fun ip_to_std :: "ip_address \<Rightarrow> ip_addr" where
  "ip_to_std (Ipv4 a) = V4 a"
| "ip_to_std (Ipv6 a) = V6 a"

fun p2_ip_to_std :: "ip_address \<Rightarrow> ip_addr" where
  "p2_ip_to_std (Ipv4 a) = V4 a"
| "p2_ip_to_std (Ipv6 a) = V6 a"

definition handle_to_ip :: "ipv6_addr \<Rightarrow> ip_address" where
  "handle_to_ip handle = Ipv6 handle"

section \<open>State\<close>

record ('r, 'w) tunnel =
  t_remote :: ip_socket_address
  t_local :: "socket_addr option"
  t_read :: "'r option"
  t_write :: "'w option"

text \<open>
  What is behind an \<open>Arc\<close> is an entry of a heap, named by its address: the slot a handshake task
  delivers into, with the value of its watch channel, and the streams' shared states.
\<close>

type_synonym ref = nat

record ('r, 'w) tls_parts =
  p_local :: "socket_addr option"
  p_read :: 'r
  p_write :: 'w

record ('r, 'w) handshake_slot =
  s_result :: "(('r, 'w) tls_parts, error_code) result option"
  s_done :: bool

datatype p2_tunnel =
    Connecting ip_socket_address ref
  | Connected ip_socket_address "socket_addr option" ref ref ref
  | Tunnel_Failed

datatype p2_resolve = Draining string "ip_addr list" | Yielded

record ('r, 'w) virt_ctx =
  names :: handle_table
  tunnels :: "u32 \<rightharpoonup> ('r, 'w) tunnel"
  p2_tunnels :: "u32 \<rightharpoonup> p2_tunnel"
  p2_resolves :: "u32 \<rightharpoonup> p2_resolve"

text \<open>The view the operations work on: the provider's state and wasmtime-wasi's.\<close>

record ('r, 'w, 's) virt_view =
  virt :: "('r, 'w) virt_ctx"
  sockets :: 's

text \<open>
  \<open>VirtCtx::new\<close>: \<open>added\<close> is what adding the baked root to an empty root store returned, \<open>random\<close>
  what the platform delivers for the prefix of the handle table.
\<close>

definition virt_ctx_new ::
    "(unit, string) result \<Rightarrow> bytes option \<Rightarrow> (('r, 'w) virt_ctx, string) result or_panic" where
  "virt_ctx_new added random =
     (case added of
        Err e \<Rightarrow> Ok (Err ''invalid baked root certificate'')
      | Ok _ \<Rightarrow>
          (case handle_table_new random of
             Inl p \<Rightarrow> Panic p
           | Inr t \<Rightarrow> Ok (Ok \<lparr>names = t, tunnels = Map.empty, p2_tunnels = Map.empty,
               p2_resolves = Map.empty\<rparr>)))"

definition mint_handle ::
    "('r, 'w) virt_ctx \<Rightarrow> entry \<Rightarrow> bytes option \<Rightarrow> (ip_address \<times> ('r, 'w) virt_ctx) or_panic" where
  "mint_handle v ent random =
     (case mint (names v) ent random of
        Inl p \<Rightarrow> Panic p
      | Inr (handle, t) \<Rightarrow> Ok (Ipv6 handle, v\<lparr>names := t\<rparr>))"

fun lookup_handle ::
    "('r, 'w) virt_ctx \<Rightarrow> ip_socket_address \<Rightarrow> (string \<times> ip_addr list \<times> u16) option" where
  "lookup_handle v (SockV4 _) = None"
| "lookup_handle v (SockV6 v6) =
     map_option (\<lambda>e. (hostname e, addrs e, v6_port v6)) (lookup (names v) (v6_address v6))"

section \<open>Parameters\<close>

text \<open>
  The network: the embedder's address policy, tokio's TCP connect, the local address of a connection,
  the parser of server names, the TLS client handshake, the split into halves and the conversion of IO
  errors. \<open>'n\<close> is the state of the outside world.
\<close>

record ('n, 'c, 'sn, 't, 'r, 'w) net_ops =
  addr_check :: "socket_addr \<Rightarrow> 'n \<Rightarrow> bool \<times> 'n"
  tcp_connect :: "socket_addr \<Rightarrow> 'n \<Rightarrow> ('c, string) result \<times> 'n"
  local_addr :: "'c \<Rightarrow> socket_addr option"
  server_name :: "string \<Rightarrow> 'sn option"
  tls_connect :: "'sn \<Rightarrow> 'c \<Rightarrow> 'n \<Rightarrow> ('t, string) result \<times> 'n"
  tls_split :: "'t \<Rightarrow> 'r \<times> 'w"
  code_from_io :: "string \<Rightarrow> error_code"

text \<open>
  The interface of dialing a tunnel: nothing is dialed unless the sandbox's policy admits the
  address, and a result means a TLS session with the named server over a connection to that very
  address.
\<close>

locale guarded_dial =
  fixes dial :: "('n, 'c, 'sn, 't, 'r, 'w) net_ops \<Rightarrow> string \<Rightarrow> socket_addr \<Rightarrow> 'n \<Rightarrow>
    (('r, 'w) tls_parts, error_code) result \<times> 'n"
  assumes denied: "addr_check net a n = (False, n1) \<Longrightarrow> dial net host a n = (Err AccessDenied, n1)"
    and dialed: "dial net host a n = (Ok p, n') \<Longrightarrow>
      \<exists>n1 c n2 sn t. addr_check net a n = (True, n1) \<and> tcp_connect net a n1 = (Ok c, n2) \<and>
        server_name net host = Some sn \<and> tls_connect net sn c n2 = (Ok t, n') \<and>
        p = \<lparr>p_local = local_addr net c, p_read = fst (tls_split net t), p_write = snd (tls_split net t)\<rparr>"
begin

lemma dial_admitted:
  assumes "dial net host a n = (Ok p, n')"
  shows "fst (addr_check net a n)"
  using dialed [OF assms] by auto

lemma dial_refuses_bad_name:
  assumes "server_name net host = None"
  shows "\<not> is_ok (fst (dial net host a n))"
proof
  assume "is_ok (fst (dial net host a n))"
  then obtain p n' where "dial net host a n = (Ok p, n')" by (auto simp: is_ok_iff prod_eq_iff)
  from dialed [OF this] assms show False by auto
qed

end

lemma mint_handle_Ok:
  assumes "mint_handle v ent random = Ok (ip, v')"
  shows "\<exists>handle t. mint (names v) ent random = Ok (handle, t) \<and> ip = Ipv6 handle \<and> v' = v\<lparr>names := t\<rparr>"
  using assms by (auto simp: mint_handle_def split: sum.splits)

lemma ip_to_std_p2: "p2_ip_to_std = ip_to_std"
proof
  fix a
  show "p2_ip_to_std a = ip_to_std a" by (cases a) simp_all
qed

end
