(* ===== verification/Virt_Host.thy ===== *)
theory Virt_Host
  imports Virt_Ctx
begin

text \<open>
  The \<open>wasi:sockets@0.3.0\<close> provider of the host delivery
  (\<^verbatim>\<open>src/rust/tls-virt-wasmtime/src/main.rs\<close>): every operation on a socket that is no tunnel is
  wasmtime-wasi's own; a connect to a handle address dials the destination behind it and keys a
  tunnel under the socket's table index; the tunnel's data path are a consumer and a producer over the
  TLS halves.
\<close>

section \<open>wasmtime-wasi, to which the provider delegates\<close>

datatype tcp_call =
    Bind ip_socket_address | GetLocalAddress | GetRemoteAddress | GetIsListening | GetAddressFamily
  | SetListenBacklogSize u64 | GetKeepAliveEnabled | SetKeepAliveEnabled bool
  | GetKeepAliveIdleTime | SetKeepAliveIdleTime u64 | GetKeepAliveInterval | SetKeepAliveInterval u64
  | GetKeepAliveCount | SetKeepAliveCount u32 | GetHopLimit | SetHopLimit u8
  | GetReceiveBufferSize | SetReceiveBufferSize u64 | GetSendBufferSize | SetSendBufferSize u64
  | DropSocket

datatype udp_call =
    UdpBind ip_socket_address | UdpConnect ip_socket_address | UdpDisconnect
  | UdpGetLocalAddress | UdpGetRemoteAddress | UdpGetAddressFamily
  | UdpGetUnicastHopLimit | UdpSetUnicastHopLimit u8 | UdpGetReceiveBufferSize
  | UdpSetReceiveBufferSize u64 | UdpGetSendBufferSize | UdpSetSendBufferSize u64 | UdpDrop
  | UdpSend bytes "ip_socket_address option" | UdpReceive

datatype reply =
    RUnit | RBool bool | RU8 u8 | RU32 u32 | RU64 u64 | RFamily ip_address_family
  | RAddress ip_socket_address | RDatagram bytes ip_socket_address

text \<open>
  One field per trait of the wrapped implementation; \<open>wasi_stream\<close> is what \<open>listen\<close>, \<open>send\<close> and
  \<open>receive\<close> hand out, which the provider passes on unseen.
\<close>

record ('s, 'x) wasi_ops =
  wasi_create :: "ip_address_family \<Rightarrow> 's \<Rightarrow> u32 socket_result \<times> 's"
  wasi_tcp :: "u32 \<Rightarrow> tcp_call \<Rightarrow> 's \<Rightarrow> reply socket_result \<times> 's"
  wasi_connect :: "u32 \<Rightarrow> ip_socket_address \<Rightarrow> 's \<Rightarrow> unit socket_result \<times> 's"
  wasi_listen :: "u32 \<Rightarrow> 's \<Rightarrow> 'x socket_result \<times> 's"
  wasi_send :: "u32 \<Rightarrow> 's \<Rightarrow> ('x, string) result \<times> 's"
  wasi_receive :: "u32 \<Rightarrow> 's \<Rightarrow> ('x, string) result \<times> 's"
  wasi_udp_create :: "ip_address_family \<Rightarrow> 's \<Rightarrow> u32 socket_result \<times> 's"
  wasi_udp :: "u32 \<Rightarrow> udp_call \<Rightarrow> 's \<Rightarrow> reply socket_result \<times> 's"
  wasi_resolve :: "string \<Rightarrow> 's \<Rightarrow> ((ip_address list, error_code) result, string) result \<times> 's"
  wasi_from_std :: "socket_addr \<Rightarrow> ip_socket_address"

text \<open>A delegated call works on wasmtime-wasi's part of the view only.\<close>

definition on_sockets :: "('s \<Rightarrow> 'a \<times> 's) \<Rightarrow> ('r, 'w, 's) virt_view \<Rightarrow> 'a \<times> ('r, 'w, 's) virt_view" where
  "on_sockets f view = (case f (sockets view) of (a, s) \<Rightarrow> (a, view\<lparr>sockets := s\<rparr>))"

lemma on_sockets_virt [simp]: "on_sockets f view = (a, view') \<Longrightarrow> virt view' = virt view"
  by (auto simp: on_sockets_def split: prod.splits)

section \<open>TCP sockets\<close>

definition create :: "('s, 'x) wasi_ops \<Rightarrow> ip_address_family \<Rightarrow> ('r, 'w, 's) virt_view \<Rightarrow>
    u32 socket_result \<times> ('r, 'w, 's) virt_view" where
  "create wasi family = on_sockets (wasi_create wasi family)"

fun host_tcp :: "('s, 'x) wasi_ops \<Rightarrow> u32 \<Rightarrow> tcp_call \<Rightarrow> ('r, 'w, 's) virt_view \<Rightarrow>
    reply socket_result \<times> ('r, 'w, 's) virt_view" where
  "host_tcp wasi rep (Bind local_address) view =
     on_sockets (wasi_tcp wasi rep (Bind local_address)) view"
| "host_tcp wasi rep GetLocalAddress view =
     (case tunnels (virt view) rep of
        Some tunnel \<Rightarrow>
          (case t_local tunnel of
             Some addr \<Rightarrow> (Ok (RAddress (wasi_from_std wasi addr)), view)
           | None \<Rightarrow> (Err (Code InvalidState), view))
      | None \<Rightarrow> on_sockets (wasi_tcp wasi rep GetLocalAddress) view)"
| "host_tcp wasi rep GetRemoteAddress view =
     (case tunnels (virt view) rep of
        Some tunnel \<Rightarrow> (Ok (RAddress (t_remote tunnel)), view)
      | None \<Rightarrow> on_sockets (wasi_tcp wasi rep GetRemoteAddress) view)"
| "host_tcp wasi rep GetIsListening view = on_sockets (wasi_tcp wasi rep GetIsListening) view"
| "host_tcp wasi rep GetAddressFamily view = on_sockets (wasi_tcp wasi rep GetAddressFamily) view"
| "host_tcp wasi rep (SetListenBacklogSize v) view =
     on_sockets (wasi_tcp wasi rep (SetListenBacklogSize v)) view"
| "host_tcp wasi rep GetKeepAliveEnabled view = on_sockets (wasi_tcp wasi rep GetKeepAliveEnabled) view"
| "host_tcp wasi rep (SetKeepAliveEnabled b) view =
     on_sockets (wasi_tcp wasi rep (SetKeepAliveEnabled b)) view"
| "host_tcp wasi rep GetKeepAliveIdleTime view =
     on_sockets (wasi_tcp wasi rep GetKeepAliveIdleTime) view"
| "host_tcp wasi rep (SetKeepAliveIdleTime v) view =
     on_sockets (wasi_tcp wasi rep (SetKeepAliveIdleTime v)) view"
| "host_tcp wasi rep GetKeepAliveInterval view =
     on_sockets (wasi_tcp wasi rep GetKeepAliveInterval) view"
| "host_tcp wasi rep (SetKeepAliveInterval v) view =
     on_sockets (wasi_tcp wasi rep (SetKeepAliveInterval v)) view"
| "host_tcp wasi rep GetKeepAliveCount view = on_sockets (wasi_tcp wasi rep GetKeepAliveCount) view"
| "host_tcp wasi rep (SetKeepAliveCount c) view =
     on_sockets (wasi_tcp wasi rep (SetKeepAliveCount c)) view"
| "host_tcp wasi rep GetHopLimit view = on_sockets (wasi_tcp wasi rep GetHopLimit) view"
| "host_tcp wasi rep (SetHopLimit b) view = on_sockets (wasi_tcp wasi rep (SetHopLimit b)) view"
| "host_tcp wasi rep GetReceiveBufferSize view =
     on_sockets (wasi_tcp wasi rep GetReceiveBufferSize) view"
| "host_tcp wasi rep (SetReceiveBufferSize v) view =
     on_sockets (wasi_tcp wasi rep (SetReceiveBufferSize v)) view"
| "host_tcp wasi rep GetSendBufferSize view = on_sockets (wasi_tcp wasi rep GetSendBufferSize) view"
| "host_tcp wasi rep (SetSendBufferSize v) view =
     on_sockets (wasi_tcp wasi rep (SetSendBufferSize v)) view"
| "host_tcp wasi rep DropSocket view =
     on_sockets (wasi_tcp wasi rep DropSocket)
       (view\<lparr>virt := (virt view)\<lparr>tunnels := (tunnels (virt view))(rep := None),
          p2_tunnels := (p2_tunnels (virt view))(rep := None)\<rparr>\<rparr>)"

text \<open>
  The awaited part of \<open>connect\<close> on a handle: the policy check, the TCP connection, the server name
  and the handshake.
\<close>

definition dial_tunnel :: "('n, 'c, 'sn, 't, 'r, 'w) net_ops \<Rightarrow> string \<Rightarrow> socket_addr \<Rightarrow> 'n \<Rightarrow>
    (('r, 'w) tls_parts, error_code) result \<times> 'n" where
  "dial_tunnel net host a n =
     (case addr_check net a n of
        (False, n) \<Rightarrow> (Err AccessDenied, n)
      | (True, n) \<Rightarrow>
          (case tcp_connect net a n of
             (Err e, n) \<Rightarrow> (Err (code_from_io net e), n)
           | (Ok stream, n) \<Rightarrow>
               (case server_name net host of
                  None \<Rightarrow> (Err InvalidArgument, n)
                | Some sn \<Rightarrow>
                    (case tls_connect net sn stream n of
                       (Err e, n) \<Rightarrow> (Err ConnectionReset, n)
                     | (Ok tls, n) \<Rightarrow>
                         (case tls_split net tls of (rd, wr) \<Rightarrow>
                            (Ok \<lparr>p_local = local_addr net stream, p_read = rd, p_write = wr\<rparr>, n))))))"

text \<open>
  \<open>connect\<close>. While it awaits the dial, other calls of the guest run and change the view: \<open>others\<close> is
  what they do to it.
\<close>

definition connect :: "('s, 'x) wasi_ops \<Rightarrow> ('n, 'c, 'sn, 't, 'r, 'w) net_ops \<Rightarrow>
    (('r, 'w, 's) virt_view \<Rightarrow> ('r, 'w, 's) virt_view) \<Rightarrow> u32 \<Rightarrow> ip_socket_address \<Rightarrow>
    ('r, 'w, 's) virt_view \<times> 'n \<Rightarrow> unit socket_result \<times> ('r, 'w, 's) virt_view \<times> 'n" where
  "connect wasi net others rep remote_address = (\<lambda>(view, n).
     (case lookup_handle (virt view) remote_address of
        None \<Rightarrow> (case on_sockets (wasi_connect wasi rep remote_address) view of (r, view) \<Rightarrow> (r, view, n))
      | Some (host, addresses, port) \<Rightarrow>
          (case pick_addr addresses port of
             None \<Rightarrow> (Err (Code RemoteUnreachable), view, n)
           | Some a \<Rightarrow>
               (case dial_tunnel net host a n of
                  (Err code, n) \<Rightarrow> (Err (Code code), others view, n)
                | (Ok parts, n) \<Rightarrow>
                    let view = others view;
                        tunnel = \<lparr>t_remote = remote_address, t_local = p_local parts,
                          t_read = Some (p_read parts), t_write = Some (p_write parts)\<rparr>
                    in (Ok (), view\<lparr>virt := (virt view)\<lparr>tunnels :=
                          (tunnels (virt view))(rep \<mapsto> tunnel)\<rparr>\<rparr>, n)))))"

definition listen :: "('s, 'x) wasi_ops \<Rightarrow> u32 \<Rightarrow> ('r, 'w, 's) virt_view \<Rightarrow>
    'x socket_result \<times> ('r, 'w, 's) virt_view" where
  "listen wasi rep = on_sockets (wasi_listen wasi rep)"

section \<open>The tunnel data path\<close>

text \<open>
  A verdict is what the guest's future resolves to. The \<open>oneshot\<close> sender is there (\<open>sc_tx\<close>) until it
  is used; \<open>sc_verdicts\<close> records what was sent on it, \<open>sc_spawned\<close> the write half handed to the
  shutdown task.
\<close>

type_synonym verdict = "(unit, error_code) result"

record 'w send_consumer =
  sc_write :: "'w option"
  sc_tx :: bool
  sc_spawned :: "'w option"
  sc_verdicts :: "verdict list"

definition send_consumer_new :: "'w \<Rightarrow> 'w send_consumer" where
  "send_consumer_new w = \<lparr>sc_write = Some w, sc_tx = True, sc_spawned = None, sc_verdicts = []\<rparr>"

definition send_close :: "verdict \<Rightarrow> 'w send_consumer \<Rightarrow> 'w send_consumer" where
  "send_close res c =
     (if \<not> sc_tx c then c
      else case (res, sc_write c) of
          (Ok _, Some w) \<Rightarrow> c\<lparr>sc_tx := False, sc_write := None, sc_spawned := Some w\<rparr>
        | (res, _) \<Rightarrow> c\<lparr>sc_tx := False, sc_write := None, sc_verdicts := sc_verdicts c @ [res]\<rparr>)"

text \<open>The spawned task; \<open>sd\<close> is the half's \<open>shutdown\<close>.\<close>

definition send_shutdown_task ::
    "('w \<Rightarrow> (unit, string) result \<times> 'w) \<Rightarrow> (string \<Rightarrow> error_code) \<Rightarrow> 'w send_consumer \<Rightarrow> 'w send_consumer" where
  "send_shutdown_task sd code c =
     (case sc_spawned c of
        None \<Rightarrow> c
      | Some w \<Rightarrow> c\<lparr>sc_spawned := None, sc_verdicts := sc_verdicts c @ [map_err code (fst (sd w))]\<rparr>)"

definition send_drop :: "'w send_consumer \<Rightarrow> 'w send_consumer" where
  "send_drop c = send_close (Ok ()) c"

datatype 'a poll = Ready 'a | Pending

datatype stream_result = SCompleted | SDropped | SCancelled

text \<open>
  \<open>poll_consume\<close>: the result, how many bytes of the source were marked read, and the consumer.
  \<open>pw\<close> is the half's \<open>poll_write\<close>.
\<close>

definition poll_consume ::
    "(bytes \<Rightarrow> 'w \<Rightarrow> (nat, string) result poll \<times> 'w) \<Rightarrow> (string \<Rightarrow> error_code) \<Rightarrow> bytes \<Rightarrow> bool \<Rightarrow>
     'w send_consumer \<Rightarrow> stream_result poll \<times> nat \<times> 'w send_consumer" where
  "poll_consume pw code buf finish c =
     (case sc_write c of
        None \<Rightarrow> (Ready SDropped, 0, c)
      | Some w \<Rightarrow>
          if buf = [] then (Ready SCompleted, 0, c)
          else (case pw buf w of
              (Ready (Inr n), w) \<Rightarrow> (Ready SCompleted, n, c\<lparr>sc_write := Some w\<rparr>)
            | (Ready (Inl e), w) \<Rightarrow>
                (Ready SDropped, 0, send_close (Err (code e)) (c\<lparr>sc_write := Some w\<rparr>))
            | (Pending, w) \<Rightarrow>
                ((if finish then Ready SCancelled else Pending), 0, c\<lparr>sc_write := Some w\<rparr>)))"

record 'r receive_producer =
  rp_read :: 'r
  rp_tx :: bool
  rp_verdicts :: "verdict list"

definition receive_producer_new :: "'r \<Rightarrow> 'r receive_producer" where
  "receive_producer_new r = \<lparr>rp_read = r, rp_tx = True, rp_verdicts = []\<rparr>"

definition receive_close :: "verdict \<Rightarrow> 'r receive_producer \<Rightarrow> 'r receive_producer" where
  "receive_close res p = (if rp_tx p then p\<lparr>rp_tx := False, rp_verdicts := rp_verdicts p @ [res]\<rparr> else p)"

text \<open>
  \<open>poll_produce\<close>: the result, the bytes written to the destination, and the producer. \<open>remaining\<close> is
  the room a guest reader offers (\<open>None\<close>: a host reader, for which \<open>as_direct\<close> provides \<open>CHUNK\<close>);
  \<open>prd\<close> is the half's \<open>poll_read\<close> into a buffer of the given room.
\<close>

definition poll_produce ::
    "(nat \<Rightarrow> 'r \<Rightarrow> (bytes, string) result poll \<times> 'r) \<Rightarrow> nat option \<Rightarrow> bool \<Rightarrow> 'r receive_producer \<Rightarrow>
     stream_result poll \<times> bytes \<times> 'r receive_producer" where
  "poll_produce prd remaining finish p =
     (if remaining = Some 0 then (Ready SCompleted, [], p)
      else let room = (case remaining of Some n \<Rightarrow> n | None \<Rightarrow> CHUNK)
        in (case prd room (rp_read p) of
            (Ready (Inr data), r) \<Rightarrow>
              if data = [] then (Ready SDropped, [], receive_close (Ok ()) (p\<lparr>rp_read := r\<rparr>))
              else (Ready SCompleted, data, p\<lparr>rp_read := r\<rparr>)
          | (Ready (Inl e), r) \<Rightarrow>
              (Ready SDropped, [], receive_close (Err ConnectionReset) (p\<lparr>rp_read := r\<rparr>))
          | (Pending, r) \<Rightarrow>
              ((if finish then Ready SCancelled else Pending), [], p\<lparr>rp_read := r\<rparr>)))"

text \<open>
  \<open>send\<close> and \<open>receive\<close> take the half out of the tunnel. The operations of the runtime that hook the
  guest's stream and future up may fail: \<open>piped\<close>, \<open>closed\<close>, \<open>stream\<close> and \<open>fut\<close> are what they return.
\<close>

datatype ('h, 'x) endpoint =
    Tunneled 'h                 \<comment> \<open>the consumer or producer on the taken half\<close>
  | Refused verdict             \<comment> \<open>an empty stream and a settled future\<close>
  | Delegated 'x                \<comment> \<open>what wasmtime-wasi returned\<close>

definition send :: "('s, 'x) wasi_ops \<Rightarrow> (unit, string) result \<Rightarrow> (unit, string) result \<Rightarrow>
    (unit, string) result \<Rightarrow> u32 \<Rightarrow> ('r, 'w, 's) virt_view \<Rightarrow>
    (('w send_consumer, 'x) endpoint, string) result \<times> ('r, 'w, 's) virt_view" where
  "send wasi piped closed fut rep view =
     (case tunnels (virt view) rep of
        Some t \<Rightarrow>
          let view = view\<lparr>virt := (virt view)\<lparr>tunnels := (tunnels (virt view))(rep \<mapsto> t\<lparr>t_write := None\<rparr>)\<rparr>\<rparr>
          in (case t_write t of
              Some w \<Rightarrow>
                (case (piped, fut) of
                   (Inl e, _) \<Rightarrow> (Err e, view)
                 | (Inr _, Inl e) \<Rightarrow> (Err e, view)
                 | (Inr _, Inr _) \<Rightarrow> (Ok (Tunneled (send_consumer_new w)), view))
            | None \<Rightarrow>
                (case (closed, fut) of
                   (Inl e, _) \<Rightarrow> (Err e, view)
                 | (Inr _, Inl e) \<Rightarrow> (Err e, view)
                 | (Inr _, Inr _) \<Rightarrow> (Ok (Refused (Err InvalidState)), view)))
      | None \<Rightarrow>
          (case on_sockets (wasi_send wasi rep) view of (r, view) \<Rightarrow>
             (case r of Inl e \<Rightarrow> Err e | Inr x \<Rightarrow> Ok (Delegated x), view)))"

definition receive :: "('s, 'x) wasi_ops \<Rightarrow> (unit, string) result \<Rightarrow> (unit, string) result \<Rightarrow> u32 \<Rightarrow>
    ('r, 'w, 's) virt_view \<Rightarrow>
    (('r receive_producer, 'x) endpoint, string) result \<times> ('r, 'w, 's) virt_view" where
  "receive wasi stream fut rep view =
     (case tunnels (virt view) rep of
        Some t \<Rightarrow>
          let view = view\<lparr>virt := (virt view)\<lparr>tunnels := (tunnels (virt view))(rep \<mapsto> t\<lparr>t_read := None\<rparr>)\<rparr>\<rparr>
          in (case (stream, fut) of
              (Inl e, _) \<Rightarrow> (Err e, view)
            | (Inr _, Inl e) \<Rightarrow> (Err e, view)
            | (Inr _, Inr _) \<Rightarrow>
                (Ok (case t_read t of
                       Some r \<Rightarrow> Tunneled (receive_producer_new r)
                     | None \<Rightarrow> Refused (Err InvalidState)), view))
      | None \<Rightarrow>
          (case on_sockets (wasi_receive wasi rep) view of (r, view) \<Rightarrow>
             (case r of Inl e \<Rightarrow> Err e | Inr x \<Rightarrow> Ok (Delegated x), view)))"

section \<open>UDP sockets and name lookup\<close>

definition udp_create :: "('s, 'x) wasi_ops \<Rightarrow> ip_address_family \<Rightarrow> ('r, 'w, 's) virt_view \<Rightarrow>
    u32 socket_result \<times> ('r, 'w, 's) virt_view" where
  "udp_create wasi family = on_sockets (wasi_udp_create wasi family)"

text \<open>Every method of a UDP socket is the wrapped one's, with the same arguments.\<close>

definition host_udp :: "('s, 'x) wasi_ops \<Rightarrow> u32 \<Rightarrow> udp_call \<Rightarrow> ('r, 'w, 's) virt_view \<Rightarrow>
    reply socket_result \<times> ('r, 'w, 's) virt_view" where
  "host_udp wasi rep call = on_sockets (wasi_udp wasi rep call)"

text \<open>
  \<open>resolve_addresses\<close>; an outer error traps. \<open>others\<close> is what other calls do to the view while the
  resolution is awaited, \<open>random\<close> what the platform delivers for the handle, whose absence panics.
\<close>

definition resolve_addresses :: "('s, 'x) wasi_ops \<Rightarrow> (('r, 'w, 's) virt_view \<Rightarrow> ('r, 'w, 's) virt_view) \<Rightarrow>
    bytes option \<Rightarrow> string \<Rightarrow> ('r, 'w, 's) virt_view \<Rightarrow>
    (((ip_address list, error_code) result, string) result \<times> ('r, 'w, 's) virt_view) or_panic" where
  "resolve_addresses wasi others random name view =
     (case strip_suffix name of
        Some real \<Rightarrow>
          (case on_sockets (wasi_resolve wasi real) view of
             (Inl e, view) \<Rightarrow> Ok (Err e, view)
           | (Inr (Inl err), view) \<Rightarrow> Ok (Ok (Err err), view)
           | (Inr (Inr resolved), view) \<Rightarrow>
               if resolved = [] then Ok (Ok (Err NameUnresolvable), view)
               else let view = others view
                 in (case mint_handle (virt view)
                            \<lparr>hostname = real, addrs = map ip_to_std resolved\<rparr> random of
                   Inl p \<Rightarrow> Panic p
                 | Inr (handle, v) \<Rightarrow> Ok (Ok (Ok [handle]), view\<lparr>virt := v\<rparr>)))
      | None \<Rightarrow> Ok (on_sockets (wasi_resolve wasi name) view))"

section \<open>Laws of the provider\<close>

lemma dial_tunnel_dialed:
  assumes "dial_tunnel net host a n = (Ok p, n')"
  shows "\<exists>n1 c n2 sn t. addr_check net a n = (True, n1) \<and> tcp_connect net a n1 = (Ok c, n2) \<and>
    server_name net host = Some sn \<and> tls_connect net sn c n2 = (Ok t, n') \<and>
    p = \<lparr>p_local = local_addr net c, p_read = fst (tls_split net t), p_write = snd (tls_split net t)\<rparr>"
  using assms by (auto simp: dial_tunnel_def split: prod.splits bool.splits sum.splits option.splits)

interpretation host_dial: guarded_dial dial_tunnel
  by unfold_locales (simp add: dial_tunnel_def, rule dial_tunnel_dialed)

lemma connect_Ok:
  assumes "connect wasi net others rep remote (view, n) = (Ok u, view', n')"
    and "lookup_handle (virt view) remote = Some (host, addresses, port)"
  shows "\<exists>a parts. pick_addr addresses port = Some a \<and> dial_tunnel net host a n = (Ok parts, n') \<and>
     view' = (others view)\<lparr>virt := (virt (others view))\<lparr>tunnels := (tunnels (virt (others view)))
       (rep \<mapsto> \<lparr>t_remote = remote, t_local = p_local parts, t_read = Some (p_read parts),
          t_write = Some (p_write parts)\<rparr>)\<rparr>\<rparr>"
  using assms by (auto simp: connect_def Let_def split: option.splits prod.splits sum.splits)

lemma connect_tunnel_shape:
  assumes "connect wasi net others rep remote (view, n) = (Ok u, view', n')"
    and "lookup_handle (virt view) remote \<noteq> None"
  shows "\<exists>t. tunnels (virt view') rep = Some t \<and> t_remote t = remote \<and> t_read t \<noteq> None \<and> t_write t \<noteq> None"
proof -
  obtain host addresses port where "lookup_handle (virt view) remote = Some (host, addresses, port)"
    using assms(2) by (cases "lookup_handle (virt view) remote") auto
  from connect_Ok [OF assms(1) this] show ?thesis by auto
qed

text \<open>Runs of the consumer and of the producer\<close>

datatype consume_event = Consume bytes bool | Drop_Consumer | Shutdown_Task

primrec consumer_run ::
    "(bytes \<Rightarrow> 'w \<Rightarrow> (nat, string) result poll \<times> 'w) \<Rightarrow> ('w \<Rightarrow> (unit, string) result \<times> 'w) \<Rightarrow>
     (string \<Rightarrow> error_code) \<Rightarrow> consume_event list \<Rightarrow> bytes \<times> 'w send_consumer \<Rightarrow> bytes \<times> 'w send_consumer" where
  "consumer_run pw sd code [] st = st"
| "consumer_run pw sd code (ev # evs) st = consumer_run pw sd code evs (case ev of
     Consume buf finish \<Rightarrow>
       (case poll_consume pw code buf finish (snd st) of (_, n, c) \<Rightarrow> (fst st @ take n buf, c))
   | Drop_Consumer \<Rightarrow> (fst st, send_drop (snd st))
   | Shutdown_Task \<Rightarrow> (fst st, send_shutdown_task sd code (snd st)))"

definition poll_write_ok :: "(bytes \<Rightarrow> 'w \<Rightarrow> (nat, string) result poll \<times> 'w) \<Rightarrow> ('w \<Rightarrow> bytes) \<Rightarrow> bool" where
  "poll_write_ok pw sent \<longleftrightarrow> (\<forall>buf w. case pw buf w of
     (Ready (Inr n), w') \<Rightarrow> sent w' = sent w @ take n buf
   | (_, w') \<Rightarrow> sent w' = sent w)"

definition consumer_inv :: "('w \<Rightarrow> bytes) \<Rightarrow> ('w \<Rightarrow> (unit, string) result \<times> 'w) \<Rightarrow> bytes \<times> 'w send_consumer \<Rightarrow> bool" where
  "consumer_inv sent sd st \<longleftrightarrow> (case st of (consumed, c) \<Rightarrow>
     (if sc_tx c then sc_spawned c = None \<and> sc_verdicts c = [] \<and> (\<exists>w. sc_write c = Some w \<and> sent w = consumed)
      else sc_write c = None \<and>
        (case sc_spawned c of
           Some w \<Rightarrow> sc_verdicts c = [] \<and> sent w = consumed
         | None \<Rightarrow> (\<exists>v. sc_verdicts c = [v] \<and>
             (is_ok v \<longrightarrow> (\<exists>w. sent w = consumed \<and> is_ok (fst (sd w))))))))"

lemma consumer_inv_step:
  assumes "poll_write_ok pw sent" and "consumer_inv sent sd st"
  shows "consumer_inv sent sd (consumer_run pw sd code [ev] st)"
proof (cases ev)
  case (Consume buf finish)
  show ?thesis
  proof (cases "sc_write (snd st)")
    case None
    with Consume assms(2) show ?thesis by (cases st) (simp add: poll_consume_def)
  next
    case (Some w)
    obtain r w' where pw: "pw buf w = (r, w')" by fastforce
    with assms(1) have s: "sent w' = (case r of Ready (Inr n) \<Rightarrow> sent w @ take n buf | _ \<Rightarrow> sent w)"
      unfolding poll_write_ok_def
      by (drule_tac x = buf in spec, drule_tac x = w in spec) (auto split: poll.splits sum.splits)
    show ?thesis using assms(2) Consume Some pw s
      by (cases st; cases r)
        (auto simp: consumer_inv_def poll_consume_def send_close_def split: if_splits sum.splits option.splits)
  qed
next
  case Drop_Consumer
  with assms(2) show ?thesis
    by (cases st) (auto simp: consumer_inv_def send_drop_def send_close_def split: if_splits)
next
  case Shutdown_Task
  with assms(2) show ?thesis
    by (cases st) (auto simp: consumer_inv_def send_shutdown_task_def is_ok_iff split: if_splits option.splits)
qed

lemma consumer_inv_run:
  assumes "poll_write_ok pw sent" and "consumer_inv sent sd st"
  shows "consumer_inv sent sd (consumer_run pw sd code evs st)"
  using assms(2)
proof (induction evs arbitrary: st)
  case (Cons ev evs)
  from Cons.IH [OF consumer_inv_step [OF assms(1) Cons.prems, of code ev]] show ?case by simp
qed simp

lemma consumer_inv_new: "consumer_inv sent sd (sent w, send_consumer_new w)"
  by (simp add: consumer_inv_def send_consumer_new_def)

lemma consumer_settles:
  assumes "consumer_inv sent sd st"
  shows "length (sc_verdicts (snd (consumer_run pw sd code [Drop_Consumer, Shutdown_Task] st))) = 1"
  using assms
  by (cases st) (auto simp: consumer_inv_def send_drop_def send_close_def send_shutdown_task_def
       split: if_splits option.splits)

primrec producer_run ::
    "(nat \<Rightarrow> 'r \<Rightarrow> (bytes, string) result poll \<times> 'r) \<Rightarrow> (nat option \<times> bool) list \<Rightarrow>
     bytes \<times> 'r receive_producer \<Rightarrow> bytes \<times> 'r receive_producer" where
  "producer_run prd [] st = st"
| "producer_run prd (ev # evs) st = producer_run prd evs
     (case poll_produce prd (fst ev) (snd ev) (snd st) of (_, data, p) \<Rightarrow> (fst st @ data, p))"

text \<open>The TLS read half: the cleartext it has returned, and whether it reported the clean end or an error.\<close>

definition poll_read_ok :: "(nat \<Rightarrow> 'r \<Rightarrow> (bytes, string) result poll \<times> 'r) \<Rightarrow> ('r \<Rightarrow> bytes) \<Rightarrow> ('r \<Rightarrow> bool) \<Rightarrow> ('r \<Rightarrow> bool) \<Rightarrow> bool" where
  "poll_read_ok prd got clean torn \<longleftrightarrow> (\<forall>room r. 0 < room \<longrightarrow> (case prd room r of
     (Ready (Inr data), r') \<Rightarrow> length data \<le> room \<and> got r' = got r @ data \<and> (data = [] \<longrightarrow> clean r') \<and>
        (clean r \<longrightarrow> clean r') \<and> (torn r \<longrightarrow> torn r')
   | (Ready (Inl e), r') \<Rightarrow> got r' = got r \<and> torn r' \<and> (clean r \<longrightarrow> clean r')
   | (Pending, r') \<Rightarrow> got r' = got r \<and> (clean r \<longrightarrow> clean r') \<and> (torn r \<longrightarrow> torn r')))"

definition producer_inv :: "('r \<Rightarrow> bytes) \<Rightarrow> ('r \<Rightarrow> bool) \<Rightarrow> ('r \<Rightarrow> bool) \<Rightarrow> bytes \<times> 'r receive_producer \<Rightarrow> bool" where
  "producer_inv got clean torn st \<longleftrightarrow> (case st of (produced, p) \<Rightarrow>
     got (rp_read p) = produced \<and>
     (if rp_tx p then rp_verdicts p = []
      else rp_verdicts p = [Ok ()] \<and> clean (rp_read p) \<or> rp_verdicts p = [Err ConnectionReset] \<and> torn (rp_read p)))"

lemma producer_inv_step:
  assumes "poll_read_ok prd got clean torn" and "producer_inv got clean torn st"
  shows "producer_inv got clean torn (producer_run prd [ev] st)"
proof -
  define room where "room = (case fst ev of Some n \<Rightarrow> n | None \<Rightarrow> CHUNK)"
  obtain r r' where pr: "prd room (rp_read (snd st)) = (r, r')" by fastforce
  show ?thesis
  proof (cases "fst ev = Some 0")
    case True
    with assms(2) show ?thesis by (cases st) (simp add: poll_produce_def)
  next
    case False
    then have "0 < room" by (auto simp: room_def CHUNK_def split: option.split)
    with assms(1) pr have
      "case r of Ready (Inr data) \<Rightarrow> length data \<le> room \<and> got r' = got (rp_read (snd st)) @ data \<and> (data = [] \<longrightarrow> clean r') \<and>
        (clean (rp_read (snd st)) \<longrightarrow> clean r') \<and> (torn (rp_read (snd st)) \<longrightarrow> torn r')
       | Ready (Inl e) \<Rightarrow> got r' = got (rp_read (snd st)) \<and> torn r' \<and> (clean (rp_read (snd st)) \<longrightarrow> clean r')
       | Pending \<Rightarrow> got r' = got (rp_read (snd st)) \<and> (clean (rp_read (snd st)) \<longrightarrow> clean r') \<and> (torn (rp_read (snd st)) \<longrightarrow> torn r')"
      unfolding poll_read_ok_def
      by (drule_tac x = room in spec, drule_tac x = "rp_read (snd st)" in spec) (auto split: poll.splits sum.splits)
    with assms(2) False pr show ?thesis
      by (cases st; cases r)
        (auto simp: producer_inv_def poll_produce_def receive_close_def Let_def simp flip: room_def
           split: sum.splits if_splits)
  qed
qed

lemma producer_inv_run:
  assumes "poll_read_ok prd got clean torn" and "producer_inv got clean torn st"
  shows "producer_inv got clean torn (producer_run prd evs st)"
  using assms(2)
proof (induction evs arbitrary: st)
  case (Cons ev evs)
  from Cons.IH [OF producer_inv_step [OF assms(1) Cons.prems, of ev]] show ?case by simp
qed simp

lemma resolve_mints:
  assumes "wasi_resolve wasi real (sockets view) = (Ok (Ok resolved), s)" and "resolved \<noteq> []"
    and "table_wf (names (virt (others (view\<lparr>sockets := s\<rparr>))))" and "length sfx = 8"
  shows "\<exists>handle view1. resolve_addresses wasi others (Some sfx) (real @ SUFFIX) view =
      Ok (Ok (Ok [Ipv6 handle]), view1) \<and>
     lookup (names (virt view1)) handle = Some \<lparr>hostname = real, addrs = map ip_to_std resolved\<rparr>"
proof -
  let ?v = "others (view\<lparr>sockets := s\<rparr>)" and ?e = "\<lparr>hostname = real, addrs = map ip_to_std resolved\<rparr>"
  obtain handle t where m: "mint_with (names (virt ?v)) ?e sfx = (handle, t)" by fastforce
  have "strip_suffix (real @ SUFFIX) = Some real" by (simp add: strip_suffix_iff)
  then have "resolve_addresses wasi others (Some sfx) (real @ SUFFIX) view =
      Ok (Ok (Ok [Ipv6 handle]), ?v\<lparr>virt := (virt ?v)\<lparr>names := t\<rparr>\<rparr>)"
    using assms(1,2) m by (simp add: resolve_addresses_def on_sockets_def Let_def mint_handle_def mint_eq_mint_with)
  moreover have "lookup t handle = Some ?e"
    using handles.find_minted [OF assms(3,4), of ?e handle] m by simp
  ultimately show ?thesis by auto
qed

text \<open>
  A TLS session for the named host was set up over a connection to one of the addresses at the port,
  admitted by the sandbox's policy first.
\<close>

definition session_with :: "('n, 'c, 'sn, 't, 'r, 'w) net_ops \<Rightarrow> string \<Rightarrow> ip_addr list \<Rightarrow> u16 \<Rightarrow> 'n \<Rightarrow> 'n \<Rightarrow> bool" where
  "session_with net host ips port n n' \<longleftrightarrow>
     (\<exists>ip \<in> set ips. \<exists>n1 c n2 sn t. addr_check net (socket_addr_new ip port) n = (True, n1) \<and>
        tcp_connect net (socket_addr_new ip port) n1 = (Ok c, n2) \<and>
        server_name net host = Some sn \<and> tls_connect net sn c n2 = (Ok t, n'))"

lemma dial_session:
  assumes "pick_addr ips port = Some a" and "dial_tunnel net host a n = (Ok parts, n')"
  shows "session_with net host ips port n n'"
proof -
  obtain ip where "ip \<in> set ips" "a = socket_addr_new ip port" using pick_addr_chosen [OF assms(1)] by blast
  with dial_tunnel_dialed [OF assms(2)] show ?thesis unfolding session_with_def by blast
qed

lemma connect_session:
  assumes "lookup (names (virt view)) (v6_address v6) = Some \<lparr>hostname = host, addrs = ips\<rparr>"
    and "connect wasi net others rep (SockV6 v6) (view, n) = (Ok (), view', n')"
  shows "session_with net host ips (v6_port v6) n n' \<and>
    (\<exists>tun. tunnels (virt view') rep = Some tun \<and> t_remote tun = SockV6 v6)"
proof -
  have l: "lookup_handle (virt view) (SockV6 v6) = Some (host, ips, v6_port v6)"
    using assms(1) by simp
  show ?thesis using connect_Ok [OF assms(2) l] dial_session by auto
qed

definition demo_net :: "(socket_addr list, socket_addr, string, string \<times> socket_addr, bytes, bytes) net_ops" where
  "demo_net = \<lparr>addr_check = (\<lambda>a log. (True, log)), tcp_connect = (\<lambda>a log. (Ok a, log @ [a])),
     local_addr = (\<lambda>_. None), server_name = Some, tls_connect = (\<lambda>sn c log. (Ok (sn, c), log)),
     tls_split = (\<lambda>_. ([], [])), code_from_io = OtherCode\<rparr>"

definition demo_wasi :: "(unit, unit) wasi_ops" where
  "demo_wasi = \<lparr>wasi_create = (\<lambda>_ s. (Ok 0, s)), wasi_tcp = (\<lambda>_ _ s. (Ok RUnit, s)),
     wasi_connect = (\<lambda>_ _ s. (Ok (), s)), wasi_listen = (\<lambda>_ s. (Ok (), s)), wasi_send = (\<lambda>_ s. (Ok (), s)),
     wasi_receive = (\<lambda>_ s. (Ok (), s)), wasi_udp_create = (\<lambda>_ s. (Ok 0, s)),
     wasi_udp = (\<lambda>_ _ s. (Ok RUnit, s)), wasi_resolve = (\<lambda>_ s. (Ok (Ok [Ipv4 (192, 0, 2, 1)]), s)),
     wasi_from_std = (\<lambda>_. SockV4 \<lparr>v4_port = 0, v4_address = (0, 0, 0, 0)\<rparr>)\<rparr>"

definition demo_view :: "(bytes, bytes, unit) virt_view" where
  "demo_view = \<lparr>virt = \<lparr>names = demo_table, tunnels = Map.empty, p2_tunnels = Map.empty,
     p2_resolves = Map.empty\<rparr>, sockets = ()\<rparr>"

section \<open>Properties\<close>

text \<open>
  C2. A resolution of an opted-in name followed by a connect to the handle it returned reaches the
  named server: the guest gets exactly one address; a connect to it at any port, at any later time at
  which the handle still means the same, asks the sandbox's policy about an address the inner
  resolution returned, dials that address at that port and runs the TLS handshake for the opted-in
  name; the socket is then a tunnel whose remote address is the handle.
\<close>

theorem resolve_then_connect:
  assumes "wasi_resolve wasi real (sockets view) = (Ok (Ok resolved), s)" and "resolved \<noteq> []"
    and "table_wf (names (virt (others (view\<lparr>sockets := s\<rparr>))))" and "length sfx = 8"
  shows "\<exists>handle view1. resolve_addresses wasi others (Some sfx) (real @ SUFFIX) view =
      Ok (Ok (Ok [Ipv6 handle]), view1) \<and>
     (\<forall>others' rep v6 view2 n view3 n'.
        v6_address v6 = handle \<and>
        lookup (names (virt view2)) handle = lookup (names (virt view1)) handle \<and>
        connect wasi net others' rep (SockV6 v6) (view2, n) = (Ok (), view3, n') \<longrightarrow>
        session_with net real (map ip_to_std resolved) (v6_port v6) n n' \<and>
        (\<exists>tun. tunnels (virt view3) rep = Some tun \<and> t_remote tun = SockV6 v6))"
proof -
  obtain handle view1 where r: "resolve_addresses wasi others (Some sfx) (real @ SUFFIX) view =
      Ok (Ok (Ok [Ipv6 handle]), view1)"
    and l: "lookup (names (virt view1)) handle = Some \<lparr>hostname = real, addrs = map ip_to_std resolved\<rparr>"
    using resolve_mints [where others = others, OF assms] by blast
  show ?thesis
    by (rule exI [of _ handle], rule exI [of _ view1]) (auto simp: r l dest: connect_session)
qed

theorem resolve_then_connect_witness:
  "\<exists>handle view1 view2. resolve_addresses demo_wasi (\<lambda>v. v) (Some [1, 2, 3, 4, 5, 6, 7, 8])
     (''example.org'' @ SUFFIX) demo_view = Ok (Ok (Ok [Ipv6 handle]), view1) \<and>
   connect demo_wasi demo_net (\<lambda>v. v) 7
     (SockV6 \<lparr>v6_port = 443, v6_flow_info = 0, v6_address = handle, v6_scope_id = 0\<rparr>) (view1, []) =
     (Ok (), view2, [SocketV4 (192, 0, 2, 1) 443]) \<and>
   tunnels (virt view2) 7 \<noteq> None"
proof -
  have r: "wasi_resolve demo_wasi ''example.org'' (sockets demo_view) = (Ok (Ok [Ipv4 (192, 0, 2, 1)]), ())"
    by (simp add: demo_wasi_def)
  have t: "table_wf (names (virt ((\<lambda>v. v) (demo_view\<lparr>sockets := ()\<rparr>))))"
    by (simp add: demo_view_def demo_table_wf)
  have l: "[Ipv4 (192, 0, 2, 1)] \<noteq> []" "length [1, 2, 3, 4, 5, 6, 7, 8 :: u8] = 8" by simp_all
  obtain handle view1 where res: "resolve_addresses demo_wasi (\<lambda>v. v) (Some [1, 2, 3, 4, 5, 6, 7, 8])
       (''example.org'' @ SUFFIX) demo_view = Ok (Ok (Ok [Ipv6 handle]), view1)"
    and look: "lookup (names (virt view1)) handle =
       Some \<lparr>hostname = ''example.org'', addrs = map ip_to_std [Ipv4 (192, 0, 2, 1)]\<rparr>"
    using resolve_mints [where others = "\<lambda>v. v", OF r l(1) t l(2)] by blast
  let ?v6 = "\<lparr>v6_port = 443, v6_flow_info = 0, v6_address = handle, v6_scope_id = 0\<rparr>"
  obtain view2 where con: "connect demo_wasi demo_net (\<lambda>v. v) 7 (SockV6 ?v6) (view1, []) =
      (Ok (), view2, [SocketV4 (192, 0, 2, 1) 443])"
    using look by (simp add: connect_def pick_addr_def dial_tunnel_def demo_net_def Let_def)
  have "\<exists>tun. tunnels (virt view2) 7 = Some tun \<and> t_remote tun = SockV6 ?v6"
    using resolve_then_connect [where others = "\<lambda>v. v" and net = demo_net, OF r l(1) t l(2)] res con by fastforce
  with res con show ?thesis by blast
qed

text \<open>
  A connect to a handle whose destination the sandbox's policy denies returns access-denied, and
  nothing was dialed: the world is what the policy check left.
\<close>

theorem connect_denied_by_policy:
  assumes "lookup_handle (virt view) remote = Some (host, addresses, port)"
    and "pick_addr addresses port = Some a" and "addr_check net a n = (False, n1)"
  shows "connect wasi net others rep remote (view, n) = (Err (Code AccessDenied), others view, n1)"
  using assms by (simp add: connect_def host_dial.denied)

theorem connect_denied_by_policy_witness:
  "connect demo_wasi (demo_net\<lparr>addr_check := (\<lambda>a log. (False, log))\<rparr>) (\<lambda>v. v) 7
     (SockV6 \<lparr>v6_port = 443, v6_flow_info = 0,
        v6_address = fst (mint_with demo_table demo_entry [1, 2, 3, 4, 5, 6, 7, 8]), v6_scope_id = 0\<rparr>)
     (demo_view\<lparr>virt := (virt demo_view)\<lparr>names := snd (mint_with demo_table demo_entry [1, 2, 3, 4, 5, 6, 7, 8])\<rparr>\<rparr>, []) =
   (Err (Code AccessDenied),
    demo_view\<lparr>virt := (virt demo_view)\<lparr>names := snd (mint_with demo_table demo_entry [1, 2, 3, 4, 5, 6, 7, 8])\<rparr>\<rparr>, [])"
proof -
  have l: "lookup (snd (mint_with demo_table demo_entry [1, 2, 3, 4, 5, 6, 7, 8]))
      (fst (mint_with demo_table demo_entry [1, 2, 3, 4, 5, 6, 7, 8])) = Some demo_entry"
    using handles.find_minted [OF demo_table_wf, of "[1, 2, 3, 4, 5, 6, 7, 8]" demo_entry
        "fst (mint_with demo_table demo_entry [1, 2, 3, 4, 5, 6, 7, 8])"] by simp
  obtain a where "pick_addr (addrs demo_entry) 443 = Some a"
    by (cases "pick_addr (addrs demo_entry) 443") (simp_all add: pick_addr_None demo_entry_def)
  then show ?thesis
    by (intro connect_denied_by_policy [where others = "\<lambda>v. v"]) (simp_all add: l demo_net_def)
qed

text \<open>
  C23. The provider is invisible to ordinary sockets: on a socket that is no tunnel every method, \<open>send\<close>
  and \<open>receive\<close> are wasmtime-wasi's with the same result and the same effect, and so is a connect to
  an address that is no handle; the provider's own state does not change.
\<close>

theorem non_tunnel_sockets_are_transparent:
  assumes "tunnels (virt view) rep = None" and "p2_tunnels (virt view) rep = None"
  shows "host_tcp wasi rep call view = on_sockets (wasi_tcp wasi rep call) view \<and>
     send wasi piped closed fut rep view =
       apfst (\<lambda>r. map_sum id Delegated r) (on_sockets (wasi_send wasi rep) view) \<and>
     receive wasi stream fut rep view =
       apfst (\<lambda>r. map_sum id Delegated r) (on_sockets (wasi_receive wasi rep) view) \<and>
     (lookup_handle (virt view) remote = None \<longrightarrow>
        connect wasi net others rep remote (view, n) =
          (case on_sockets (wasi_connect wasi rep remote) view of (r, view) \<Rightarrow> (r, view, n)))"
proof (intro conjI impI)
  have "(tunnels (virt view))(rep := None) = tunnels (virt view)"
    "(p2_tunnels (virt view))(rep := None) = p2_tunnels (virt view)" using assms by auto
  then show "host_tcp wasi rep call view = on_sockets (wasi_tcp wasi rep call) view"
    using assms by (cases call) simp_all
  show "send wasi piped closed fut rep view =
       apfst (\<lambda>r. map_sum id Delegated r) (on_sockets (wasi_send wasi rep) view)"
    using assms by (auto simp: send_def split: prod.split sum.split)
  show "receive wasi stream fut rep view =
       apfst (\<lambda>r. map_sum id Delegated r) (on_sockets (wasi_receive wasi rep) view)"
    using assms by (auto simp: receive_def split: prod.split sum.split)
qed (simp add: connect_def)

theorem non_tunnel_sockets_are_transparent_witness:
  "tunnels (virt demo_view) 3 = None \<and> host_tcp demo_wasi 3 GetHopLimit demo_view = (Ok RUnit, demo_view)"
proof -
  have n: "tunnels (virt demo_view) 3 = None" "p2_tunnels (virt demo_view) 3 = None"
    by (simp_all add: demo_view_def)
  have "on_sockets (wasi_tcp demo_wasi 3 GetHopLimit) demo_view = (Ok RUnit, demo_view)"
    by (simp add: on_sockets_def demo_wasi_def)
  then show ?thesis using non_tunnel_sockets_are_transparent [OF n] n by metis
qed

text \<open>
  The halves of a tunnel are taken once: the first \<open>send\<close> gets the write half, every later one an
  already settled invalid-state future and no stream; the same for \<open>receive\<close> and the read half, and
  neither touches the other's.
\<close>

theorem tunnel_halves_are_taken_once:
  assumes "tunnels (virt view) rep = Some t" and "t_write t = Some w" and "t_read t = Some r"
  shows "\<exists>view1 view2. send wasi (Ok ()) (Ok ()) (Ok ()) rep view = (Ok (Tunneled (send_consumer_new w)), view1) \<and>
     send wasi (Ok ()) (Ok ()) (Ok ()) rep view1 = (Ok (Refused (Err InvalidState)), view1) \<and>
     receive wasi (Ok ()) (Ok ()) rep view1 = (Ok (Tunneled (receive_producer_new r)), view2) \<and>
     receive wasi (Ok ()) (Ok ()) rep view2 = (Ok (Refused (Err InvalidState)), view2) \<and>
     send wasi (Ok ()) (Ok ()) (Ok ()) rep view2 = (Ok (Refused (Err InvalidState)), view2)"
proof -
  let ?v1 = "view\<lparr>virt := (virt view)\<lparr>tunnels := (tunnels (virt view))(rep \<mapsto> t\<lparr>t_write := None\<rparr>)\<rparr>\<rparr>"
  let ?v2 = "view\<lparr>virt := (virt view)\<lparr>tunnels := (tunnels (virt view))
    (rep \<mapsto> t\<lparr>t_read := None, t_write := None\<rparr>)\<rparr>\<rparr>"
  show ?thesis
    by (rule exI [of _ ?v1], rule exI [of _ ?v2]) (use assms in \<open>cases t; simp add: send_def receive_def Let_def\<close>)
qed

theorem tunnel_halves_are_taken_once_witness:
  "\<exists>view1. send demo_wasi (Ok ()) (Ok ()) (Ok ()) 7 (demo_view\<lparr>virt := (virt demo_view)\<lparr>tunnels :=
      [7 \<mapsto> \<lparr>t_remote = SockV4 \<lparr>v4_port = 1, v4_address = (1, 2, 3, 4)\<rparr>, t_local = None,
         t_read = Some [], t_write = Some [9]\<rparr>]\<rparr>\<rparr>) = (Ok (Tunneled (send_consumer_new [9])), view1) \<and>
     send demo_wasi (Ok ()) (Ok ()) (Ok ()) 7 view1 = (Ok (Refused (Err InvalidState)), view1)"
  using tunnel_halves_are_taken_once [of "demo_view\<lparr>virt := (virt demo_view)\<lparr>tunnels :=
      [7 \<mapsto> \<lparr>t_remote = SockV4 \<lparr>v4_port = 1, v4_address = (1, 2, 3, 4)\<rparr>, t_local = None,
         t_read = Some [], t_write = Some [9]\<rparr>]\<rparr>\<rparr>" 7 _ "[9]" "[]" demo_wasi] by auto

text \<open>
  C22. The send direction of a tunnel settles its future once: in every sequence of polls, drop and
  the shutdown task the future is resolved at most once and, once the guest's stream is dropped and
  the spawned task has run, exactly once; it resolves \<open>ok\<close> only if the TLS half was shut down
  (close_notify) after exactly the bytes the guest's stream saw marked read.
\<close>

theorem send_verdict_settles_once:
  assumes "poll_write_ok pw sent" and "sent w0 = []"
  shows "let (consumed, c) = consumer_run pw sd code evs ([], send_consumer_new w0) in
     length (sc_verdicts c) \<le> 1 \<and>
     length (sc_verdicts (snd (consumer_run pw sd code [Drop_Consumer, Shutdown_Task] (consumed, c)))) = 1 \<and>
     (Ok () \<in> set (sc_verdicts c) \<longrightarrow> (\<exists>w. sent w = consumed \<and> is_ok (fst (sd w))))"
proof -
  obtain consumed c where run: "consumer_run pw sd code evs ([], send_consumer_new w0) = (consumed, c)"
    by fastforce
  have inv: "consumer_inv sent sd (consumed, c)"
    using consumer_inv_run [OF assms(1) consumer_inv_new [of sent sd w0], of code evs] assms(2) run by simp
  then show ?thesis
    using consumer_settles [OF inv, of pw code]
    by (auto simp: run consumer_inv_def split: if_splits option.splits)
qed

definition demo_poll_write :: "bytes \<Rightarrow> bytes \<Rightarrow> (nat, string) result poll \<times> bytes" where
  "demo_poll_write buf w = (Ready (Ok (length buf)), w @ buf)"

theorem send_verdict_settles_once_witness:
  "let (consumed, c) = consumer_run demo_poll_write (\<lambda>w. (Ok (), w)) OtherCode
     [Consume [1, 2] False, Drop_Consumer, Shutdown_Task] ([], send_consumer_new [])
   in consumed = [1, 2] \<and> sc_verdicts c = [Ok ()]"
proof -
  have "poll_write_ok demo_poll_write (\<lambda>w. w)" by (simp add: poll_write_ok_def demo_poll_write_def)
  from send_verdict_settles_once [OF this refl, of "\<lambda>w. (Ok (), w)" OtherCode
      "[Consume [1, 2] False, Drop_Consumer, Shutdown_Task]"]
  show ?thesis
    by (simp add: demo_poll_write_def send_consumer_new_def poll_consume_def send_drop_def send_close_def
        send_shutdown_task_def)
qed

text \<open>
  The receive direction of a tunnel: the guest's stream carries exactly the cleartext the TLS half
  returned, the future is resolved at most once, \<open>ok\<close> only after the clean TLS end and with
  connection-reset only after a failure, and nothing else is ever reported.
\<close>

theorem receive_verdict_tells_the_end:
  assumes "poll_read_ok prd got clean torn" and "got r0 = []"
  shows "let (produced, p) = producer_run prd evs ([], receive_producer_new r0) in
     produced = got (rp_read p) \<and> length (rp_verdicts p) \<le> 1 \<and>
     (Ok () \<in> set (rp_verdicts p) \<longrightarrow> clean (rp_read p)) \<and>
     (\<forall>e. Err e \<in> set (rp_verdicts p) \<longrightarrow> e = ConnectionReset \<and> torn (rp_read p))"
proof -
  obtain produced p where run: "producer_run prd evs ([], receive_producer_new r0) = (produced, p)"
    by fastforce
  have "producer_inv got clean torn ([], receive_producer_new r0)"
    using assms(2) by (simp add: producer_inv_def receive_producer_new_def)
  from producer_inv_run [OF assms(1) this, of evs] show ?thesis
    by (auto simp: run producer_inv_def split: if_splits)
qed

definition demo_poll_read :: "nat \<Rightarrow> bytes list \<times> bytes \<times> bool \<Rightarrow> (bytes, string) result poll \<times> bytes list \<times> bytes \<times> bool" where
  "demo_poll_read room r = (case r of
     ([], got, fin) \<Rightarrow> (Ready (Ok []), [], got, True)
   | (d # ds, got, fin) \<Rightarrow> if d = [] \<or> room < length d then (Pending, ds, got, fin) else (Ready (Ok d), ds, got @ d, fin))"

theorem receive_verdict_tells_the_end_witness:
  "let (produced, p) = producer_run demo_poll_read [(Some 4, False), (None, False), (Some 0, False)]
     ([], receive_producer_new ([[5, 6]], [], False))
   in produced = [5, 6] \<and> rp_verdicts p = [Ok ()]"
proof -
  have "poll_read_ok demo_poll_read (\<lambda>r. fst (snd r)) (\<lambda>r. snd (snd r)) (\<lambda>r. False)"
    by (auto simp: poll_read_ok_def demo_poll_read_def split: list.splits prod.splits poll.splits sum.splits if_splits)
  from receive_verdict_tells_the_end [OF this, of "([[5, 6]], [], False)"
      "[(Some 4, False), (None, False), (Some 0, False)]"]
  show ?thesis
    by (simp add: demo_poll_read_def receive_producer_new_def poll_produce_def receive_close_def)
qed

end
