(* ===== verification/P2_Host.thy ===== *)
theory P2_Host
  imports Virt_Host
begin

text \<open>
  The \<open>wasi:sockets@0.2.x\<close> interposition of the host delivery
  (\<^verbatim>\<open>src/rust/tls-virt-wasmtime/src/p2.rs\<close>): the two-phase connect with its handshake task, the
  socket's own operations on a tunnel, and the wrapped resolve stream. The streams it hands out are
  those of \<open>P2_Streams\<close>; they live on a heap because the socket, the guest's streams and the writer
  task share them.
\<close>

section \<open>State and parameters\<close>

datatype shutdown_type = Receive | Send | Both

datatype p2_call =
    StartBind u32 ip_socket_address | FinishBind | StartConnect u32 ip_socket_address | FinishConnect
  | StartListen | FinishListen | Accept | LocalAddress | RemoteAddress | IsListening | AddressFamily
  | P2SetListenBacklogSize u64 | KeepAliveEnabled | P2SetKeepAliveEnabled bool
  | KeepAliveIdleTime | P2SetKeepAliveIdleTime u64 | KeepAliveInterval | P2SetKeepAliveInterval u64
  | KeepAliveCount | P2SetKeepAliveCount u32 | HopLimit | P2SetHopLimit u8
  | ReceiveBufferSize | P2SetReceiveBufferSize u64 | SendBufferSize | P2SetSendBufferSize u64
  | Subscribe | Shutdown shutdown_type | P2Drop

datatype p2_reply = Plain reply | Streams u32 u32 | Accepted u32 u32 u32 | Pollable u32

text \<open>
  wasmtime-wasi's 0.2 implementations and its resource table: \<open>p2_table_get\<close> looks a network resource
  up, the pushes add a stream over a heap cell or a readiness over a slot (\<open>None\<close>: always ready).
\<close>

record 's p2_wasi =
  p2_inner :: "u32 \<Rightarrow> p2_call \<Rightarrow> 's \<Rightarrow> p2_reply socket_result \<times> 's"
  p2_table_get :: "u32 \<Rightarrow> 's \<Rightarrow> (unit, string) result"
  p2_push_input :: "ref \<Rightarrow> u32 \<Rightarrow> 's \<Rightarrow> (u32, string) result \<times> 's"
  p2_push_output :: "ref \<Rightarrow> u32 \<Rightarrow> 's \<Rightarrow> (u32, string) result \<times> 's"
  p2_push_ready :: "ref option \<Rightarrow> 's \<Rightarrow> (u32, string) result \<times> 's"
  p2_resolve :: "u32 \<Rightarrow> string \<Rightarrow> 's \<Rightarrow> u32 socket_result \<times> 's"
  p2_next :: "u32 \<Rightarrow> 's \<Rightarrow> ip_address option socket_result \<times> 's"
  p2_resolve_subscribe :: "u32 \<Rightarrow> 's \<Rightarrow> (u32, string) result \<times> 's"
  p2_resolve_drop :: "u32 \<Rightarrow> 's \<Rightarrow> (unit, string) result \<times> 's"
  p2_network_drop :: "u32 \<Rightarrow> 's \<Rightarrow> (unit, string) result \<times> 's"
  p2_to_std :: "ip_socket_address \<Rightarrow> socket_addr"
  p2_from_std :: "socket_addr \<Rightarrow> ip_socket_address"

text \<open>The documented conversion of \<open>wasi:sockets\<close> addresses: the address and the port are kept.\<close>

definition p2_conv_ok :: "'s p2_wasi \<Rightarrow> bool" where
  "p2_conv_ok wasi \<longleftrightarrow>
     (\<forall>v4. p2_to_std wasi (SockV4 v4) = SocketV4 (v4_address v4) (v4_port v4)) \<and>
     (\<forall>v6. p2_to_std wasi (SockV6 v6) =
        SocketV6 (v6_address v6) (v6_port v6) (v6_flow_info v6) (v6_scope_id v6))"

text \<open>
  \<open>dials\<close> are the spawned handshake tasks that have not finished, with the slot each delivers into.
\<close>

record ('r, 'w, 's) p2_state =
  view :: "('r, 'w, 's) virt_view"
  slots :: "ref \<rightharpoonup> ('r, 'w) handshake_slot"
  read_cells :: "ref \<rightharpoonup> 'r read_slot"
  write_cells :: "ref \<rightharpoonup> 'w chan"
  next_ref :: ref
  dials :: "(ref \<times> string \<times> socket_addr) list"

definition set_p2_tunnel :: "u32 \<Rightarrow> p2_tunnel option \<Rightarrow> ('r, 'w, 's) p2_state \<Rightarrow> ('r, 'w, 's) p2_state" where
  "set_p2_tunnel rep t st = st\<lparr>view := (view st)\<lparr>virt := (virt (view st))
     \<lparr>p2_tunnels := (p2_tunnels (virt (view st)))(rep := t)\<rparr>\<rparr>\<rparr>"

definition set_p2_resolve :: "u32 \<Rightarrow> p2_resolve option \<Rightarrow> ('r, 'w, 's) p2_state \<Rightarrow> ('r, 'w, 's) p2_state" where
  "set_p2_resolve rep t st = st\<lparr>view := (view st)\<lparr>virt := (virt (view st))
     \<lparr>p2_resolves := (p2_resolves (virt (view st)))(rep := t)\<rparr>\<rparr>\<rparr>"

abbreviation p2_tunnel_of :: "('r, 'w, 's) p2_state \<Rightarrow> u32 \<Rightarrow> p2_tunnel option" where
  "p2_tunnel_of st rep \<equiv> p2_tunnels (virt (view st)) rep"

abbreviation p2_resolve_of :: "('r, 'w, 's) p2_state \<Rightarrow> u32 \<Rightarrow> p2_resolve option" where
  "p2_resolve_of st rep \<equiv> p2_resolves (virt (view st)) rep"

definition p2_on_sockets :: "('s \<Rightarrow> 'a \<times> 's) \<Rightarrow> ('r, 'w, 's) p2_state \<Rightarrow> 'a \<times> ('r, 'w, 's) p2_state" where
  "p2_on_sockets f st = (case on_sockets f (view st) of (a, v) \<Rightarrow> (a, st\<lparr>view := v\<rparr>))"

text \<open>Dropping a network resource is wasmtime-wasi's.\<close>

definition network_drop :: "'s p2_wasi \<Rightarrow> u32 \<Rightarrow> ('r, 'w, 's) p2_state \<Rightarrow>
    (unit, string) result \<times> ('r, 'w, 's) p2_state" where
  "network_drop wasi this = p2_on_sockets (p2_network_drop wasi this)"

section \<open>Connecting\<close>

definition start_connect :: "'s p2_wasi \<Rightarrow> u32 \<Rightarrow> u32 \<Rightarrow> ip_socket_address \<Rightarrow> ('r, 'w, 's) p2_state \<Rightarrow>
    p2_reply socket_result \<times> ('r, 'w, 's) p2_state" where
  "start_connect wasi this network remote_address st =
     (let dialed = p2_to_std wasi remote_address;
          ent = (case socket_ip dialed of V6 v6 \<Rightarrow> lookup (names (virt (view st))) v6 | V4 _ \<Rightarrow> None)
      in case ent of
          None \<Rightarrow> p2_on_sockets (p2_inner wasi this (StartConnect network remote_address)) st
        | Some e \<Rightarrow>
            if p2_tunnel_of st this \<noteq> None then (Err (Code InvalidState), st)
            else case p2_table_get wasi network (sockets (view st)) of
                Inl t \<Rightarrow> (Err (HostTrap t), st)
              | Inr _ \<Rightarrow>
                  (case pick_addr (addrs e) (socket_port dialed) of
                     None \<Rightarrow> (Err (Code RemoteUnreachable), st)
                   | Some a \<Rightarrow>
                       let sl = next_ref st;
                           st = st\<lparr>next_ref := sl + 1,
                             slots := (slots st)(sl \<mapsto> \<lparr>s_result = None, s_done = False\<rparr>),
                             dials := dials st @ [(sl, hostname e, a)]\<rparr>
                       in (Ok (Plain RUnit),
                           set_p2_tunnel this (Some (Connecting remote_address sl)) st)))"

text \<open>What the spawned task computes, and its delivery into the slot.\<close>

definition handshake :: "('n, 'c, 'sn, 't, 'r, 'w) net_ops \<Rightarrow> string \<Rightarrow> socket_addr \<Rightarrow> 'n \<Rightarrow>
    (('r, 'w) tls_parts, error_code) result \<times> 'n" where
  "handshake net host a n =
     (let (admitted, n) = addr_check net a n
      in if \<not> admitted then (Err AccessDenied, n)
         else case tcp_connect net a n of
             (Err e, n) \<Rightarrow> (Err (code_from_io net e), n)
           | (Ok stream, n) \<Rightarrow>
               (case server_name net host of
                  None \<Rightarrow> (Err InvalidArgument, n)
                | Some sn \<Rightarrow>
                    (case tls_connect net sn stream n of
                       (Err e, n) \<Rightarrow> (Err ConnectionReset, n)
                     | (Ok tls, n) \<Rightarrow>
                         (Ok \<lparr>p_local = local_addr net stream, p_read = fst (tls_split net tls),
                            p_write = snd (tls_split net tls)\<rparr>, n))))"

definition handshake_task :: "('n, 'c, 'sn, 't, 'r, 'w) net_ops \<Rightarrow> nat \<Rightarrow> ('r, 'w, 's) p2_state \<times> 'n \<Rightarrow>
    ('r, 'w, 's) p2_state \<times> 'n" where
  "handshake_task net i = (\<lambda>(st, n).
     if i < length (dials st) then
       (case dials st ! i of (sl, host, a) \<Rightarrow>
          let (outcome, n) = handshake net host a n
          in (st\<lparr>dials := take i (dials st) @ drop (Suc i) (dials st),
                slots := (slots st)(sl \<mapsto> \<lparr>s_result = Some outcome, s_done = True\<rparr>)\<rparr>, n))
     else (st, n))"

text \<open>
  A push that fails drops the output stream that was not handed out, which requests close_notify.
\<close>

definition drop_output :: "ref \<Rightarrow> ('r, 'w, 's) p2_state \<Rightarrow> ('r, 'w, 's) p2_state" where
  "drop_output w st = st\<lparr>write_cells := (write_cells st)(w := map_option
     (\<lambda>c. case request_shutdown (inner c) of
        (woken, i) \<Rightarrow> if woken then notify_one (c\<lparr>inner := i\<rparr>) else c\<lparr>inner := i\<rparr>) (write_cells st w))\<rparr>"

definition close_input :: "ref \<Rightarrow> ('r, 'w, 's) p2_state \<Rightarrow> ('r, 'w, 's) p2_state" where
  "close_input r st = st\<lparr>read_cells := (read_cells st)(r := map_option close_read (read_cells st r))\<rparr>"

definition finish_connect :: "'s p2_wasi \<Rightarrow> u32 \<Rightarrow> ('r, 'w, 's) p2_state \<Rightarrow>
    p2_reply socket_result \<times> ('r, 'w, 's) p2_state" where
  "finish_connect wasi this st =
     (case p2_tunnel_of st this of
        None \<Rightarrow> p2_on_sockets (p2_inner wasi this FinishConnect) st
      | Some (Connecting remote sl) \<Rightarrow>
          (case Option.bind (slots st sl) s_result of
             None \<Rightarrow> (Err (Code WouldBlock), st)
           | Some outcome \<Rightarrow>
               let st = st\<lparr>slots := (slots st)(sl := map_option (\<lambda>s. s\<lparr>s_result := None\<rparr>) (slots st sl))\<rparr>
               in (case outcome of
                  Inl code \<Rightarrow> (Err (Code code), set_p2_tunnel this (Some Tunnel_Failed) st)
                | Inr parts \<Rightarrow>
                    let rd = next_ref st; wr = next_ref st + 1;
                        st = st\<lparr>next_ref := next_ref st + 2,
                          read_cells := (read_cells st)(rd \<mapsto>
                            \<lparr>rd_half = Some (p_read parts), rd_buf = [], rd_state = Open\<rparr>),
                          write_cells := (write_cells st)(wr \<mapsto> chan_new (p_write parts))\<rparr>;
                        st = set_p2_tunnel this
                          (Some (Connected remote (p_local parts) sl rd wr)) st
                    in (case p2_on_sockets (p2_push_input wasi rd this) st of
                        (Inl e, st) \<Rightarrow> (Err (HostTrap e), drop_output wr st)
                      | (Inr input, st) \<Rightarrow>
                          (case p2_on_sockets (p2_push_output wasi wr this) st of
                             (Inl e, st) \<Rightarrow> (Err (HostTrap e), drop_output wr st)
                           | (Inr output, st) \<Rightarrow> (Ok (Streams input output), st)))))
      | Some _ \<Rightarrow> (Err (Code NotInProgress), st))"

section \<open>The socket's other operations\<close>

definition p2_local_address :: "'s p2_wasi \<Rightarrow> u32 \<Rightarrow> ('r, 'w, 's) p2_state \<Rightarrow>
    p2_reply socket_result \<times> ('r, 'w, 's) p2_state" where
  "p2_local_address wasi this st =
     (case p2_tunnel_of st this of
        Some (Connected remote loc sl rd wr) \<Rightarrow>
          (case loc of
             Some addr \<Rightarrow> (Ok (Plain (RAddress (p2_from_std wasi addr))), st)
           | None \<Rightarrow> (Err (Code InvalidState), st))
      | Some _ \<Rightarrow> (Err (Code InvalidState), st)
      | None \<Rightarrow> p2_on_sockets (p2_inner wasi this LocalAddress) st)"

definition p2_remote_address :: "'s p2_wasi \<Rightarrow> u32 \<Rightarrow> ('r, 'w, 's) p2_state \<Rightarrow>
    p2_reply socket_result \<times> ('r, 'w, 's) p2_state" where
  "p2_remote_address wasi this st =
     (case p2_tunnel_of st this of
        Some (Connected remote loc sl rd wr) \<Rightarrow> (Ok (Plain (RAddress remote)), st)
      | Some _ \<Rightarrow> (Err (Code InvalidState), st)
      | None \<Rightarrow> p2_on_sockets (p2_inner wasi this RemoteAddress) st)"

text \<open>A host error of a method whose result is not a \<open>SocketResult\<close> traps.\<close>

definition p2_subscribe :: "'s p2_wasi \<Rightarrow> u32 \<Rightarrow> ('r, 'w, 's) p2_state \<Rightarrow>
    p2_reply socket_result \<times> ('r, 'w, 's) p2_state" where
  "p2_subscribe wasi this st =
     (let pushed = (\<lambda>ready. case p2_on_sockets (p2_push_ready wasi ready) st of
            (Inl e, st) \<Rightarrow> (Err (HostTrap e), st)
          | (Inr p, st) \<Rightarrow> (Ok (Pollable p), st))
      in case p2_tunnel_of st this of
          Some (Connecting remote sl) \<Rightarrow> pushed (Some sl)
        | Some (Connected remote loc sl rd wr) \<Rightarrow> pushed (Some sl)
        | Some Tunnel_Failed \<Rightarrow> pushed None
        | None \<Rightarrow> p2_on_sockets (p2_inner wasi this Subscribe) st)"

text \<open>\<open>TunnelReady::ready\<close> returns once the watched value is true, or its sender is gone.\<close>

definition tunnel_ready :: "ref option \<Rightarrow> ('r, 'w, 's) p2_state \<Rightarrow> bool" where
  "tunnel_ready ready st =
     (case ready of
        None \<Rightarrow> True
      | Some sl \<Rightarrow> (case slots st sl of None \<Rightarrow> True | Some s \<Rightarrow> s_done s))"

definition p2_shutdown :: "'s p2_wasi \<Rightarrow> u32 \<Rightarrow> shutdown_type \<Rightarrow> ('r, 'w, 's) p2_state \<Rightarrow>
    p2_reply socket_result \<times> ('r, 'w, 's) p2_state" where
  "p2_shutdown wasi this how st =
     (case p2_tunnel_of st this of
        None \<Rightarrow> p2_on_sockets (p2_inner wasi this (Shutdown how)) st
      | Some (Connected remote loc sl rd wr) \<Rightarrow>
          (Ok (Plain RUnit),
           case how of
             Send \<Rightarrow> drop_output wr st
           | Receive \<Rightarrow> close_input rd st
           | Both \<Rightarrow> close_input rd (drop_output wr st))
      | Some _ \<Rightarrow> (Err (Code InvalidState), st))"

definition p2_drop :: "'s p2_wasi \<Rightarrow> u32 \<Rightarrow> ('r, 'w, 's) p2_state \<Rightarrow>
    p2_reply socket_result \<times> ('r, 'w, 's) p2_state" where
  "p2_drop wasi this st =
     (let st = set_p2_tunnel this None st;
          st = st\<lparr>view := (view st)\<lparr>virt := (virt (view st))
            \<lparr>tunnels := (tunnels (virt (view st)))(this := None)\<rparr>\<rparr>\<rparr>
      in p2_on_sockets (p2_inner wasi this P2Drop) st)"

text \<open>The trait's methods; those the tunnel does not touch delegate with their arguments.\<close>

definition p2_tcp :: "'s p2_wasi \<Rightarrow> u32 \<Rightarrow> p2_call \<Rightarrow> ('r, 'w, 's) p2_state \<Rightarrow>
    p2_reply socket_result \<times> ('r, 'w, 's) p2_state" where
  "p2_tcp wasi this call st =
     (case call of
        StartConnect network remote \<Rightarrow> start_connect wasi this network remote st
      | FinishConnect \<Rightarrow> finish_connect wasi this st
      | LocalAddress \<Rightarrow> p2_local_address wasi this st
      | RemoteAddress \<Rightarrow> p2_remote_address wasi this st
      | Subscribe \<Rightarrow> p2_subscribe wasi this st
      | Shutdown how \<Rightarrow> p2_shutdown wasi this how st
      | P2Drop \<Rightarrow> p2_drop wasi this st
      | _ \<Rightarrow> p2_on_sockets (p2_inner wasi this call) st)"

section \<open>Name lookup\<close>

definition p2_resolve_addresses :: "'s p2_wasi \<Rightarrow> u32 \<Rightarrow> string \<Rightarrow> ('r, 'w, 's) p2_state \<Rightarrow>
    u32 socket_result \<times> ('r, 'w, 's) p2_state" where
  "p2_resolve_addresses wasi network name st =
     (case strip_suffix name of
        Some real \<Rightarrow>
          (case p2_on_sockets (p2_resolve wasi network real) st of
             (Inl e, st) \<Rightarrow> (Err e, st)
           | (Inr rep, st) \<Rightarrow> (Ok rep, set_p2_resolve rep (Some (Draining real [])) st))
      | None \<Rightarrow> p2_on_sockets (p2_resolve wasi network name) st)"

text \<open>
  The loop of \<open>resolve_next_address\<close>: \<open>None\<close> when it never returns, a panic when the platform has no
  randomness for the handle.
\<close>

partial_function (option) drain_loop ::
    "'s p2_wasi \<Rightarrow> bytes option \<Rightarrow> u32 \<Rightarrow> ('r, 'w, 's) p2_state \<Rightarrow>
     (ip_address option socket_result \<times> ('r, 'w, 's) p2_state) or_panic option" where
  "drain_loop wasi random rep st =
     (case p2_on_sockets (p2_next wasi rep) st of
        (Inl e, st) \<Rightarrow> Some (Ok (Err e, st))
      | (Inr nxt, st) \<Rightarrow>
          (case p2_resolve_of st rep of
             None \<Rightarrow> Some (Ok (Ok nxt, st))
           | Some Yielded \<Rightarrow> Some (Ok (Ok None, st))
           | Some (Draining host addresses) \<Rightarrow>
               (case nxt of
                  Some a \<Rightarrow>
                    drain_loop wasi random rep
                      (set_p2_resolve rep (Some (Draining host (addresses @ [p2_ip_to_std a]))) st)
                | None \<Rightarrow>
                    let st = set_p2_resolve rep (Some Yielded) st
                    in if addresses = [] then Some (Ok (Err (Code NameUnresolvable), st))
                       else (case mint (names (virt (view st)))
                                    \<lparr>hostname = host, addrs = addresses\<rparr> random of
                           Inl p \<Rightarrow> Some (Panic p)
                         | Inr (handle, t) \<Rightarrow>
                             Some (Ok (Ok (Some (handle_to_ip handle)),
                               st\<lparr>view := (view st)\<lparr>virt := (virt (view st))\<lparr>names := t\<rparr>\<rparr>\<rparr>))))))"

definition resolve_next_address ::
    "'s p2_wasi \<Rightarrow> bytes option \<Rightarrow> u32 \<Rightarrow> ('r, 'w, 's) p2_state \<Rightarrow>
     (ip_address option socket_result \<times> ('r, 'w, 's) p2_state) or_panic option" where
  "resolve_next_address wasi random rep st =
     (if p2_resolve_of st rep = None then Some (Ok (p2_on_sockets (p2_next wasi rep) st))
      else drain_loop wasi random rep st)"

definition p2_lookup_subscribe :: "'s p2_wasi \<Rightarrow> u32 \<Rightarrow> ('r, 'w, 's) p2_state \<Rightarrow>
    (u32, string) result \<times> ('r, 'w, 's) p2_state" where
  "p2_lookup_subscribe wasi rep = p2_on_sockets (p2_resolve_subscribe wasi rep)"

definition p2_lookup_drop :: "'s p2_wasi \<Rightarrow> u32 \<Rightarrow> ('r, 'w, 's) p2_state \<Rightarrow>
    (unit, string) result \<times> ('r, 'w, 's) p2_state" where
  "p2_lookup_drop wasi rep st = p2_on_sockets (p2_resolve_drop wasi rep) (set_p2_resolve rep None st)"

section \<open>Laws\<close>

text \<open>Both generations dial the same way.\<close>

lemma handshake_eq_dial_tunnel: "handshake net host a n = dial_tunnel net host a n"
  by (auto simp: handshake_def dial_tunnel_def split: prod.split bool.split sum.split option.split)

interpretation p2_dial: guarded_dial handshake
  by unfold_locales (simp add: handshake_def, simp only: handshake_eq_dial_tunnel, erule dial_tunnel_dialed)

definition set_sockets :: "'s \<Rightarrow> ('r, 'w, 's) p2_state \<Rightarrow> ('r, 'w, 's) p2_state" where
  "set_sockets s st = st\<lparr>view := (view st)\<lparr>sockets := s\<rparr>\<rparr>"

definition set_names :: "handle_table \<Rightarrow> ('r, 'w, 's) p2_state \<Rightarrow> ('r, 'w, 's) p2_state" where
  "set_names t st = st\<lparr>view := (view st)\<lparr>virt := (virt (view st))\<lparr>names := t\<rparr>\<rparr>\<rparr>"

lemma p2_on_sockets_eq: "p2_on_sockets f st = (case f (sockets (view st)) of (a, s) \<Rightarrow> (a, set_sockets s st))"
  by (simp add: p2_on_sockets_def on_sockets_def set_sockets_def split: prod.split)

lemma set_simps [simp]:
  "sockets (view (set_sockets s st)) = s" "virt (view (set_sockets s st)) = virt (view st)"
  "sockets (view (set_p2_resolve rep x st)) = sockets (view st)"
  "sockets (view (set_p2_tunnel rep y st)) = sockets (view st)"
  "p2_resolves (virt (view (set_p2_resolve rep x st))) = (p2_resolves (virt (view st)))(rep := x)"
  "p2_tunnels (virt (view (set_p2_tunnel rep y st))) = (p2_tunnels (virt (view st)))(rep := y)"
  "names (virt (view (set_p2_resolve rep x st))) = names (virt (view st))"
  "names (virt (view (set_p2_tunnel rep y st))) = names (virt (view st))"
  "names (virt (view (set_names t st))) = t"
  "p2_resolves (virt (view (set_names t st))) = p2_resolves (virt (view st))"
  "set_p2_resolve rep x (set_p2_resolve rep z st) = set_p2_resolve rep x st"
  "set_sockets s (set_p2_resolve rep x st) = set_p2_resolve rep x (set_sockets s st)"
  "set_sockets s (set_sockets s' st) = set_sockets s st"
  by (simp_all add: set_sockets_def set_p2_resolve_def set_p2_tunnel_def set_names_def)

text \<open>The wrapped stream yields these addresses and then ends.\<close>

inductive yields :: "'s p2_wasi \<Rightarrow> u32 \<Rightarrow> 's \<Rightarrow> ip_address list \<Rightarrow> 's \<Rightarrow> bool" for wasi rep where
  yields_end: "p2_next wasi rep s = (Ok None, s') \<Longrightarrow> yields wasi rep s [] s'"
| yields_more: "p2_next wasi rep s = (Ok (Some a), s1) \<Longrightarrow> yields wasi rep s1 as s' \<Longrightarrow>
    yields wasi rep s (a # as) s'"

lemma drain_step:
  assumes "p2_next wasi rep (sockets (view st)) = (Ok (Some a), s)" and "p2_resolve_of st rep = Some (Draining host pre)"
  shows "drain_loop wasi random rep st = drain_loop wasi random rep
    (set_p2_resolve rep (Some (Draining host (pre @ [ip_to_std a]))) (set_sockets s st))"
  using assms by (subst drain_loop.simps) (simp add: p2_on_sockets_eq ip_to_std_p2)

lemma drain_end:
  assumes "p2_next wasi rep (sockets (view st)) = (Ok None, s)" and "p2_resolve_of st rep = Some (Draining host pre)"
  shows "drain_loop wasi (Some sfx) rep st = Some (Ok
    (if pre = [] then (Err (Code NameUnresolvable), set_p2_resolve rep (Some Yielded) (set_sockets s st))
     else case mint_with (names (virt (view st))) \<lparr>hostname = host, addrs = pre\<rparr> sfx of
       (handle, t) \<Rightarrow> (Ok (Some (Ipv6 handle)), set_names t (set_p2_resolve rep (Some Yielded) (set_sockets s st)))))"
  using assms by (subst drain_loop.simps)
    (simp add: p2_on_sockets_eq Let_def mint_eq_mint_with handle_to_ip_def set_names_def split: prod.split)

lemma drain_yields:
  assumes "yields wasi rep s as s'" and "sockets (view st) = s" and "p2_resolve_of st rep = Some (Draining host pre)"
  shows "drain_loop wasi (Some sfx) rep st = Some (Ok
    (if pre = [] \<and> as = [] then (Err (Code NameUnresolvable), set_p2_resolve rep (Some Yielded) (set_sockets s' st))
     else case mint_with (names (virt (view st))) \<lparr>hostname = host, addrs = pre @ map ip_to_std as\<rparr> sfx of
       (handle, t) \<Rightarrow> (Ok (Some (Ipv6 handle)), set_names t (set_p2_resolve rep (Some Yielded) (set_sockets s' st)))))"
  using assms
proof (induction arbitrary: st pre rule: yields.induct)
  case (yields_end s s')
  then show ?case using drain_end [of wasi rep st s' host pre sfx] by simp
next
  case (yields_more s a s1 as s')
  then show ?case using drain_step [of wasi rep st a s1 host pre "Some sfx"] by simp
qed

lemma drained_ends:
  assumes "p2_next wasi rep (sockets (view st)) = (Ok nxt, s)" and "p2_resolve_of st rep = Some Yielded"
  shows "drain_loop wasi random rep st = Some (Ok (Ok None, set_sockets s st))"
  using assms by (subst drain_loop.simps) (simp add: p2_on_sockets_eq)

text \<open>Connecting\<close>

lemma start_connect_tunnel:
  assumes "p2_conv_ok wasi" and "lookup (names (virt (view st))) (v6_address v6) = Some e"
    and "p2_tunnel_of st this = None" and "p2_table_get wasi network (sockets (view st)) = Ok ()"
    and "pick_addr (addrs e) (v6_port v6) = Some a"
  shows "start_connect wasi this network (SockV6 v6) st = (Ok (Plain RUnit),
    set_p2_tunnel this (Some (Connecting (SockV6 v6) (next_ref st)))
      (st\<lparr>next_ref := next_ref st + 1,
         slots := (slots st)(next_ref st \<mapsto> \<lparr>s_result = None, s_done = False\<rparr>),
         dials := dials st @ [(next_ref st, hostname e, a)]\<rparr>))"
  using assms by (simp add: start_connect_def p2_conv_ok_def Let_def)

lemma finish_connect_pending:
  assumes "p2_tunnel_of st this = Some (Connecting remote sl)" and "slots st sl = Some s" and "s_result s = None"
  shows "finish_connect wasi this st = (Err (Code WouldBlock), st)"
  using assms by (simp add: finish_connect_def)

lemma finish_connect_failed:
  assumes "p2_tunnel_of st this = Some (Connecting remote sl)" and "slots st sl = Some s" and "s_result s = Some (Err code)"
  shows "fst (finish_connect wasi this st) = Err (Code code) \<and>
     p2_tunnel_of (snd (finish_connect wasi this st)) this = Some Tunnel_Failed"
  using assms by (simp add: finish_connect_def Let_def)

lemma finish_connect_settled:
  assumes "p2_tunnel_of st this = Some t" and "\<forall>remote sl. t \<noteq> Connecting remote sl"
  shows "finish_connect wasi this st = (Err (Code NotInProgress), st)"
  using assms by (cases t) (simp_all add: finish_connect_def)

lemma finish_connect_done:
  assumes "p2_tunnel_of st this = Some (Connecting remote sl)" and "slots st sl = Some s"
    and "s_result s = Some (Ok parts)"
    and "p2_push_input wasi (next_ref st) this (sockets (view st)) = (Ok i, s1)"
    and "p2_push_output wasi (next_ref st + 1) this s1 = (Ok out, s2)"
  shows "\<exists>st' rd wr. finish_connect wasi this st = (Ok (Streams i out), st') \<and>
     p2_tunnel_of st' this = Some (Connected remote (p_local parts) sl rd wr) \<and>
     read_cells st' rd = Some \<lparr>rd_half = Some (p_read parts), rd_buf = [], rd_state = Open\<rparr> \<and>
     write_cells st' wr = Some (chan_new (p_write parts))"
proof -
  have [simp]: "read_cells (set_sockets s st) = read_cells st" "write_cells (set_sockets s st) = write_cells st"
    "read_cells (set_p2_tunnel x y st) = read_cells st" "write_cells (set_p2_tunnel x y st) = write_cells st"
    for s x y and st :: "('a, 'b, 'c) p2_state"
    by (simp_all add: set_sockets_def set_p2_tunnel_def)
  show ?thesis
    by (rule exI [of _ "snd (finish_connect wasi this st)"], rule exI [of _ "next_ref st"], rule exI [of _ "next_ref st + 1"])
      (use assms in \<open>simp add: finish_connect_def Let_def p2_on_sockets_eq\<close>)
qed


lemma slots_set_p2_tunnel [simp]: "slots (set_p2_tunnel x y st) = slots st" "next_ref (set_p2_tunnel x y st) = next_ref st"
  "dials (set_p2_tunnel x y st) = dials st"
  by (simp_all add: set_p2_tunnel_def)

lemma finish_connect_outcome:
  assumes "p2_tunnel_of st this = Some (Connecting remote sl)"
    and "slots st sl = Some \<lparr>s_result = Some outcome, s_done = d\<rparr>"
    and "p2_push_input wasi (next_ref st) this (sockets (view st)) = (Ok i, s1)"
    and "p2_push_output wasi (next_ref st + 1) this s1 = (Ok out, s2)"
  shows "\<exists>st'. finish_connect wasi this st =
       (case outcome of Inl code \<Rightarrow> Err (Code code) | Inr parts \<Rightarrow> Ok (Streams i out), st') \<and>
     finish_connect wasi this st' = (Err (Code NotInProgress), st') \<and>
     (case outcome of
        Inl code \<Rightarrow> p2_tunnel_of st' this = Some Tunnel_Failed
      | Inr parts \<Rightarrow> \<exists>rd wr. p2_tunnel_of st' this = Some (Connected remote (p_local parts) sl rd wr) \<and>
          read_cells st' rd = Some \<lparr>rd_half = Some (p_read parts), rd_buf = [], rd_state = Open\<rparr> \<and>
          write_cells st' wr = Some (chan_new (p_write parts)))"
proof (cases outcome)
  case (Inl code)
  then obtain st' where f: "finish_connect wasi this st = (Err (Code code), st')"
    "p2_tunnel_of st' this = Some Tunnel_Failed"
    using finish_connect_failed [OF assms(1,2), of code wasi] by (cases "finish_connect wasi this st") simp
  have "finish_connect wasi this st' = (Err (Code NotInProgress), st')"
    by (rule finish_connect_settled [OF f(2)]) simp
  with f Inl show ?thesis by (intro exI [of _ st']) simp
next
  case (Inr parts)
  obtain st' rd wr where f: "finish_connect wasi this st = (Ok (Streams i out), st')"
    "p2_tunnel_of st' this = Some (Connected remote (p_local parts) sl rd wr)"
    "read_cells st' rd = Some \<lparr>rd_half = Some (p_read parts), rd_buf = [], rd_state = Open\<rparr>"
    "write_cells st' wr = Some (chan_new (p_write parts))"
    using finish_connect_done [OF assms(1,2) _ assms(3,4), of parts] Inr by auto
  have "finish_connect wasi this st' = (Err (Code NotInProgress), st')"
    by (rule finish_connect_settled [OF f(2)]) simp
  with f Inr show ?thesis by (intro exI [of _ st']) simp
qed

text \<open>An instance: a resolver that yields what it still holds, and a table that counts.\<close>

definition demo_p2 :: "ip_address list p2_wasi" where
  "demo_p2 = \<lparr>p2_inner = (\<lambda>_ _ s. (Ok (Plain RUnit), s)), p2_table_get = (\<lambda>_ _. Ok ()),
     p2_push_input = (\<lambda>_ _ s. (Ok 10, s)), p2_push_output = (\<lambda>_ _ s. (Ok 11, s)),
     p2_push_ready = (\<lambda>_ s. (Ok 12, s)), p2_resolve = (\<lambda>_ _ s. (Ok 5, s)),
     p2_next = (\<lambda>_ s. case s of [] \<Rightarrow> (Ok None, []) | a # as \<Rightarrow> (Ok (Some a), as)),
     p2_resolve_subscribe = (\<lambda>_ s. (Ok 13, s)), p2_resolve_drop = (\<lambda>_ s. (Ok (), s)),
     p2_network_drop = (\<lambda>_ s. (Ok (), s)),
     p2_to_std = (\<lambda>a. case a of SockV4 v4 \<Rightarrow> SocketV4 (v4_address v4) (v4_port v4)
        | SockV6 v6 \<Rightarrow> SocketV6 (v6_address v6) (v6_port v6) (v6_flow_info v6) (v6_scope_id v6)),
     p2_from_std = (\<lambda>_. SockV4 \<lparr>v4_port = 0, v4_address = (0, 0, 0, 0)\<rparr>)\<rparr>"

definition demo_p2_state :: "(bytes, bytes, ip_address list) p2_state" where
  "demo_p2_state = \<lparr>view = \<lparr>virt = \<lparr>names = snd (mint_with demo_table demo_entry [1, 2, 3, 4, 5, 6, 7, 8]),
       tunnels = Map.empty, p2_tunnels = Map.empty, p2_resolves = Map.empty\<rparr>,
       sockets = [Ipv4 (192, 0, 2, 1)]\<rparr>,
     slots = Map.empty, read_cells = Map.empty, write_cells = Map.empty, next_ref = 0, dials = []\<rparr>"

lemma demo_p2_conv: "p2_conv_ok demo_p2"
  by (simp add: p2_conv_ok_def demo_p2_def)

section \<open>Properties\<close>

text \<open>
  C10. The two-phase connect to a handle: \<open>start_connect\<close> succeeds, \<open>finish_connect\<close> reports would-block
  and the socket is not ready until the handshake task has delivered; then it is ready and
  \<open>finish_connect\<close> reports the task's outcome exactly once (not-in-progress ever after). On success the
  session is with the handle's host over an admitted connection to one of its addresses, and the
  tunnel is wired to fresh streams over the session's halves and reports the handle as its peer.
\<close>

theorem p2_connect_lifecycle:
  assumes "p2_conv_ok wasi" and "lookup (names (virt (view st))) (v6_address v6) = Some e"
    and "p2_tunnel_of st this = None" and "p2_table_get wasi network (sockets (view st)) = Ok ()"
    and "pick_addr (addrs e) (v6_port v6) = Some a"
    and "handshake net (hostname e) a n = (outcome, n')"
    and "p2_push_input wasi (next_ref st + 1) this (sockets (view st)) = (Ok i, s1)"
    and "p2_push_output wasi (next_ref st + 2) this s1 = (Ok out, s2)"
  shows "\<exists>st1 st2 st3. start_connect wasi this network (SockV6 v6) st = (Ok (Plain RUnit), st1) \<and>
     finish_connect wasi this st1 = (Err (Code WouldBlock), st1) \<and> \<not> tunnel_ready (Some (next_ref st)) st1 \<and>
     handshake_task net (length (dials st)) (st1, n) = (st2, n') \<and> tunnel_ready (Some (next_ref st)) st2 \<and>
     finish_connect wasi this st2 =
       (case outcome of Inl code \<Rightarrow> Err (Code code) | Inr parts \<Rightarrow> Ok (Streams i out), st3) \<and>
     finish_connect wasi this st3 = (Err (Code NotInProgress), st3) \<and>
     (case outcome of
        Inl code \<Rightarrow> p2_tunnel_of st3 this = Some Tunnel_Failed
      | Inr parts \<Rightarrow> session_with net (hostname e) (addrs e) (v6_port v6) n n' \<and>
          p2_remote_address wasi this st3 = (Ok (Plain (RAddress (SockV6 v6))), st3) \<and>
          (\<exists>rd wr. p2_tunnel_of st3 this =
               Some (Connected (SockV6 v6) (p_local parts) (next_ref st) rd wr) \<and>
             read_cells st3 rd = Some \<lparr>rd_half = Some (p_read parts), rd_buf = [], rd_state = Open\<rparr> \<and>
             write_cells st3 wr = Some (chan_new (p_write parts))))"
proof -
  define st1 where "st1 = set_p2_tunnel this (Some (Connecting (SockV6 v6) (next_ref st)))
      (st\<lparr>next_ref := next_ref st + 1,
         slots := (slots st)(next_ref st \<mapsto> \<lparr>s_result = None, s_done = False\<rparr>),
         dials := dials st @ [(next_ref st, hostname e, a)]\<rparr>)"
  define st2 where "st2 = st1\<lparr>dials := dials st, slots := (slots st1)(next_ref st \<mapsto>
      \<lparr>s_result = Some outcome, s_done = True\<rparr>)\<rparr>"
  have 1: "start_connect wasi this network (SockV6 v6) st = (Ok (Plain RUnit), st1)"
    unfolding st1_def by (rule start_connect_tunnel [OF assms(1-5)])
  have t1: "p2_tunnel_of st1 this = Some (Connecting (SockV6 v6) (next_ref st))"
    "slots st1 (next_ref st) = Some \<lparr>s_result = None, s_done = False\<rparr>" by (simp_all add: st1_def)
  have 2: "finish_connect wasi this st1 = (Err (Code WouldBlock), st1)"
    by (rule finish_connect_pending [OF t1]) simp
  have 3: "handshake_task net (length (dials st)) (st1, n) = (st2, n')"
    using assms(6) by (simp add: handshake_task_def st2_def st1_def)
  have t2: "p2_tunnel_of st2 this = Some (Connecting (SockV6 v6) (next_ref st))"
    "slots st2 (next_ref st) = Some \<lparr>s_result = Some outcome, s_done = True\<rparr>"
    using t1 by (simp_all add: st2_def)
  have rdy: "\<not> tunnel_ready (Some (next_ref st)) st1" "tunnel_ready (Some (next_ref st)) st2"
    using t1 t2 by (simp_all add: tunnel_ready_def)
  have p: "p2_push_input wasi (next_ref st2) this (sockets (view st2)) = (Ok i, s1)"
    "p2_push_output wasi (next_ref st2 + 1) this s1 = (Ok out, s2)"
    using assms(7,8) by (simp_all add: st2_def st1_def)
  have ses: "session_with net (hostname e) (addrs e) (v6_port v6) n n'" if "outcome = Inr parts" for parts
    using assms(6) that by (intro dial_session [OF assms(5)]) (simp add: handshake_eq_dial_tunnel)
  from finish_connect_outcome [OF t2 p] obtain st3 where
    "finish_connect wasi this st2 =
       (case outcome of Inl code \<Rightarrow> Err (Code code) | Inr parts \<Rightarrow> Ok (Streams i out), st3)"
    "finish_connect wasi this st3 = (Err (Code NotInProgress), st3)"
    and "case outcome of
        Inl code \<Rightarrow> p2_tunnel_of st3 this = Some Tunnel_Failed
      | Inr parts \<Rightarrow> \<exists>rd wr. p2_tunnel_of st3 this =
          Some (Connected (SockV6 v6) (p_local parts) (next_ref st) rd wr) \<and>
          read_cells st3 rd = Some \<lparr>rd_half = Some (p_read parts), rd_buf = [], rd_state = Open\<rparr> \<and>
          write_cells st3 wr = Some (chan_new (p_write parts))" by blast
  with 1 2 3 rdy ses show ?thesis
    by (intro exI [of _ st1] exI [of _ st2] exI [of _ st3])
      (auto simp: p2_remote_address_def split: sum.splits)
qed

theorem p2_connect_lifecycle_witness:
  "\<exists>st1 st2 st3. start_connect demo_p2 7 0 (SockV6 \<lparr>v6_port = 443, v6_flow_info = 0,
       v6_address = fst (mint_with demo_table demo_entry [1, 2, 3, 4, 5, 6, 7, 8]), v6_scope_id = 0\<rparr>)
       demo_p2_state = (Ok (Plain RUnit), st1) \<and>
     handshake_task demo_net 0 (st1, []) = (st2, [SocketV6 (8193, 0, 0, 0, 0, 0, 0, 1) 443 0 0]) \<and>
     finish_connect demo_p2 7 st2 = (Ok (Streams 10 11), st3)"
proof -
  let ?v6 = "\<lparr>v6_port = 443, v6_flow_info = 0,
     v6_address = fst (mint_with demo_table demo_entry [1, 2, 3, 4, 5, 6, 7, 8]), v6_scope_id = 0\<rparr>"
  have l: "lookup (names (virt (view demo_p2_state))) (v6_address ?v6) = Some demo_entry"
    using handles.find_minted [OF demo_table_wf, of "[1, 2, 3, 4, 5, 6, 7, 8]" demo_entry
        "fst (mint_with demo_table demo_entry [1, 2, 3, 4, 5, 6, 7, 8])"] by (simp add: demo_p2_state_def)
  have a: "pick_addr (addrs demo_entry) (v6_port ?v6) = Some (SocketV6 (8193, 0, 0, 0, 0, 0, 0, 1) 443 0 0)"
    by (simp add: demo_entry_def pick_addr_def)
  have h: "handshake demo_net (hostname demo_entry) (SocketV6 (8193, 0, 0, 0, 0, 0, 0, 1) 443 0 0) [] =
      (Ok \<lparr>p_local = None, p_read = [], p_write = []\<rparr>, [SocketV6 (8193, 0, 0, 0, 0, 0, 0, 1) 443 0 0])"
    by (simp add: handshake_def demo_net_def)
  have t: "p2_tunnel_of demo_p2_state 7 = None" "length (dials demo_p2_state) = 0"
    "p2_table_get demo_p2 0 (sockets (view demo_p2_state)) = Ok ()"
    "p2_push_input demo_p2 (next_ref demo_p2_state + 1) 7 (sockets (view demo_p2_state)) =
      (Ok 10, sockets (view demo_p2_state))"
    "p2_push_output demo_p2 (next_ref demo_p2_state + 2) 7 (sockets (view demo_p2_state)) =
      (Ok 11, sockets (view demo_p2_state))"
    by (simp_all add: demo_p2_state_def demo_p2_def)
  show ?thesis
    using p2_connect_lifecycle [OF demo_p2_conv l t(1,3) a h t(4,5)] t(2) by auto
qed

text \<open>
  The 0.2 provider is invisible to ordinary sockets: on a socket that is no tunnel every method,
  and a connect to an address that is no handle, is wasmtime-wasi's own.
\<close>

theorem p2_non_tunnel_sockets_are_transparent:
  assumes "p2_conv_ok wasi" and "p2_tunnel_of st this = None" and "tunnels (virt (view st)) this = None"
    and "\<And>network remote. call = StartConnect network remote \<Longrightarrow> lookup_handle (virt (view st)) remote = None"
  shows "p2_tcp wasi this call st = p2_on_sockets (p2_inner wasi this call) st"
proof (cases call)
  case (StartConnect network remote)
  with assms(1,4) show ?thesis
    by (cases remote) (auto simp: p2_tcp_def start_connect_def p2_conv_ok_def Let_def)
next
  case P2Drop
  have "(p2_tunnels (virt (view st)))(this := None) = p2_tunnels (virt (view st))"
    "(tunnels (virt (view st)))(this := None) = tunnels (virt (view st))" using assms(2,3) by auto
  with P2Drop show ?thesis by (simp add: p2_tcp_def p2_drop_def set_p2_tunnel_def)
qed (use assms(2) in \<open>simp_all add: p2_tcp_def finish_connect_def p2_local_address_def p2_remote_address_def
       p2_subscribe_def p2_shutdown_def Let_def\<close>)

theorem p2_non_tunnel_sockets_are_transparent_witness:
  "p2_tcp demo_p2 3 Subscribe demo_p2_state = p2_on_sockets (p2_inner demo_p2 3 Subscribe) demo_p2_state"
proof (rule p2_non_tunnel_sockets_are_transparent [OF demo_p2_conv])
qed (simp_all add: demo_p2_state_def)

text \<open>
  C20. A wrapped resolution yields exactly one handle: when the inner stream yields addresses and ends,
  the first \<open>resolve_next_address\<close> returns (it terminates) a handle under which the table holds the
  opted-in name with exactly those addresses, or name-unresolvable if there were none, and the next
  call ends the stream.
\<close>

theorem p2_resolution_yields_one_handle:
  assumes "strip_suffix name = Some real" and "p2_resolve wasi network real (sockets (view st)) = (Ok rep, s0)"
    and "yields wasi rep s0 as s1" and "p2_next wasi rep s1 = (Ok None, s2)"
    and "table_wf (names (virt (view st)))" and "length sfx = 8"
  shows "\<exists>st1. p2_resolve_addresses wasi network name st = (Ok rep, st1) \<and>
    (\<exists>st2 st3. resolve_next_address wasi (Some sfx) rep st1 = Some (Ok
        (if as = [] then Err (Code NameUnresolvable)
         else Ok (Some (Ipv6 (fst (mint_with (names (virt (view st))) \<lparr>hostname = real, addrs = map ip_to_std as\<rparr> sfx)))), st2)) \<and>
      resolve_next_address wasi random rep st2 = Some (Ok (Ok None, st3)) \<and>
      (as \<noteq> [] \<longrightarrow> lookup (names (virt (view st3)))
         (fst (mint_with (names (virt (view st))) \<lparr>hostname = real, addrs = map ip_to_std as\<rparr> sfx)) =
         Some \<lparr>hostname = real, addrs = map ip_to_std as\<rparr>))"
proof -
  let ?e = "\<lparr>hostname = real, addrs = map ip_to_std as\<rparr>"
  let ?st1 = "set_p2_resolve rep (Some (Draining real [])) (set_sockets s0 st)"
  let ?y = "set_p2_resolve rep (Some Yielded) (set_sockets s1 st)"
  obtain h t where m: "mint_with (names (virt (view st))) ?e sfx = (h, t)" by fastforce
  define st2 where "st2 = (if as = [] then ?y else set_names t ?y)"
  have 1: "p2_resolve_addresses wasi network name st = (Ok rep, ?st1)"
    using assms(1,2) by (simp add: p2_resolve_addresses_def p2_on_sockets_eq)
  have 2: "resolve_next_address wasi (Some sfx) rep ?st1 = Some (Ok
      (if as = [] then Err (Code NameUnresolvable) else Ok (Some (Ipv6 h)), st2))"
    using drain_yields [OF assms(3), of ?st1 real "[]" sfx] m
    by (simp add: resolve_next_address_def st2_def)
  have s2: "sockets (view st2) = s1" "p2_resolve_of st2 rep = Some Yielded"
    by (simp_all add: st2_def set_names_def)
  have 3: "resolve_next_address wasi random rep st2 = Some (Ok (Ok None, set_sockets s2 st2))"
    using drained_ends [of wasi rep st2 None s2 random] s2 assms(4) by (simp add: resolve_next_address_def)
  have "as \<noteq> [] \<Longrightarrow> lookup (names (virt (view (set_sockets s2 st2)))) h = Some ?e"
    using handles.find_minted [OF assms(5,6), of ?e h] m by (simp add: st2_def)
  with 1 2 3 m show ?thesis by (intro exI [of _ ?st1] exI [of _ st2] exI [of _ "set_sockets s2 st2"] conjI) auto
qed

theorem p2_resolution_yields_one_handle_witness:
  "\<exists>st1 st2 h. p2_resolve_addresses demo_p2 0 (''example.org'' @ SUFFIX) demo_p2_state = (Ok 5, st1) \<and>
     resolve_next_address demo_p2 (Some [0, 0, 0, 0, 0, 0, 0, 9]) 5 st1 = Some (Ok (Ok (Some (Ipv6 h)), st2))"
proof -
  have n: "strip_suffix (''example.org'' @ SUFFIX) = Some ''example.org''" by (simp add: strip_suffix_iff)
  have r: "p2_resolve demo_p2 0 ''example.org'' (sockets (view demo_p2_state)) = (Ok 5, [Ipv4 (192, 0, 2, 1)])"
    by (simp add: demo_p2_def demo_p2_state_def)
  have y: "yields demo_p2 5 [Ipv4 (192, 0, 2, 1)] [Ipv4 (192, 0, 2, 1)] []"
    by (rule yields.yields_more [of _ _ _ _ "[]"], simp add: demo_p2_def)
      (rule yields.yields_end, simp add: demo_p2_def)
  have e: "p2_next demo_p2 5 [] = (Ok None, [])" by (simp add: demo_p2_def)
  have w: "table_wf (names (virt (view demo_p2_state)))"
    using handles.minted_invar [OF demo_table_wf, of "[1, 2, 3, 4, 5, 6, 7, 8]" demo_entry]
    by (simp add: demo_p2_state_def)
  have "length [0, 0, 0, 0, 0, 0, 0, 9 :: u8] = 8" by simp
  from p2_resolution_yields_one_handle [where random = None, OF n r y e w this] show ?thesis
    by (simp only: list.distinct simp_thms if_False) blast
qed

text \<open>
  \<open>shutdown(both)\<close> on the socket reaches the streams the guest holds: from then on every write and
  every read of them fails, what was accepted before stays queued for the writer task, and the read
  half is released.
\<close>

theorem p2_shutdown_reaches_the_streams:
  assumes "p2_tunnel_of st this = Some (Connected remote loc sl rd wr)"
    and "write_cells st wr = Some c" and "read_cells st rd = Some r"
  shows "\<exists>st' c' r'. p2_shutdown wasi this Both st = (Ok (Plain RUnit), st') \<and>
     write_cells st' wr = Some c' \<and> read_cells st' rd = Some r' \<and>
     (\<forall>data. \<not> is_ok (fst (output_write data (inner c')))) \<and> check_write (inner c') \<noteq> Ok 0 \<and>
     queued (inner c') = queued (inner c) \<and>
     rd_half r' = None \<and> \<not> is_ok (fst (input_read n r'))"
proof -
  let ?st = "snd (p2_shutdown wasi this Both st)"
  let ?c = "case request_shutdown (inner c) of
        (woken, i) \<Rightarrow> if woken then notify_one (c\<lparr>inner := i\<rparr>) else c\<lparr>inner := i\<rparr>"
  have "write_cells ?st wr = Some ?c" "read_cells ?st rd = Some (close_read r)"
    "fst (p2_shutdown wasi this Both st) = Ok (Plain RUnit)"
    using assms by (simp_all add: p2_shutdown_def drop_output_def close_input_def)
  moreover have "\<not> is_ok (fst (output_write data (inner ?c)))" "check_write (inner ?c) \<noteq> Ok 0"
    "queued (inner ?c) = queued (inner c)" for data
    by (cases "wr_state (inner c)"; auto simp: request_shutdown_def output_write_def check_write_def)+
  moreover have "rd_half (close_read r) = None" "\<not> is_ok (fst (input_read n (close_read r)))"
    by (cases "rd_state r"; simp add: close_read_def input_read_def Let_def)+
  ultimately show ?thesis
    by (intro exI [of _ ?st] exI [of _ ?c] exI [of _ "close_read r"]) (simp add: prod_eq_iff)
qed

theorem p2_shutdown_reaches_the_streams_witness:
  "\<exists>st' c'. p2_shutdown demo_p2 7 Both (demo_p2_state\<lparr>view := (view demo_p2_state)\<lparr>virt := (virt (view demo_p2_state))
       \<lparr>p2_tunnels := [7 \<mapsto> Connected (SockV4 \<lparr>v4_port = 1, v4_address = (1, 2, 3, 4)\<rparr>) None 0 1 2]\<rparr>\<rparr>,
       write_cells := [2 \<mapsto> chan_new []],
       read_cells := [1 \<mapsto> \<lparr>rd_half = Some [], rd_buf = [5], rd_state = Open\<rparr>]\<rparr>) =
     (Ok (Plain RUnit), st') \<and> write_cells st' 2 = Some c' \<and> \<not> is_ok (fst (output_write [1] (inner c')))"
proof -
  let ?st = "demo_p2_state\<lparr>view := (view demo_p2_state)\<lparr>virt := (virt (view demo_p2_state))
       \<lparr>p2_tunnels := [7 \<mapsto> Connected (SockV4 \<lparr>v4_port = 1, v4_address = (1, 2, 3, 4)\<rparr>) None 0 1 2]\<rparr>\<rparr>,
       write_cells := [2 \<mapsto> chan_new []],
       read_cells := [1 \<mapsto> \<lparr>rd_half = Some [], rd_buf = [5], rd_state = Open\<rparr>]\<rparr>"
  have "p2_tunnel_of ?st 7 = Some (Connected (SockV4 \<lparr>v4_port = 1, v4_address = (1, 2, 3, 4)\<rparr>) None 0 1 2)"
    "write_cells ?st 2 = Some (chan_new [])"
    "read_cells ?st 1 = Some \<lparr>rd_half = Some [], rd_buf = [5], rd_state = Open\<rparr>" by simp_all
  from p2_shutdown_reaches_the_streams [OF this, of demo_p2] show ?thesis by blast
qed

end
