(* ===== verification/Virt_Guest.thy ===== *)
theory Virt_Guest
  imports Virt_Host
begin

text \<open>
  The guest delivery of the tls-virt scheme (\<^verbatim>\<open>src/rust/tls-virt-guest/src/lib.rs\<close>): a component that
  exports \<open>wasi:sockets\<close> over the same imported interfaces and the composed \<open>polymorph:tls\<close> client.
  The imports, the client and the runtime's streams and futures are parameters; \<open>'h\<close> is a host
  socket, \<open>'st\<close> a stream, \<open>'fu\<close> a future, \<open>'k\<close> a TLS connector and \<open>'s\<close> the world behind them.
\<close>

section \<open>Parameters\<close>

record ('h, 'st, 'fu, 'k, 's) guest_ops =
  h_create :: "ip_address_family \<Rightarrow> 's \<Rightarrow> ('h, error_code) result \<times> 's"
  h_call :: "'h \<Rightarrow> tcp_call \<Rightarrow> 's \<Rightarrow> (reply, error_code) result \<times> 's"
  h_connect :: "'h \<Rightarrow> ip_socket_address \<Rightarrow> 's \<Rightarrow> (unit, error_code) result \<times> 's"
  h_send :: "'h \<Rightarrow> 'st \<Rightarrow> 's \<Rightarrow> 'fu \<times> 's"
  h_receive :: "'h \<Rightarrow> 's \<Rightarrow> ('st \<times> 'fu) \<times> 's"
  h_resolve :: "string \<Rightarrow> 's \<Rightarrow> (ip_address list, error_code) result \<times> 's"
  k_new :: "'s \<Rightarrow> 'k \<times> 's"
  k_send :: "'k \<Rightarrow> 'st \<Rightarrow> 's \<Rightarrow> ('st \<times> 'fu) \<times> 's"
  k_receive :: "'k \<Rightarrow> 'st \<Rightarrow> 's \<Rightarrow> ('st \<times> 'fu) \<times> 's"
  k_connect :: "'k \<Rightarrow> string \<Rightarrow> 's \<Rightarrow> (unit, string) result \<times> 's"
  rt_pipe :: "'s \<Rightarrow> ('st \<times> 'st) \<times> 's"         \<comment> \<open>writer and reader of a new stream\<close>
  rt_verdict :: "'s \<Rightarrow> 'fu \<times> 's"                \<comment> \<open>a new future, its writer kept by a task\<close>
  rt_settled :: "error_code \<Rightarrow> 's \<Rightarrow> 'fu \<times> 's"   \<comment> \<open>a future whose writer is dropped: its default\<close>
  rt_empty :: "'s \<Rightarrow> 'st \<times> 's"                  \<comment> \<open>a stream whose writer is dropped\<close>

text \<open>
  The tunnel task behind \<open>send\<close>: the pipe it feeds and the futures it relays. A tunnel keeps the
  transmit channel to it until \<open>send\<close> takes it; \<open>g_spliced\<close> is the stream that was delivered.
\<close>

record ('h, 'st, 'fu, 'k) guest_tunnel =
  g_remote :: ip_socket_address
  g_host :: 'h
  g_app_tx :: bool
  g_spliced :: "'st option"
  g_send_verdict :: "'fu option"
  g_cleartext :: "('st \<times> 'fu) option"
  g_tx_done :: 'fu
  g_connector :: 'k

datatype ('h, 'st, 'fu, 'k) tcp_state =
    Host 'h
  | Tunnel "('h, 'st, 'fu, 'k) guest_tunnel"
  | Busy

text \<open>The component's table and one socket's \<open>RefCell\<close>, with the world.\<close>

record ('h, 'st, 'fu, 'k, 's) guest_state =
  g_table :: handle_table
  g_tcp :: "('h, 'st, 'fu, 'k) tcp_state"
  g_world :: 's

definition on_world :: "('s \<Rightarrow> 'a \<times> 's) \<Rightarrow> ('h, 'st, 'fu, 'k, 's) guest_state \<Rightarrow>
    'a \<times> ('h, 'st, 'fu, 'k, 's) guest_state" where
  "on_world f g = (case f (g_world g) of (a, s) \<Rightarrow> (a, g\<lparr>g_world := s\<rparr>))"

section \<open>Name lookup\<close>

fun addr_to_std :: "ip_address \<Rightarrow> ip_addr" where
  "addr_to_std (Ipv4 a) = V4 a"
| "addr_to_std (Ipv6 a) = V6 a"

fun sockaddr_from_std :: "socket_addr \<Rightarrow> ip_socket_address" where
  "sockaddr_from_std (SocketV4 a port) = SockV4 \<lparr>v4_port = port, v4_address = a\<rparr>"
| "sockaddr_from_std (SocketV6 a port flow scope) =
     SockV6 \<lparr>v6_port = port, v6_flow_info = 0, v6_address = a, v6_scope_id = 0\<rparr>"

definition guest_mint_handle :: "entry \<Rightarrow> bytes option \<Rightarrow> ('h, 'st, 'fu, 'k, 's) guest_state \<Rightarrow>
    (ip_address \<times> ('h, 'st, 'fu, 'k, 's) guest_state) or_panic" where
  "guest_mint_handle ent random g =
     (case mint (g_table g) ent random of
        Inl p \<Rightarrow> Panic p
      | Inr (handle, t) \<Rightarrow> Ok (Ipv6 handle, g\<lparr>g_table := t\<rparr>))"

fun guest_lookup_handle :: "handle_table \<Rightarrow> ip_socket_address \<Rightarrow> (string \<times> ip_addr list \<times> u16) option" where
  "guest_lookup_handle t (SockV4 _) = None"
| "guest_lookup_handle t (SockV6 v6) =
     map_option (\<lambda>e. (hostname e, addrs e, v6_port v6)) (lookup t (v6_address v6))"

text \<open>\<open>others\<close> is what other calls into the component do while a call awaits the host.\<close>

definition guest_resolve_addresses ::
    "('h, 'st, 'fu, 'k, 's) guest_ops \<Rightarrow> (('h, 'st, 'fu, 'k, 's) guest_state \<Rightarrow> ('h, 'st, 'fu, 'k, 's) guest_state) \<Rightarrow>
     bytes option \<Rightarrow> string \<Rightarrow> ('h, 'st, 'fu, 'k, 's) guest_state \<Rightarrow>
     ((ip_address list, error_code) result \<times> ('h, 'st, 'fu, 'k, 's) guest_state) or_panic" where
  "guest_resolve_addresses ops others random name g =
     (case strip_suffix name of
        Some real \<Rightarrow>
          (case on_world (h_resolve ops real) g of
             (Inl e, g) \<Rightarrow> Ok (Err e, others g)
           | (Inr resolved, g) \<Rightarrow>
               let g = others g
               in if resolved = [] then Ok (Err NameUnresolvable, g)
                  else (case guest_mint_handle \<lparr>hostname = real, addrs = map addr_to_std resolved\<rparr> random g of
                      Inl p \<Rightarrow> Panic p
                    | Inr (handle, g) \<Rightarrow> Ok (Ok [handle], g)))
      | None \<Rightarrow> (case on_world (h_resolve ops name) g of (r, g) \<Rightarrow> Ok (r, others g)))"

section \<open>TCP sockets\<close>

definition guest_create :: "('h, 'st, 'fu, 'k, 's) guest_ops \<Rightarrow> ip_address_family \<Rightarrow>
    's \<Rightarrow> (('h, 'st, 'fu, 'k) tcp_state, error_code) result \<times> 's" where
  "guest_create ops family s =
     (case h_create ops family s of
        (Inl e, s) \<Rightarrow> (Err e, s)
      | (Inr h, s) \<Rightarrow> (Ok (Host h), s))"

text \<open>\<open>host_op\<close>: the socket the operation goes to.\<close>

fun host_op :: "('h, 'st, 'fu, 'k) tcp_state \<Rightarrow> ('h, error_code) result" where
  "host_op (Host s) = Ok s"
| "host_op (Tunnel t) = Ok (g_host t)"
| "host_op Busy = Err InvalidState"

definition guest_delegate :: "('h, 'st, 'fu, 'k, 's) guest_ops \<Rightarrow> tcp_call \<Rightarrow>
    ('h, 'st, 'fu, 'k, 's) guest_state \<Rightarrow> (reply, error_code) result \<times> ('h, 'st, 'fu, 'k, 's) guest_state" where
  "guest_delegate ops call g =
     (case host_op (g_tcp g) of
        Inl e \<Rightarrow> (Err e, g)
      | Inr s \<Rightarrow> on_world (h_call ops s call) g)"

text \<open>
  The methods with a result of their own; every other one is \<open>host_op\<close> with the same method. The
  exported resource has no drop method.
\<close>

definition guest_tcp :: "('h, 'st, 'fu, 'k, 's) guest_ops \<Rightarrow> tcp_call \<Rightarrow>
    ('h, 'st, 'fu, 'k, 's) guest_state \<Rightarrow> (reply, error_code) result \<times> ('h, 'st, 'fu, 'k, 's) guest_state" where
  "guest_tcp ops call g =
     (case call of
        GetRemoteAddress \<Rightarrow>
          (case g_tcp g of
             Tunnel t \<Rightarrow> (Ok (RAddress (g_remote t)), g)
           | Host s \<Rightarrow> on_world (h_call ops s GetRemoteAddress) g
           | Busy \<Rightarrow> (Err InvalidState, g))
      | GetIsListening \<Rightarrow>
          (case guest_delegate ops GetIsListening g of
             (Inr r, g) \<Rightarrow> (Ok r, g)
           | (Inl e, g) \<Rightarrow> (Ok (RBool False), g))
      | GetAddressFamily \<Rightarrow>
          (case g_tcp g of
             Tunnel t \<Rightarrow> (Ok (RFamily FamilyIpv6), g)
           | Host s \<Rightarrow> on_world (h_call ops s GetAddressFamily) g
           | Busy \<Rightarrow> (Ok (RFamily FamilyIpv6), g))
      | _ \<Rightarrow> guest_delegate ops call g)"

definition guest_listen :: "('h, 'st, 'fu, 'k, 's) guest_state \<Rightarrow>
    (unit, error_code) result \<times> ('h, 'st, 'fu, 'k, 's) guest_state" where
  "guest_listen g = (Err NotSupported, g)"

text \<open>
  The awaited part of a tunnel connect: the real transport, the TLS transforms wired onto it, and the
  handshake. A host error is passed on, a failed handshake is connection-reset.
\<close>

definition guest_dial :: "('h, 'st, 'fu, 'k, 's) guest_ops \<Rightarrow> string \<Rightarrow> socket_addr \<Rightarrow> ip_socket_address \<Rightarrow> 's \<Rightarrow>
    (('h, 'st, 'fu, 'k) guest_tunnel, error_code) result \<times> 's" where
  "guest_dial ops host a remote s =
     (case h_create ops (case a of SocketV4 _ _ \<Rightarrow> FamilyIpv4 | SocketV6 _ _ _ _ \<Rightarrow> FamilyIpv6) s of
        (Inl e, s) \<Rightarrow> (Err e, s)
      | (Inr real, s) \<Rightarrow>
          (case h_connect ops real (sockaddr_from_std a) s of
             (Inl e, s) \<Rightarrow> (Err e, s)
           | (Inr _, s) \<Rightarrow>
               let (k, s) = k_new ops s;
                   ((pipe_writer, pipe_reader), s) = rt_pipe ops s;
                   ((ciphertext_out, send_done), s) = k_send ops k pipe_reader s;
                   (tx_done, s) = h_send ops real ciphertext_out s;
                   ((ciphertext_in, rx_done), s) = h_receive ops real s;
                   ((cleartext_in, recv_done), s) = k_receive ops k ciphertext_in s
               in (case k_connect ops k host s of
                   (Inl e, s) \<Rightarrow> (Err ConnectionReset, s)
                 | (Inr _, s) \<Rightarrow>
                     let (send_verdict, s) = rt_verdict ops s;
                         (recv_verdict, s) = rt_verdict ops s
                     in (Ok \<lparr>g_remote = remote, g_host = real, g_app_tx = True, g_spliced = None,
                           g_send_verdict = Some send_verdict,
                           g_cleartext = Some (cleartext_in, recv_verdict),
                           g_tx_done = tx_done, g_connector = k\<rparr>, s))))"

definition guest_connect :: "('h, 'st, 'fu, 'k, 's) guest_ops \<Rightarrow>
    (('h, 'st, 'fu, 'k, 's) guest_state \<Rightarrow> ('h, 'st, 'fu, 'k, 's) guest_state) \<Rightarrow> ip_socket_address \<Rightarrow>
    ('h, 'st, 'fu, 'k, 's) guest_state \<Rightarrow> (unit, error_code) result \<times> ('h, 'st, 'fu, 'k, 's) guest_state" where
  "guest_connect ops others remote g =
     (case guest_lookup_handle (g_table g) remote of
        None \<Rightarrow>
          (case g_tcp g of
             Host socket \<Rightarrow>
               (case on_world (h_connect ops socket remote) (g\<lparr>g_tcp := Busy\<rparr>) of
                  (r, g) \<Rightarrow> (r, (others g)\<lparr>g_tcp := Host socket\<rparr>))
           | _ \<Rightarrow> (Err InvalidState, g))
      | Some (host, addresses, port) \<Rightarrow>
          (case pick_addr addresses port of
             None \<Rightarrow> (Err RemoteUnreachable, g)
           | Some a \<Rightarrow>
               (case on_world (guest_dial ops host a remote) g of
                  (Inl e, g) \<Rightarrow> (Err e, others g)
                | (Inr t, g) \<Rightarrow> (Ok (), (others g)\<lparr>g_tcp := Tunnel t\<rparr>))))"

definition invalid_state_verdict :: "('h, 'st, 'fu, 'k, 's) guest_ops \<Rightarrow> 's \<Rightarrow> 'fu \<times> 's" where
  "invalid_state_verdict ops = rt_settled ops InvalidState"

definition closed_receive :: "('h, 'st, 'fu, 'k, 's) guest_ops \<Rightarrow> 's \<Rightarrow> ('st \<times> 'fu) \<times> 's" where
  "closed_receive ops s =
     (let (stream, s) = rt_empty ops s; (verdict, s) = invalid_state_verdict ops s in ((stream, verdict), s))"

definition guest_send :: "('h, 'st, 'fu, 'k, 's) guest_ops \<Rightarrow> 'st \<Rightarrow> ('h, 'st, 'fu, 'k, 's) guest_state \<Rightarrow>
    'fu \<times> ('h, 'st, 'fu, 'k, 's) guest_state" where
  "guest_send ops data g =
     (case g_tcp g of
        Host s \<Rightarrow> on_world (h_send ops s data) g
      | Tunnel t \<Rightarrow>
          (let t' = t\<lparr>g_app_tx := False, g_send_verdict := None\<rparr>
           in case (g_app_tx t, g_send_verdict t) of
               (True, Some verdict) \<Rightarrow> (verdict, g\<lparr>g_tcp := Tunnel (t'\<lparr>g_spliced := Some data\<rparr>)\<rparr>)
             | _ \<Rightarrow> on_world (invalid_state_verdict ops) (g\<lparr>g_tcp := Tunnel t'\<rparr>))
      | Busy \<Rightarrow> on_world (invalid_state_verdict ops) g)"

definition guest_receive :: "('h, 'st, 'fu, 'k, 's) guest_ops \<Rightarrow> ('h, 'st, 'fu, 'k, 's) guest_state \<Rightarrow>
    ('st \<times> 'fu) \<times> ('h, 'st, 'fu, 'k, 's) guest_state" where
  "guest_receive ops g =
     (case g_tcp g of
        Host s \<Rightarrow> on_world (h_receive ops s) g
      | Tunnel t \<Rightarrow>
          (case g_cleartext t of
             Some pair \<Rightarrow> (pair, g\<lparr>g_tcp := Tunnel (t\<lparr>g_cleartext := None\<rparr>)\<rparr>)
           | None \<Rightarrow> on_world (closed_receive ops) g)
      | Busy \<Rightarrow> on_world (closed_receive ops) g)"

section \<open>The transmit splice\<close>

text \<open>
  \<open>splice\<close>: \<open>reads\<close> are the results of the successive reads of the application's stream, at most
  \<open>CHUNK\<close> bytes each; \<open>wa\<close> is the pipe's \<open>write_all\<close>, which returns what the reader's end no longer
  took. \<open>None\<close>: the task still waits for the next read.
\<close>

fun splice :: "(bytes \<Rightarrow> 'p \<Rightarrow> bytes \<times> 'p) \<Rightarrow> (stream_result \<times> bytes) list \<Rightarrow> 'p \<Rightarrow> 'p option" where
  "splice wa [] p = None"
| "splice wa ((status, buf) # reads) p =
     (let (leftover, p) = (if buf \<noteq> [] then wa buf p else ([], p))
      in if leftover \<noteq> [] then Some p
         else if status = SDropped \<or> status = SCancelled then Some p
         else splice wa reads p)"

section \<open>UDP sockets\<close>

definition guest_udp_create :: "(ip_address_family \<Rightarrow> 's \<Rightarrow> ('u, error_code) result \<times> 's) \<Rightarrow>
    ip_address_family \<Rightarrow> 's \<Rightarrow> ('u, error_code) result \<times> 's" where
  "guest_udp_create h_udp_create family s =
     (case h_udp_create family s of (Inl e, s) \<Rightarrow> (Err e, s) | (Inr u, s) \<Rightarrow> (Ok u, s))"

definition guest_udp :: "('u \<Rightarrow> udp_call \<Rightarrow> 's \<Rightarrow> (reply, error_code) result \<times> 's) \<Rightarrow> 'u \<Rightarrow> udp_call \<Rightarrow> 's \<Rightarrow>
    (reply, error_code) result \<times> 's" where
  "guest_udp h_udp inner_socket call = h_udp inner_socket call"

section \<open>Laws\<close>

lemma addr_to_std_eq: "addr_to_std = ip_to_std"
proof
  fix a
  show "addr_to_std a = ip_to_std a" by (cases a) simp_all
qed

lemma guest_lookup_handle_eq: "guest_lookup_handle (names v) remote = lookup_handle v remote"
  by (cases remote) simp_all

lemma guest_dial_Ok:
  assumes "guest_dial ops host a remote s = (Ok t, s')"
  shows "\<exists>s1 s3. h_create ops (case a of SocketV4 _ _ \<Rightarrow> FamilyIpv4 | SocketV6 _ _ _ _ \<Rightarrow> FamilyIpv6) s =
      (Ok (g_host t), s1) \<and>
    fst (h_connect ops (g_host t) (sockaddr_from_std a) s1) = Ok () \<and>
    fst (k_connect ops (g_connector t) host s3) = Ok () \<and>
    g_remote t = remote \<and> g_app_tx t \<and> g_send_verdict t \<noteq> None \<and> g_cleartext t \<noteq> None"
  using assms
  by (auto simp: guest_dial_def Let_def split: sum.splits prod.splits) (metis fst_conv)

lemma guest_connect_Ok:
  assumes "guest_connect ops others remote g = (Ok u, g')"
    and "guest_lookup_handle (g_table g) remote = Some (host, addresses, port)"
  shows "\<exists>a t s. pick_addr addresses port = Some a \<and> guest_dial ops host a remote (g_world g) = (Ok t, s) \<and>
    g_tcp g' = Tunnel t"
  using assms by (auto simp: guest_connect_def on_world_def split: option.splits sum.splits prod.splits)

lemma guest_pass_through_restores:
  assumes "guest_lookup_handle (g_table g) remote = None" and "g_tcp g = Host h"
  shows "g_tcp (snd (guest_connect ops others remote g)) = Host h"
  using assms by (simp add: guest_connect_def split: prod.split)

lemma guest_resolve_mints:
  assumes "h_resolve ops real (g_world g) = (Ok resolved, s)" and "resolved \<noteq> []"
    and "table_wf (g_table (others (g\<lparr>g_world := s\<rparr>)))" and "length sfx = 8"
  shows "\<exists>handle g1. guest_resolve_addresses ops others (Some sfx) (real @ SUFFIX) g =
      Ok (Ok [Ipv6 handle], g1) \<and>
     lookup (g_table g1) handle = Some \<lparr>hostname = real, addrs = map ip_to_std resolved\<rparr>"
proof -
  let ?g = "others (g\<lparr>g_world := s\<rparr>)" and ?e = "\<lparr>hostname = real, addrs = map ip_to_std resolved\<rparr>"
  obtain handle t where m: "mint_with (g_table ?g) ?e sfx = (handle, t)" by fastforce
  have "strip_suffix (real @ SUFFIX) = Some real" by (simp add: strip_suffix_iff)
  then have "guest_resolve_addresses ops others (Some sfx) (real @ SUFFIX) g =
      Ok (Ok [Ipv6 handle], ?g\<lparr>g_table := t\<rparr>)"
    using assms(1,2) m
    by (simp add: guest_resolve_addresses_def on_world_def Let_def guest_mint_handle_def mint_eq_mint_with addr_to_std_eq)
  moreover have "lookup t handle = Some ?e"
    using handles.find_minted [OF assms(3,4), of ?e handle] m by simp
  ultimately show ?thesis by auto
qed

text \<open>
  A tunnel to the named host: its transport is a socket the host connected to one of the addresses at
  the port, and its connector's handshake verified that name.
\<close>

definition tunnel_to :: "('h, 'st, 'fu, 'k, 's) guest_ops \<Rightarrow> string \<Rightarrow> ip_addr list \<Rightarrow> u16 \<Rightarrow>
    ('h, 'st, 'fu, 'k) guest_tunnel \<Rightarrow> bool" where
  "tunnel_to ops host ips port t \<longleftrightarrow>
     (\<exists>ip \<in> set ips. \<exists>s1 s3. fst (h_connect ops (g_host t) (sockaddr_from_std (socket_addr_new ip port)) s1) = Ok () \<and>
        fst (k_connect ops (g_connector t) host s3) = Ok ())"

lemma guest_connect_tunnel:
  assumes "lookup (g_table g) (v6_address v6) = Some \<lparr>hostname = host, addrs = ips\<rparr>"
    and "guest_connect ops others (SockV6 v6) g = (Ok (), g')"
  shows "\<exists>t. g_tcp g' = Tunnel t \<and> g_remote t = SockV6 v6 \<and> tunnel_to ops host ips (v6_port v6) t \<and>
    g_app_tx t \<and> g_send_verdict t \<noteq> None \<and> g_cleartext t \<noteq> None"
proof -
  have l: "guest_lookup_handle (g_table g) (SockV6 v6) = Some (host, ips, v6_port v6)" using assms(1) by simp
  obtain a t s where a: "pick_addr ips (v6_port v6) = Some a" and d: "guest_dial ops host a (SockV6 v6) (g_world g) = (Ok t, s)"
    and t: "g_tcp g' = Tunnel t"
    using guest_connect_Ok [OF assms(2) l] by blast
  obtain ip where "ip \<in> set ips" "a = socket_addr_new ip (v6_port v6)" using pick_addr_chosen [OF a] by blast
  with guest_dial_Ok [OF d] t show ?thesis unfolding tunnel_to_def by blast
qed

text \<open>The reads up to the one that reports the end, and their bytes.\<close>

fun until_end :: "(stream_result \<times> bytes) list \<Rightarrow> bytes" where
  "until_end [] = []"
| "until_end ((status, buf) # reads) =
     buf @ (if status = SDropped \<or> status = SCancelled then [] else until_end reads)"

text \<open>The pipe's \<open>write_all\<close> takes a first part and returns the rest.\<close>

definition write_all_ok :: "(bytes \<Rightarrow> 'p \<Rightarrow> bytes \<times> 'p) \<Rightarrow> ('p \<Rightarrow> bytes) \<Rightarrow> bool" where
  "write_all_ok wa out \<longleftrightarrow> (\<forall>buf p. \<exists>taken. buf = taken @ fst (wa buf p) \<and> out (snd (wa buf p)) = out p @ taken)"

lemma write_all_okD:
  assumes "write_all_ok wa out" and "wa buf p = (rest, p')"
  shows "\<exists>taken. buf = taken @ rest \<and> out p' = out p @ taken"
  using assms unfolding write_all_ok_def by (metis fst_conv snd_conv)

lemma splice_prefix:
  assumes "write_all_ok wa out" and "splice wa reads p = Some p'"
  shows "prefix (out p') (out p @ until_end reads)"
  using assms(2)
proof (induction reads arbitrary: p)
  case (Cons r reads)
  obtain status buf where r: "r = (status, buf)" by fastforce
  obtain rest q where q: "(if buf \<noteq> [] then wa buf p else ([], p)) = (rest, q)" by fastforce
  then have "\<exists>taken. buf = taken @ rest \<and> out q = out p @ taken"
    by (auto split: if_splits dest: write_all_okD [OF assms(1)])
  then obtain taken where t: "buf = taken @ rest" "out q = out p @ taken" by blast
  show ?case
  proof (cases "rest \<noteq> [] \<or> status = SDropped \<or> status = SCancelled")
    case True
    then have "p' = q" using Cons.prems r q by (auto split: if_splits)
    then show ?thesis using t r by (auto simp: prefix_def)
  next
    case False
    then have "splice wa reads q = Some p'" using Cons.prems r q by (auto split: if_splits)
    from Cons.IH [OF this] show ?thesis using t r False by simp
  qed
qed simp

lemma splice_all:
  assumes "write_all_ok wa out" and "\<And>buf p. fst (wa buf p) = []"
    and "\<exists>r \<in> set reads. fst r = SDropped \<or> fst r = SCancelled"
  shows "\<exists>p'. splice wa reads p = Some p' \<and> out p' = out p @ until_end reads"
  using assms(3)
proof (induction reads arbitrary: p)
  case (Cons r reads)
  obtain status buf where r: "r = (status, buf)" by fastforce
  obtain q where q: "(if buf \<noteq> [] then wa buf p else ([], p)) = ([], q)"
    using assms(2) by (metis prod.collapse)
  then have o: "out q = out p @ buf"
    using write_all_okD [OF assms(1), of buf p "[]" q] by (cases "buf = []") auto
  show ?case
  proof (cases "status = SDropped \<or> status = SCancelled")
    case True
    then show ?thesis using r q o by auto
  next
    case False
    with Cons.prems r have "\<exists>r \<in> set reads. fst r = SDropped \<or> fst r = SCancelled" by auto
    from Cons.IH [OF this, of q] show ?thesis using r q o False by auto
  qed
qed simp

section \<open>Properties\<close>

text \<open>
  C21. In the guest delivery a resolution of an opted-in name followed by a connect to the handle gives
  a tunnel to that name: one address is returned, and a successful connect to it leaves the socket a
  tunnel that reports the handle as its peer, over a host connection to one of the resolved addresses
  at the dialed port, with a completed TLS handshake for the name.
\<close>

theorem guest_resolve_then_connect:
  assumes "h_resolve ops real (g_world g) = (Ok resolved, s)" and "resolved \<noteq> []"
    and "table_wf (g_table (others (g\<lparr>g_world := s\<rparr>)))" and "length sfx = 8"
  shows "\<exists>handle g1. guest_resolve_addresses ops others (Some sfx) (real @ SUFFIX) g =
      Ok (Ok [Ipv6 handle], g1) \<and>
     (\<forall>others' v6 g2 g3. v6_address v6 = handle \<and>
        lookup (g_table g2) handle = lookup (g_table g1) handle \<and>
        guest_connect ops others' (SockV6 v6) g2 = (Ok (), g3) \<longrightarrow>
        (\<exists>t. g_tcp g3 = Tunnel t \<and> tunnel_to ops real (map ip_to_std resolved) (v6_port v6) t \<and>
           guest_tcp ops GetRemoteAddress g3 = (Ok (RAddress (SockV6 v6)), g3)))"
proof -
  obtain handle g1 where r: "guest_resolve_addresses ops others (Some sfx) (real @ SUFFIX) g =
      Ok (Ok [Ipv6 handle], g1)"
    and l: "lookup (g_table g1) handle = Some \<lparr>hostname = real, addrs = map ip_to_std resolved\<rparr>"
    using guest_resolve_mints [where others = others, OF assms] by blast
  show ?thesis
    by (rule exI [of _ handle], rule exI [of _ g1])
      (auto simp: r l guest_tcp_def dest: guest_connect_tunnel)
qed

definition demo_guest :: "(nat, nat, nat, nat, ip_socket_address list) guest_ops" where
  "demo_guest = \<lparr>h_create = (\<lambda>_ s. (Ok 1, s)), h_call = (\<lambda>_ _ s. (Ok RUnit, s)),
     h_connect = (\<lambda>_ a s. (Ok (), s @ [a])), h_send = (\<lambda>_ _ s. (0, s)), h_receive = (\<lambda>_ s. ((0, 0), s)),
     h_resolve = (\<lambda>_ s. (Ok [Ipv4 (192, 0, 2, 1)], s)), k_new = (\<lambda>s. (0, s)), k_send = (\<lambda>_ _ s. ((0, 0), s)),
     k_receive = (\<lambda>_ _ s. ((0, 0), s)), k_connect = (\<lambda>_ _ s. (Ok (), s)), rt_pipe = (\<lambda>s. ((0, 0), s)),
     rt_verdict = (\<lambda>s. (0, s)), rt_settled = (\<lambda>_ s. (9, s)), rt_empty = (\<lambda>s. (0, s))\<rparr>"

definition demo_guest_state :: "(nat, nat, nat, nat, ip_socket_address list) guest_state" where
  "demo_guest_state = \<lparr>g_table = demo_table, g_tcp = Host 3, g_world = []\<rparr>"

theorem guest_resolve_then_connect_witness:
  "\<exists>handle g1 g2 t. guest_resolve_addresses demo_guest (\<lambda>g. g) (Some [1, 2, 3, 4, 5, 6, 7, 8])
     (''example.org'' @ SUFFIX) demo_guest_state = Ok (Ok [Ipv6 handle], g1) \<and>
   guest_connect demo_guest (\<lambda>g. g)
     (SockV6 \<lparr>v6_port = 443, v6_flow_info = 0, v6_address = handle, v6_scope_id = 0\<rparr>) g1 = (Ok (), g2) \<and>
   g_tcp g2 = Tunnel t"
proof -
  have r: "h_resolve demo_guest ''example.org'' (g_world demo_guest_state) = (Ok [Ipv4 (192, 0, 2, 1)], [])"
    by (simp add: demo_guest_def demo_guest_state_def)
  have t: "table_wf (g_table ((\<lambda>g. g) (demo_guest_state\<lparr>g_world := []\<rparr>)))"
    by (simp add: demo_guest_state_def demo_table_wf)
  have l: "[Ipv4 (192, 0, 2, 1)] \<noteq> []" "length [1, 2, 3, 4, 5, 6, 7, 8 :: u8] = 8" by simp_all
  obtain handle g1 where res: "guest_resolve_addresses demo_guest (\<lambda>g. g) (Some [1, 2, 3, 4, 5, 6, 7, 8])
       (''example.org'' @ SUFFIX) demo_guest_state = Ok (Ok [Ipv6 handle], g1)"
    and look: "lookup (g_table g1) handle =
       Some \<lparr>hostname = ''example.org'', addrs = map ip_to_std [Ipv4 (192, 0, 2, 1)]\<rparr>"
    using guest_resolve_mints [where others = "\<lambda>g. g", OF r l(1) t l(2)] by blast
  let ?v6 = "\<lparr>v6_port = 443, v6_flow_info = 0, v6_address = handle, v6_scope_id = 0\<rparr>"
  obtain g2 where con: "guest_connect demo_guest (\<lambda>g. g) (SockV6 ?v6) g1 = (Ok (), g2)"
    using look by (simp add: guest_connect_def pick_addr_def guest_dial_def demo_guest_def on_world_def)
  obtain handle' g1' where eq: "guest_resolve_addresses demo_guest (\<lambda>g. g) (Some [1, 2, 3, 4, 5, 6, 7, 8])
       (''example.org'' @ SUFFIX) demo_guest_state = Ok (Ok [Ipv6 handle'], g1')"
    and all: "\<forall>others' v6 g2 g3. v6_address v6 = handle' \<and>
        lookup (g_table g2) handle' = lookup (g_table g1') handle' \<and>
        guest_connect demo_guest others' (SockV6 v6) g2 = (Ok (), g3) \<longrightarrow>
        (\<exists>t. g_tcp g3 = Tunnel t \<and>
           tunnel_to demo_guest ''example.org'' (map ip_to_std [Ipv4 (192, 0, 2, 1)]) (v6_port v6) t \<and>
           guest_tcp demo_guest GetRemoteAddress g3 = (Ok (RAddress (SockV6 v6)), g3))"
    using guest_resolve_then_connect [where others = "\<lambda>g. g", OF r l(1) t l(2)] by blast
  have "handle' = handle" "g1' = g1" using eq res by simp_all
  then have "\<exists>t. g_tcp g2 = Tunnel t"
    using all [rule_format, of ?v6 g1 "\<lambda>g. g" g2] con by auto
  with res con show ?thesis by blast
qed

text \<open>
  The transmit splice is faithful: whatever the pipe's reader does, what reaches the pipe is a
  prefix of the application's bytes up to the end of its stream; and when the reader takes everything
  and the application ends its stream, the splice returns having forwarded all of it.
\<close>

theorem splice_is_faithful:
  assumes "write_all_ok wa out"
  shows "(\<forall>p'. splice wa reads p = Some p' \<longrightarrow> prefix (out p') (out p @ until_end reads)) \<and>
     ((\<forall>buf p. fst (wa buf p) = []) \<and> (\<exists>r \<in> set reads. fst r = SDropped \<or> fst r = SCancelled) \<longrightarrow>
        (\<exists>p'. splice wa reads p = Some p' \<and> out p' = out p @ until_end reads))"
  using splice_prefix [OF assms] splice_all [OF assms, of reads p] by blast

theorem splice_is_faithful_witness:
  "splice (\<lambda>buf p. ([], p @ buf)) [(SCompleted, [1, 2]), (SDropped, [3])] [] = Some [1, 2, 3]"
proof -
  have "write_all_ok (\<lambda>buf p. ([], p @ buf)) (\<lambda>p. p)" by (simp add: write_all_ok_def)
  from splice_is_faithful [OF this, of "[(SCompleted, [1, 2]), (SDropped, [3])]" "[]"] show ?thesis by simp
qed

text \<open>
  The life of a guest socket: a pass-through connect always gives the socket back; a fresh tunnel
  hands its transmit channel, its send future and its cleartext out once and answers every later
  \<open>send\<close> and \<open>receive\<close> with a settled invalid-state; and while a connect is in progress the socket
  refuses.
\<close>

theorem guest_socket_lifecycle:
  assumes "g_app_tx t" and "g_send_verdict t = Some sv" and "g_cleartext t = Some pair"
  shows "(guest_lookup_handle (g_table g) remote = None \<and> g_tcp g = Host h \<longrightarrow>
       g_tcp (snd (guest_connect ops others remote g)) = Host h) \<and>
     (\<exists>g1 t1. guest_send ops data (g\<lparr>g_tcp := Tunnel t\<rparr>) = (sv, g1) \<and> g_tcp g1 = Tunnel t1 \<and>
        g_spliced t1 = Some data \<and>
        guest_send ops data' g1 = on_world (rt_settled ops InvalidState) g1) \<and>
     (\<exists>g1. guest_receive ops (g\<lparr>g_tcp := Tunnel t\<rparr>) = (pair, g1) \<and>
        guest_receive ops g1 = on_world (closed_receive ops) g1) \<and>
     guest_send ops data (g\<lparr>g_tcp := Busy\<rparr>) = on_world (rt_settled ops InvalidState) (g\<lparr>g_tcp := Busy\<rparr>) \<and>
     guest_tcp ops GetLocalAddress (g\<lparr>g_tcp := Busy\<rparr>) = (Err InvalidState, g\<lparr>g_tcp := Busy\<rparr>)"
proof (intro conjI impI)
  show "\<exists>g1 t1. guest_send ops data (g\<lparr>g_tcp := Tunnel t\<rparr>) = (sv, g1) \<and> g_tcp g1 = Tunnel t1 \<and>
        g_spliced t1 = Some data \<and>
        guest_send ops data' g1 = on_world (rt_settled ops InvalidState) g1"
    using assms by (cases t) (simp add: guest_send_def invalid_state_verdict_def Let_def)
qed (use assms in \<open>auto simp: guest_receive_def guest_send_def guest_tcp_def guest_delegate_def
       invalid_state_verdict_def guest_pass_through_restores\<close>)

theorem guest_socket_lifecycle_witness:
  "fst (guest_send demo_guest 4 (demo_guest_state\<lparr>g_tcp := Tunnel \<lparr>g_remote = SockV4 \<lparr>v4_port = 1, v4_address = (1, 2, 3, 4)\<rparr>,
      g_host = 1, g_app_tx = True, g_spliced = None, g_send_verdict = Some 6, g_cleartext = Some (7, 8),
      g_tx_done = 0, g_connector = 0\<rparr>\<rparr>)) = 6"
  using guest_socket_lifecycle [where t = "\<lparr>g_remote = SockV4 \<lparr>v4_port = 1, v4_address = (1, 2, 3, 4)\<rparr>,
      g_host = 1, g_app_tx = True, g_spliced = None, g_send_verdict = Some 6, g_cleartext = Some (7, 8),
      g_tx_done = 0, g_connector = 0\<rparr>" and sv = 6 and pair = "(7, 8)" and g = demo_guest_state
      and ops = demo_guest and data = 4 and data' = 5 and h = 0 and others = "\<lambda>g. g"
      and remote = "SockV4 \<lparr>v4_port = 1, v4_address = (1, 2, 3, 4)\<rparr>"] by auto

end
