(* ===== verification/Host_Driver.thy ===== *)
theory Host_Driver
  imports Virt_Ctx
begin

text \<open>
  The driver of the host delivery (end of \<^verbatim>\<open>src/rust/tls-virt-wasmtime/src/main.rs\<close>): which implementation is
  registered for which interface, and the run of a component up to the exit status. wasmtime's engine,
  linker and component runs are parameters.
\<close>

section \<open>Linking\<close>

text \<open>The implementations an interface is registered with: the type arguments of \<open>add_to_linker\<close>.\<close>

datatype impl = WasiIo | WasiClocks | WasiFilesystem | WasiRandom | WasiCli | WasiSockets | VirtSockets

text \<open>The registrations of \<open>add_p2_to_linker\<close> in order, the first a group of its own.\<close>

definition p2_registrations :: "(string \<times> impl) list" where
  "p2_registrations =
     [(''p2/io'', WasiIo),
      (''p2/clocks/wall-clock'', WasiClocks), (''p2/clocks/monotonic-clock'', WasiClocks),
      (''p2/filesystem/types'', WasiFilesystem), (''p2/filesystem/preopens'', WasiFilesystem),
      (''p2/random/random'', WasiRandom), (''p2/random/insecure'', WasiRandom), (''p2/random/insecure-seed'', WasiRandom),
      (''p2/cli/exit'', WasiCli), (''p2/cli/environment'', WasiCli), (''p2/cli/stdin'', WasiCli),
      (''p2/cli/stdout'', WasiCli), (''p2/cli/stderr'', WasiCli), (''p2/cli/terminal-input'', WasiCli),
      (''p2/cli/terminal-output'', WasiCli), (''p2/cli/terminal-stdin'', WasiCli),
      (''p2/cli/terminal-stdout'', WasiCli), (''p2/cli/terminal-stderr'', WasiCli),
      (''p2/sockets/network'', WasiSockets), (''p2/sockets/instance-network'', WasiSockets),
      (''p2/sockets/tcp-create-socket'', WasiSockets), (''p2/sockets/udp-create-socket'', WasiSockets),
      (''p2/sockets/udp'', WasiSockets),
      (''p2/sockets/tcp'', VirtSockets), (''p2/sockets/ip-name-lookup'', VirtSockets)]"

definition p3_registrations :: "(string \<times> impl) list" where
  "p3_registrations =
     [(''p3/cli'', WasiCli), (''p3/clocks'', WasiClocks), (''p3/filesystem'', WasiFilesystem), (''p3/random'', WasiRandom),
      (''p3/sockets/types'', VirtSockets), (''p3/sockets/ip-name-lookup'', VirtSockets)]"

text \<open>\<open>add\<close> registers one; the first failure is returned.\<close>

fun register_all :: "(string \<Rightarrow> impl \<Rightarrow> 'l \<Rightarrow> ('l, string) result) \<Rightarrow> (string \<times> impl) list \<Rightarrow> 'l \<Rightarrow> ('l, string) result" where
  "register_all add [] l = Ok l"
| "register_all add ((n, i) # rest) l = (case add n i l of Inl e \<Rightarrow> Err e | Inr l \<Rightarrow> register_all add rest l)"

definition add_p2_to_linker :: "(string \<Rightarrow> impl \<Rightarrow> 'l \<Rightarrow> ('l, string) result) \<Rightarrow> 'l \<Rightarrow> ('l, string) result" where
  "add_p2_to_linker add l = register_all add p2_registrations l"

definition link_interfaces :: "(string \<Rightarrow> impl \<Rightarrow> 'l \<Rightarrow> ('l, string) result) \<Rightarrow> 'l \<Rightarrow> ('l, string) result" where
  "link_interfaces add l =
     (case add_p2_to_linker add l of Inl e \<Rightarrow> Err e | Inr l \<Rightarrow> register_all add p3_registrations l)"

section \<open>Running a component\<close>

text \<open>
  The outcome of a guest's run: its own result, an exit it asked for, or a trap. A 0.3 run reports
  failures of the driver and traps alike as errors.
\<close>

datatype guest_run = Ran "(unit, unit) result" | I32Exit int | Trapped string

text \<open>
  The \<open>wasi_\<close> fields are the calls of the WASI context's builder and the built context; \<open>'x\<close> is the context, \<open>'u\<close>
  what an address is used for. The store holds the context, the virtual sockets' state and a resource table.
\<close>

type_synonym 'u addr_check_fn = "socket_addr \<Rightarrow> 'u \<Rightarrow> bool"

record ('e, 'c, 'l, 'v, 'x, 'u) wasmtime_ops =
  engine_new :: "bool \<Rightarrow> ('e, string) result"
  component_from_file :: "'e \<Rightarrow> string \<Rightarrow> ('c, string) result"
  linker_new :: "'e \<Rightarrow> 'l"
  linker_add :: "string \<Rightarrow> impl \<Rightarrow> 'l \<Rightarrow> ('l, string) result"
  exports_run_03 :: "'c \<Rightarrow> bool"
  instantiate_03 :: "'c \<Rightarrow> 'l \<Rightarrow> 'v \<Rightarrow> 'x \<Rightarrow> (unit, string) result"
  call_run_03 :: "'c \<Rightarrow> 'v \<Rightarrow> 'x \<Rightarrow> ((unit, unit) result, string) result"
  instantiate_02 :: "'c \<Rightarrow> 'l \<Rightarrow> 'v \<Rightarrow> 'x \<Rightarrow> (unit, string) result"
  call_run_02 :: "'c \<Rightarrow> 'v \<Rightarrow> 'x \<Rightarrow> guest_run"
  wasi_new :: 'x
  wasi_inherit_stdio :: "'x \<Rightarrow> 'x"
  wasi_args :: "string list \<Rightarrow> 'x \<Rightarrow> 'x"
  wasi_socket_addr_check :: "'u addr_check_fn \<Rightarrow> 'x \<Rightarrow> 'x"
  wasi_allow_ip_name_lookup :: "bool \<Rightarrow> 'x \<Rightarrow> 'x"
  wasi_allow_tcp :: "bool \<Rightarrow> 'x \<Rightarrow> 'x"

text \<open>How \<open>main\<close> ends: its own result or \<open>process::exit\<close>.\<close>

datatype host_exit = Returned "(unit, string) result" | Exited int

text \<open>The check that admits every address, given to the stock sockets and to the tunnels alike, and the context.\<close>

definition host_addr_check :: "'u addr_check_fn" where
  "host_addr_check = (\<lambda>addr use. True)"

definition host_wasi :: "('e, 'c, 'l, 'v, 'x, 'u) wasmtime_ops \<Rightarrow> 'u addr_check_fn \<Rightarrow> string list \<Rightarrow> 'x" where
  "host_wasi W admits guest_args =
     wasi_allow_tcp W True (wasi_allow_ip_name_lookup W True (wasi_socket_addr_check W admits
       (wasi_args W guest_args (wasi_inherit_stdio W (wasi_new W)))))"

definition run_component :: "('e, 'c, 'l, ('r, 'w) virt_ctx, 'x, 'u) wasmtime_ops \<Rightarrow> 'c \<Rightarrow> 'l \<Rightarrow> ('r, 'w) virt_ctx \<Rightarrow> 'x \<Rightarrow> host_exit" where
  "run_component W c l v wasi =
     (if exports_run_03 W c
      then (case instantiate_03 W c l v wasi of
              Inl e \<Rightarrow> Returned (Err e)
            | Inr _ \<Rightarrow>
                (case call_run_03 W c v wasi of
                   Inl e \<Rightarrow> Returned (Err e)
                 | Inr (Inl _) \<Rightarrow> Exited 1
                 | Inr (Inr _) \<Rightarrow> Returned (Ok ())))
      else (case instantiate_02 W c l v wasi of
              Inl e \<Rightarrow> Returned (Err e)
            | Inr _ \<Rightarrow>
                (case call_run_02 W c v wasi of
                   Ran (Inr _) \<Rightarrow> Returned (Ok ())
                 | Ran (Inl _) \<Rightarrow> Exited 1
                 | I32Exit n \<Rightarrow> Exited n
                 | Trapped e \<Rightarrow> Returned (Err e))))"

definition host_main :: "('e, 'c, 'l, ('r, 'w) virt_ctx, 'x, 'u) wasmtime_ops \<Rightarrow> (unit, string) result \<Rightarrow> bytes option \<Rightarrow> string list
    \<Rightarrow> host_exit or_panic" where
  "host_main W added random args =
     (case args of
        _ # path # _ \<Rightarrow>
          (case engine_new W True of
             Inl e \<Rightarrow> Ok (Returned (Err e))
           | Inr e \<Rightarrow>
               (case component_from_file W e path of
                  Inl e \<Rightarrow> Ok (Returned (Err e))
                | Inr c \<Rightarrow>
                    (case link_interfaces (linker_add W) (linker_new W e) of
                       Inl e \<Rightarrow> Ok (Returned (Err e))
                     | Inr l \<Rightarrow>
                         (case virt_ctx_new added random of
                            Inl p \<Rightarrow> Panic p
                          | Inr (Inl e) \<Rightarrow> Ok (Returned (Err e))
                          | Inr (Inr v) \<Rightarrow> Ok (run_component W c l v (host_wasi W host_addr_check (tl args)))))))
      | _ \<Rightarrow> Ok (Returned (Err ''usage'')))"

text \<open>The status of the process: an error that \<open>main\<close> returns is status 1.\<close>

fun exit_status :: "host_exit \<Rightarrow> int" where
  "exit_status (Returned (Inr _)) = 0"
| "exit_status (Returned (Inl _)) = 1"
| "exit_status (Exited n) = n"

section \<open>Laws\<close>

text \<open>
  wasmtime's linker: a registration succeeds when the name is new, and adds exactly it. \<open>served\<close> reads
  the registrations off a linker.
\<close>

definition linker_ok :: "(string \<Rightarrow> impl \<Rightarrow> 'l \<Rightarrow> ('l, string) result) \<Rightarrow> ('l \<Rightarrow> string \<rightharpoonup> impl) \<Rightarrow> bool" where
  "linker_ok add served \<longleftrightarrow>
     (\<forall>n i l. served l n = None \<longrightarrow> (\<exists>l'. add n i l = Ok l' \<and> served l' = (served l)(n \<mapsto> i)))"

lemma register_all_serves:
  assumes "linker_ok add served" and "distinct (map fst rs)" and "\<forall>n \<in> fst ` set rs. served l n = None"
  shows "\<exists>l'. register_all add rs l = Ok l' \<and> served l' = served l ++ map_of rs"
  using assms(2,3)
proof (induction rs arbitrary: l)
  case (Cons r rs)
  obtain n i where r: "r = (n, i)" by fastforce
  obtain l1 where l1: "add n i l = Ok l1" "served l1 = (served l)(n \<mapsto> i)"
    using assms(1) Cons.prems r unfolding linker_ok_def by force
  have "\<forall>m \<in> fst ` set rs. served l1 m = None" using Cons.prems l1(2) r by auto
  then obtain l' where l': "register_all add rs l1 = Ok l'" "served l' = served l1 ++ map_of rs"
    using Cons.IH [of l1] Cons.prems(1) by auto
  have "served l1 ++ map_of rs = served l ++ map_of (r # rs)"
  proof
    fix m
    have "map_of rs n = None" using Cons.prems(1) r by (simp add: map_of_eq_None_iff)
    then show "(served l1 ++ map_of rs) m = (served l ++ map_of (r # rs)) m"
      using l1(2) r by (auto simp: map_add_def split: option.splits)
  qed
  then have "served l' = served l ++ map_of (r # rs)" using l'(2) by (rule trans [rotated])
  moreover have "register_all add (r # rs) l = Ok l'" using l1(1) l'(1) r by simp
  ultimately show ?case by blast
qed simp

definition all_registrations :: "(string \<times> impl) list" where
  "all_registrations = p2_registrations @ p3_registrations"

lemma all_registrations_distinct: "distinct (map fst all_registrations)"
  unfolding all_registrations_def p2_registrations_def p3_registrations_def by code_simp

lemma link_interfaces_eq: "link_interfaces add l = register_all add all_registrations l"
proof -
  have "register_all add (xs @ ys) l = (case register_all add xs l of Inl e \<Rightarrow> Err e | Inr l \<Rightarrow> register_all add ys l)" for xs ys
    by (induction xs arbitrary: l) (auto split: sum.splits)
  then show ?thesis by (simp add: link_interfaces_def add_p2_to_linker_def all_registrations_def)
qed

section \<open>A concrete runtime\<close>

type_synonym demo_linker = "(string \<times> impl) list"

definition demo_add :: "string \<Rightarrow> impl \<Rightarrow> demo_linker \<Rightarrow> (demo_linker, string) result" where
  "demo_add n i l = (if map_of l n = None then Ok ((n, i) # l) else Err n)"

definition demo_wasmtime :: "(unit, guest_run, demo_linker, (unit, unit) virt_ctx, string list, unit) wasmtime_ops" where
  "demo_wasmtime = \<lparr>engine_new = (\<lambda>_. Ok ()), component_from_file = (\<lambda>_ path. Ok (I32Exit 3)), linker_new = (\<lambda>_. []),
     linker_add = demo_add, exports_run_03 = (\<lambda>_. False), instantiate_03 = (\<lambda>_ _ _ _. Ok ()),
     call_run_03 = (\<lambda>_ _ _. Ok (Ok ())), instantiate_02 = (\<lambda>_ _ _ _. Ok ()), call_run_02 = (\<lambda>c _ _. c),
     wasi_new = [], wasi_inherit_stdio = (\<lambda>x. x), wasi_args = (\<lambda>as _. as), wasi_socket_addr_check = (\<lambda>_ x. x),
     wasi_allow_ip_name_lookup = (\<lambda>_ x. x), wasi_allow_tcp = (\<lambda>_ x. x)\<rparr>"

lemma demo_linker_ok: "linker_ok (linker_add demo_wasmtime) map_of"
  by (auto simp: linker_ok_def demo_wasmtime_def demo_add_def)

section \<open>Properties\<close>

text \<open>
  Linking interposes exactly where it should: on a fresh linker every registration succeeds, and
  of the registered interfaces this provider serves the TCP sockets and the name lookup of both WASI
  versions (in 0.3 the sockets are in \<open>types\<close>) and nothing else; all others, UDP sockets of 0.2 and socket creation
  included, are wasmtime-wasi's own.
\<close>

theorem linking_interposes_on_sockets_only:
  assumes "linker_ok add served" and "served l = Map.empty"
  shows "\<exists>l'. link_interfaces add l = Ok l' \<and> served l' = map_of all_registrations \<and>
    {n. served l' n = Some VirtSockets} =
      {''p2/sockets/tcp'', ''p2/sockets/ip-name-lookup'', ''p3/sockets/types'', ''p3/sockets/ip-name-lookup''}"
proof -
  have "\<forall>n \<in> fst ` set all_registrations. served l n = None" using assms(2) by simp
  with register_all_serves [OF assms(1) all_registrations_distinct]
  obtain l' where l': "link_interfaces add l = Ok l'" "served l' = served l ++ map_of all_registrations"
    unfolding link_interfaces_eq by blast
  have "{n. map_of all_registrations n = Some VirtSockets} = fst ` set (filter (\<lambda>r. snd r = VirtSockets) all_registrations)"
    using all_registrations_distinct by (force simp: map_of_eq_Some_iff)
  also have "filter (\<lambda>r. snd r = VirtSockets) all_registrations =
      [(''p2/sockets/tcp'', VirtSockets), (''p2/sockets/ip-name-lookup'', VirtSockets),
       (''p3/sockets/types'', VirtSockets), (''p3/sockets/ip-name-lookup'', VirtSockets)]"
    by (simp add: all_registrations_def p2_registrations_def p3_registrations_def)
  finally show ?thesis using l' assms(2) by auto
qed

theorem linking_interposes_on_sockets_only_witness:
  "\<exists>l'. link_interfaces demo_add [] = Ok l' \<and> map_of l' ''p2/sockets/tcp'' = Some VirtSockets"
proof -
  have "linker_ok demo_add map_of" using demo_linker_ok by (simp add: demo_wasmtime_def)
  from linking_interposes_on_sockets_only [OF this, of "[]"] show ?thesis by auto
qed

text \<open>
  The process ends as the guest did: once the component is loaded, linked and instantiated, the
  status is zero exactly when the guest's run returned ok or, as a 0.2 command, asked to exit with
  status zero; a failed run is status 1, an exit status is passed on, and a trap is status 1.
\<close>

theorem exit_status_is_the_guests:
  assumes "component_from_file W e path = Ok c" and "engine_new W True = Ok e"
    and "link_interfaces (linker_add W) (linker_new W e) = Ok l" and "virt_ctx_new added random = Ok (Ok v)"
    and "instantiate_03 W c l v (host_wasi W host_addr_check (path # rest)) = Ok ()" and "instantiate_02 W c l v (host_wasi W host_addr_check (path # rest)) = Ok ()"
  shows "\<exists>r. host_main W added random (prog # path # rest) = Ok r \<and>
    (if exports_run_03 W c then exit_status r = (if call_run_03 W c v (host_wasi W host_addr_check (path # rest)) = Ok (Ok ()) then 0 else 1)
     else exit_status r = (case call_run_02 W c v (host_wasi W host_addr_check (path # rest)) of
        Ran (Inr _) \<Rightarrow> 0 | Ran (Inl _) \<Rightarrow> 1 | I32Exit n \<Rightarrow> n | Trapped _ \<Rightarrow> 1))"
  using assms by (auto simp: host_main_def run_component_def split: sum.splits guest_run.splits)

theorem exit_status_is_the_guests_witness:
  "\<exists>r. host_main demo_wasmtime (Ok ()) (Some (replicate 16 1)) [''run'', ''app.wasm''] = Ok r \<and> exit_status r = 3"
proof -
  obtain l where l: "link_interfaces (linker_add demo_wasmtime) (linker_new demo_wasmtime ()) = Ok l"
    using register_all_serves [OF demo_linker_ok all_registrations_distinct, of "[]"]
    by (auto simp: link_interfaces_eq demo_wasmtime_def)
  obtain v where v: "virt_ctx_new (Ok ()) (Some (replicate 16 1)) = Ok (Ok (v :: (unit, unit) virt_ctx))"
    by (simp add: virt_ctx_new_def handle_table_new_def)
  have "component_from_file demo_wasmtime () ''app.wasm'' = Ok (I32Exit 3)" "engine_new demo_wasmtime True = Ok ()"
    "instantiate_03 demo_wasmtime (I32Exit 3) l v (host_wasi demo_wasmtime host_addr_check [''app.wasm'']) = Ok ()"
    "instantiate_02 demo_wasmtime (I32Exit 3) l v (host_wasi demo_wasmtime host_addr_check [''app.wasm'']) = Ok ()"
    by (simp_all add: demo_wasmtime_def)
  from exit_status_is_the_guests [OF this(1,2) l v this(3,4), of "''run''"]
  show ?thesis by (simp add: demo_wasmtime_def)
qed

end
