(* ===== verification/Udp_Socket.thy ===== *)
theory Udp_Socket
  imports Virt_Ctx
begin

text \<open>
  The UDP socket of the QUIC example (\<^verbatim>\<open>src/examples/quic-loopback/src/addr.rs\<close> and \<^verbatim>\<open>socket.rs\<close>):
  the address conversions and a bound socket with its two datagram streams. The interfaces of
  \<open>wasi:sockets\<close> are a parameter over the state \<open>'s\<close> of the host; their resources are handles. The
  program is built for a 32-bit target, so a \<open>u64\<close> converted with \<open>as usize\<close> keeps its low 32 bits.
\<close>

section \<open>Addresses\<close>

fun to_wasi :: "socket_addr \<Rightarrow> ip_socket_address" where
  "to_wasi (SocketV4 ip port) = SockV4 \<lparr>v4_port = port, v4_address = ip\<rparr>"
| "to_wasi (SocketV6 ip port flowinfo scope) =
     SockV6 \<lparr>v6_port = port, v6_flow_info = flowinfo, v6_address = ip, v6_scope_id = scope\<rparr>"

fun from_wasi :: "ip_socket_address \<Rightarrow> socket_addr" where
  "from_wasi (SockV4 v4) = SocketV4 (v4_address v4) (v4_port v4)"
| "from_wasi (SockV6 v6) = SocketV6 (v6_address v6) (v6_port v6) (v6_flow_info v6) (v6_scope_id v6)"

fun addr_family :: "socket_addr \<Rightarrow> ip_address_family" where
  "addr_family (SocketV4 _ _) = FamilyIpv4"
| "addr_family (SocketV6 _ _ _ _) = FamilyIpv6"

section \<open>The interface of the host\<close>

record outgoing_datagram =
  od_data :: bytes
  od_remote :: "ip_socket_address option"

datatype pollable = Incoming u32 | Outgoing u32 | Timer u64

record 's udp_ops =
  instance_network :: "'s \<Rightarrow> u32 \<times> 's"
  create_udp_socket :: "ip_address_family \<Rightarrow> 's \<Rightarrow> (u32, error_code) result \<times> 's"
  start_bind :: "u32 \<Rightarrow> u32 \<Rightarrow> ip_socket_address \<Rightarrow> 's \<Rightarrow> (unit, error_code) result \<times> 's"
  finish_bind :: "u32 \<Rightarrow> 's \<Rightarrow> (unit, error_code) result \<times> 's"
  socket_block :: "u32 \<Rightarrow> 's \<Rightarrow> 's"
  socket_stream :: "u32 \<Rightarrow> ip_socket_address option \<Rightarrow> 's \<Rightarrow> (u32 \<times> u32, error_code) result \<times> 's"
  socket_local_address :: "u32 \<Rightarrow> 's \<Rightarrow> (ip_socket_address, error_code) result \<times> 's"
  stream_receive :: "u32 \<Rightarrow> u64 \<Rightarrow> 's \<Rightarrow> ((bytes \<times> ip_socket_address) list, error_code) result \<times> 's"
  stream_check_send :: "u32 \<Rightarrow> 's \<Rightarrow> (u64, error_code) result \<times> 's"
  stream_send :: "u32 \<Rightarrow> outgoing_datagram list \<Rightarrow> 's \<Rightarrow> (u64, error_code) result \<times> 's"

section \<open>The bound socket\<close>

datatype udp_error = SocketError error_code

record udp_socket =
  us_incoming :: u32
  us_outgoing :: u32
  us_socket :: u32
  us_local :: socket_addr

definition as_usize :: "u64 \<Rightarrow> nat" where
  "as_usize n = unat (ucast n :: u32)"

text \<open>The loop of \<open>bind\<close> blocks on the socket while the host reports would-block.\<close>

partial_function (option) finish_bind_loop ::
    "'s udp_ops \<Rightarrow> u32 \<Rightarrow> 's \<Rightarrow> ((unit, udp_error) result \<times> 's) option" where
  "finish_bind_loop U so s =
     (case finish_bind U so s of
        (Inr _, s) \<Rightarrow> Some (Ok (), s)
      | (Inl e, s) \<Rightarrow>
          if e = WouldBlock then finish_bind_loop U so (socket_block U so s)
          else Some (Err (SocketError e), s))"

definition open_streams :: "'s udp_ops \<Rightarrow> u32 \<Rightarrow> 's \<Rightarrow> (udp_socket, udp_error) result \<times> 's" where
  "open_streams U so s =
     (case socket_stream U so None s of
        (Inl e, s) \<Rightarrow> (Err (SocketError e), s)
      | (Inr (i, out), s) \<Rightarrow>
          (case socket_local_address U so s of
             (Inl e, s) \<Rightarrow> (Err (SocketError e), s)
           | (Inr a, s) \<Rightarrow>
               (Ok \<lparr>us_incoming = i, us_outgoing = out, us_socket = so, us_local = from_wasi a\<rparr>, s)))"

definition udp_bind :: "'s udp_ops \<Rightarrow> socket_addr \<Rightarrow> 's \<Rightarrow> ((udp_socket, udp_error) result \<times> 's) option" where
  "udp_bind U a s =
     (let (network, s) = instance_network U s
      in (case create_udp_socket U (addr_family a) s of
           (Inl e, s) \<Rightarrow> Some (Err (SocketError e), s)
         | (Inr so, s) \<Rightarrow>
             (case start_bind U so network (to_wasi a) s of
                (Inl e, s) \<Rightarrow> Some (Err (SocketError e), s)
              | (Inr _, s) \<Rightarrow>
                  (case finish_bind_loop U so s of
                     None \<Rightarrow> None
                   | Some (Inl e, s) \<Rightarrow> Some (Err e, s)
                   | Some (Inr _, s) \<Rightarrow> Some (open_streams U so s)))))"

definition udp_receive :: "'s udp_ops \<Rightarrow> udp_socket \<Rightarrow> u64 \<Rightarrow> 's \<Rightarrow>
    ((bytes \<times> socket_addr) list, udp_error) result \<times> 's" where
  "udp_receive U so maximum s =
     (case stream_receive U (us_incoming so) maximum s of
        (Inl e, s) \<Rightarrow> (Err (SocketError e), s)
      | (Inr datagrams, s) \<Rightarrow> (Ok (map (\<lambda>(data, remote). (data, from_wasi remote)) datagrams), s))"

definition outgoing_of :: "bytes \<times> socket_addr \<Rightarrow> outgoing_datagram" where
  "outgoing_of d = \<lparr>od_data = fst d, od_remote = Some (to_wasi (snd d))\<rparr>"

definition udp_send :: "'s udp_ops \<Rightarrow> udp_socket \<Rightarrow> (bytes \<times> socket_addr) list \<Rightarrow> 's \<Rightarrow>
    (nat, udp_error) result \<times> 's" where
  "udp_send U so datagrams s =
     (case stream_check_send U (us_outgoing so) s of
        (Inl e, s) \<Rightarrow> (Err (SocketError e), s)
      | (Inr p, s) \<Rightarrow>
          let permitted = as_usize p
          in if permitted = 0 then (Ok 0, s)
             else (case stream_send U (us_outgoing so) (map outgoing_of (take permitted datagrams)) s of
                 (Inl e, s) \<Rightarrow> (Err (SocketError e), s)
               | (Inr n, s) \<Rightarrow> (Ok (as_usize n), s)))"

definition incoming_pollable :: "udp_socket \<Rightarrow> pollable" where
  "incoming_pollable so = Incoming (us_incoming so)"

definition outgoing_pollable :: "udp_socket \<Rightarrow> pollable" where
  "outgoing_pollable so = Outgoing (us_outgoing so)"

section \<open>What wasi:sockets promises\<close>

text \<open>
  \<open>out\<close> reads off the host's state the datagrams it has taken, in order. A send takes a prefix of
  the list it is given and returns its length; it reports an error only when it took nothing; no
  other call sends anything.
\<close>

definition udp_ok :: "'s udp_ops \<Rightarrow> ('s \<Rightarrow> outgoing_datagram list) \<Rightarrow> bool" where
  "udp_ok U out \<longleftrightarrow>
     (\<forall>h ds s. case stream_send U h ds s of
        (Inr n, s') \<Rightarrow> unat n \<le> length ds \<and> out s' = out s @ take (unat n) ds
      | (Inl _, s') \<Rightarrow> out s' = out s) \<and>
     (\<forall>h s. out (snd (stream_check_send U h s)) = out s) \<and>
     (\<forall>h m s. out (snd (stream_receive U h m s)) = out s)"

lemma udp_okD:
  assumes "udp_ok U out"
  shows "stream_send U h ds s = (Inr n, s') \<Longrightarrow> unat n \<le> length ds \<and> out s' = out s @ take (unat n) ds"
    and "stream_send U h ds s = (Inl e, s') \<Longrightarrow> out s' = out s"
    and "stream_check_send U h s = (p, s') \<Longrightarrow> out s' = out s"
    and "stream_receive U h m s = (r, s') \<Longrightarrow> out s' = out s"
  using assms unfolding udp_ok_def
  by (auto dest!: spec [of _ h] spec [of _ ds] spec [of _ s] spec [of _ m])

section \<open>Laws\<close>

lemma from_to_wasi [simp]: "from_wasi (to_wasi a) = a"
  by (cases a) simp_all

lemma to_from_wasi [simp]: "to_wasi (from_wasi a) = a"
  by (cases a) simp_all

lemma outgoing_of_inj: "inj outgoing_of"
proof (rule injI)
  fix x y assume "outgoing_of x = outgoing_of y"
  then have "fst x = fst y" and "from_wasi (to_wasi (snd x)) = from_wasi (to_wasi (snd y))"
    by (simp_all add: outgoing_of_def)
  then show "x = y" by (simp add: prod_eq_iff)
qed

lemma as_usize_small: "unat n < 2 ^ 32 \<Longrightarrow> as_usize n = unat n"
  by (simp add: as_usize_def unsigned_ucast_eq take_bit_nat_eq_self)

lemma as_usize_bound: "as_usize n < 2 ^ 32"
  using unsigned_less [of "ucast n :: u32"] by (simp add: as_usize_def)

text \<open>
  A send hands over exactly the prefix it reports, and never reports more than it was given: the
  number of datagrams permitted is truncated before the batch is cut, so the number sent fits.
\<close>

lemma udp_send_prefix:
  assumes "udp_ok U out" and "udp_send U so ds s = (Ok n, s')"
  shows "n \<le> length ds \<and> out s' = out s @ map outgoing_of (take n ds)"
proof -
  obtain p s1 where c: "stream_check_send U (us_outgoing so) s = (p, s1)" by fastforce
  have o1: "out s1 = out s" by (rule udp_okD(3) [OF assms(1) c])
  obtain q where p: "p = Inr q" using assms(2) c by (cases p) (simp_all add: udp_send_def)
  show ?thesis
  proof (cases "as_usize q = 0")
    case True
    then show ?thesis using assms(2) c p o1 by (simp add: udp_send_def)
  next
    case False
    obtain k where k: "stream_send U (us_outgoing so) (map outgoing_of (take (as_usize q) ds)) s1 = (Inr k, s')"
      and n: "n = as_usize k"
      using assms(2) c p False
      by (auto simp: udp_send_def Let_def split: prod.splits sum.splits)
    have b: "unat k \<le> length (take (as_usize q) ds)"
      and o2: "out s' = out s1 @ take (unat k) (map outgoing_of (take (as_usize q) ds))"
      using udp_okD(1) [OF assms(1) k] by simp_all
    have "n = unat k" using as_usize_small [of k] as_usize_bound [of q] b n by simp
    then show ?thesis using b o1 o2 by (simp add: take_map min_absorb1)
  qed
qed

lemma udp_send_Err:
  assumes "udp_ok U out" and "udp_send U so ds s = (Err e, s')"
  shows "out s' = out s"
proof -
  obtain p s1 where c: "stream_check_send U (us_outgoing so) s = (p, s1)" by fastforce
  have "out s1 = out s" by (rule udp_okD(3) [OF assms(1) c])
  then show ?thesis using assms(2) c udp_okD(2) [OF assms(1)]
    by (auto simp: udp_send_def Let_def split: prod.splits sum.splits if_splits)
qed

lemma udp_receive_out:
  assumes "udp_ok U out" and "udp_receive U so m s = (r, s')"
  shows "out s' = out s"
  using assms(2) udp_okD(4) [OF assms(1)]
  by (auto simp: udp_receive_def split: prod.splits sum.splits)

text \<open>Blocking until the host is done: a finite number of would-blocks, then its answer.\<close>

inductive binds :: "'s udp_ops \<Rightarrow> u32 \<Rightarrow> 's \<Rightarrow> (unit, error_code) result \<Rightarrow> 's \<Rightarrow> bool" for U so where
  binds_done: "finish_bind U so s = (r, s') \<Longrightarrow> r \<noteq> Err WouldBlock \<Longrightarrow> binds U so s r s'"
| binds_wait: "finish_bind U so s = (Err WouldBlock, s1) \<Longrightarrow> binds U so (socket_block U so s1) r s' \<Longrightarrow>
    binds U so s r s'"

lemma finish_bind_loop_binds:
  assumes "binds U so s r s'"
  shows "finish_bind_loop U so s = Some (map_err SocketError r, s')"
  using assms
proof induction
  case (binds_done s r s')
  then show ?case by (subst finish_bind_loop.simps) (cases r, auto)
next
  case (binds_wait s s1 r s')
  then show ?case by (subst finish_bind_loop.simps) simp
qed

end
