(* ===== verification/Quic_Driver.thy ===== *)
theory Quic_Driver
  imports Udp_Socket "HOL-Library.AList" "HOL-Library.Multiset"
begin

text \<open>
  The QUIC driver of the loopback example (\<^verbatim>\<open>src/examples/quic-loopback/src/driver.rs\<close>) and the loops
  that wait on it (\<^verbatim>\<open>main.rs\<close>): one noq-proto endpoint and its connections pumped over one UDP socket.
  The endpoint and the connections are a parameter. A hash map is an association list without
  duplicate keys; since it may visit its entries in any order, \<open>visit\<close> gives the order of a loop
  over it. A time stamp is a number of nanoseconds. Loops that end only because the
  library's queues do are partial functions (\<open>None\<close> when a loop does not end).
\<close>

section \<open>The interface of noq-proto\<close>

type_synonym instant = nat
type_synonym connection_handle = u32

record transmit =
  size_of :: nat
  destination :: socket_addr

datatype ('inc, 'cev) datagram_event =
  NewConnection 'inc | Connection_Event connection_handle 'cev | Response transmit

text \<open>
  The calls that write into a buffer are always made on a cleared one, so they return its contents.
\<close>

record ('ep, 'co, 'ev, 'cev, 'eev, 'inc, 'cfg) noq_ops =
  ep_connect :: "instant \<Rightarrow> 'cfg \<Rightarrow> socket_addr \<Rightarrow> string \<Rightarrow> 'ep \<Rightarrow> (connection_handle \<times> 'co, string) result \<times> 'ep"
  ep_handle :: "instant \<Rightarrow> socket_addr \<Rightarrow> bytes \<Rightarrow> 'ep \<Rightarrow> ('inc, 'cev) datagram_event option \<times> bytes \<times> 'ep"
  ep_accept :: "'inc \<Rightarrow> instant \<Rightarrow> 'ep \<Rightarrow> (connection_handle \<times> 'co, transmit option) result \<times> bytes \<times> 'ep"
  ep_handle_event :: "connection_handle \<Rightarrow> 'eev \<Rightarrow> 'ep \<Rightarrow> 'cev option \<times> 'ep"
  is_drained :: "'eev \<Rightarrow> bool"
  co_handle_event :: "'cev \<Rightarrow> 'co \<Rightarrow> 'co"
  co_poll_timeout :: "'co \<Rightarrow> instant option \<times> 'co"
  co_handle_timeout :: "instant \<Rightarrow> 'co \<Rightarrow> 'co"
  co_poll_endpoint_events :: "'co \<Rightarrow> 'eev option \<times> 'co"
  co_poll_transmit :: "instant \<Rightarrow> 'co \<Rightarrow> (transmit option \<times> bytes) \<times> 'co"
  co_poll :: "'co \<Rightarrow> 'ev option \<times> 'co"

section \<open>The driver\<close>

definition RECEIVE_BATCH :: u64 where "RECEIVE_BATCH = 64"

type_synonym datagram = "bytes \<times> socket_addr"

record ('so, 'ep, 'co, 'ev) any_driver =
  dr_socket :: 'so
  endpoint :: 'ep
  connections :: "(connection_handle \<times> 'co) list"
  events :: "(connection_handle \<times> 'ev) list"
  outbound :: "datagram list"

type_synonym ('ep, 'co, 'ev) driver = "(udp_socket, 'ep, 'co, 'ev) any_driver"

text \<open>
  What does not touch the socket is stated for a driver over any socket: the native benchmark has the
  same driver over \<open>std::net\<close>.
\<close>

definition driver_new :: "'ep \<Rightarrow> 'so \<Rightarrow> ('so, 'ep, 'co, 'ev) any_driver" where
  "driver_new ep so = \<lparr>dr_socket = so, endpoint = ep, connections = [], events = [], outbound = []\<rparr>"

definition driver_local_addr :: "('ep, 'co, 'ev) driver \<Rightarrow> socket_addr" where
  "driver_local_addr d = us_local (dr_socket d)"

definition driver_connect :: "('ep, 'co, 'ev, 'cev, 'eev, 'inc, 'cfg) noq_ops \<Rightarrow> instant \<Rightarrow> 'cfg \<Rightarrow> socket_addr \<Rightarrow>
    string \<Rightarrow> ('so, 'ep, 'co, 'ev) any_driver \<Rightarrow> (connection_handle, string) result \<times> ('so, 'ep, 'co, 'ev) any_driver" where
  "driver_connect N now config remote name d =
     (case ep_connect N now config remote name (endpoint d) of
        (Inl e, ep) \<Rightarrow> (Err e, d\<lparr>endpoint := ep\<rparr>)
      | (Inr (h, c), ep) \<Rightarrow> (Ok h, d\<lparr>endpoint := ep, connections := AList.update h c (connections d)\<rparr>))"

text \<open>\<open>connection_mut\<close>: a mutable borrow of the connection is used by a function on it.\<close>

definition connection_mut :: "connection_handle \<Rightarrow> ('co \<Rightarrow> 'a \<times> 'co) \<Rightarrow> ('so, 'ep, 'co, 'ev) any_driver \<Rightarrow>
    'a option \<times> ('so, 'ep, 'co, 'ev) any_driver" where
  "connection_mut h f d =
     (case map_of (connections d) h of
        None \<Rightarrow> (None, d)
      | Some c \<Rightarrow> (case f c of (x, c) \<Rightarrow> (Some x, d\<lparr>connections := AList.update h c (connections d)\<rparr>)))"

definition poll_event :: "('so, 'ep, 'co, 'ev) any_driver \<Rightarrow> (connection_handle \<times> 'ev) option \<times> ('so, 'ep, 'co, 'ev) any_driver" where
  "poll_event d = (case events d of [] \<Rightarrow> (None, d) | e # es \<Rightarrow> (Some e, d\<lparr>events := es\<rparr>))"

definition has_outbound :: "('so, 'ep, 'co, 'ev) any_driver \<Rightarrow> bool" where
  "has_outbound d = (outbound d \<noteq> [])"

definition deliver :: "('ep, 'co, 'ev, 'cev, 'eev, 'inc, 'cfg) noq_ops \<Rightarrow> connection_handle \<Rightarrow> 'cev \<Rightarrow>
    ('so, 'ep, 'co, 'ev) any_driver \<Rightarrow> ('so, 'ep, 'co, 'ev) any_driver" where
  "deliver N h e d =
     (case map_of (connections d) h of
        None \<Rightarrow> d
      | Some c \<Rightarrow> d\<lparr>connections := AList.update h (co_handle_event N e c) (connections d)\<rparr>)"

text \<open>Queueing \<open>buf[..transmit.size]\<close>; the slice panics when the buffer is shorter.\<close>

definition slice_transmit :: "bytes \<Rightarrow> transmit \<Rightarrow> datagram or_panic" where
  "slice_transmit buf t =
     (if size_of t \<le> length buf then Ok (take (size_of t) buf, destination t)
      else Panic ''range end index out of range for slice'')"

definition queue_transmit :: "bytes \<Rightarrow> transmit \<Rightarrow> ('so, 'ep, 'co, 'ev) any_driver \<Rightarrow> ('so, 'ep, 'co, 'ev) any_driver or_panic" where
  "queue_transmit buf t d =
     (case slice_transmit buf t of Inl p \<Rightarrow> Panic p | Inr x \<Rightarrow> Ok (d\<lparr>outbound := outbound d @ [x]\<rparr>))"

section \<open>Receiving\<close>

definition handle_datagram :: "('ep, 'co, 'ev, 'cev, 'eev, 'inc, 'cfg) noq_ops \<Rightarrow> instant \<Rightarrow> datagram \<Rightarrow>
    ('so, 'ep, 'co, 'ev) any_driver \<Rightarrow> ('so, 'ep, 'co, 'ev) any_driver or_panic" where
  "handle_datagram N now dg d =
     (case ep_handle N now (snd dg) (fst dg) (endpoint d) of
        (ev, buf, ep) \<Rightarrow>
          let d = d\<lparr>endpoint := ep\<rparr>
          in (case ev of
               Some (NewConnection inc) \<Rightarrow>
                 (case ep_accept N inc now (endpoint d) of
                    (r, buf, ep) \<Rightarrow>
                      let d = d\<lparr>endpoint := ep\<rparr>
                      in (case r of
                           Inr (h, c) \<Rightarrow> Ok (d\<lparr>connections := AList.update h c (connections d)\<rparr>)
                         | Inl (Some t) \<Rightarrow> queue_transmit buf t d
                         | Inl None \<Rightarrow> Ok d))
             | Some (Connection_Event h e) \<Rightarrow> Ok (deliver N h e d)
             | Some (Response t) \<Rightarrow> queue_transmit buf t d
             | None \<Rightarrow> Ok d))"

fun handle_datagrams :: "('ep, 'co, 'ev, 'cev, 'eev, 'inc, 'cfg) noq_ops \<Rightarrow> instant \<Rightarrow> datagram list \<Rightarrow>
    ('so, 'ep, 'co, 'ev) any_driver \<Rightarrow> ('so, 'ep, 'co, 'ev) any_driver or_panic" where
  "handle_datagrams N now [] d = Ok d"
| "handle_datagrams N now (dg # dgs) d =
     (case handle_datagram N now dg d of Inl p \<Rightarrow> Panic p | Inr d \<Rightarrow> handle_datagrams N now dgs d)"

partial_function (option) receive_loop ::
    "'s udp_ops \<Rightarrow> ('ep, 'co, 'ev, 'cev, 'eev, 'inc, 'cfg) noq_ops \<Rightarrow> instant \<Rightarrow> bool \<Rightarrow> ('ep, 'co, 'ev) driver \<Rightarrow> 's \<Rightarrow>
     ((bool, udp_error) result \<times> ('ep, 'co, 'ev) driver \<times> 's) or_panic option" where
  "receive_loop U N now moved d s =
     (case udp_receive U (dr_socket d) RECEIVE_BATCH s of
        (Inl e, s) \<Rightarrow> Some (Ok (Err e, d, s))
      | (Inr datagrams, s) \<Rightarrow>
          if datagrams = [] then Some (Ok (Ok moved, d, s))
          else (case handle_datagrams N now datagrams d of
              Inl p \<Rightarrow> Some (Panic p)
            | Inr d \<Rightarrow> receive_loop U N now True d s))"

section \<open>Servicing the connections\<close>

text \<open>\<open>while let Some(x) = poll() { ... }\<close>, appending what is polled.\<close>

partial_function (option) poll_all :: "('c \<Rightarrow> 'a option \<times> 'c) \<Rightarrow> 'a list \<Rightarrow> 'c \<Rightarrow> ('a list \<times> 'c) option" where
  "poll_all f acc c =
     (case f c of
        (None, c) \<Rightarrow> Some (acc, c)
      | (Some x, c) \<Rightarrow> poll_all f (acc @ [x]) c)"

partial_function (option) transmit_loop :: "('ep, 'co, 'ev, 'cev, 'eev, 'inc, 'cfg) noq_ops \<Rightarrow> instant \<Rightarrow>
    datagram list \<Rightarrow> 'co \<Rightarrow> (datagram list \<times> 'co) or_panic option" where
  "transmit_loop N now acc c =
     (case co_poll_transmit N now c of
        ((None, buf), c) \<Rightarrow> Some (Ok (acc, c))
      | ((Some t, buf), c) \<Rightarrow>
          (case slice_transmit buf t of
             Inl p \<Rightarrow> Some (Panic p)
           | Inr x \<Rightarrow> transmit_loop N now (acc @ [x]) c))"

definition fire_timer :: "('ep, 'co, 'ev, 'cev, 'eev, 'inc, 'cfg) noq_ops \<Rightarrow> instant \<Rightarrow> 'co \<Rightarrow> bool \<times> 'co" where
  "fire_timer N now c =
     (case co_poll_timeout N c of
        (Some deadline, c) \<Rightarrow> if deadline \<le> now then (True, co_handle_timeout N now c) else (False, c)
      | (None, c) \<Rightarrow> (False, c))"

record ('ev, 'eev) served =
  sv_moved :: bool
  sv_endpoint :: "(connection_handle \<times> 'eev) list"
  sv_transmits :: "datagram list"
  sv_events :: "(connection_handle \<times> 'ev) list"

definition service :: "('ep, 'co, 'ev, 'cev, 'eev, 'inc, 'cfg) noq_ops \<Rightarrow> instant \<Rightarrow> connection_handle \<Rightarrow> 'co \<Rightarrow>
    (('ev, 'eev) served \<times> 'co) or_panic option" where
  "service N now h c =
     (case fire_timer N now c of (fired, c) \<Rightarrow>
       (case poll_all (co_poll_endpoint_events N) [] c of
          None \<Rightarrow> None
        | Some (ees, c) \<Rightarrow>
            (case transmit_loop N now [] c of
               None \<Rightarrow> None
             | Some (Inl p) \<Rightarrow> Some (Panic p)
             | Some (Inr (txs, c)) \<Rightarrow>
                 (case poll_all (co_poll N) [] c of
                    None \<Rightarrow> None
                  | Some (evs, c) \<Rightarrow>
                      Some (Ok (\<lparr>sv_moved = fired \<or> txs \<noteq> [] \<or> evs \<noteq> [],
                        sv_endpoint = map (Pair h) ees, sv_transmits = txs,
                        sv_events = map (Pair h) evs\<rparr>, c))))))"

definition served_none :: "('ev, 'eev) served" where
  "served_none = \<lparr>sv_moved = False, sv_endpoint = [], sv_transmits = [], sv_events = []\<rparr>"

definition served_plus :: "('ev, 'eev) served \<Rightarrow> ('ev, 'eev) served \<Rightarrow> ('ev, 'eev) served" where
  "served_plus a b = \<lparr>sv_moved = sv_moved a \<or> sv_moved b, sv_endpoint = sv_endpoint a @ sv_endpoint b,
     sv_transmits = sv_transmits a @ sv_transmits b, sv_events = sv_events a @ sv_events b\<rparr>"

fun service_all :: "('ep, 'co, 'ev, 'cev, 'eev, 'inc, 'cfg) noq_ops \<Rightarrow> instant \<Rightarrow> (connection_handle \<times> 'co) list \<Rightarrow>
    (('ev, 'eev) served \<times> (connection_handle \<times> 'co) list) or_panic option" where
  "service_all N now [] = Some (Ok (served_none, []))"
| "service_all N now ((h, c) # cs) =
     (case service N now h c of
        None \<Rightarrow> None
      | Some (Inl p) \<Rightarrow> Some (Panic p)
      | Some (Inr (a, c)) \<Rightarrow>
          (case service_all N now cs of
             None \<Rightarrow> None
           | Some (Inl p) \<Rightarrow> Some (Panic p)
           | Some (Inr (b, cs)) \<Rightarrow> Some (Ok (served_plus a b, (h, c) # cs))))"

fun handle_endpoint_events :: "('ep, 'co, 'ev, 'cev, 'eev, 'inc, 'cfg) noq_ops \<Rightarrow>
    (connection_handle \<times> 'eev) list \<Rightarrow> bool \<Rightarrow> ('so, 'ep, 'co, 'ev) any_driver \<Rightarrow> bool \<times> ('so, 'ep, 'co, 'ev) any_driver" where
  "handle_endpoint_events N [] moved d = (moved, d)"
| "handle_endpoint_events N ((h, e) # es) moved d =
     (case ep_handle_event N h e (endpoint d) of
        (reply, ep) \<Rightarrow>
          let d = d\<lparr>endpoint := ep\<rparr>;
              (moved, d) = (case reply of Some r \<Rightarrow> (True, deliver N h r d) | None \<Rightarrow> (moved, d));
              (moved, d) = (if is_drained N e
                then (True, d\<lparr>connections := AList.delete h (connections d)\<rparr>) else (moved, d))
          in handle_endpoint_events N es moved d)"

section \<open>Flushing\<close>

text \<open>\<open>drain(..sent)\<close> panics when more was reported sent than there is.\<close>

function flush :: "'s udp_ops \<Rightarrow> udp_socket \<Rightarrow> bool \<Rightarrow> datagram list \<Rightarrow> 's \<Rightarrow>
    ((bool, udp_error) result \<times> datagram list \<times> 's) or_panic" where
  "flush U so moved queue s =
     (if queue = [] then Ok (Ok moved, [], s)
      else (case udp_send U so queue s of
          (Inl e, s) \<Rightarrow> Ok (Err e, queue, s)
        | (Inr sent, s) \<Rightarrow>
            if sent = 0 then Ok (Ok moved, queue, s)
            else if length queue < sent then Panic ''range end index out of range for slice''
            else flush U so True (drop sent queue) s))"
  by pat_completeness auto
termination
  by (relation "measure (\<lambda>(U, so, moved, queue, s). length queue)") auto

declare flush.simps [simp del]

fun poll_events_all :: "('ep, 'co, 'ev, 'cev, 'eev, 'inc, 'cfg) noq_ops \<Rightarrow> (connection_handle \<times> 'co) list \<Rightarrow>
    ((connection_handle \<times> 'ev) list \<times> (connection_handle \<times> 'co) list) option" where
  "poll_events_all N [] = Some ([], [])"
| "poll_events_all N ((h, c) # cs) =
     (case poll_all (co_poll N) [] c of
        None \<Rightarrow> None
      | Some (evs, c) \<Rightarrow>
          (case poll_events_all N cs of
             None \<Rightarrow> None
           | Some (rest, cs) \<Rightarrow> Some (map (Pair h) evs @ rest, (h, c) # cs)))"

section \<open>One pump\<close>

definition service_phase :: "('ep, 'co, 'ev, 'cev, 'eev, 'inc, 'cfg) noq_ops \<Rightarrow>
    ((connection_handle \<times> 'co) list \<Rightarrow> (connection_handle \<times> 'co) list) \<Rightarrow> instant \<Rightarrow> bool \<Rightarrow>
    ('so, 'ep, 'co, 'ev) any_driver \<Rightarrow> (bool \<times> ('so, 'ep, 'co, 'ev) any_driver) or_panic option" where
  "service_phase N visit now moved d =
     (case service_all N now (visit (connections d)) of
        None \<Rightarrow> None
      | Some (Inl p) \<Rightarrow> Some (Panic p)
      | Some (Inr (sv, cs)) \<Rightarrow>
          Some (Ok (handle_endpoint_events N (sv_endpoint sv) (moved \<or> sv_moved sv)
            (d\<lparr>connections := cs, outbound := outbound d @ sv_transmits sv,
               events := events d @ sv_events sv\<rparr>))))"

definition events_phase :: "('ep, 'co, 'ev, 'cev, 'eev, 'inc, 'cfg) noq_ops \<Rightarrow>
    ((connection_handle \<times> 'co) list \<Rightarrow> (connection_handle \<times> 'co) list) \<Rightarrow> bool \<Rightarrow>
    ('so, 'ep, 'co, 'ev) any_driver \<Rightarrow> (bool \<times> ('so, 'ep, 'co, 'ev) any_driver) option" where
  "events_phase N visit moved d =
     (case poll_events_all N (visit (connections d)) of
        None \<Rightarrow> None
      | Some (evs, cs) \<Rightarrow> Some (moved \<or> evs \<noteq> [], d\<lparr>connections := cs, events := events d @ evs\<rparr>))"

definition pump :: "'s udp_ops \<Rightarrow> ('ep, 'co, 'ev, 'cev, 'eev, 'inc, 'cfg) noq_ops \<Rightarrow>
    ((connection_handle \<times> 'co) list \<Rightarrow> (connection_handle \<times> 'co) list) \<Rightarrow> instant \<Rightarrow>
    ('ep, 'co, 'ev) driver \<Rightarrow> 's \<Rightarrow>
    ((bool, udp_error) result \<times> ('ep, 'co, 'ev) driver \<times> 's) or_panic option" where
  "pump U N visit now d s =
     (case receive_loop U N now False d s of
        None \<Rightarrow> None
      | Some (Inl p) \<Rightarrow> Some (Panic p)
      | Some (Inr (Inl e, d, s)) \<Rightarrow> Some (Ok (Err e, d, s))
      | Some (Inr (Inr moved, d, s)) \<Rightarrow>
          (case service_phase N visit now moved d of
             None \<Rightarrow> None
           | Some (Inl p) \<Rightarrow> Some (Panic p)
           | Some (Inr (moved, d)) \<Rightarrow>
               (case flush U (dr_socket d) moved (outbound d) s of
                  Inl p \<Rightarrow> Some (Panic p)
                | Inr (Inl e, queue, s) \<Rightarrow> Some (Ok (Err e, d\<lparr>outbound := queue\<rparr>, s))
                | Inr (Inr moved, queue, s) \<Rightarrow>
                    (case events_phase N visit moved (d\<lparr>outbound := queue\<rparr>) of
                       None \<Rightarrow> None
                     | Some (moved, d) \<Rightarrow> Some (Ok (Ok moved, d, s))))))"


section \<open>Termination\<close>

text \<open>
  The host has a finite backlog of received datagrams, and a connection has finite queues: every
  poll that returns something leaves less to return.
\<close>

definition backlog_finite :: "'s udp_ops \<Rightarrow> ('s \<Rightarrow> nat) \<Rightarrow> bool" where
  "backlog_finite U backlog \<longleftrightarrow> (\<forall>h m s ds s'. stream_receive U h m s = (Inr ds, s') \<and> ds \<noteq> [] \<longrightarrow> backlog s' < backlog s)"

definition polls_finite :: "('c \<Rightarrow> 'a option \<times> 'c) \<Rightarrow> ('c \<Rightarrow> nat) \<Rightarrow> bool" where
  "polls_finite f load \<longleftrightarrow> (\<forall>c x c'. f c = (Some x, c') \<longrightarrow> load c' < load c)"

text \<open>A transmit never claims more bytes than were written into the buffer.\<close>

definition noq_ok :: "('ep, 'co, 'ev, 'cev, 'eev, 'inc, 'cfg) noq_ops \<Rightarrow> ('co \<Rightarrow> nat) \<Rightarrow> bool" where
  "noq_ok N load \<longleftrightarrow> polls_finite (co_poll_endpoint_events N) load \<and> polls_finite (co_poll N) load \<and>
     (\<forall>now c t buf c'. co_poll_transmit N now c = ((Some t, buf), c') \<longrightarrow> load c' < load c \<and> size_of t \<le> length buf) \<and>
     (\<forall>now a data ep t buf ep'. ep_handle N now a data ep = (Some (Response t), buf, ep') \<longrightarrow> size_of t \<le> length buf) \<and>
     (\<forall>inc now ep t buf ep'. ep_accept N inc now ep = (Inl (Some t), buf, ep') \<longrightarrow> size_of t \<le> length buf)"

lemma noq_okD:
  assumes "noq_ok N load"
  shows "polls_finite (co_poll_endpoint_events N) load" and "polls_finite (co_poll N) load"
    and "co_poll_transmit N now c = ((Some t, buf), c') \<Longrightarrow> load c' < load c \<and> size_of t \<le> length buf"
    and "ep_handle N now a data ep = (Some (Response t), buf, ep') \<Longrightarrow> size_of t \<le> length buf"
    and "ep_accept N inc now ep = (Inl (Some t), buf, ep') \<Longrightarrow> size_of t \<le> length buf"
  using assms unfolding noq_ok_def by blast+

lemma poll_all_total:
  assumes "polls_finite f load"
  shows "\<exists>r. poll_all f acc c = Some r"
proof (induction "load c" arbitrary: acc c rule: less_induct)
  case less
  obtain x c' where f: "f c = (x, c')" by fastforce
  show ?case
  proof (cases x)
    case None
    with f show ?thesis by (subst poll_all.simps) simp
  next
    case (Some y)
    with f assms have "load c' < load c" unfolding polls_finite_def by blast
    from less [OF this] Some f show ?thesis by (subst poll_all.simps) simp
  qed
qed

lemma transmit_loop_total:
  assumes "noq_ok N load"
  shows "\<exists>xs c'. transmit_loop N now acc c = Some (Ok (xs, c'))"
proof (induction "load c" arbitrary: acc c rule: less_induct)
  case less
  obtain x buf c' where f: "co_poll_transmit N now c = ((x, buf), c')" by (metis surj_pair)
  show ?case
  proof (cases x)
    case None
    with f show ?thesis by (subst transmit_loop.simps) simp
  next
    case (Some t)
    with f noq_okD(3) [OF assms] have l: "load c' < load c" "size_of t \<le> length buf" by blast+
    from less [OF l(1)] l(2) Some f show ?thesis by (subst transmit_loop.simps) (simp add: slice_transmit_def)
  qed
qed

lemma service_total:
  assumes "noq_ok N load"
  shows "\<exists>sv c'. service N now h c = Some (Ok (sv, c'))"
proof -
  note p = noq_okD(1,2) [OF assms]
  obtain fired c1 where 1: "fire_timer N now c = (fired, c1)" by fastforce
  obtain ees c2 where 2: "poll_all (co_poll_endpoint_events N) [] c1 = Some (ees, c2)"
    using poll_all_total [OF p(1)] by (metis surj_pair)
  obtain txs c3 where 3: "transmit_loop N now [] c2 = Some (Ok (txs, c3))"
    using transmit_loop_total [OF assms] by blast
  obtain evs c4 where 4: "poll_all (co_poll N) [] c3 = Some (evs, c4)"
    using poll_all_total [OF p(2)] by (metis surj_pair)
  show ?thesis by (simp add: service_def 1 2 3 4)
qed

lemma service_all_total:
  assumes "noq_ok N load"
  shows "\<exists>sv cs'. service_all N now cs = Some (Ok (sv, cs'))"
proof (induction cs)
  case (Cons a cs)
  obtain h c where "a = (h, c)" by fastforce
  with Cons service_total [OF assms, of now h c] show ?case by auto
qed simp

lemma poll_events_all_total:
  assumes "noq_ok N load"
  shows "\<exists>evs cs'. poll_events_all N cs = Some (evs, cs')"
proof (induction cs)
  case (Cons a cs)
  obtain h c where a: "a = (h, c)" by fastforce
  obtain r where "poll_all (co_poll N) [] c = Some r"
    using poll_all_total [OF noq_okD(2) [OF assms]] by blast
  with Cons a show ?case by (cases r) auto
qed simp

lemma handle_datagram_total:
  assumes "noq_ok N load"
  shows "\<exists>d'. handle_datagram N now dg d = Ok d'"
  unfolding handle_datagram_def queue_transmit_def slice_transmit_def
  by (auto simp: Let_def dest: noq_okD(4,5) [OF assms] split: prod.split option.split datagram_event.split sum.split)

lemma handle_datagrams_total:
  assumes "noq_ok N load"
  shows "\<exists>d'. handle_datagrams N now dgs d = Ok d'"
proof (induction dgs arbitrary: d)
  case (Cons dg dgs)
  obtain d1 where "handle_datagram N now dg d = Ok d1" using handle_datagram_total [OF assms] by blast
  with Cons show ?case by simp
qed simp

lemma receive_loop_total:
  assumes "backlog_finite U backlog" and "noq_ok N load"
  shows "\<exists>r d' s'. receive_loop U N now moved d s = Some (Ok (r, d', s'))"
proof (induction "backlog s" arbitrary: moved d s rule: less_induct)
  case less
  obtain r s1 where u: "stream_receive U (us_incoming (dr_socket d)) RECEIVE_BATCH s = (r, s1)" by fastforce
  show ?case
  proof (cases r)
    case (Inl e)
    with u show ?thesis by (subst receive_loop.simps) (simp add: udp_receive_def)
  next
    case (Inr ds)
    obtain d1 where h: "handle_datagrams N now (map (\<lambda>(data, remote). (data, from_wasi remote)) ds) d = Ok d1"
      using handle_datagrams_total [OF assms(2)] by blast
    show ?thesis
    proof (cases "ds = []")
      case True
      with Inr u show ?thesis by (subst receive_loop.simps) (simp add: udp_receive_def)
    next
      case False
      with Inr u assms(1) have "backlog s1 < backlog s" unfolding backlog_finite_def by blast
      from less [OF this] Inr u h False show ?thesis
        by (subst receive_loop.simps) (simp add: udp_receive_def)
    qed
  qed
qed

section \<open>The send queue\<close>

text \<open>
  The flush hands over a prefix of the queue, keeps the rest, and reports whether it moved anything.
  It stops early only on an error or when the socket takes nothing.
\<close>

lemma flush_run:
  assumes "udp_ok U out"
  shows "\<exists>r k s'. flush U so moved q s = Ok (r, drop k q, s') \<and> k \<le> length q \<and>
     out s' = out s @ map outgoing_of (take k q) \<and>
     (\<forall>m. r = Ok m \<longrightarrow> m = (moved \<or> 0 < k) \<and> (k < length q \<longrightarrow> (\<exists>s1. udp_send U so (drop k q) s1 = (Ok 0, s'))))"
proof (induction "length q" arbitrary: moved q s rule: less_induct)
  case less
  obtain r s1 where u: "udp_send U so q s = (r, s1)" by fastforce
  consider "q = []" | e where "q \<noteq> []" "r = Inl e" | "q \<noteq> []" "r = Inr 0"
    | n where "q \<noteq> []" "r = Inr n" "n \<noteq> 0" by (cases r) auto
  then show ?case
  proof cases
    case 1
    then show ?thesis by (subst flush.simps) simp
  next
    case 2
    then show ?thesis using u udp_send_Err [OF assms, of so q s e s1]
      by (subst flush.simps) (simp add: exI [of _ 0])
  next
    case 3
    then show ?thesis using u udp_send_prefix [OF assms, of so q s 0 s1]
      by (subst flush.simps) (auto intro!: exI [of _ 0])
  next
    case 4
    have n: "n \<le> length q" "out s1 = out s @ map outgoing_of (take n q)"
      using udp_send_prefix [OF assms, of so q s n s1] u 4(2) by simp_all
    have l: "length (drop n q) < length q" using 4 n by simp
    obtain r' k s' where ih: "flush U so True (drop n q) s1 = Ok (r', drop k (drop n q), s')"
      "k \<le> length (drop n q)" "out s' = out s1 @ map outgoing_of (take k (drop n q))"
      "\<forall>m. r' = Ok m \<longrightarrow> m = (True \<or> 0 < k) \<and> (k < length (drop n q) \<longrightarrow>
         (\<exists>s1. udp_send U so (drop k (drop n q)) s1 = (Ok 0, s')))"
      using less [OF l, of True s1] by blast
    have "flush U so moved q s = Ok (r', drop (n + k) q, s')"
      using 4 u n(1) ih(1) by (subst flush.simps) (simp add: add.commute)
    moreover have "out s' = out s @ map outgoing_of (take (n + k) q)"
      using ih(3) n(2) by (simp add: take_add)
    moreover have "n + k \<le> length q" using ih(2) n(1) by simp
    ultimately show ?thesis using ih(4) 4(3)
      by (intro exI [of _ r'] exI [of _ "n + k"] exI [of _ s']) (auto simp: add.commute less_diff_conv)
  qed
qed


section \<open>What a pump adds\<close>

text \<open>A datagram noq-proto asked to have sent: a response, a refusal, or a connection's transmit.\<close>

definition emits :: "('ep, 'co, 'ev, 'cev, 'eev, 'inc, 'cfg) noq_ops \<Rightarrow> datagram \<Rightarrow> bool" where
  "emits N x \<longleftrightarrow> (\<exists>t buf. slice_transmit buf t = Ok x \<and>
     ((\<exists>now a data ep ep'. ep_handle N now a data ep = (Some (Response t), buf, ep')) \<or>
      (\<exists>inc now ep ep'. ep_accept N inc now ep = (Inl (Some t), buf, ep')) \<or>
      (\<exists>now c c'. co_poll_transmit N now c = ((Some t, buf), c'))))"

definition keys_distinct :: "('so, 'ep, 'co, 'ev) any_driver \<Rightarrow> bool" where
  "keys_distinct d \<longleftrightarrow> distinct (map fst (connections d))"

definition grows :: "('ep, 'co, 'ev, 'cev, 'eev, 'inc, 'cfg) noq_ops \<Rightarrow> ('so, 'ep, 'co, 'ev) any_driver \<Rightarrow>
    ('so, 'ep, 'co, 'ev) any_driver \<Rightarrow> bool" where
  "grows N d d' \<longleftrightarrow> dr_socket d' = dr_socket d \<and> (keys_distinct d \<longrightarrow> keys_distinct d') \<and> (\<exists>evs. events d' = events d @ evs) \<and>
     (\<exists>new. outbound d' = outbound d @ new \<and> (\<forall>x \<in> set new. emits N x))"

lemma grows_same:
  assumes "dr_socket d' = dr_socket d" and "events d' = events d @ evs"
    and "outbound d' = outbound d @ new" and "\<And>x. x \<in> set new \<Longrightarrow> emits N x"
    and "keys_distinct d \<Longrightarrow> keys_distinct d'"
  shows "grows N d d'"
  using assms unfolding grows_def by blast

lemma grows_refl [simp]: "grows N d d"
  by (rule grows_same [of _ _ "[]" "[]"]) simp_all

lemma grows_trans [trans]: "grows N a b \<Longrightarrow> grows N b c \<Longrightarrow> grows N a c"
  unfolding grows_def by (elim conjE exE) (auto simp: ball_Un)

lemma growsD:
  assumes "grows N d d'"
  shows "dr_socket d' = dr_socket d" and "\<exists>evs. events d' = events d @ evs"
    and "keys_distinct d \<longrightarrow> keys_distinct d'"
  using assms unfolding grows_def by blast+

lemma deliver_keys [simp]: "map fst (connections (deliver N h e d)) = map fst (connections d)"
proof (cases "map_of (connections d) h")
  case (Some c)
  then have "h \<in> fst ` set (connections d)" by (metis domI dom_map_of_conv_image_fst)
  with Some show ?thesis by (simp add: deliver_def update_keys)
qed (simp add: deliver_def)

lemma deliver_fields [simp]:
  "dr_socket (deliver N h e d) = dr_socket d" "events (deliver N h e d) = events d"
  "outbound (deliver N h e d) = outbound d" "endpoint (deliver N h e d) = endpoint d"
  by (simp_all add: deliver_def split: option.split)

lemma queue_transmit_Ok:
  "queue_transmit buf t d = Ok d' \<longleftrightarrow> (\<exists>x. slice_transmit buf t = Ok x \<and> d' = d\<lparr>outbound := outbound d @ [x]\<rparr>)"
  by (auto simp: queue_transmit_def split: sum.split)

lemma handle_datagram_grows:
  assumes "handle_datagram N now dg d = Ok d'"
  shows "grows N d d'"
proof -
  obtain ev buf ep where h: "ep_handle N now (snd dg) (fst dg) (endpoint d) = (ev, buf, ep)" by (metis surj_pair)
  consider "ev = None" | inc where "ev = Some (NewConnection inc)"
    | k e where "ev = Some (Connection_Event k e)" | t where "ev = Some (Response t)"
    by (cases ev) (auto, metis datagram_event.exhaust)
  then show ?thesis
  proof cases
    case (2 inc)
    obtain r buf' ep' where a: "ep_accept N inc now ep = (r, buf', ep')" by (metis surj_pair)
    show ?thesis
    proof (cases "\<exists>t. r = Inl (Some t)")
      case True
      then obtain t x where t: "r = Inl (Some t)" "slice_transmit buf' t = Ok x"
        and d': "d' = d\<lparr>endpoint := ep', outbound := outbound d @ [x]\<rparr>"
        using assms h a 2 by (auto simp: handle_datagram_def queue_transmit_Ok)
      have "emits N x" unfolding emits_def using t a by blast
      then show ?thesis using d' by (intro grows_same [of _ _ "[]" "[x]"]) (simp_all add: keys_distinct_def)
    next
      case False
      then show ?thesis using assms h a 2
        by (intro grows_same [of _ _ "[]" "[]"])
          (auto simp: handle_datagram_def Let_def keys_distinct_def distinct_update
            split: sum.splits option.splits prod.splits)
    qed
  next
    case (4 t)
    then obtain x where x: "slice_transmit buf t = Ok x" and d': "d' = d\<lparr>endpoint := ep, outbound := outbound d @ [x]\<rparr>"
      using assms h by (auto simp: handle_datagram_def queue_transmit_Ok)
    have "emits N x" unfolding emits_def using x h 4 by blast
    then show ?thesis using d' by (intro grows_same [of _ _ "[]" "[x]"]) (simp_all add: keys_distinct_def)
  qed (use assms h in \<open>auto simp: handle_datagram_def keys_distinct_def intro!: grows_same [of _ _ "[]" "[]"]\<close>)
qed

lemma handle_datagrams_grows:
  "handle_datagrams N now dgs d = Ok d' \<Longrightarrow> grows N d d'"
  by (induction dgs arbitrary: d) (auto split: sum.splits dest: handle_datagram_grows intro: grows_trans)

text \<open>The receive loop moves on iff a batch was not empty; until then it changes nothing.\<close>

definition received :: "'s udp_ops \<Rightarrow> ('ep, 'co, 'ev, 'cev, 'eev, 'inc, 'cfg) noq_ops \<Rightarrow> ('s \<Rightarrow> outgoing_datagram list) \<Rightarrow>
    bool \<Rightarrow> ('ep, 'co, 'ev) driver \<Rightarrow> 's \<Rightarrow> ((bool, udp_error) result \<times> ('ep, 'co, 'ev) driver \<times> 's) or_panic \<Rightarrow> bool" where
  "received U N out moved d s res \<longleftrightarrow> (\<forall>r d' s'. res = Ok (r, d', s') \<longrightarrow> grows N d d' \<and> out s' = out s \<and>
     (moved \<longrightarrow> r \<noteq> Ok False) \<and>
     (r = Ok False \<longrightarrow> d' = d \<and> udp_receive U (dr_socket d) RECEIVE_BATCH s = (Ok [], s')))"

lemma receive_loop_run:
  assumes "receive_loop U N now moved d s = Some res" and "udp_ok U out"
  shows "received U N out moved d s res"
proof -
  let ?P = "\<lambda>U N now moved d s res. udp_ok U out \<longrightarrow> received U N out moved d s res"
  have "?P U N now moved d s res"
  proof (rule receive_loop.raw_induct [where P = ?P, OF _ assms(1)], intro impI, goal_cases)
    case (1 loop U N now moved d s res)
    obtain r s1 where u: "udp_receive U (dr_socket d) RECEIVE_BATCH s = (r, s1)" by fastforce
    have o: "out s1 = out s" by (rule udp_receive_out [OF 1(3) u])
    show ?case
    proof (cases "\<exists>dgs d1. r = Inr dgs \<and> dgs \<noteq> [] \<and> handle_datagrams N now dgs d = Ok d1")
      case True
      then obtain dgs d1 where h: "handle_datagrams N now dgs d = Ok d1" and l: "loop U N now True d1 s1 = Some res"
        using 1(2) u by auto
      have "received U N out True d1 s1 res" using 1(1) [OF l] 1(3) by blast
      with grows_trans [OF handle_datagrams_grows [OF h]] o show ?thesis by (simp add: received_def)
    next
      case False
      then show ?thesis using 1(2) u o
        by (auto simp: received_def split: sum.splits if_splits)
    qed
  qed
  with assms(2) show ?thesis by blast
qed

lemma poll_all_acc:
  assumes "poll_all f acc c = Some res"
  shows "\<exists>ys. fst res = acc @ ys"
proof (rule poll_all.raw_induct [where P = "\<lambda>f acc c res. \<exists>ys. fst res = acc @ ys", OF _ assms], goal_cases)
  case (1 loop f acc c res)
  obtain x c1 where f: "f c = (x, c1)" by fastforce
  show ?case
  proof (cases x)
    case None
    with 1(2) f show ?thesis by auto
  next
    case (Some y)
    with 1(2) f have "loop f (acc @ [y]) c1 = Some res" by simp
    from 1(1) [OF this] show ?thesis by auto
  qed
qed

lemma transmit_loop_emits:
  assumes "transmit_loop N now acc c = Some res"
  shows "\<forall>xs c'. res = Ok (xs, c') \<longrightarrow> (\<exists>ys. xs = acc @ ys \<and> (\<forall>y \<in> set ys. emits N y))"
proof (rule transmit_loop.raw_induct [where P = "\<lambda>N now acc c res.
    \<forall>xs c'. res = Ok (xs, c') \<longrightarrow> (\<exists>ys. xs = acc @ ys \<and> (\<forall>y \<in> set ys. emits N y))", OF _ assms], goal_cases)
  case (1 loop N now acc c res)
  obtain t buf c1 where p: "co_poll_transmit N now c = ((t, buf), c1)" by (metis surj_pair)
  show ?case
  proof (cases "\<exists>t' x. t = Some t' \<and> slice_transmit buf t' = Ok x")
    case True
    then obtain t' x where x: "t = Some t'" "slice_transmit buf t' = Ok x" by blast
    then have l: "loop N now (acc @ [x]) c1 = Some res" using 1(2) p by simp
    have "emits N x" unfolding emits_def using x p by blast
    with 1(1) [OF l] show ?thesis by fastforce
  next
    case False
    then show ?thesis using 1(2) p by (auto split: option.splits sum.splits)
  qed
qed

definition served_ok :: "('ep, 'co, 'ev, 'cev, 'eev, 'inc, 'cfg) noq_ops \<Rightarrow> ('ev, 'eev) served \<Rightarrow> bool" where
  "served_ok N sv \<longleftrightarrow> (\<forall>x \<in> set (sv_transmits sv). emits N x) \<and>
     (\<not> sv_moved sv \<longrightarrow> sv_transmits sv = [] \<and> sv_events sv = [])"

lemma service_ok:
  assumes "service N now h c = Some (Ok (sv, c'))"
  shows "served_ok N sv"
  using assms unfolding service_def
  by (auto simp: served_ok_def split: prod.splits option.splits sum.splits dest!: transmit_loop_emits)

lemma service_all_ok:
  "service_all N now cs = Some (Ok (sv, cs')) \<Longrightarrow> served_ok N sv \<and> map fst cs' = map fst cs"
proof (induction cs arbitrary: sv cs')
  case Nil
  then show ?case by (auto simp: served_ok_def served_none_def)
next
  case (Cons a cs)
  obtain h c where a: "a = (h, c)" by fastforce
  from Cons.prems a obtain x c1 y cs1 where "service N now h c = Some (Ok (x, c1))"
    "service_all N now cs = Some (Ok (y, cs1))" "sv = served_plus x y" "cs' = (h, c1) # cs1"
    by (auto split: option.splits sum.splits prod.splits)
  with Cons.IH a service_ok [of N now h c x c1] show ?case
    by (auto simp: served_ok_def served_plus_def)
qed

lemma handle_endpoint_events_fields:
  assumes "handle_endpoint_events N es moved d = (m, d')"
  shows "dr_socket d' = dr_socket d \<and> events d' = events d \<and> outbound d' = outbound d \<and>
     (moved \<longrightarrow> m) \<and> (\<not> m \<longrightarrow> connections d' = connections d)"
  using assms
proof (induction es arbitrary: moved d)
  case (Cons a es)
  obtain h e where a: "a = (h, e)" by fastforce
  obtain reply ep where r: "ep_handle_event N h e (endpoint d) = (reply, ep)" by fastforce
  from Cons.prems a r have "\<exists>moved1 d1. handle_endpoint_events N es moved1 d1 = (m, d') \<and>
      dr_socket d1 = dr_socket d \<and> events d1 = events d \<and> outbound d1 = outbound d \<and> (moved \<longrightarrow> moved1) \<and>
      (\<not> moved1 \<longrightarrow> connections d1 = connections d)"
    by (fastforce simp: Let_def split: option.splits if_splits)
  then show ?case using Cons.IH by metis
qed simp

text \<open>A connection goes exactly when an event of it says it is drained; replies add none.\<close>

lemma handle_endpoint_events_keys:
  assumes "handle_endpoint_events N es moved d = (m, d')"
  shows "set (map fst (connections d')) =
       set (map fst (connections d)) - {h. \<exists>e. (h, e) \<in> set es \<and> is_drained N e} \<and>
     (keys_distinct d \<longrightarrow> keys_distinct d')"
  using assms
proof (induction es arbitrary: moved d)
  case (Cons a es)
  obtain h e where a: "a = (h, e)" by fastforce
  obtain reply ep where r: "ep_handle_event N h e (endpoint d) = (reply, ep)" by fastforce
  define d0 where "d0 = (case reply of Some x \<Rightarrow> deliver N h x (d\<lparr>endpoint := ep\<rparr>) | None \<Rightarrow> d\<lparr>endpoint := ep\<rparr>)"
  define d1 where "d1 = (if is_drained N e then d0\<lparr>connections := AList.delete h (connections d0)\<rparr> else d0)"
  have "map fst (connections d0) = map fst (connections d)" by (simp add: d0_def split: option.split)
  then have k: "map fst (connections d1) = (if is_drained N e then removeAll h else id) (map fst (connections d))"
    by (simp add: d1_def delete_keys)
  have "\<exists>moved1. handle_endpoint_events N es moved1 d1 = (m, d')"
    using Cons.prems a r by (auto simp: d1_def d0_def Let_def split: option.splits if_splits)
  with Cons.IH [of _ d1] k a show ?case
    by (auto simp: keys_distinct_def distinct_removeAll simp del: set_map split: if_splits)
qed simp

text \<open>A hash map visits every entry once, in some order.\<close>

definition visit_ok :: "((connection_handle \<times> 'co) list \<Rightarrow> (connection_handle \<times> 'co) list) \<Rightarrow> bool" where
  "visit_ok visit \<longleftrightarrow> (\<forall>cs. mset (visit cs) = mset cs)"

lemma visit_keys: "visit_ok visit \<Longrightarrow> mset (map fst (visit cs)) = mset (map fst cs)"
  by (simp add: visit_ok_def)

lemma visit_distinct: "visit_ok visit \<Longrightarrow> distinct (map fst (visit cs)) = distinct (map fst cs)"
  by (metis mset_eq_imp_distinct_iff visit_keys)

lemma service_phase_run:
  assumes "service_phase N visit now moved d = Some (Ok (m, d'))" and "visit_ok visit"
  shows "grows N d d' \<and> (moved \<longrightarrow> m) \<and> (\<not> m \<longrightarrow> outbound d' = outbound d \<and> events d' = events d \<and>
     mset (map fst (connections d')) = mset (map fst (connections d)))"
proof -
  obtain sv cs where sa: "service_all N now (visit (connections d)) = Some (Ok (sv, cs))"
    and h: "handle_endpoint_events N (sv_endpoint sv) (moved \<or> sv_moved sv)
      (d\<lparr>connections := cs, outbound := outbound d @ sv_transmits sv, events := events d @ sv_events sv\<rparr>) = (m, d')"
    using assms(1) by (auto simp: service_phase_def split: option.splits sum.splits prod.splits)
  have s: "served_ok N sv" "map fst cs = map fst (visit (connections d))" using service_all_ok [OF sa] by simp_all
  note f = handle_endpoint_events_fields [OF h] and k = handle_endpoint_events_keys [OF h]
  have "grows N d d'"
    by (rule grows_same [of _ _ "sv_events sv" "sv_transmits sv"])
      (use f k s visit_distinct [OF assms(2)] in \<open>simp_all add: served_ok_def keys_distinct_def\<close>)
  moreover have "\<not> m \<longrightarrow> outbound d' = outbound d \<and> events d' = events d \<and>
      mset (map fst (connections d')) = mset (map fst (connections d))"
    using f s visit_keys [OF assms(2), of "connections d"] by (auto simp: served_ok_def)
  ultimately show ?thesis using f by simp
qed

lemma poll_events_all_keys:
  "poll_events_all N cs = Some (evs, cs') \<Longrightarrow> map fst cs' = map fst cs"
  by (induction cs arbitrary: evs cs') (auto split: option.splits)

lemma events_phase_run:
  assumes "events_phase N visit moved d = Some (m, d')" and "visit_ok visit"
  shows "grows N d d' \<and> outbound d' = outbound d \<and> (moved \<longrightarrow> m) \<and> (\<not> m \<longrightarrow> events d' = events d) \<and>
     mset (map fst (connections d')) = mset (map fst (connections d))"
proof -
  obtain evs cs where p: "poll_events_all N (visit (connections d)) = Some (evs, cs)"
    and d': "m = (moved \<or> evs \<noteq> [])" "d' = d\<lparr>connections := cs, events := events d @ evs\<rparr>"
    using assms(1) by (auto simp: events_phase_def split: option.splits prod.splits)
  note k = poll_events_all_keys [OF p]
  have "grows N d d'" using d' k visit_distinct [OF assms(2)]
    by (intro grows_same [of _ _ evs "[]"]) (simp_all add: keys_distinct_def)
  with d' k visit_keys [OF assms(2), of "connections d"] show ?thesis by auto
qed


lemma pump_run:
  assumes "udp_ok U out" and "visit_ok visit" and "pump U N visit now d s = Some (Ok (r, d', s'))"
  shows "\<exists>mid k. grows N d mid \<and> dr_socket d' = dr_socket d \<and> outbound d' = drop k (outbound mid) \<and>
     k \<le> length (outbound mid) \<and> out s' = out s @ map outgoing_of (take k (outbound mid)) \<and>
     (\<exists>evs. events d' = events d @ evs) \<and> (keys_distinct d \<longrightarrow> keys_distinct d') \<and>
     (r = Ok False \<longrightarrow> k = 0 \<and> outbound mid = outbound d \<and> events d' = events d \<and>
        mset (map fst (connections d')) = mset (map fst (connections d)) \<and>
        (outbound d \<noteq> [] \<longrightarrow> (\<exists>s1. udp_send U (dr_socket d) (outbound d) s1 = (Ok 0, s'))) \<and>
        (\<exists>s1. udp_receive U (dr_socket d) RECEIVE_BATCH s = (Ok [], s1)))"
proof -
  obtain r1 d1 s1 where rl: "receive_loop U N now False d s = Some (Ok (r1, d1, s1))"
    using assms(3) by (auto simp: pump_def split: option.splits sum.splits prod.splits)
  have rc: "grows N d d1" "out s1 = out s"
    "r1 = Ok False \<Longrightarrow> d1 = d \<and> udp_receive U (dr_socket d) RECEIVE_BATCH s = (Ok [], s1)"
    using receive_loop_run [OF rl assms(1)] by (simp_all add: received_def)
  show ?thesis
  proof (cases r1)
    case (Inl e)
    then have "r = Err e" "d' = d1" "s' = s1" using assms(3) rl by (simp_all add: pump_def)
    then show ?thesis using rc(1,2) growsD [OF rc(1)] by (intro exI [of _ d1] exI [of _ 0]) simp
  next
    case (Inr m1)
    obtain m2 d2 where sp: "service_phase N visit now m1 d1 = Some (Ok (m2, d2))"
      using assms(3) rl Inr by (auto simp: pump_def split: option.splits sum.splits prod.splits)
    note sr = service_phase_run [OF sp assms(2)]
    obtain r3 k s3 where fl: "flush U (dr_socket d2) m2 (outbound d2) s1 = Ok (r3, drop k (outbound d2), s3)"
      "k \<le> length (outbound d2)" "out s3 = out s1 @ map outgoing_of (take k (outbound d2))"
      "\<forall>m. r3 = Ok m \<longrightarrow> m = (m2 \<or> 0 < k) \<and> (k < length (outbound d2) \<longrightarrow>
         (\<exists>s2. udp_send U (dr_socket d2) (drop k (outbound d2)) s2 = (Ok 0, s3)))"
      using flush_run [OF assms(1)] by blast
    have g: "grows N d d2" using sr grows_trans [OF rc(1)] by blast
    show ?thesis
    proof (cases r3)
      case (Inl e)
      then have "r = Err e" "d' = d2\<lparr>outbound := drop k (outbound d2)\<rparr>" "s' = s3"
        using assms(3) rl sp fl(1) \<open>r1 = Inr m1\<close> by (simp_all add: pump_def)
      then show ?thesis using g growsD [OF g] fl(2,3) rc(2)
        by (intro exI [of _ d2] exI [of _ k]) (simp add: keys_distinct_def)
    next
      case (Inr m3)
      obtain m4 where ep: "events_phase N visit m3 (d2\<lparr>outbound := drop k (outbound d2)\<rparr>) = Some (m4, d')"
        and r: "r = Ok m4" "s' = s3"
        using assms(3) rl sp fl(1) Inr \<open>r1 = Inr m1\<close> by (auto simp: pump_def split: option.splits prod.splits)
      note er = events_phase_run [OF ep assms(2)]
      have g': "grows N (d2\<lparr>outbound := drop k (outbound d2)\<rparr>) d'" using er by blast
      have ev: "\<exists>evs. events d' = events d @ evs" using growsD(2) [OF g] growsD(2) [OF g'] by auto
      have kd: "keys_distinct d \<longrightarrow> keys_distinct d'"
        using growsD(3) [OF g] growsD(3) [OF g'] by (simp add: keys_distinct_def)
      have so: "dr_socket d' = dr_socket d" using growsD(1) [OF g] growsD(1) [OF g'] by simp
      have idle: "k = 0 \<and> outbound d2 = outbound d \<and> events d' = events d \<and>
          mset (map fst (connections d')) = mset (map fst (connections d)) \<and>
          (outbound d \<noteq> [] \<longrightarrow> (\<exists>s1. udp_send U (dr_socket d) (outbound d) s1 = (Ok 0, s'))) \<and>
          (\<exists>s1. udp_receive U (dr_socket d) RECEIVE_BATCH s = (Ok [], s1))" if f: "r = Ok False"
      proof -
        have m: "\<not> m3" "\<not> m2" "\<not> m1" "k = 0" using f r(1) er fl(4) Inr sr by auto
        have "d1 = d" "udp_receive U (dr_socket d) RECEIVE_BATCH s = (Ok [], s1)"
          using rc(3) m(3) \<open>r1 = Inr m1\<close> by simp_all
        moreover have "outbound d2 = outbound d1" "events d2 = events d1"
          "mset (map fst (connections d2)) = mset (map fst (connections d1))" using sr m(2) by simp_all
        moreover have "events d' = events d2" "mset (map fst (connections d')) = mset (map fst (connections d2))"
          using er f r(1) by simp_all
        ultimately show ?thesis using m(4) fl(4) Inr r(2) growsD(1) [OF g] by simp
      qed
      show ?thesis using g so ev kd idle fl(2,3) rc(2) r(2) er
        by (intro exI [of _ d2] exI [of _ k] conjI impI) simp_all
    qed
  qed
qed

text \<open>
  An instance: a host with an inbox and an outbox that takes one datagram at a time, and an endpoint
  that answers every datagram with its bytes; a connection is the number of datagrams it has to send.
\<close>

definition demo_udp :: "((bytes \<times> ip_socket_address) list \<times> outgoing_datagram list) udp_ops" where
  "demo_udp = \<lparr>instance_network = Pair 1, create_udp_socket = (\<lambda>_ s. (Ok 2, s)), start_bind = (\<lambda>_ _ _ s. (Ok (), s)),
     finish_bind = (\<lambda>_ s. (Ok (), s)), socket_block = (\<lambda>_ s. s), socket_stream = (\<lambda>_ _ s. (Ok (3, 4), s)),
     socket_local_address = (\<lambda>_ s. (Ok (SockV4 \<lparr>v4_port = 9, v4_address = (127, 0, 0, 1)\<rparr>), s)),
     stream_receive = (\<lambda>_ _ (inbox, out). (Ok inbox, ([], out))), stream_check_send = (\<lambda>_ s. (Ok 1, s)),
     stream_send = (\<lambda>_ ds (inbox, out). (Ok (if ds = [] then 0 else 1), (inbox, out @ take 1 ds)))\<rparr>"

definition demo_noq :: "(unit, nat, nat, unit, unit, unit, unit) noq_ops" where
  "demo_noq = \<lparr>ep_connect = (\<lambda>_ _ _ _ ep. (Ok (7, 1), ep)),
     ep_handle = (\<lambda>_ remote data ep. (Some (Response \<lparr>size_of = length data, destination = remote\<rparr>), data, ep)),
     ep_accept = (\<lambda>_ _ ep. (Ok (8, 0), [], ep)), ep_handle_event = (\<lambda>_ _ ep. (None, ep)), is_drained = (\<lambda>_. True),
     co_handle_event = (\<lambda>_ c. c), co_poll_timeout = Pair None, co_handle_timeout = (\<lambda>_ c. c),
     co_poll_endpoint_events = Pair None,
     co_poll_transmit = (\<lambda>_ c. if c = 0 then ((None, []), 0)
       else ((Some \<lparr>size_of = 1, destination = SocketV4 (127, 0, 0, 1) 5\<rparr>, [1, 2]), c - 1)),
     co_poll = Pair None\<rparr>"

definition demo_driver :: "(unit, nat, nat) driver" where
  "demo_driver = \<lparr>dr_socket = \<lparr>us_incoming = 3, us_outgoing = 4, us_socket = 2, us_local = SocketV4 (127, 0, 0, 1) 9\<rparr>,
     endpoint = (), connections = [(7, 1)], events = [], outbound = []\<rparr>"

lemma demo_udp_ok: "udp_ok demo_udp snd"
  by (auto simp: udp_ok_def demo_udp_def neq_Nil_conv split: prod.split)

lemma demo_backlog: "backlog_finite demo_udp (length \<circ> fst)"
  by (auto simp: backlog_finite_def demo_udp_def)

lemma demo_noq_ok: "noq_ok demo_noq id"
  by (auto simp: noq_ok_def polls_finite_def demo_noq_def split: if_splits)

section \<open>Properties\<close>

text \<open>
  A pump always returns: when the host's backlog and the connections' queues are finite and no
  transmit is larger than its buffer, it neither runs forever nor panics, in every state and for
  every order in which the connections are visited.
\<close>

theorem pump_returns:
  assumes "udp_ok U out" and "backlog_finite U backlog" and "noq_ok N load"
  shows "\<exists>r d' s'. pump U N visit now d s = Some (Ok (r, d', s'))"
proof -
  obtain r1 d1 s1 where 1: "receive_loop U N now False d s = Some (Ok (r1, d1, s1))"
    using receive_loop_total [OF assms(2,3)] by blast
  show ?thesis
  proof (cases r1)
    case (Inl e)
    then show ?thesis by (simp add: pump_def 1)
  next
    case (Inr m)
    obtain sv cs where "service_all N now (visit (connections d1)) = Some (Ok (sv, cs))"
      using service_all_total [OF assms(3)] by blast
    then obtain m2 d2 where 2: "service_phase N visit now m d1 = Some (Ok (m2, d2))"
      by (cases "handle_endpoint_events N (sv_endpoint sv) (m \<or> sv_moved sv) (d1\<lparr>connections := cs,
        outbound := outbound d1 @ sv_transmits sv, events := events d1 @ sv_events sv\<rparr>)")
        (simp add: service_phase_def)
    obtain r3 q s3 where 3: "flush U (dr_socket d2) m2 (outbound d2) s1 = Ok (r3, q, s3)"
      using flush_run [OF assms(1)] by blast
    obtain evs cs' where 4: "poll_events_all N (visit (connections d2)) = Some (evs, cs')"
      using poll_events_all_total [OF assms(3)] by blast
    show ?thesis by (cases r3) (simp_all add: pump_def 1 2 3 4 Inr events_phase_def)
  qed
qed

theorem pump_returns_witness:
  "\<exists>r d' s'. pump demo_udp demo_noq rev 0 demo_driver ([([5], SockV4 \<lparr>v4_port = 6, v4_address = (1, 2, 3, 4)\<rparr>)], []) =
     Some (Ok (r, d', s'))"
  by (rule pump_returns [OF demo_udp_ok demo_backlog demo_noq_ok])


lemmas pump_eval = pump_def receive_loop.simps service_phase_def service_def fire_timer_def poll_all.simps
  transmit_loop.simps served_none_def served_plus_def events_phase_def flush.simps udp_send_def udp_receive_def
  as_usize_def outgoing_of_def handle_datagram_def queue_transmit_def slice_transmit_def
  demo_udp_def demo_noq_def demo_driver_def

text \<open>An answered datagram and a transmit of the connection, in that order.\<close>

lemma demo_pump:
  "pump demo_udp demo_noq (\<lambda>cs. cs) 0 demo_driver ([([5], SockV4 \<lparr>v4_port = 6, v4_address = (1, 2, 3, 4)\<rparr>)], []) =
     Some (Ok (Ok True, demo_driver\<lparr>connections := [(7, 0)]\<rparr>,
       ([], map outgoing_of [([5], SocketV4 (1, 2, 3, 4) 6), ([1], SocketV4 (127, 0, 0, 1) 5)])))"
  by (simp add: pump_eval)


text \<open>
  A pump that reports no progress made none and left none to make: nothing had been received,
  no event was added, no connection came or went, and what is still queued is what was queued, in
  which case the socket takes nothing at the moment.
\<close>

theorem idle_pump_is_idle:
  assumes "udp_ok U out" and "visit_ok visit" and "pump U N visit now d s = Some (Ok (Ok False, d', s'))"
  shows "outbound d' = outbound d \<and> events d' = events d \<and> out s' = out s \<and>
     mset (map fst (connections d')) = mset (map fst (connections d)) \<and>
     (outbound d \<noteq> [] \<longrightarrow> (\<exists>s1. udp_send U (dr_socket d) (outbound d) s1 = (Ok 0, s'))) \<and>
     (\<exists>s1. udp_receive U (dr_socket d) RECEIVE_BATCH s = (Ok [], s1))"
  using pump_run [OF assms] by auto

theorem idle_pump_is_idle_witness:
  "pump demo_udp demo_noq (\<lambda>cs. cs) 0 (demo_driver\<lparr>connections := [(7, 0)]\<rparr>) ([], []) =
     Some (Ok (Ok False, demo_driver\<lparr>connections := [(7, 0)]\<rparr>, ([], []))) \<and>
   (\<exists>s1. udp_receive demo_udp (dr_socket demo_driver) RECEIVE_BATCH ([], []) = (Ok [], s1))"
proof -
  have v: "visit_ok (\<lambda>cs. cs)" by (simp add: visit_ok_def)
  have p: "pump demo_udp demo_noq (\<lambda>cs. cs) 0 (demo_driver\<lparr>connections := [(7, 0)]\<rparr>) ([], []) =
      Some (Ok (Ok False, demo_driver\<lparr>connections := [(7, 0)]\<rparr>, ([], [])))" by (simp add: pump_eval)
  from idle_pump_is_idle [OF demo_udp_ok v p] p show ?thesis by simp
qed



end
