(* ===== verification/Quic_Drive.thy ===== *)
theory Quic_Drive
  imports Quic_Driver
begin

text \<open>
  Driving two endpoints of one process against each other: the loop \<open>drive\<close> of the QUIC example
  (\<^verbatim>\<open>src/examples/quic-loopback/src/main.rs\<close>) and of the native benchmark
  (\<^verbatim>\<open>src/bench/quic-native-bench/src/main.rs\<close>), which differ in how a driver is pumped, in how
  the program waits and in their messages. These are the fields of an arena, the last two of
  them what a missing connection is reported with. The world \<open>'s\<close> is the
  state of the host; a condition sees both drivers, a state of its own and the world.
\<close>

section \<open>Outcomes\<close>

text \<open>A finished step of the program: a value, the end of the process, or a panic.\<close>

datatype 'a outcome = Done 'a | Exits nat string | Panics string

fun outcome_of :: "'a or_panic \<Rightarrow> 'a outcome" where
  "outcome_of (Inl p) = Panics p"
| "outcome_of (Inr v) = Done v"

fun and_then :: "'a outcome \<Rightarrow> ('a \<Rightarrow> 'b outcome option) \<Rightarrow> 'b outcome option" where
  "and_then (Done v) k = k v"
| "and_then (Exits n m) k = Some (Exits n m)"
| "and_then (Panics p) k = Some (Panics p)"

text \<open>One step after another; a step that does not return has no value.\<close>

definition chain :: "'a outcome option \<Rightarrow> ('a \<Rightarrow> 'b outcome option) \<Rightarrow> 'b outcome option" where
  "chain r k = Option.bind r (\<lambda>r. and_then r k)"

lemma chain_simps [simp]:
  "chain None k = None"
  "chain (Some (Done v)) k = k v"
  "chain (Some (Exits n m)) k = Some (Exits n m)"
  "chain (Some (Panics p)) k = Some (Panics p)"
  by (simp_all add: chain_def)

lemma and_then_total: "(\<And>v. r = Done v \<Longrightarrow> \<exists>y. k v = Some y) \<Longrightarrow> \<exists>y. and_then r k = Some y"
  by (cases r) auto

lemma and_then_Done: "and_then r k = Some (Done y) \<longleftrightarrow> (\<exists>v. r = Done v \<and> k v = Some (Done y))"
  by (cases r) auto

lemma chain_Done: "chain r k = Some (Done y) \<longleftrightarrow> (\<exists>v. r = Some (Done v) \<and> k v = Some (Done y))"
  by (cases r) (simp_all add: chain_def and_then_Done)

section \<open>Pumping until nothing moves\<close>

type_synonym ('d, 's) pumping = "'d \<Rightarrow> 's \<Rightarrow> (bool \<times> 'd \<times> 's) outcome option"

text \<open>\<open>while driver.pump() {}\<close>\<close>

partial_function (option) pump_while :: "('d, 's) pumping \<Rightarrow> 'd \<Rightarrow> 's \<Rightarrow> ('d \<times> 's) outcome option" where
  "pump_while f d s =
     (case f d s of
        None \<Rightarrow> None
      | Some (Exits n m) \<Rightarrow> Some (Exits n m)
      | Some (Panics p) \<Rightarrow> Some (Panics p)
      | Some (Done (moved, d, s)) \<Rightarrow> if moved then pump_while f d s else Some (Done (d, s)))"

text \<open>One turn of the inner loop of \<open>drive\<close>: first the client is pumped, then the server.\<close>

definition pump_pair :: "('d, 's) pumping \<Rightarrow> ('d, 's) pumping \<Rightarrow> ('d \<times> 'd, 's) pumping" where
  "pump_pair f g p s =
     (case p of (client, server) \<Rightarrow>
        chain (f client s) (\<lambda>(m1, client, s).
        chain (g server s) (\<lambda>(m2, server, s).
          Some (Done (m1 \<or> m2, (client, server), s)))))"

section \<open>Driving\<close>

record ('d, 's) arena =
  ar_client :: "('d, 's) pumping"
  ar_server :: "('d, 's) pumping"
  ar_clock :: "'s \<Rightarrow> instant \<times> 's"
  ar_wait :: "'d \<times> 'd \<Rightarrow> 's \<Rightarrow> ('d \<times> 'd) \<times> 's"
  ar_stalled :: string
  ar_no_client :: string
  ar_no_server :: string

definition settle_both :: "('d, 's) arena \<Rightarrow> 'd \<times> 'd \<Rightarrow> 's \<Rightarrow> (('d \<times> 'd) \<times> 's) outcome option" where
  "settle_both R = pump_while (pump_pair (ar_client R) (ar_server R))"

definition STALL_GUARD :: nat where "STALL_GUARD = 30 * 10 ^ 9"

type_synonym ('x, 'p, 's, 't) closure = "'x \<Rightarrow> 'p \<Rightarrow> 's \<Rightarrow> ('t option \<times> 'x \<times> 'p \<times> 's) outcome option"

partial_function (option) drive_loop :: "('d, 's) arena \<Rightarrow> ('x, 'd \<times> 'd, 's, 't) closure \<Rightarrow> instant \<Rightarrow> 'x \<Rightarrow> 'd \<times> 'd \<Rightarrow> 's
    \<Rightarrow> ('t \<times> 'x \<times> ('d \<times> 'd) \<times> 's) outcome option" where
  "drive_loop R predicate deadline env p s =
     (case settle_both R p s of
        None \<Rightarrow> None
      | Some (Exits n m) \<Rightarrow> Some (Exits n m)
      | Some (Panics e) \<Rightarrow> Some (Panics e)
      | Some (Done (p, s)) \<Rightarrow>
          (case predicate env p s of
             None \<Rightarrow> None
           | Some (Exits n m) \<Rightarrow> Some (Exits n m)
           | Some (Panics e) \<Rightarrow> Some (Panics e)
           | Some (Done (Some v, env, p, s)) \<Rightarrow> Some (Done (v, env, p, s))
           | Some (Done (None, env, p, s)) \<Rightarrow>
               (case ar_clock R s of (now, s) \<Rightarrow>
                  if now < deadline
                  then (case ar_wait R p s of (p, s) \<Rightarrow> drive_loop R predicate deadline env p s)
                  else Some (Panics (ar_stalled R)))))"

definition drive :: "('d, 's) arena \<Rightarrow> ('x, 'd \<times> 'd, 's, 't) closure \<Rightarrow> 'x \<Rightarrow> 'd \<times> 'd \<Rightarrow> 's
    \<Rightarrow> ('t \<times> 'x \<times> ('d \<times> 'd) \<times> 's) outcome option" where
  "drive R predicate env p s = (case ar_clock R s of (now, s) \<Rightarrow> drive_loop R predicate (now + STALL_GUARD) env p s)"

section \<open>Laws\<close>

text \<open>
  A step returns and does not turn the clock back. \<open>clk\<close> reads the clock off the world.
\<close>

definition advances :: "('s \<Rightarrow> instant) \<Rightarrow> 's \<Rightarrow> ('a \<Rightarrow> 's) \<Rightarrow> 'a outcome option \<Rightarrow> bool" where
  "advances clk s world r \<longleftrightarrow> (\<exists>out. r = Some out \<and> (\<forall>v. out = Done v \<longrightarrow> clk s \<le> clk (world v)))"

lemma advancesI [intro]:
  "r = Some (Panics e) \<Longrightarrow> advances clk s world r"
  "r = Some (Exits n m) \<Longrightarrow> advances clk s world r"
  "r = Some (Done v) \<Longrightarrow> clk s \<le> clk (world v) \<Longrightarrow> advances clk s world r"
  by (simp_all add: advances_def)

lemma advances_Some [simp]:
  "advances clk s world (Some (Panics e))"
  "advances clk s world (Some (Exits n m))"
  "advances clk s world (Some (Done v)) \<longleftrightarrow> clk s \<le> clk (world v)"
  "\<not> advances clk s world None"
  by (simp_all add: advances_def)

lemma advancesE:
  assumes "advances clk s world r"
  obtains (panicked) e where "r = Some (Panics e)" | (exited) n m where "r = Some (Exits n m)"
    | (returned) v where "r = Some (Done v)" "clk s \<le> clk (world v)"
proof -
  obtain out where out: "r = Some out" "\<forall>v. out = Done v \<longrightarrow> clk s \<le> clk (world v)" using assms by (auto simp: advances_def)
  then show thesis using that by (cases out) auto
qed

lemma advances_chain:
  assumes "advances clk s w1 r" and "\<And>v. r = Some (Done v) \<Longrightarrow> advances clk (w1 v) world (k v)"
  shows "advances clk s world (chain r k)"
  using assms(1)
proof (cases rule: advancesE)
  case (returned v)
  show ?thesis using assms(2) [OF returned(1)]
  proof (cases rule: advancesE)
    case (returned v')
    then show ?thesis using \<open>r = Some (Done v)\<close> \<open>clk s \<le> clk (w1 v)\<close> by simp
  qed (simp_all add: returned(1))
qed simp_all

text \<open>What a value of \<open>drive\<close> tells: the condition yielded it, in a state that has every property of the
  condition's own state that the condition keeps.\<close>

lemma drive_loop_Done:
  assumes "drive_loop R predicate deadline env p s = Some out" and "I env"
    and keeps: "\<And>x p s o' x1 p1 s1. I x \<Longrightarrow> predicate x p s = Some (Done (o', x1, p1, s1)) \<Longrightarrow> I x1"
  shows "\<forall>v x' p' s'. out = Done (v, x', p', s') \<longrightarrow>
     (\<exists>x0 p0 s0. I x0 \<and> predicate x0 p0 s0 = Some (Done (Some v, x', p', s')))"
proof -
  let ?P = "\<lambda>R' predicate' deadline env p s out. predicate' = predicate \<longrightarrow> I env \<longrightarrow> (\<forall>v x' p' s'. out = Done (v, x', p', s') \<longrightarrow>
     (\<exists>x0 p0 s0. I x0 \<and> predicate x0 p0 s0 = Some (Done (Some v, x', p', s'))))"
  have "?P R predicate deadline env p s out"
  proof (rule drive_loop.raw_induct [OF _ assms(1), where P = ?P], goal_cases)
    case (1 loop R' predicate' deadline env p s out)
    show ?case
    proof (intro impI)
      assume e: "predicate' = predicate" and i: "I env"
      show "\<forall>v x' p' s'. out = Done (v, x', p', s') \<longrightarrow>
          (\<exists>x0 p0 s0. I x0 \<and> predicate x0 p0 s0 = Some (Done (Some v, x', p', s')))"
      proof (cases "\<exists>p1 s1 x2 p2 s2. settle_both R' p s = Some (Done (p1, s1)) \<and> predicate env p1 s1 = Some (Done (None, x2, p2, s2))")
        case True
        then obtain p1 s1 x2 p2 s2 where a: "settle_both R' p s = Some (Done (p1, s1))"
          "predicate env p1 s1 = Some (Done (None, x2, p2, s2))" by blast
        then show ?thesis using 1 e keeps [OF i a(2)] by (auto split: prod.splits if_splits)
      next
        case False
        then show ?thesis using 1(2) e i by (auto split: option.splits outcome.splits prod.splits)
      qed
    qed
  qed
  then show ?thesis using assms(2) by blast
qed

lemma drive_Done:
  assumes "drive R predicate env p s = Some (Done (v, x', p', s'))" and "I env"
    and "\<And>x p s o' x1 p1 s1. I x \<Longrightarrow> predicate x p s = Some (Done (o', x1, p1, s1)) \<Longrightarrow> I x1"
  shows "\<exists>x0 p0 s0. I x0 \<and> predicate x0 p0 s0 = Some (Done (Some v, x', p', s'))"
proof -
  obtain now s1 where i: "ar_clock R s = (now, s1)" by fastforce
  then have "drive_loop R predicate (now + STALL_GUARD) env p s1 = Some (Done (v, x', p', s'))"
    using assms(1) by (simp add: drive_def)
  from drive_loop_Done [OF this, where I = I] assms(2,3) show ?thesis by blast
qed

section \<open>What makes driving end\<close>

text \<open>
  The contract of a rig that drives: pumping comes to rest, alone and together, reading the clock
  gives the time, and time passes while the program waits.
\<close>

locale driving =
  fixes arena_of :: "'g \<Rightarrow> ('d, 's) arena"
    and runs :: "'g \<Rightarrow> ('s \<Rightarrow> instant) \<Rightarrow> bool"
  assumes client_rests: "runs G clk \<Longrightarrow> advances clk s snd (pump_while (ar_client (arena_of G)) d s)"
    and server_rests: "runs G clk \<Longrightarrow> advances clk s snd (pump_while (ar_server (arena_of G)) d s)"
    and both_rest: "runs G clk \<Longrightarrow> advances clk s snd (settle_both (arena_of G) p s)"
    and reads_clock: "runs G clk \<Longrightarrow> ar_clock (arena_of G) s = (now, s') \<Longrightarrow> now = clk s \<and> clk s \<le> clk s'"
    and passes: "runs G clk \<Longrightarrow> ar_wait (arena_of G) p s = (p', s') \<Longrightarrow> clk s < clk s'"
begin

lemma drive_loop_ends:
  assumes "runs G clk" and cond: "\<And>x p s. advances clk s (snd \<circ> snd \<circ> snd) (predicate x p s)"
  shows "advances clk s (snd \<circ> snd \<circ> snd) (drive_loop (arena_of G) predicate deadline x p s)"
proof (induction "deadline - clk s" arbitrary: x p s rule: less_induct)
  case less
  let ?R = "arena_of G"
  show ?case
  proof (cases rule: advancesE [OF both_rest [OF assms(1), of s p]])
    case (3 ps)
    obtain p1 s1 where a: "settle_both ?R p s = Some (Done (p1, s1))" "clk s \<le> clk s1" using 3 by (cases ps) simp
    show ?thesis
    proof (cases rule: advancesE [OF cond [of s1 x p1]])
      case (3 r)
      obtain t x2 p2 s2 where b: "predicate x p1 s1 = Some (Done (t, x2, p2, s2))" "clk s1 \<le> clk s2"
        using 3 by (cases r) simp
      obtain now s3 where c: "ar_clock ?R s2 = (now, s3)" by fastforce
      obtain p4 s4 where w: "ar_wait ?R p2 s3 = (p4, s4)" by fastforce
      have le: "now = clk s2" "clk s2 \<le> clk s3" "clk s3 < clk s4"
        using reads_clock [OF assms(1) c] passes [OF assms(1) w] by simp_all
      show ?thesis
      proof (cases "t = None \<and> now < deadline")
        case True
        have "deadline - clk s4 < deadline - clk s" using a(2) b(2) le True by linarith
        from less [OF this, of x2 p4] have "advances clk s4 (snd \<circ> snd \<circ> snd) (drive_loop ?R predicate deadline x2 p4 s4)" .
        then have "advances clk s (snd \<circ> snd \<circ> snd) (drive_loop ?R predicate deadline x2 p4 s4)"
        proof (cases rule: advancesE)
          case (returned v)
          then show ?thesis using a(2) b(2) le by simp
        qed simp_all
        then show ?thesis by (subst drive_loop.simps) (simp add: a(1) b(1) c w True)
      next
        case False
        then show ?thesis
          by (subst drive_loop.simps) (use a b(2) le in \<open>auto simp: b(1) c split: option.split\<close>)
      qed
    qed (subst drive_loop.simps, simp add: a(1))+
  qed (subst drive_loop.simps, simp)+
qed

lemma drive_ends:
  assumes "runs G clk" and "\<And>x p s. advances clk s (snd \<circ> snd \<circ> snd) (predicate x p s)"
  shows "advances clk s (snd \<circ> snd \<circ> snd) (drive (arena_of G) predicate x p s)"
proof -
  obtain now s1 where c: "ar_clock (arena_of G) s = (now, s1)" by fastforce
  have le: "clk s \<le> clk s1" using reads_clock [OF assms(1) c] by simp
  have "advances clk s1 (snd \<circ> snd \<circ> snd) (drive_loop (arena_of G) predicate (now + STALL_GUARD) x p s1)"
    by (rule drive_loop_ends [OF assms])
  then show ?thesis by (cases rule: advancesE) (use le c in \<open>simp_all add: drive_def\<close>)
qed

end

end
