(* ===== verification/Quic_Loopback.thy ===== *)
theory Quic_Loopback
  imports Quic_Drive
begin

text \<open>
  The loops of the QUIC example's \<^verbatim>\<open>main.rs\<close> around the driver (\<^verbatim>\<open>src/examples/quic-loopback/src/main.rs\<close>):
  reading a stream, waiting for a driver or for two, and driving them until a condition holds. The
  clock and the host's \<open>poll\<close> are parameters. A condition is a closure: it sees the driver and a state
  of its own, may change both, and may end the process.
\<close>

section \<open>Streams\<close>

datatype next_chunk = Chunk bytes | Finished | Read_Error

text \<open>
  \<open>recv_stream(id).read(ordered)\<close> may refuse; else chunks are taken until there is none now (an
  error) or the stream has finished, and \<open>finalize\<close> gives the credit back.
\<close>

record ('co, 'rd) recv_ops =
  recv_read :: "u64 \<Rightarrow> bool \<Rightarrow> 'co \<Rightarrow> 'rd option \<times> 'co"
  chunks_next :: "'rd \<Rightarrow> next_chunk \<times> 'rd"
  chunks_finalize :: "'rd \<Rightarrow> 'co \<Rightarrow> 'co"

partial_function (option) read_chunks :: "('co, 'rd) recv_ops \<Rightarrow> bytes \<Rightarrow> 'rd \<Rightarrow> (bytes \<times> bool \<times> 'rd) option" where
  "read_chunks S acc rd =
     (case chunks_next S rd of
        (Chunk b, rd) \<Rightarrow> read_chunks S (acc @ b) rd
      | (Finished, rd) \<Rightarrow> Some (acc, True, rd)
      | (Read_Error, rd) \<Rightarrow> Some (acc, False, rd))"

definition read_stream :: "('co, 'rd) recv_ops \<Rightarrow> u64 \<Rightarrow> bytes \<Rightarrow> 'co \<Rightarrow> (bool \<times> bytes \<times> 'co) option" where
  "read_stream S ident into c =
     (case recv_read S ident True c of
        (None, c) \<Rightarrow> Some (False, into, c)
      | (Some rd, c) \<Rightarrow>
          (case read_chunks S into rd of
             None \<Rightarrow> None
           | Some (into, fin, rd) \<Rightarrow> Some (fin, into, chunks_finalize S rd c)))"

partial_function (option) count_chunks :: "('co, 'rd) recv_ops \<Rightarrow> nat \<Rightarrow> 'rd \<Rightarrow> (nat \<times> bool \<times> 'rd) option" where
  "count_chunks S n rd =
     (case chunks_next S rd of
        (Chunk b, rd) \<Rightarrow> count_chunks S (n + length b) rd
      | (Finished, rd) \<Rightarrow> Some (n, True, rd)
      | (Read_Error, rd) \<Rightarrow> Some (n, False, rd))"

definition drain_stream :: "('co, 'rd) recv_ops \<Rightarrow> u64 \<Rightarrow> 'co \<Rightarrow> ((nat \<times> bool) \<times> 'co) option" where
  "drain_stream S ident c =
     (case recv_read S ident False c of
        (None, c) \<Rightarrow> Some ((0, False), c)
      | (Some rd, c) \<Rightarrow>
          (case count_chunks S 0 rd of
             None \<Rightarrow> None
           | Some (n, fin, rd) \<Rightarrow> Some ((n, fin), chunks_finalize S rd c)))"

section \<open>Waiting\<close>

record 's clock_ops =
  instant_now :: "'s \<Rightarrow> instant \<times> 's"
  poll_block :: "pollable list \<Rightarrow> 's \<Rightarrow> 's"

fun poll_timeouts :: "('ep, 'co, 'ev, 'cev, 'eev, 'inc, 'cfg) noq_ops \<Rightarrow> (connection_handle \<times> 'co) list \<Rightarrow>
    instant list \<times> (connection_handle \<times> 'co) list" where
  "poll_timeouts N [] = ([], [])"
| "poll_timeouts N ((h, c) # cs) =
     (case co_poll_timeout N c of (t, c) \<Rightarrow>
        (case poll_timeouts N cs of (ts, cs) \<Rightarrow>
           ((case t of None \<Rightarrow> ts | Some x \<Rightarrow> x # ts), (h, c) # cs)))"

text \<open>\<open>Iterator::min\<close>.\<close>

definition min_opt :: "nat list \<Rightarrow> nat option" where
  "min_opt ts = (case ts of [] \<Rightarrow> None | t # ts \<Rightarrow> Some (foldl min t ts))"

definition next_deadline :: "('ep, 'co, 'ev, 'cev, 'eev, 'inc, 'cfg) noq_ops \<Rightarrow>
    ((connection_handle \<times> 'co) list \<Rightarrow> (connection_handle \<times> 'co) list) \<Rightarrow> ('ep, 'co, 'ev) driver \<Rightarrow>
    instant option \<times> ('ep, 'co, 'ev) driver" where
  "next_deadline N visit d =
     (case poll_timeouts N (visit (connections d)) of (ts, cs) \<Rightarrow> (min_opt ts, d\<lparr>connections := cs\<rparr>))"

definition socket_pollables :: "('ep, 'co, 'ev) driver \<Rightarrow> pollable list" where
  "socket_pollables d = (if has_outbound d then [outgoing_pollable (dr_socket d)] else [])"

text \<open>\<open>saturating_duration_since\<close> is subtraction on the naturals; \<open>as_nanos() as u64\<close> keeps 64 bits.\<close>

definition deadline_timer :: "instant \<Rightarrow> instant \<Rightarrow> pollable" where
  "deadline_timer deadline now = Timer (of_nat (deadline - now))"

definition wait_one :: "'s clock_ops \<Rightarrow> ('ep, 'co, 'ev, 'cev, 'eev, 'inc, 'cfg) noq_ops \<Rightarrow>
    ((connection_handle \<times> 'co) list \<Rightarrow> (connection_handle \<times> 'co) list) \<Rightarrow>
    ('ep, 'co, 'ev) driver \<Rightarrow> 's \<Rightarrow> pollable list \<times> ('ep, 'co, 'ev) driver \<times> 's" where
  "wait_one K N visit d s =
     (let ps = incoming_pollable (dr_socket d) # socket_pollables d
      in (case next_deadline N visit d of
           (None, d) \<Rightarrow> (ps, d, poll_block K ps s)
         | (Some deadline, d) \<Rightarrow>
             (case instant_now K s of (now, s) \<Rightarrow>
                let ps = ps @ [deadline_timer deadline now]
                in (ps, d, poll_block K ps s))))"

definition wait_both :: "'s clock_ops \<Rightarrow> ('ep, 'co, 'ev, 'cev, 'eev, 'inc, 'cfg) noq_ops \<Rightarrow>
    ((connection_handle \<times> 'co) list \<Rightarrow> (connection_handle \<times> 'co) list) \<Rightarrow>
    ('ep, 'co, 'ev) driver \<Rightarrow> ('ep, 'co, 'ev) driver \<Rightarrow> 's \<Rightarrow>
    pollable list \<times> ('ep, 'co, 'ev) driver \<times> ('ep, 'co, 'ev) driver \<times> 's" where
  "wait_both K N visit a b s =
     (let ps = [incoming_pollable (dr_socket a), incoming_pollable (dr_socket b)] @
            socket_pollables a @ socket_pollables b
      in (case instant_now K s of (now, s) \<Rightarrow>
           (case next_deadline N visit a of (da, a) \<Rightarrow>
             (case next_deadline N visit b of (db, b) \<Rightarrow>
               (case min_opt (List.map_filter id [da, db]) of
                  None \<Rightarrow> (ps, a, b, poll_block K ps s)
                | Some deadline \<Rightarrow>
                    let ps = ps @ [deadline_timer deadline now]
                    in (ps, a, b, poll_block K ps s))))))"

section \<open>Driving\<close>

text \<open>What the program runs on: the sockets, the clock, noq-proto, and the order of hash maps.\<close>

record ('s, 'ep, 'co, 'ev, 'cev, 'eev, 'inc, 'cfg) rig =
  rig_udp :: "'s udp_ops"
  rig_clock :: "'s clock_ops"
  rig_noq :: "('ep, 'co, 'ev, 'cev, 'eev, 'inc, 'cfg) noq_ops"
  rig_visit :: "(connection_handle \<times> 'co) list \<Rightarrow> (connection_handle \<times> 'co) list"

text \<open>\<open>while driver.pump().expect("pump") {}\<close>; every pump reads the clock first.\<close>

partial_function (option) pump_until_idle ::
    "('s, 'ep, 'co, 'ev, 'cev, 'eev, 'inc, 'cfg) rig \<Rightarrow>
     ('ep, 'co, 'ev) driver \<Rightarrow> 's \<Rightarrow> (('ep, 'co, 'ev) driver \<times> 's) or_panic option" where
  "pump_until_idle G d s =
     (case instant_now (rig_clock G) s of (now, s) \<Rightarrow>
        (case pump (rig_udp G) (rig_noq G) (rig_visit G) now d s of
           None \<Rightarrow> None
         | Some (Inl p) \<Rightarrow> Some (Panic p)
         | Some (Inr (Inl e, d, s)) \<Rightarrow> Some (Panic ''pump'')
         | Some (Inr (Inr moved, d, s)) \<Rightarrow>
             if moved then pump_until_idle G d s else Some (Ok (d, s))))"

text \<open>A condition that loops for ever gives \<open>None\<close>.\<close>

type_synonym ('x, 'd, 't) condition = "'x \<Rightarrow> 'd \<Rightarrow> ('t option outcome \<times> 'x \<times> 'd) option"

partial_function (option) drive_one_loop ::
    "('s, 'ep, 'co, 'ev, 'cev, 'eev, 'inc, 'cfg) rig \<Rightarrow>
     ('x, ('ep, 'co, 'ev) driver, 't) condition \<Rightarrow> instant \<Rightarrow> 'x \<Rightarrow> ('ep, 'co, 'ev) driver \<Rightarrow> 's \<Rightarrow>
     ('t \<times> 'x \<times> ('ep, 'co, 'ev) driver \<times> 's) outcome option" where
  "drive_one_loop G predicate deadline env d s =
     (case pump_until_idle G d s of
        None \<Rightarrow> None
      | Some (Inl p) \<Rightarrow> Some (Panics p)
      | Some (Inr (d, s)) \<Rightarrow>
          (case predicate env d of
             None \<Rightarrow> None
           | Some (Exits n m, env, d) \<Rightarrow> Some (Exits n m)
           | Some (Panics p, env, d) \<Rightarrow> Some (Panics p)
           | Some (Done (Some v), env, d) \<Rightarrow> Some (Done (v, env, d, s))
           | Some (Done None, env, d) \<Rightarrow>
               (case instant_now (rig_clock G) s of (now, s) \<Rightarrow>
                  if now < deadline
                  then (case wait_one (rig_clock G) (rig_noq G) (rig_visit G) d s of (ps, d, s) \<Rightarrow>
                    drive_one_loop G predicate deadline env d s)
                  else Some (Panics ''interop endpoint stalled''))))"

definition drive_one ::
    "('s, 'ep, 'co, 'ev, 'cev, 'eev, 'inc, 'cfg) rig \<Rightarrow>
     ('x, ('ep, 'co, 'ev) driver, 't) condition \<Rightarrow> 'x \<Rightarrow> ('ep, 'co, 'ev) driver \<Rightarrow> 's \<Rightarrow>
     ('t \<times> 'x \<times> ('ep, 'co, 'ev) driver \<times> 's) outcome option" where
  "drive_one G predicate env d s =
     (case instant_now (rig_clock G) s of (now, s) \<Rightarrow> drive_one_loop G predicate (now + STALL_GUARD) env d s)"

text \<open>
  The two-driver loop \<open>drive\<close> of the smoke test and the benchmark: every pump reads the clock and its
  error is a panic.
\<close>

definition pump_now :: "('s, 'ep, 'co, 'ev, 'cev, 'eev, 'inc, 'cfg) rig \<Rightarrow> string \<Rightarrow> (('ep, 'co, 'ev) driver, 's) pumping" where
  "pump_now G expected d s =
     (case instant_now (rig_clock G) s of (now, s) \<Rightarrow>
        (case pump (rig_udp G) (rig_noq G) (rig_visit G) now d s of
           None \<Rightarrow> None
         | Some (Inl p) \<Rightarrow> Some (Panics p)
         | Some (Inr (Inl e, d, s)) \<Rightarrow> Some (Panics expected)
         | Some (Inr (Inr moved, d, s)) \<Rightarrow> Some (Done (moved, d, s))))"

definition loopback_arena :: "('s, 'ep, 'co, 'ev, 'cev, 'eev, 'inc, 'cfg) rig \<Rightarrow> (('ep, 'co, 'ev) driver, 's) arena" where
  "loopback_arena G = \<lparr>ar_client = pump_now G ''client pump'', ar_server = pump_now G ''server pump'',
     ar_clock = instant_now (rig_clock G),
     ar_wait = (\<lambda>(client, server) s.
       case wait_both (rig_clock G) (rig_noq G) (rig_visit G) client server s of (ps, client, server, s) \<Rightarrow> ((client, server), s)),
     ar_stalled = ''smoke test stalled'', ar_no_client = ''client conn'', ar_no_server = ''server conn''\<rparr>"

section \<open>Laws\<close>

text \<open>The chunks a reader gives, until it has no more now or the stream has finished.\<close>

inductive gives :: "('co, 'rd) recv_ops \<Rightarrow> 'rd \<Rightarrow> bytes list \<Rightarrow> bool \<Rightarrow> 'rd \<Rightarrow> bool" for S where
  gives_fin: "chunks_next S rd = (Finished, rd') \<Longrightarrow> gives S rd [] True rd'"
| gives_err: "chunks_next S rd = (Read_Error, rd') \<Longrightarrow> gives S rd [] False rd'"
| gives_chunk: "chunks_next S rd = (Chunk b, rd1) \<Longrightarrow> gives S rd1 bs fin rd' \<Longrightarrow> gives S rd (b # bs) fin rd'"

lemma read_chunks_gives:
  "gives S rd bs fin rd' \<Longrightarrow> read_chunks S acc rd = Some (acc @ concat bs, fin, rd')"
  by (induction arbitrary: acc rule: gives.induct) (subst read_chunks.simps, simp)+

lemma count_chunks_gives:
  "gives S rd bs fin rd' \<Longrightarrow> count_chunks S n rd = Some (n + length (concat bs), fin, rd')"
  by (induction arbitrary: n rule: gives.induct) (subst count_chunks.simps, simp)+

lemma foldl_min_le: "foldl min (t::nat) ts \<le> t \<and> (\<forall>x \<in> set ts. foldl min t ts \<le> x)"
proof (induction ts arbitrary: t)
  case (Cons a ts)
  have "foldl min (min t a) ts \<le> min t a \<and> (\<forall>x \<in> set ts. foldl min (min t a) ts \<le> x)" by (rule Cons.IH)
  then show ?case by auto
qed simp

lemma foldl_min_in: "foldl min (t::nat) ts \<in> insert t (set ts)"
proof (induction ts arbitrary: t)
  case (Cons a ts)
  show ?case using Cons.IH [of "min t a"] by (auto simp: min_def split: if_splits)
qed simp

lemma min_opt_least:
  "min_opt ts = (if ts = [] then None else Some (Min (set ts)))"
proof (cases ts)
  case (Cons t us)
  have "Min (set ts) = foldl min t us"
    by (rule Min_eqI) (use Cons foldl_min_le [of t us] foldl_min_in [of t us] in auto)
  with Cons show ?thesis by (simp add: min_opt_def)
qed (simp add: min_opt_def)

text \<open>The timers of the connections.\<close>

definition deadlines :: "('ep, 'co, 'ev, 'cev, 'eev, 'inc, 'cfg) noq_ops \<Rightarrow> (connection_handle \<times> 'co) list \<Rightarrow> instant set" where
  "deadlines N cs = {t. \<exists>p \<in> set cs. fst (co_poll_timeout N (snd p)) = Some t}"

lemma poll_timeouts_set: "set (fst (poll_timeouts N cs)) = deadlines N cs"
proof (induction cs)
  case (Cons a cs)
  obtain h c where a: "a = (h, c)" by fastforce
  obtain t c' where t: "co_poll_timeout N c = (t, c')" by fastforce
  obtain ts cs' where r: "poll_timeouts N cs = (ts, cs')" by fastforce
  show ?case using Cons.IH a t r by (cases t) (auto simp: deadlines_def)
qed (simp add: deadlines_def)

lemma next_deadline_least:
  assumes "visit_ok visit"
  shows "fst (next_deadline N visit d) =
     (if deadlines N (connections d) = {} then None else Some (Min (deadlines N (connections d))))"
proof -
  have "set (visit (connections d)) = set (connections d)"
    using assms unfolding visit_ok_def by (metis set_mset_mset)
  then have "set (fst (poll_timeouts N (visit (connections d)))) = deadlines N (connections d)"
    by (simp add: poll_timeouts_set) (simp add: deadlines_def)
  moreover have "fst (next_deadline N visit d) = min_opt (fst (poll_timeouts N (visit (connections d))))"
    by (simp add: next_deadline_def split: prod.split)
  ultimately show ?thesis by (simp add: min_opt_least flip: set_empty)
qed

lemma unat_of_nat_le: "unat (of_nat n :: u64) \<le> n"
  by (simp add: unsigned_of_nat take_bit_nat_less_eq_self)

lemma pump_until_idle_idle:
  assumes "pump_until_idle G d s = Some res"
  shows "\<forall>d' s'. res = Ok (d', s') \<longrightarrow> (\<exists>now d1 s1. pump (rig_udp G) (rig_noq G) (rig_visit G) now d1 s1 = Some (Ok (Ok False, d', s')))"
proof (rule pump_until_idle.raw_induct [OF _ assms, where P = "\<lambda>G d s res.
    \<forall>d' s'. res = Ok (d', s') \<longrightarrow> (\<exists>now d1 s1. pump (rig_udp G) (rig_noq G) (rig_visit G) now d1 s1 = Some (Ok (Ok False, d', s')))"],
    goal_cases)
  case (1 loop G d s res)
  obtain now s1 where i: "instant_now (rig_clock G) s = (now, s1)" by fastforce
  show ?case
  proof (cases "\<exists>d2 s2. pump (rig_udp G) (rig_noq G) (rig_visit G) now d s1 = Some (Ok (Ok True, d2, s2))")
    case True
    then show ?thesis using 1 i by auto
  next
    case False
    have "pump (rig_udp G) (rig_noq G) (rig_visit G) now d s1 = Some (Ok (Ok False, d', s'))" if "res = Ok (d', s')" for d' s'
      using 1(2) i False that by (auto split: option.splits sum.splits if_splits)
    then show ?thesis by blast
  qed
qed

text \<open>
  What the program relies on to end: pumping comes to rest, and time passes while it waits. \<open>clk\<close>
  reads the clock off the host's state.
\<close>

definition settles :: "('s, 'ep, 'co, 'ev, 'cev, 'eev, 'inc, 'cfg) rig \<Rightarrow> ('s \<Rightarrow> instant) \<Rightarrow> bool" where
  "settles G clk \<longleftrightarrow>
     (\<forall>(d :: ('ep, 'co, 'ev) driver) s. \<exists>d' s'. pump_until_idle G d s = Some (Ok (d', s')) \<and> clk s \<le> clk s')"

definition clock_ok :: "'s clock_ops \<Rightarrow> ('s \<Rightarrow> instant) \<Rightarrow> bool" where
  "clock_ok K clk \<longleftrightarrow> (\<forall>s. fst (instant_now K s) = clk s \<and> clk s \<le> clk (snd (instant_now K s))) \<and>
     (\<forall>ps s. clk s < clk (poll_block K ps s))"

lemma wait_one_clock:
  assumes "clock_ok K clk" and "wait_one K N visit d s = (ps, d', s')"
  shows "clk s < clk s'"
proof -
  have i: "clk s \<le> clk (snd (instant_now K s))" and p: "\<And>ps s. clk s < clk (poll_block K ps s)"
    using assms(1) unfolding clock_ok_def by blast+
  have "clk (snd (instant_now K s)) < clk (poll_block K qs (snd (instant_now K s)))" for qs by (rule p)
  with i have "clk s < clk (poll_block K qs (snd (instant_now K s)))" for qs by (rule le_less_trans)
  then show ?thesis using assms(2) p
    by (auto simp: wait_one_def Let_def split: prod.splits option.splits)
qed

lemma wait_both_clock:
  assumes "clock_ok K clk" and "wait_both K N visit a b s = (ps, a', b', s')"
  shows "clk s < clk s'"
proof -
  have i: "clk s \<le> clk (snd (instant_now K s))" and p: "\<And>ps s. clk s < clk (poll_block K ps s)"
    using assms(1) unfolding clock_ok_def by blast+
  have "clk (snd (instant_now K s)) < clk (poll_block K qs (snd (instant_now K s)))" for qs by (rule p)
  with i have "clk s < clk (poll_block K qs (snd (instant_now K s)))" for qs by (rule le_less_trans)
  then show ?thesis using assms(2)
    by (auto simp: wait_both_def Let_def split: prod.splits option.splits)
qed

lemma pump_while_idle:
  assumes "pump_until_idle G d s = Some res"
  shows "\<forall>d' s'. res = Ok (d', s') \<longrightarrow> pump_while (pump_now G e) d s = Some (Done (d', s'))"
proof (rule pump_until_idle.raw_induct [OF _ assms, where P = "\<lambda>G d s res.
    \<forall>d' s'. res = Ok (d', s') \<longrightarrow> pump_while (pump_now G e) d s = Some (Done (d', s'))"], goal_cases)
  case (1 loop G d s res)
  show ?case
    by (subst pump_while.simps)
      (use 1 in \<open>auto simp: pump_now_def split: prod.splits option.splits sum.splits if_splits\<close>)
qed

text \<open>For the two-driver loop also pumping both drivers in turn comes to rest.\<close>

definition settle_together :: "('s, 'ep, 'co, 'ev, 'cev, 'eev, 'inc, 'cfg) rig \<Rightarrow> ('s \<Rightarrow> instant) \<Rightarrow> bool" where
  "settle_together G clk \<longleftrightarrow> settles G clk \<and> clock_ok (rig_clock G) clk \<and>
     (\<forall>p s. \<exists>p' s'. settle_both (loopback_arena G) p s = Some (Done (p', s')) \<and> clk s \<le> clk s')"

interpretation loopback_drive: driving loopback_arena settle_together
proof (unfold_locales, goal_cases)
  case (1 G clk s d)
  then obtain d' s' where "pump_until_idle G d s = Some (Ok (d', s'))" "clk s \<le> clk s'"
    unfolding settle_together_def settles_def by blast
  then show ?case using pump_while_idle [of G d s] by (simp add: loopback_arena_def)
next
  case (2 G clk s d)
  then obtain d' s' where "pump_until_idle G d s = Some (Ok (d', s'))" "clk s \<le> clk s'"
    unfolding settle_together_def settles_def by blast
  then show ?case using pump_while_idle [of G d s] by (simp add: loopback_arena_def)
next
  case (3 G clk s p)
  then obtain p' s' where "settle_both (loopback_arena G) p s = Some (Done (p', s'))" "clk s \<le> clk s'"
    unfolding settle_together_def by blast
  then show ?case by simp
next
  case (4 G clk s now s')
  then show ?case unfolding settle_together_def clock_ok_def loopback_arena_def by (metis arena.select_convs(3) fst_conv snd_conv)
next
  case (5 G clk p s p' s')
  then show ?case using wait_both_clock [of "rig_clock G" clk]
    by (auto simp: settle_together_def loopback_arena_def split: prod.splits)
qed

lemma drive_one_loop_ends:
  assumes "settles G clk" and "clock_ok (rig_clock G) clk" and returns: "\<And>x d. \<exists>r. predicate x d = Some r"
  shows "\<exists>r. drive_one_loop G predicate deadline x d s = Some r"
proof (induction "deadline - clk s" arbitrary: x d s rule: less_induct)
  case less
  obtain d1 s1 where p: "pump_until_idle G d s = Some (Ok (d1, s1))" "clk s \<le> clk s1"
    using assms(1) unfolding settles_def by blast
  obtain o1 x1 d2 where q: "predicate x d1 = Some (o1, x1, d2)" using returns by (metis surj_pair)
  obtain now s2 where i: "instant_now (rig_clock G) s1 = (now, s2)" by fastforce
  have n: "now = clk s1" "clk s1 \<le> clk s2" using assms(2) i unfolding clock_ok_def by (metis fst_conv snd_conv)+
  obtain ps d3 s3 where w: "wait_one (rig_clock G) (rig_noq G) (rig_visit G) d2 s2 = (ps, d3, s3)" by (metis surj_pair)
  show ?case
  proof (cases "o1 = Done None \<and> now < deadline")
    case True
    have "deadline - clk s3 < deadline - clk s"
      using wait_one_clock [OF assms(2) w] n p(2) True by linarith
    from less [OF this] obtain r where r: "drive_one_loop G predicate deadline x1 d3 s3 = Some r" by blast
    show ?thesis by (subst drive_one_loop.simps) (use True p(1) q i w r in simp)
  next
    case False
    then show ?thesis
      by (subst drive_one_loop.simps) (use p(1) q i in \<open>auto split: outcome.split option.split\<close>)
  qed
qed

lemma drive_one_loop_Done:
  assumes "drive_one_loop G predicate deadline x d s = Some res"
  shows "\<forall>v x' d' s'. res = Done (v, x', d', s') \<longrightarrow> (\<exists>x0 d0 now d1 s1.
     pump (rig_udp G) (rig_noq G) (rig_visit G) now d1 s1 = Some (Ok (Ok False, d0, s')) \<and> predicate x0 d0 = Some (Done (Some v), x', d'))"
proof (rule drive_one_loop.raw_induct [OF _ assms, where P = "\<lambda>G predicate deadline x d s res.
    \<forall>v x' d' s'. res = Done (v, x', d', s') \<longrightarrow> (\<exists>x0 d0 now d1 s1.
     pump (rig_udp G) (rig_noq G) (rig_visit G) now d1 s1 = Some (Ok (Ok False, d0, s')) \<and> predicate x0 d0 = Some (Done (Some v), x', d'))"],
    goal_cases)
  case (1 loop G predicate deadline x d s res)
  show ?case
  proof (cases "\<exists>d0 s0. pump_until_idle G d s = Some (Ok (d0, s0))")
    case False
    then show ?thesis using 1(2) by (auto split: option.splits sum.splits)
  next
    case True
    then obtain d0 s0 where p: "pump_until_idle G d s = Some (Ok (d0, s0))" by blast
    have "predicate x d0 \<noteq> None" using 1(2) p by (cases "predicate x d0") simp_all
    then obtain o1 x1 d2 where q: "predicate x d0 = Some (o1, x1, d2)" by (metis option.exhaust surj_pair)
    have idle: "\<exists>now d1 s1. pump (rig_udp G) (rig_noq G) (rig_visit G) now d1 s1 = Some (Ok (Ok False, d0, s0))"
      using pump_until_idle_idle [OF p] by blast
    show ?thesis
    proof (cases "o1 = Done None")
      case True
      then show ?thesis using 1 p q by (auto split: prod.splits if_splits)
    next
      case False
      have "predicate x d0 = Some (Done (Some v), x', d') \<and> s' = s0" if "res = Done (v, x', d', s')" for v x' d' s'
        using 1(2) p q False that by (auto split: outcome.splits option.splits)
      with idle show ?thesis by blast
    qed
  qed
qed

text \<open>An instance: a host without traffic whose state is its clock, and connections that rest.\<close>

definition quiet_udp :: "nat udp_ops" where
  "quiet_udp = \<lparr>instance_network = Pair 1, create_udp_socket = (\<lambda>_ s. (Ok 2, s)), start_bind = (\<lambda>_ _ _ s. (Ok (), s)),
     finish_bind = (\<lambda>_ s. (Ok (), s)), socket_block = (\<lambda>_ s. s), socket_stream = (\<lambda>_ _ s. (Ok (3, 4), s)),
     socket_local_address = (\<lambda>_ s. (Ok (SockV4 \<lparr>v4_port = 9, v4_address = (127, 0, 0, 1)\<rparr>), s)),
     stream_receive = (\<lambda>_ _ s. (Ok [], s)), stream_check_send = (\<lambda>_ s. (Ok 0, s)), stream_send = (\<lambda>_ _ s. (Ok 0, s))\<rparr>"

definition quiet_clock :: "nat clock_ops" where
  "quiet_clock = \<lparr>instant_now = (\<lambda>s. (s, s)), poll_block = (\<lambda>_ s. s + 1)\<rparr>"

definition quiet_noq :: "(unit, nat, nat, unit, unit, unit, unit) noq_ops" where
  "quiet_noq = demo_noq\<lparr>co_poll_timeout := (\<lambda>c. (Some c, c)), co_handle_timeout := (\<lambda>now c. Suc now),
     co_poll_transmit := (\<lambda>_. Pair (None, []))\<rparr>"

definition rest_noq :: "(unit, nat, nat, unit, unit, unit, unit) noq_ops" where
  "rest_noq = quiet_noq\<lparr>co_poll_timeout := Pair None\<rparr>"

lemma rest_service_all: "service_all rest_noq now cs = Some (Ok (served_none, cs))"
  by (induction cs) (auto simp: service_def fire_timer_def poll_all.simps transmit_loop.simps
      rest_noq_def quiet_noq_def demo_noq_def served_none_def served_plus_def)

lemma rest_poll_events_all: "poll_events_all rest_noq cs = Some ([], cs)"
  by (induction cs) (auto simp: poll_all.simps rest_noq_def quiet_noq_def demo_noq_def)

lemma rest_pump: "pump quiet_udp rest_noq (\<lambda>cs. cs) now d s = Some (Ok (Ok False, d, s))"
proof -
  have f: "flush quiet_udp so False q s = Ok (Ok False, q, s)" for so q
    by (simp add: flush.simps udp_send_def quiet_udp_def as_usize_def)
  show ?thesis by (simp add: pump_def receive_loop.simps udp_receive_def quiet_udp_def service_phase_def
      events_phase_def rest_service_all rest_poll_events_all served_none_def f [unfolded quiet_udp_def])
qed

definition quiet_rig :: "(nat, unit, nat, nat, unit, unit, unit, unit) rig" where
  "quiet_rig = \<lparr>rig_udp = quiet_udp, rig_clock = quiet_clock, rig_noq = rest_noq, rig_visit = (\<lambda>cs. cs)\<rparr>"

lemma rest_settles: "settles quiet_rig id"
  by (simp add: settles_def pump_until_idle.simps rest_pump quiet_clock_def quiet_rig_def)

lemma quiet_clock_ok: "clock_ok (rig_clock quiet_rig) id"
  by (simp add: clock_ok_def quiet_clock_def quiet_rig_def)

section \<open>Properties\<close>

text \<open>
  C26. Between two pumps the program waits for everything that can make progress, and sleeps no
  longer than it may: it is woken by a datagram, by room in the send queue whenever something is
  queued, and no later than the earliest timer of a connection; it asks for no other wake-up.
\<close>

theorem wait_one_sleeps_no_longer_than_allowed:
  assumes "visit_ok visit"
  shows "let ps = fst (wait_one K N visit d s);
       ts = deadlines N (connections d)
     in incoming_pollable (dr_socket d) \<in> set ps \<and>
        (outgoing_pollable (dr_socket d) \<in> set ps \<longleftrightarrow> outbound d \<noteq> []) \<and>
        (\<forall>w. Timer w \<in> set ps \<longleftrightarrow> ts \<noteq> {} \<and> w = of_nat (Min ts - fst (instant_now K s))) \<and>
        (\<forall>w t. Timer w \<in> set ps \<and> t \<in> ts \<longrightarrow> unat w \<le> t - fst (instant_now K s)) \<and>
        snd (snd (wait_one K N visit d s)) =
          poll_block K ps (if ts = {} then s else snd (instant_now K s))"
proof -
  let ?ts = "deadlines N (connections d)"
  obtain dl d' where n: "next_deadline N visit d = (dl, d')" by fastforce
  then have dl: "dl = (if ?ts = {} then None else Some (Min ?ts))"
    using next_deadline_least [OF assms, of N d] by simp
  have f: "finite ?ts" using poll_timeouts_set [of N "connections d"] by (metis finite_set)
  have "unat (of_nat (Min ?ts - now) :: u64) \<le> t - now" if "t \<in> ?ts" for t now
    using unat_of_nat_le [of "Min ?ts - now"] Min_le [OF f that] by linarith
  then show ?thesis
    by (cases "?ts = {}") (auto simp: wait_one_def Let_def n dl socket_pollables_def has_outbound_def
        incoming_pollable_def outgoing_pollable_def deadline_timer_def split: prod.split)
qed

theorem wait_one_sleeps_no_longer_than_allowed_witness:
  "fst (wait_one quiet_clock quiet_noq (\<lambda>cs. cs) (demo_driver\<lparr>connections := [(7, 90), (8, 70)]\<rparr>) 50) =
     [Incoming 3, Timer 20]"
proof -
  let ?d = "demo_driver\<lparr>connections := [(7, 90), (8, 70)]\<rparr>"
  have "visit_ok (\<lambda>cs. cs)" by (simp add: visit_ok_def)
  note t = wait_one_sleeps_no_longer_than_allowed [OF this, of quiet_clock quiet_noq ?d 50]
  have "deadlines quiet_noq (connections ?d) = {90, 70}" by (auto simp: deadlines_def quiet_noq_def)
  with t have "Timer 20 \<in> set (fst (wait_one quiet_clock quiet_noq (\<lambda>cs. cs) ?d 50))"
    by (simp add: Let_def quiet_clock_def)
  then show ?thesis
    by (auto simp: wait_one_def next_deadline_def min_opt_def quiet_noq_def quiet_clock_def demo_driver_def
        socket_pollables_def has_outbound_def incoming_pollable_def deadline_timer_def Let_def)
qed

text \<open>
  Driving an endpoint ends, and ends right: when pumping comes to rest and time passes while
  waiting, \<open>drive_one\<close> returns for every condition that does (the stall guard fires otherwise); and a value it
  returns is one the condition yielded on an endpoint that a pump had just left idle.
\<close>

theorem drive_one_ends:
  assumes "settles G clk" and "clock_ok (rig_clock G) clk" and "\<And>x d. \<exists>r. predicate x d = Some r"
  shows "\<exists>r. drive_one G predicate x d s = Some r \<and>
     (\<forall>v x' d' s'. r = Done (v, x', d', s') \<longrightarrow> (\<exists>x0 d0 now d1 s1.
        pump (rig_udp G) (rig_noq G) (rig_visit G) now d1 s1 = Some (Ok (Ok False, d0, s')) \<and> predicate x0 d0 = Some (Done (Some v), x', d')))"
proof -
  obtain now s1 where i: "instant_now (rig_clock G) s = (now, s1)" by fastforce
  obtain r where r: "drive_one_loop G predicate (now + STALL_GUARD) x d s1 = Some r"
    using drive_one_loop_ends [where predicate = predicate, OF assms] by blast
  with i have "drive_one G predicate x d s = Some r" by (simp add: drive_one_def)
  with drive_one_loop_Done [OF r] show ?thesis by blast
qed

theorem drive_one_ends_witness:
  "\<exists>r. drive_one quiet_rig (\<lambda>x d. Some (Done (if x = 3 then Some x else None), Suc x, d)) 0
     demo_driver 5 = Some r"
  using drive_one_ends [OF rest_settles quiet_clock_ok,
      of "\<lambda>x d. Some (Done (if x = 3 then Some x else None), Suc x, d)" 0 demo_driver 5] by auto

text \<open>
  Reading a stream collects what the transport gives, in order and nothing else, and reports the
  end exactly when the stream has finished; draining it counts the same bytes.
\<close>

theorem read_stream_collects:
  assumes "recv_read S ident True c = (Some rd, c1)" and "recv_read S ident False c = (Some rd, c1)"
    and "gives S rd chunks fin rd'"
  shows "read_stream S ident into c = Some (fin, into @ concat chunks, chunks_finalize S rd' c1) \<and>
     drain_stream S ident c = Some ((length (concat chunks), fin), chunks_finalize S rd' c1)"
  using assms by (simp add: read_stream_def drain_stream_def read_chunks_gives [OF assms(3)]
      count_chunks_gives [OF assms(3)])

theorem read_stream_collects_witness:
  "read_stream \<lparr>recv_read = (\<lambda>_ _ c. (Some c, [])), chunks_next = (\<lambda>rd. case rd of [] \<Rightarrow> (Finished, []) | b # bs \<Rightarrow> (Chunk b, bs)),
     chunks_finalize = (\<lambda>_ c. c)\<rparr> 4 [9] [[1, 2], [3]] = Some (True, [9, 1, 2, 3], [])"
proof -
  let ?S = "\<lparr>recv_read = (\<lambda>_ _ c. (Some c, [])), chunks_next = (\<lambda>rd. case rd of [] \<Rightarrow> (Finished, []) | b # bs \<Rightarrow> (Chunk b, bs)),
     chunks_finalize = (\<lambda>_ c. c)\<rparr> :: (bytes list, bytes list) recv_ops"
  have "gives ?S [[1, 2], [3]] [[1, 2], [3]] True []"
    by (rule gives_chunk [of _ _ _ "[[3]]"], simp, rule gives_chunk [of _ _ _ "[]"], simp, rule gives_fin, simp)
  from read_stream_collects [OF _ _ this, of 4 "[[1, 2], [3]]" "[]" "[9]"] show ?thesis by simp
qed

end
