(* ===== verification/Parse_Int.thy ===== *)
theory Parse_Int
  imports Prelude
begin

text \<open>
  Parsing of unsigned decimal integers as in the Rust standard library (\<open>str::parse\<close> at an unsigned
  type), for the command lines and environment variables of the programs. The largest value of the
  type is a parameter.
\<close>

datatype int_error = IntEmpty | InvalidDigit | PosOverflow

definition digit_of :: "char \<Rightarrow> nat option" where
  "digit_of c = (let n = of_char c in if 48 \<le> n \<and> n \<le> 57 then Some (n - 48) else None)"

fun parse_digits :: "nat \<Rightarrow> nat \<Rightarrow> string \<Rightarrow> (nat, int_error) result" where
  "parse_digits bound acc [] = Ok acc"
| "parse_digits bound acc (c # cs) =
     (case digit_of c of
        None \<Rightarrow> Err InvalidDigit
      | Some n \<Rightarrow> if bound < acc * 10 + n then Err PosOverflow else parse_digits bound (acc * 10 + n) cs)"

text \<open>An optional plus sign and at least one digit.\<close>

definition parse_uint :: "nat \<Rightarrow> string \<Rightarrow> (nat, int_error) result" where
  "parse_uint bound s =
     (if s = [] then Err IntEmpty
      else if s = ''+'' \<or> s = ''-'' then Err InvalidDigit
      else parse_digits bound 0 (if hd s = CHR ''+'' then tl s else s))"

text \<open>\<open>std::env::var(..).ok().and_then(|s| s.parse().ok()).unwrap_or(default)\<close>.\<close>

definition parsed_or :: "nat \<Rightarrow> nat \<Rightarrow> string option \<Rightarrow> nat" where
  "parsed_or bound d var =
     (case var of
        None \<Rightarrow> d
      | Some s \<Rightarrow> (case parse_uint bound s of Inl _ \<Rightarrow> d | Inr n \<Rightarrow> n))"

lemma parse_digits_bound: "acc \<le> bound \<Longrightarrow> parse_digits bound acc s = Ok n \<Longrightarrow> n \<le> bound"
  by (induction bound acc s rule: parse_digits.induct) (auto split: option.splits if_splits)

lemma parse_uint_bound: "parse_uint bound s = Ok n \<Longrightarrow> n \<le> bound"
  using parse_digits_bound [of 0 bound] by (auto simp: parse_uint_def split: if_splits)

lemma parsed_or_bound: "d \<le> bound \<Longrightarrow> parsed_or bound d var \<le> bound"
  by (auto simp: parsed_or_def parse_uint_bound split: option.splits sum.splits)

end
