(* ===== verification/Tcp_Apps.thy ===== *)
theory Tcp_Apps
  imports Virt_Host Component Parse_Int
begin

text \<open>
  Two applications that run over the deliveries: the real-transport example
  (\<^verbatim>\<open>src/examples/tls-tcp/src/lib.rs\<close>), which wires the TLS component between a TCP socket and itself
  and judges how a peer ended the connection, and the plain-TCP demo of the tls-virt scheme
  (\<^verbatim>\<open>src/examples/tls-virt-demo/src/lib.rs\<close>). The interfaces they import are a parameter over the
  state \<open>'s\<close> of everything outside; resources, streams and futures are handles. Output to the
  terminal is left out. Errors keep the values their messages are made from. Arguments are ASCII,
  where a string and its UTF-8 encoding are the same sequence.
\<close>

section \<open>Text\<close>

definition parse_u16 :: "string \<Rightarrow> (u16, int_error) result" where
  "parse_u16 s = (case parse_uint 65535 s of Inl e \<Rightarrow> Err e | Inr n \<Rightarrow> Ok (of_nat n))"

definition LF :: u8 where "LF = 10"

definition string_bytes :: "string \<Rightarrow> bytes" where
  "string_bytes = map of_char"

section \<open>The imported interfaces\<close>

text \<open>
  \<open>from_utf8_lossy\<close> and \<open>parse_ip\<close> are the standard library's decoder of UTF-8 and parser of
  addresses.
\<close>

record 's app_ops =
  from_utf8_lossy :: "bytes \<Rightarrow> string"
  parse_ip :: "string \<Rightarrow> (ip_addr, string) result"
  read_file :: "string \<Rightarrow> 's \<Rightarrow> (bytes, string) result \<times> 's"
  tcp_create :: "ip_address_family \<Rightarrow> 's \<Rightarrow> (u32, error_code) result \<times> 's"
  tcp_connect_to :: "u32 \<Rightarrow> ip_socket_address \<Rightarrow> 's \<Rightarrow> (unit, error_code) result \<times> 's"
  tcp_bind :: "u32 \<Rightarrow> ip_socket_address \<Rightarrow> 's \<Rightarrow> (unit, error_code) result \<times> 's"
  tcp_listen :: "u32 \<Rightarrow> 's \<Rightarrow> (u32, error_code) result \<times> 's"
  tcp_get_local :: "u32 \<Rightarrow> 's \<Rightarrow> (ip_socket_address, error_code) result \<times> 's"
  tcp_get_remote :: "u32 \<Rightarrow> 's \<Rightarrow> (ip_socket_address, error_code) result \<times> 's"
  accepts_next :: "u32 \<Rightarrow> 's \<Rightarrow> u32 option \<times> 's"
  tcp_send :: "u32 \<Rightarrow> u32 \<Rightarrow> 's \<Rightarrow> u32 \<times> 's"
  tcp_receive :: "u32 \<Rightarrow> 's \<Rightarrow> (u32 \<times> u32) \<times> 's"
  connector_of :: "bytes list \<Rightarrow> 's \<Rightarrow> u32 \<times> 's"
  identity_of :: "bytes list \<Rightarrow> bytes \<Rightarrow> 's \<Rightarrow> (u32, string) result \<times> 's"
  acceptor_of :: "u32 \<Rightarrow> 's \<Rightarrow> u32 \<times> 's"
  tls_send :: "u32 \<Rightarrow> u32 \<Rightarrow> 's \<Rightarrow> (u32 \<times> u32) \<times> 's"
  tls_receive :: "u32 \<Rightarrow> u32 \<Rightarrow> 's \<Rightarrow> (u32 \<times> u32) \<times> 's"
  tls_handshake :: "u32 \<Rightarrow> string option \<Rightarrow> bytes list \<Rightarrow> 's \<Rightarrow> (connection_info, string) result \<times> 's"
  stream_new :: "'s \<Rightarrow> (u32 \<times> u32) \<times> 's"
  stream_read :: "u32 \<Rightarrow> 's \<Rightarrow> (stream_result \<times> bytes) \<times> 's"
  write_all_to :: "u32 \<Rightarrow> bytes \<Rightarrow> 's \<Rightarrow> bytes \<times> 's"
  drop_writer :: "u32 \<Rightarrow> 's \<Rightarrow> 's"
  await_tls :: "u32 \<Rightarrow> 's \<Rightarrow> (unit, string) result \<times> 's"
  await_transport :: "u32 \<Rightarrow> 's \<Rightarrow> (unit, error_code) result \<times> 's"
  lookup_addresses :: "string \<Rightarrow> 's \<Rightarrow> (ip_address list, error_code) result \<times> 's"

section \<open>tls-tcp\<close>

datatype close_class = Clean | Truncated | Reset

datatype app_error =
    UnknownClass string | ReadFailed string string | BadPort string int_error | BadIp string string
  | CreateFailed error_code | ConnectFailed error_code | BindFailed error_code | ListenFailed error_code
  | LocalAddressFailed error_code | ListenerClosed | IdentityFailed string | HandshakeFailed string
  | WrongClass close_class close_class | WrongResponse "string option" string | NoRequest | UncleanClose
  | ResolveFailed string error_code | NoAddresses | ReceiveFailed error_code | SendFailed error_code
  | Usage

definition close_class_parse :: "string \<Rightarrow> (close_class, app_error) result" where
  "close_class_parse s =
     (if s = ''clean'' then Ok Clean else if s = ''truncated'' then Ok Truncated
      else if s = ''reset'' then Ok Reset else Err (UnknownClass s))"

definition tcp_socket_address :: "'s app_ops \<Rightarrow> string \<Rightarrow> string \<Rightarrow> (ip_socket_address, app_error) result" where
  "tcp_socket_address A ip port =
     (case parse_u16 port of
        Inl e \<Rightarrow> Err (BadPort port e)
      | Inr p \<Rightarrow>
          (case parse_ip A ip of
             Inl e \<Rightarrow> Err (BadIp ip e)
           | Inr (V4 a) \<Rightarrow> Ok (SockV4 \<lparr>v4_port = p, v4_address = a\<rparr>)
           | Inr (V6 a) \<Rightarrow> Ok (SockV6 \<lparr>v6_port = p, v6_flow_info = 0, v6_address = a, v6_scope_id = 0\<rparr>)))"

fun wasi_family :: "ip_socket_address \<Rightarrow> ip_address_family" where
  "wasi_family (SockV4 _) = FamilyIpv4"
| "wasi_family (SockV6 _) = FamilyIpv6"

fun port_of :: "ip_socket_address \<Rightarrow> u16" where
  "port_of (SockV4 a) = v4_port a"
| "port_of (SockV6 a) = v6_port a"

text \<open>The loops over a stream's reads; \<open>None\<close> when the stream never ends (and never has a line).\<close>

definition at_end :: "stream_result \<Rightarrow> bool" where
  "at_end status = (status = SDropped \<or> status = SCancelled)"

partial_function (option) read_line_loop :: "'s app_ops \<Rightarrow> u32 \<Rightarrow> bytes \<Rightarrow> 's \<Rightarrow> ((string option \<times> bool) \<times> 's) option" where
  "read_line_loop A st data s =
     (if LF \<in> set data then Some ((Some (from_utf8_lossy A (takeWhile (\<lambda>b. b \<noteq> LF) data)), False), s)
      else (case stream_read A st s of
          ((status, chunk), s) \<Rightarrow>
            let data = data @ chunk
            in if at_end status
               then Some ((if data \<noteq> [] then Some (from_utf8_lossy A data) else None, True), s)
               else read_line_loop A st data s))"

definition read_line :: "'s app_ops \<Rightarrow> u32 \<Rightarrow> 's \<Rightarrow> ((string option \<times> bool) \<times> 's) option" where
  "read_line A st s = read_line_loop A st [] s"

partial_function (option) drain :: "'s app_ops \<Rightarrow> u32 \<Rightarrow> 's \<Rightarrow> (bool \<times> 's) option" where
  "drain A st s =
     (case stream_read A st s of
        ((status, _), s) \<Rightarrow> if at_end status then Some (True, s) else drain A st s)"

definition ALPN :: bytes where "ALPN = string_bytes ''tls-interop/1''"

text \<open>The handles of a wired connection: cleartext out and in, and the four verdicts.\<close>

record wires =
  app_tx :: u32
  app_rx :: u32
  send_verdict :: u32
  recv_verdict :: u32
  transport_tx :: u32
  transport_rx :: u32

definition wire :: "'s app_ops \<Rightarrow> u32 \<Rightarrow> u32 \<Rightarrow> 's \<Rightarrow> wires \<times> 's" where
  "wire A socket tls s =
     (let ((tx, rx), s) = stream_new A s;
          ((ciphertext_out, send_done), s) = tls_send A tls rx s;
          (transport_tx_done, s) = tcp_send A socket ciphertext_out s;
          ((transport_rx, transport_rx_done), s) = tcp_receive A socket s;
          ((app_in, recv_done), s) = tls_receive A tls transport_rx s
      in (\<lparr>app_tx = tx, app_rx = app_in, send_verdict = send_done, recv_verdict = recv_done,
           transport_tx = transport_tx_done, transport_rx = transport_rx_done\<rparr>, s))"

text \<open>Awaiting the four verdicts, in the source's order; the receive ones are looked at.\<close>

definition await_verdicts :: "'s app_ops \<Rightarrow> wires \<Rightarrow> 's \<Rightarrow> ((unit, string) result \<times> (unit, error_code) result) \<times> 's" where
  "await_verdicts A w s =
     (let (tls_recv, s) = await_tls A (recv_verdict w) s;
          (_, s) = await_tls A (send_verdict w) s;
          (transport_recv, s) = await_transport A (transport_rx w) s;
          (_, s) = await_transport A (transport_tx w) s
      in ((tls_recv, transport_recv), s))"

definition observe :: "(unit, string) result \<Rightarrow> (unit, error_code) result \<Rightarrow> close_class" where
  "observe tls_recv transport_recv =
     (case (tls_recv, transport_recv) of
        (Inr _, _) \<Rightarrow> Clean
      | (Inl _, Inl _) \<Rightarrow> Reset
      | (Inl _, Inr _) \<Rightarrow> Truncated)"

definition judge :: "close_class \<Rightarrow> close_class \<Rightarrow> string option \<Rightarrow> string \<Rightarrow> (unit, app_error) result" where
  "judge expect observed line expected_response =
     (if observed \<noteq> expect then Err (WrongClass expect observed)
      else if observed \<noteq> Reset \<and> line \<noteq> Some expected_response then Err (WrongResponse line expected_response)
      else Ok ())"

type_synonym 's app_run = "((unit, app_error) result \<times> 's) or_panic option"

definition client_session :: "'s app_ops \<Rightarrow> wires \<Rightarrow> string \<Rightarrow> close_class \<Rightarrow> string \<Rightarrow> 's \<Rightarrow> 's app_run" where
  "client_session A w payload expect expected_response s =
     (case write_all_to A (app_tx w) (string_bytes payload @ [LF]) s of
        (leftover, s) \<Rightarrow>
          if leftover \<noteq> [] then Some (Panic ''cleartext stream rejected the request'')
          else (case read_line A (app_rx w) s of
              None \<Rightarrow> None
            | Some ((line, closed), s) \<Rightarrow>
                let s = drop_writer A (app_tx w) s
                in (case (if closed then Some (True, s) else drain A (app_rx w) s) of
                     None \<Rightarrow> None
                   | Some (closed, s) \<Rightarrow>
                       (case await_verdicts A w s of
                          ((tls_recv, transport_recv), s) \<Rightarrow>
                            Some (Ok (judge expect (observe tls_recv transport_recv) line expected_response, s))))))"

definition tcp_client :: "'s app_ops \<Rightarrow> string \<Rightarrow> string \<Rightarrow> string \<Rightarrow> string \<Rightarrow> string \<Rightarrow> string \<Rightarrow> string \<Rightarrow> 's \<Rightarrow> 's app_run" where
  "tcp_client A ip port name ca_path payload expect expected_response s =
     (case close_class_parse expect of
        Inl e \<Rightarrow> Some (Ok (Err e, s))
      | Inr class \<Rightarrow>
          (case read_file A ca_path s of
             (Inl e, s) \<Rightarrow> Some (Ok (Err (ReadFailed ca_path e), s))
           | (Inr ca, s) \<Rightarrow>
               (case tcp_socket_address A ip port of
                  Inl e \<Rightarrow> Some (Ok (Err e, s))
                | Inr remote \<Rightarrow>
                    (case tcp_create A (wasi_family remote) s of
                       (Inl e, s) \<Rightarrow> Some (Ok (Err (CreateFailed e), s))
                     | (Inr socket, s) \<Rightarrow>
                         (case tcp_connect_to A socket remote s of
                            (Inl e, s) \<Rightarrow> Some (Ok (Err (ConnectFailed e), s))
                          | (Inr _, s) \<Rightarrow>
                              let (connector, s) = connector_of A [ca] s;
                                  (w, s) = wire A socket connector s
                              in (case tls_handshake A connector (Some name) [ALPN] s of
                                   (Inl e, s) \<Rightarrow> Some (Ok (Err (HandshakeFailed e), s))
                                 | (Inr info, s) \<Rightarrow>
                                     client_session A w payload class expected_response s))))))"

definition server_session :: "'s app_ops \<Rightarrow> wires \<Rightarrow> 's \<Rightarrow> 's app_run" where
  "server_session A w s =
     (case read_line A (app_rx w) s of
        None \<Rightarrow> None
      | Some ((None, closed), s) \<Rightarrow> Some (Ok (Err NoRequest, s))
      | Some ((Some line, closed), s) \<Rightarrow>
          (case write_all_to A (app_tx w) (string_bytes line @ [LF]) s of
             (leftover, s) \<Rightarrow>
               if leftover \<noteq> [] then Some (Panic ''cleartext stream rejected the echo'')
               else (case (if closed then Some (True, s) else drain A (app_rx w) s) of
                   None \<Rightarrow> None
                 | Some (_, s) \<Rightarrow>
                     let s = drop_writer A (app_tx w) s
                     in (case await_verdicts A w s of
                          ((tls_recv, _), s) \<Rightarrow>
                            Some (Ok (case tls_recv of Inl _ \<Rightarrow> Err UncleanClose | Inr _ \<Rightarrow> Ok (), s))))))"

definition tcp_server :: "'s app_ops \<Rightarrow> string \<Rightarrow> string \<Rightarrow> string \<Rightarrow> string \<Rightarrow> 's \<Rightarrow> 's app_run" where
  "tcp_server A ip port leaf_path key_path s =
     (case read_file A leaf_path s of
        (Inl e, s) \<Rightarrow> Some (Ok (Err (ReadFailed leaf_path e), s))
      | (Inr leaf, s) \<Rightarrow>
        (case read_file A key_path s of
           (Inl e, s) \<Rightarrow> Some (Ok (Err (ReadFailed key_path e), s))
         | (Inr key, s) \<Rightarrow>
           (case tcp_socket_address A ip port of
              Inl e \<Rightarrow> Some (Ok (Err e, s))
            | Inr local \<Rightarrow>
              (case tcp_create A (wasi_family local) s of
                 (Inl e, s) \<Rightarrow> Some (Ok (Err (CreateFailed e), s))
               | (Inr listener, s) \<Rightarrow>
                 (case tcp_bind A listener local s of
                    (Inl e, s) \<Rightarrow> Some (Ok (Err (BindFailed e), s))
                  | (Inr _, s) \<Rightarrow>
                    (case tcp_listen A listener s of
                       (Inl e, s) \<Rightarrow> Some (Ok (Err (ListenFailed e), s))
                     | (Inr accepts, s) \<Rightarrow>
                       (case tcp_get_local A listener s of
                          (Inl e, s) \<Rightarrow> Some (Ok (Err (LocalAddressFailed e), s))
                        | (Inr bound, s) \<Rightarrow>
                          (case accepts_next A accepts s of
                             (None, s) \<Rightarrow> Some (Ok (Err ListenerClosed, s))
                           | (Some socket, s) \<Rightarrow>
                             (case identity_of A [leaf] key s of
                                (Inl e, s) \<Rightarrow> Some (Ok (Err (IdentityFailed e), s))
                              | (Inr ident, s) \<Rightarrow>
                                let (acceptor, s) = acceptor_of A ident s;
                                    (w, s) = wire A socket acceptor s
                                in (case tls_handshake A acceptor None [ALPN] s of
                                     (Inl e, s) \<Rightarrow> Some (Ok (Err (HandshakeFailed e), s))
                                   | (Inr info, s) \<Rightarrow> server_session A w s))))))))))"

definition tls_tcp_run :: "'s app_ops \<Rightarrow> string list \<Rightarrow> 's \<Rightarrow> 's app_run" where
  "tls_tcp_run A args s =
     (case args of
        prog # mode # rest \<Rightarrow>
          if mode = ''client'' \<and> (length args = 8 \<or> length args = 9)
          then tcp_client A (args ! 2) (args ! 3) (args ! 4) (args ! 5) (args ! 6) (args ! 7)
                 (if 8 < length args then args ! 8 else args ! 6) s
          else if mode = ''server'' \<and> length args = 6
          then tcp_server A (args ! 2) (args ! 3) (args ! 4) (args ! 5) s
          else Some (Ok (Err Usage, s))
      | _ \<Rightarrow> Some (Ok (Err Usage, s)))"

section \<open>tls-virt-demo\<close>

partial_function (option) read_to_end :: "'s app_ops \<Rightarrow> u32 \<Rightarrow> bytes \<Rightarrow> 's \<Rightarrow> (bytes \<times> 's) option" where
  "read_to_end A st response s =
     (case stream_read A st s of
        ((status, chunk), s) \<Rightarrow>
          let response = response @ chunk
          in if at_end status then Some (response, s) else read_to_end A st response s)"

fun demo_socket_address :: "ip_address \<Rightarrow> u16 \<Rightarrow> ip_socket_address" where
  "demo_socket_address (Ipv4 a) port = SockV4 \<lparr>v4_port = port, v4_address = a\<rparr>"
| "demo_socket_address (Ipv6 a) port =
     SockV6 \<lparr>v6_port = port, v6_flow_info = 0, v6_address = a, v6_scope_id = 0\<rparr>"

text \<open>\<open>trim_end_matches(['\r', '\n'])\<close>.\<close>

definition trim_line_end :: "string \<Rightarrow> string" where
  "trim_line_end s = rev (dropWhile (\<lambda>c. c = CHR 0x0D \<or> c = CHR 0x0A) (rev s))"

definition demo_exchange :: "'s app_ops \<Rightarrow> u32 \<Rightarrow> string \<Rightarrow> 's \<Rightarrow> 's app_run" where
  "demo_exchange A socket payload s =
     (let ((tx, tx_reader), s) = stream_new A s;
          (send_done, s) = tcp_send A socket tx_reader s;
          ((rx, recv_done), s) = tcp_receive A socket s
      in (case write_all_to A tx (string_bytes payload @ [LF]) s of
           (leftover, s) \<Rightarrow>
             if leftover \<noteq> [] then Some (Panic ''transmit stream rejected the request'')
             else (case read_to_end A rx [] (drop_writer A tx s) of
                 None \<Rightarrow> None
               | Some (response, s) \<Rightarrow>
                   (case await_transport A recv_done s of
                      (Inl e, s) \<Rightarrow> Some (Ok (Err (ReceiveFailed e), s))
                    | (Inr _, s) \<Rightarrow>
                        (case await_transport A send_done s of
                           (Inl e, s) \<Rightarrow> Some (Ok (Err (SendFailed e), s))
                         | (Inr _, s) \<Rightarrow>
                             let response = trim_line_end (from_utf8_lossy A response)
                             in if response \<noteq> rev payload
                                then Some (Ok (Err (WrongResponse (Some response) (rev payload)), s))
                                else Some (Ok (Ok (), s)))))))"

definition demo :: "'s app_ops \<Rightarrow> string \<Rightarrow> string \<Rightarrow> string \<Rightarrow> 's \<Rightarrow> 's app_run" where
  "demo A name port payload s =
     (case parse_u16 port of
        Inl e \<Rightarrow> Some (Ok (Err (BadPort port e), s))
      | Inr p \<Rightarrow>
          (case lookup_addresses A name s of
             (Inl e, s) \<Rightarrow> Some (Ok (Err (ResolveFailed name e), s))
           | (Inr [], s) \<Rightarrow> Some (Ok (Err NoAddresses, s))
           | (Inr (a # _), s) \<Rightarrow>
               let remote = demo_socket_address a p
               in (case tcp_create A (wasi_family remote) s of
                    (Inl e, s) \<Rightarrow> Some (Ok (Err (CreateFailed e), s))
                  | (Inr socket, s) \<Rightarrow>
                      (case tcp_connect_to A socket remote s of
                         (Inl e, s) \<Rightarrow> Some (Ok (Err (ConnectFailed e), s))
                       | (Inr _, s) \<Rightarrow>
                           (case tcp_get_remote A socket s of (_, s) \<Rightarrow> demo_exchange A socket payload s)))))"

section \<open>Laws\<close>

text \<open>The results of successive reads of a stream.\<close>

inductive supplies :: "'s app_ops \<Rightarrow> u32 \<Rightarrow> 's \<Rightarrow> (stream_result \<times> bytes) list \<Rightarrow> 's \<Rightarrow> bool" for A st where
  supplies_none: "supplies A st s [] s"
| supplies_read: "stream_read A st s = (r, s1) \<Longrightarrow> supplies A st s1 rs s' \<Longrightarrow> supplies A st s (r # rs) s'"

inductive_cases suppliesE [elim]: "supplies A st s (r # rs) s'"
inductive_simps supplies_Nil [simp]: "supplies A st s [] s'"

definition text_of :: "(stream_result \<times> bytes) list \<Rightarrow> bytes" where
  "text_of rs = concat (map snd rs)"

lemma text_of_simps [simp]: "text_of [] = []" "text_of (r # rs) = snd r @ text_of rs"
  "text_of (rs @ rs') = text_of rs @ text_of rs'"
  by (simp_all add: text_of_def)

definition going :: "(stream_result \<times> bytes) list \<Rightarrow> bool" where
  "going rs \<longleftrightarrow> (\<forall>r \<in> set rs. \<not> at_end (fst r))"

lemma going_simps [simp]: "going []" "going (r # rs) \<longleftrightarrow> \<not> at_end (fst r) \<and> going rs"
  by (simp_all add: going_def)

lemma supplies_append_last:
  assumes "supplies A st s (rs @ [r]) s'"
  shows "\<exists>s1. supplies A st s rs s1 \<and> stream_read A st s1 = (r, s')"
  using assms by (induction rs arbitrary: s) (auto elim!: suppliesE intro: supplies_read, metis supplies_read)

lemma read_line_loop_going:
  assumes "supplies A st s rs s'" and "going rs" and "LF \<notin> set (data @ text_of rs)"
  shows "read_line_loop A st data s = read_line_loop A st (data @ text_of rs) s'"
  using assms
proof (induction arbitrary: data rule: supplies.induct)
  case (supplies_read s r s1 rs s')
  obtain status chunk where r: "r = (status, chunk)" by fastforce
  have "read_line_loop A st data s = read_line_loop A st (data @ chunk) s1"
    using supplies_read.hyps(1) supplies_read.prems r by (subst read_line_loop.simps) (simp add: Let_def)
  also have "\<dots> = read_line_loop A st ((data @ chunk) @ text_of rs) s'"
    using supplies_read.IH [of "data @ chunk"] supplies_read.prems r by simp
  finally show ?case using r by simp
qed simp

lemma drain_going:
  assumes "supplies A st s rs s'" and "going rs"
  shows "drain A st s = drain A st s'"
  using assms
proof (induction rule: supplies.induct)
  case (supplies_read s r s1 rs s')
  then show ?case by (subst drain.simps) (auto split: prod.split)
qed simp

lemma read_to_end_going:
  assumes "supplies A st s rs s'" and "going rs"
  shows "read_to_end A st acc s = read_to_end A st (acc @ text_of rs) s'"
  using assms
proof (induction arbitrary: acc rule: supplies.induct)
  case (supplies_read s r s1 rs s')
  have "read_to_end A st acc s = read_to_end A st (acc @ snd r) s1"
    using supplies_read.hyps(1) supplies_read.prems
    by (subst read_to_end.simps) (cases r, simp add: Let_def)
  with supplies_read.IH [of "acc @ snd r"] supplies_read.prems show ?case by simp
qed simp

text \<open>An instance: what is still to be read, and what was written.\<close>

type_synonym demo_world = "(stream_result \<times> bytes) list \<times> bytes"

definition demo_app :: "demo_world app_ops" where
  "demo_app = \<lparr>from_utf8_lossy = map (\<lambda>b. char_of (unat b)), parse_ip = (\<lambda>_. Ok (V4 (127, 0, 0, 1))), read_file = (\<lambda>_ s. (Ok [], s)),
     tcp_create = (\<lambda>_ s. (Ok 1, s)), tcp_connect_to = (\<lambda>_ _ s. (Ok (), s)), tcp_bind = (\<lambda>_ _ s. (Ok (), s)),
     tcp_listen = (\<lambda>_ s. (Ok 2, s)), tcp_get_local = (\<lambda>_ s. (Err NotSupported, s)), tcp_get_remote = (\<lambda>_ s. (Err NotSupported, s)),
     accepts_next = (\<lambda>_ s. (Some 1, s)), tcp_send = (\<lambda>_ _ s. (3, s)), tcp_receive = (\<lambda>_ s. ((4, 5), s)),
     connector_of = (\<lambda>_ s. (6, s)), identity_of = (\<lambda>_ _ s. (Ok 7, s)), acceptor_of = (\<lambda>_ s. (6, s)),
     tls_send = (\<lambda>_ _ s. ((8, 9), s)), tls_receive = (\<lambda>_ _ s. ((10, 11), s)),
     tls_handshake = (\<lambda>_ _ _ s. (Ok \<lparr>ci_alpn_protocol = None, ci_server_name = None\<rparr>, s)),
     stream_new = (\<lambda>s. ((12, 13), s)),
     stream_read = (\<lambda>_ (rs, out). case rs of [] \<Rightarrow> ((SDropped, []), (rs, out)) | r # rs \<Rightarrow> (r, (rs, out))),
     write_all_to = (\<lambda>_ bs (rs, out). ([], (rs, out @ bs))), drop_writer = (\<lambda>_ s. s),
     await_tls = (\<lambda>_ s. (Err ''closed without close_notify'', s)), await_transport = (\<lambda>_ s. (Ok (), s)),
     lookup_addresses = (\<lambda>_ s. (Ok [Ipv4 (127, 0, 0, 1)], s))\<rparr>"

lemma demo_chars: "char_of (104 :: nat) = CHR ''h''" "char_of (105 :: nat) = CHR ''i''" "char_of (111 :: nat) = CHR ''o''"
  "char_of (10 :: nat) = CHR 0x0A"
  by (simp_all add: char_of_def bit_0)

definition demo_wires :: wires where
  "demo_wires = \<lparr>app_tx = 12, app_rx = 10, send_verdict = 9, recv_verdict = 11, transport_tx = 3, transport_rx = 5\<rparr>"

section \<open>Properties\<close>

text \<open>
  A line read from a stream does not depend on how the stream cuts it into chunks: it is what
  precedes the first line feed of the concatenated chunks, and the stream is then still open; a
  stream that ends without a line feed gives what it had, or no line if it had nothing.
\<close>

theorem read_line_joins_chunks:
  assumes "supplies A st s rs s1" and "going rs" and "LF \<notin> set (text_of rs)"
    and "stream_read A st s1 = ((status, chunk), s2)"
  shows "(\<not> at_end status \<and> LF \<in> set chunk \<longrightarrow> read_line A st s =
       Some ((Some (from_utf8_lossy A (text_of rs @ takeWhile (\<lambda>b. b \<noteq> LF) chunk)), False), s2)) \<and>
     (at_end status \<longrightarrow> read_line A st s =
       Some ((if text_of rs @ chunk = [] then None else Some (from_utf8_lossy A (text_of rs @ chunk)), True), s2))"
proof -
  have l: "read_line A st s = read_line_loop A st (text_of rs) s1"
    using read_line_loop_going [OF assms(1,2), of "[]"] assms(3) by (simp add: read_line_def)
  have t: "takeWhile (\<lambda>b. b \<noteq> LF) (text_of rs @ chunk) = text_of rs @ takeWhile (\<lambda>b. b \<noteq> LF) chunk"
    using assms(3) by (subst takeWhile_append2) auto
  show ?thesis
  proof (intro conjI impI)
    assume a: "\<not> at_end status \<and> LF \<in> set chunk"
    then have "read_line_loop A st (text_of rs) s1 = read_line_loop A st (text_of rs @ chunk) s2"
      using assms(3,4) by (subst read_line_loop.simps) (simp add: Let_def)
    also have "\<dots> = Some ((Some (from_utf8_lossy A (text_of rs @ takeWhile (\<lambda>b. b \<noteq> LF) chunk)), False), s2)"
      using a t by (subst read_line_loop.simps) simp
    finally show "read_line A st s =
       Some ((Some (from_utf8_lossy A (text_of rs @ takeWhile (\<lambda>b. b \<noteq> LF) chunk)), False), s2)" using l by simp
  next
    assume "at_end status"
    then show "read_line A st s =
       Some ((if text_of rs @ chunk = [] then None else Some (from_utf8_lossy A (text_of rs @ chunk)), True), s2)"
      using l assms(3,4) by (subst (asm) read_line_loop.simps) (simp add: Let_def)
  qed
qed

theorem read_line_joins_chunks_witness:
  "read_line demo_app 10 ([(SCompleted, [104]), (SCompleted, [105, 10, 33])], []) = Some ((Some ''hi'', False), ([], []))"
proof -
  have "supplies demo_app 10 ([(SCompleted, [104]), (SCompleted, [105, 10, 33])], []) [(SCompleted, [104])]
      ([(SCompleted, [105, 10, 33])], [])"
    by (rule supplies_read [OF _ supplies_none]) (simp add: demo_app_def)
  from read_line_joins_chunks [OF this, of SCompleted "[105, 10, 33]" "([], [])"] show ?thesis
    by (simp add: at_end_def LF_def demo_chars) (simp add: demo_app_def demo_chars)
qed

text \<open>
  The client's verdict is right: with the request accepted, the response line read and the
  stream followed to its end, the client succeeds exactly when the close it expects is the one that
  happened: a clean one (TLS reported its close, whatever the transport did), a truncated one (TLS
  reported an error although the transport closed in order), or a reset (both failed); and, except
  after a reset, the line is the expected one.
\<close>

theorem client_judges_the_close:
  assumes "write_all_to A (app_tx w) (string_bytes payload @ [LF]) s = ([], s1)"
    and "read_line A (app_rx w) s1 = Some ((line, closed), s2)"
    and "(if closed then Some (True, drop_writer A (app_tx w) s2) else drain A (app_rx w) (drop_writer A (app_tx w) s2)) = Some (c, s3)"
    and "await_verdicts A w s3 = ((tls, transport), s4)"
  shows "\<exists>r. client_session A w payload expect response s = Some (Ok (r, s4)) \<and>
     (r = Ok () \<longleftrightarrow> (case expect of
        Clean \<Rightarrow> tls = Ok () \<and> line = Some response
      | Truncated \<Rightarrow> \<not> is_ok tls \<and> transport = Ok () \<and> line = Some response
      | Reset \<Rightarrow> \<not> is_ok tls \<and> \<not> is_ok transport))"
proof -
  have "client_session A w payload expect response s =
      Some (Ok (judge expect (observe tls transport) line response, s4))"
    using assms by (simp add: client_session_def Let_def)
  moreover have "judge expect (observe tls transport) line response = Ok () \<longleftrightarrow> (case expect of
        Clean \<Rightarrow> tls = Ok () \<and> line = Some response
      | Truncated \<Rightarrow> \<not> is_ok tls \<and> transport = Ok () \<and> line = Some response
      | Reset \<Rightarrow> \<not> is_ok tls \<and> \<not> is_ok transport)"
    by (cases tls; cases transport; cases expect) (auto simp: judge_def observe_def)
  ultimately show ?thesis by blast
qed

theorem client_judges_the_close_witness:
  "client_session demo_app demo_wires ''hi'' Truncated ''ho'' ([(SCompleted, [104, 111, 10])], []) =
     Some (Ok (Ok (), ([], [104, 105, 10])))"
proof -
  have rl: "read_line demo_app (app_rx demo_wires) ([(SCompleted, [104, 111, 10])], [104, 105, 10]) =
      Some ((Some ''ho'', False), ([], [104, 105, 10]))"
    by (simp add: read_line_def read_line_loop.simps demo_app_def LF_def at_end_def demo_chars)
  have dr: "drain demo_app (app_rx demo_wires) ([], [104, 105, 10]) = Some (True, ([], [104, 105, 10]))"
    by (simp add: drain.simps demo_app_def at_end_def)
  have "\<exists>r. client_session demo_app demo_wires ''hi'' Truncated ''ho'' ([(SCompleted, [104, 111, 10])], []) =
      Some (Ok (r, ([], [104, 105, 10]))) \<and> (r = Ok () \<longleftrightarrow> True)"
    using client_judges_the_close [of demo_app demo_wires "''hi''" "([(SCompleted, [104, 111, 10])], [])"
        "([(SCompleted, [104, 111, 10])], [104, 105, 10])" "Some ''ho''" False "([], [104, 105, 10])" True
        "([], [104, 105, 10])" "Err ''closed without close_notify''" "Ok ()" "([], [104, 105, 10])" Truncated "''ho''"] rl dr
    by (simp add: demo_app_def demo_wires_def string_bytes_def LF_def await_verdicts_def)
  then show ?thesis by auto
qed

text \<open>
  The server echoes: a request line is written back with its line feed before the server closes
  its side, the server succeeds exactly when the client's side ended with a clean TLS close, and a
  client that ends without a line gets no echo and is an error.
\<close>

theorem server_echoes_the_line:
  assumes "read_line A (app_rx w) s = Some ((line, closed), s1)"
    and "\<And>l. line = Some l \<Longrightarrow> write_all_to A (app_tx w) (string_bytes l @ [LF]) s1 = ([], s2)"
    and "(if closed then Some (True, s2) else drain A (app_rx w) s2) = Some (c, s3)"
    and "await_verdicts A w (drop_writer A (app_tx w) s3) = ((tls, transport), s4)"
  shows "case line of
       None \<Rightarrow> server_session A w s = Some (Ok (Err NoRequest, s1))
     | Some l \<Rightarrow> server_session A w s = Some (Ok (if is_ok tls then Ok () else Err UncleanClose, s4))"
  using assms by (cases line; cases tls) (simp_all add: server_session_def Let_def)

theorem server_echoes_the_line_witness:
  "server_session demo_app demo_wires ([(SCompleted, [104, 105, 10])], []) = Some (Ok (Err UncleanClose, ([], [104, 105, 10])))"
proof -
  have rl: "read_line demo_app (app_rx demo_wires) ([(SCompleted, [104, 105, 10])], []) = Some ((Some ''hi'', False), ([], []))"
    by (simp add: read_line_def read_line_loop.simps demo_app_def LF_def at_end_def demo_chars)
  have dr: "drain demo_app (app_rx demo_wires) ([], [104, 105, 10]) = Some (True, ([], [104, 105, 10]))"
    by (simp add: drain.simps demo_app_def at_end_def)
  show ?thesis
    using server_echoes_the_line [OF rl, of "([], [104, 105, 10])" True "([], [104, 105, 10])"
        "Err ''closed without close_notify''" "Ok ()" "([], [104, 105, 10])"] dr
    by (simp add: demo_app_def demo_wires_def string_bytes_def LF_def await_verdicts_def)
qed

text \<open>
  The plain-TCP demo: with the request accepted and the response read to its end over any
  chunks, it succeeds exactly when both directions closed without an error and the response, less the
  line ends at its end, is the request reversed.
\<close>

theorem demo_checks_the_reversed_echo:
  assumes "stream_new A s = ((tx, rd), s1)" and "tcp_send A socket rd s1 = (sf, s2)"
    and "tcp_receive A socket s2 = ((rx, rf), s3)"
    and "write_all_to A tx (string_bytes payload @ [LF]) s3 = ([], s4)"
    and "supplies A rx (drop_writer A tx s4) (rs @ [(status, chunk)]) s5" and "going rs" and "at_end status"
    and "await_transport A rf s5 = (rres, s6)" and "await_transport A sf s6 = (sres, s7)"
  shows "\<exists>r s'. demo_exchange A socket payload s = Some (Ok (r, s')) \<and>
     (r = Ok () \<longleftrightarrow> rres = Ok () \<and> sres = Ok () \<and>
        trim_line_end (from_utf8_lossy A (text_of rs @ chunk)) = rev payload)"
proof -
  obtain sm where sm: "supplies A rx (drop_writer A tx s4) rs sm" "stream_read A rx sm = ((status, chunk), s5)"
    using supplies_append_last [OF assms(5)] by blast
  have "read_to_end A rx [] (drop_writer A tx s4) = read_to_end A rx (text_of rs) sm"
    using read_to_end_going [OF sm(1) assms(6), of "[]"] by simp
  also have "\<dots> = Some (text_of rs @ chunk, s5)"
    using sm(2) assms(7) by (subst read_to_end.simps) (simp add: Let_def)
  finally have "read_to_end A rx [] (drop_writer A tx s4) = Some (text_of rs @ chunk, s5)" .
  then show ?thesis using assms(1-4,8,9)
    by (cases rres; cases sres) (simp_all add: demo_exchange_def Let_def)
qed

theorem demo_checks_the_reversed_echo_witness:
  "\<exists>s'. demo_exchange demo_app 1 ''hi'' ([(SCompleted, [105]), (SDropped, [104, 10])], []) = Some (Ok (Ok (), s'))"
proof -
  have "supplies demo_app 4 ([(SCompleted, [105]), (SDropped, [104, 10])], [104, 105, 10])
      ([(SCompleted, [105])] @ [(SDropped, [104, 10])]) ([], [104, 105, 10])"
    unfolding append.simps
    by (rule supplies_read, (simp add: demo_app_def)?, rule supplies_read [OF _ supplies_none], simp add: demo_app_def)
  then show ?thesis
    using demo_checks_the_reversed_echo [of demo_app "([(SCompleted, [105]), (SDropped, [104, 10])], [])" 12 13
        "([(SCompleted, [105]), (SDropped, [104, 10])], [])" 1 3 "([(SCompleted, [105]), (SDropped, [104, 10])], [])" 4 5
        "([(SCompleted, [105]), (SDropped, [104, 10])], [])" "''hi''"
        "([(SCompleted, [105]), (SDropped, [104, 10])], [104, 105, 10])"
        "[(SCompleted, [105])]" SDropped "[104, 10]" "([], [104, 105, 10])" "Ok ()" "([], [104, 105, 10])" "Ok ()" "([], [104, 105, 10])"]
    by (simp add: demo_app_def string_bytes_def LF_def at_end_def going_def demo_chars trim_line_end_def)
qed

text \<open>
  A last chunk that carries both the line feed and the end of the stream: the line keeps its line
  feed, so a client that was answered correctly reports a wrong response.
\<close>

theorem read_line_can_keep_the_line_feed:
  "client_session demo_app demo_wires ''hi'' Truncated ''ho'' ([(SDropped, [104, 111, 10])], []) =
     Some (Ok (Err (WrongResponse (Some [CHR ''h'', CHR ''o'', CHR 0x0A]) ''ho''), ([], [104, 105, 10])))"
  by (simp add: client_session_def read_line_def read_line_loop.simps demo_app_def demo_wires_def string_bytes_def
      LF_def at_end_def demo_chars await_verdicts_def observe_def judge_def)

end
