(* ===== verification/Quic_Interop.thy ===== *)
theory Quic_Interop
  imports Quic_Loopback Tcp_Apps
begin

text \<open>
  The endpoints of the QUIC example (\<^verbatim>\<open>src/examples/quic-loopback/src/main.rs\<close>): the interop client and
  server from their set-up endpoint on, their addresses, and the writing half of the bulk transfer. The stream
  operations of noq-proto's connections are parameters. Of a \<open>die\<close> the exit status is kept and the
  fixed part of its message.
\<close>

section \<open>Addresses\<close>

definition parse_addr :: "(string \<Rightarrow> (ip_addr, string) result) \<Rightarrow> string \<Rightarrow> string \<Rightarrow> socket_addr outcome" where
  "parse_addr ip_parse ip port =
     (case ip_parse ip of
        Inl e \<Rightarrow> Exits 1 ''ip''
      | Inr i \<Rightarrow> (case parse_u16 port of Inl e \<Rightarrow> Exits 1 ''port'' | Inr p \<Rightarrow> Done (socket_addr_new i p)))"

fun wildcard :: "socket_addr \<Rightarrow> socket_addr" where
  "wildcard (SocketV4 a p) = socket_addr_new (V4 (0, 0, 0, 0)) 0"
| "wildcard (SocketV6 a p f i) = socket_addr_new (V6 (0, 0, 0, 0, 0, 0, 0, 0)) 0"

section \<open>Streams and events\<close>

datatype lost_reason = ApplicationClosed | TimedOut | OtherReason string

datatype event_kind = Ev_Connected | Ev_ConnectionLost lost_reason | Ev_Other

datatype write_error = Blocked | WriteFailed string

record ('co, 'rd, 'ev) stream_ops =
  so_kind :: "'ev \<Rightarrow> event_kind"
  so_recv :: "('co, 'rd) recv_ops"
  so_open_bi :: "'co \<Rightarrow> u64 option \<times> 'co"
  so_accept_bi :: "'co \<Rightarrow> u64 option \<times> 'co"
  so_write :: "u64 \<Rightarrow> bytes \<Rightarrow> 'co \<Rightarrow> (nat, write_error) result \<times> 'co"
  so_finish :: "u64 \<Rightarrow> 'co \<Rightarrow> (unit, string) result \<times> 'co"
  so_close :: "instant \<Rightarrow> 'co \<Rightarrow> 'co"

text \<open>The conditions the endpoints wait for. The first one stops at the event it looks for.\<close>

fun take_connected :: "('co, 'rd, 'ev) stream_ops \<Rightarrow> (connection_handle \<times> 'ev) list
    \<Rightarrow> connection_handle option \<times> (connection_handle \<times> 'ev) list" where
  "take_connected A [] = (None, [])"
| "take_connected A ((h, e) # es) = (if so_kind A e = Ev_Connected then (Some h, es) else take_connected A es)"

definition until_connected :: "('co, 'rd, 'ev) stream_ops \<Rightarrow> ('x, ('ep, 'co, 'ev) driver, connection_handle) condition" where
  "until_connected A env d =
     (case take_connected A (events d) of (h, es) \<Rightarrow> Some (Done h, env, d\<lparr>events := es\<rparr>))"

definition until_echoed :: "('co, 'rd, 'ev) stream_ops \<Rightarrow> connection_handle \<Rightarrow> u64 \<Rightarrow> (bytes, ('ep, 'co, 'ev) driver, unit) condition" where
  "until_echoed A h stream_id response d =
     (let d = d\<lparr>events := []\<rparr>
      in case map_of (connections d) h of
           None \<Rightarrow> Some (Done None, response, d)
         | Some c \<Rightarrow>
             (case read_stream (so_recv A) stream_id response c of
                None \<Rightarrow> None
              | Some (fin, response, c) \<Rightarrow>
                  Some (Done (if fin then Some () else None), response,
                    d\<lparr>connections := AList.update h c (connections d)\<rparr>)))"

definition until_flushed :: "('x, ('ep, 'co, 'ev) driver, unit) condition" where
  "until_flushed env d = Some (Done (if has_outbound d then None else Some ()), env, d)"

text \<open>The server's state is the stream it accepted, if any, and the request so far.\<close>

definition until_requested :: "('co, 'rd, 'ev) stream_ops \<Rightarrow> connection_handle
    \<Rightarrow> (u64 option \<times> bytes, ('ep, 'co, 'ev) driver, unit) condition" where
  "until_requested A h env d =
     (let d = d\<lparr>events := []\<rparr>; (accepted, request) = env
      in case map_of (connections d) h of
           None \<Rightarrow> Some (Done None, env, d)
         | Some c \<Rightarrow>
             (case (case accepted of None \<Rightarrow> so_accept_bi A c | Some i \<Rightarrow> (accepted, c)) of
                (None, c) \<Rightarrow> Some (Done None, (None, request), d\<lparr>connections := AList.update h c (connections d)\<rparr>)
              | (Some i, c) \<Rightarrow>
                  (case read_stream (so_recv A) i request c of
                     None \<Rightarrow> None
                   | Some (fin, request, c) \<Rightarrow>
                       Some (Done (if fin then Some () else None), (Some i, request),
                         d\<lparr>connections := AList.update h c (connections d)\<rparr>))))"

fun take_lost :: "('co, 'rd, 'ev) stream_ops \<Rightarrow> (connection_handle \<times> 'ev) list
    \<Rightarrow> lost_reason option \<times> (connection_handle \<times> 'ev) list" where
  "take_lost A [] = (None, [])"
| "take_lost A ((h, e) # es) = (case so_kind A e of Ev_ConnectionLost r \<Rightarrow> (Some r, es) | _ \<Rightarrow> take_lost A es)"

definition until_closed :: "('co, 'rd, 'ev) stream_ops \<Rightarrow> ('x, ('ep, 'co, 'ev) driver, unit) condition" where
  "until_closed A env d =
     (case take_lost A (events d) of
        (None, es) \<Rightarrow> Some (Done None, env, d\<lparr>events := es\<rparr>)
      | (Some ApplicationClosed, es) \<Rightarrow> Some (Done (Some ()), env, d\<lparr>events := es\<rparr>)
      | (Some _, es) \<Rightarrow> Some (Exits 1 ''connection lost'', env, d\<lparr>events := es\<rparr>))"

section \<open>The sessions\<close>

text \<open>One write and the end of the stream; how much the write took is not looked at.\<close>

definition send_finished :: "('co, 'rd, 'ev) stream_ops \<Rightarrow> u64 \<Rightarrow> bytes \<Rightarrow> 'co \<Rightarrow> unit outcome \<times> 'co" where
  "send_finished A i data c =
     (case so_write A i data c of
        (Inl e, c) \<Rightarrow> (Panics ''write'', c)
      | (Inr n, c) \<Rightarrow>
          (case so_finish A i c of
             (Inl e, c) \<Rightarrow> (Panics ''finish'', c)
           | (Inr _, c) \<Rightarrow> (Done (), c)))"

definition open_and_send :: "('co, 'rd, 'ev) stream_ops \<Rightarrow> bytes \<Rightarrow> 'co \<Rightarrow> u64 outcome \<times> 'co" where
  "open_and_send A payload c =
     (case so_open_bi A c of
        (None, c) \<Rightarrow> (Panics ''open stream'', c)
      | (Some i, c) \<Rightarrow>
          (case send_finished A i payload c of
             (Done _, c) \<Rightarrow> (Done i, c)
           | (Exits n m, c) \<Rightarrow> (Exits n m, c)
           | (Panics p, c) \<Rightarrow> (Panics p, c)))"

fun on_connection :: "string \<Rightarrow> 'a outcome option \<times> 'd \<Rightarrow> ('a \<times> 'd) outcome" where
  "on_connection missing (None, d) = Panics missing"
| "on_connection missing (Some (Done v), d) = Done (v, d)"
| "on_connection missing (Some (Exits n m), d) = Exits n m"
| "on_connection missing (Some (Panics p), d) = Panics p"

text \<open>
  The client from its established endpoint on, in three parts: the close, the exchange and the whole
  session; the value is the response it printed.
\<close>

definition client_close :: "('s, 'ep, 'co, 'ev, 'cev, 'eev, 'inc, 'cfg) rig \<Rightarrow> ('co, 'rd, 'ev) stream_ops \<Rightarrow>
    connection_handle \<Rightarrow> bytes \<Rightarrow> ('ep, 'co, 'ev) driver \<Rightarrow> 's \<Rightarrow> (bytes \<times> ('ep, 'co, 'ev) driver \<times> 's) outcome option" where
  "client_close G A h response d s =
     (let (now, s) = instant_now (rig_clock G) s;
          d = snd (connection_mut h (\<lambda>c. ((), so_close A now c)) d)
      in Option.bind (drive_one G until_flushed () d s) (\<lambda>r. and_then r (\<lambda>(_, _, d, s).
           Some (Done (response, d, s)))))"

definition client_exchange :: "('s, 'ep, 'co, 'ev, 'cev, 'eev, 'inc, 'cfg) rig \<Rightarrow> ('co, 'rd, 'ev) stream_ops \<Rightarrow>
    connection_handle \<Rightarrow> bytes \<Rightarrow> u64 \<Rightarrow> ('ep, 'co, 'ev) driver \<Rightarrow> 's \<Rightarrow> (bytes \<times> ('ep, 'co, 'ev) driver \<times> 's) outcome option" where
  "client_exchange G A h payload i d s =
     Option.bind (drive_one G (until_echoed A h i) [] d s) (\<lambda>r. and_then r (\<lambda>(_, response, d, s).
       if response \<noteq> payload then Some (Exits 1 ''response does not echo request'')
       else client_close G A h response d s))"

definition quic_client_session :: "('s, 'ep, 'co, 'ev, 'cev, 'eev, 'inc, 'cfg) rig \<Rightarrow> ('co, 'rd, 'ev) stream_ops \<Rightarrow>
    connection_handle \<Rightarrow> bytes \<Rightarrow> ('ep, 'co, 'ev) driver \<Rightarrow> 's \<Rightarrow> (bytes \<times> ('ep, 'co, 'ev) driver \<times> 's) outcome option" where
  "quic_client_session G A h payload d s =
     Option.bind (drive_one G (until_connected A) () d s) (\<lambda>r. and_then r (\<lambda>(_, _, d, s).
       and_then (on_connection ''connection'' (connection_mut h (open_and_send A payload) d)) (\<lambda>(i, d).
         client_exchange G A h payload i d s)))"

definition quic_server_session :: "('s, 'ep, 'co, 'ev, 'cev, 'eev, 'inc, 'cfg) rig \<Rightarrow> ('co, 'rd, 'ev) stream_ops \<Rightarrow>
    ('ep, 'co, 'ev) driver \<Rightarrow> 's \<Rightarrow> (bytes \<times> ('ep, 'co, 'ev) driver \<times> 's) outcome option" where
  "quic_server_session G A d s =
     Option.bind (drive_one G (until_connected A) () d s) (\<lambda>r. and_then r (\<lambda>(h, _, d, s).
     Option.bind (drive_one G (until_requested A h) (None, []) d s) (\<lambda>r. and_then r (\<lambda>(_, (accepted, request), d, s).
     and_then (on_connection ''connection'' (connection_mut h (\<lambda>c. case accepted of
         None \<Rightarrow> (Panics ''accepted stream'', c) | Some i \<Rightarrow> send_finished A i request c) d)) (\<lambda>(_, d).
     Option.bind (drive_one G (until_closed A) () d s) (\<lambda>r. and_then r (\<lambda>(_, _, d, s).
       Some (Done (request, d, s)))))))))"

section \<open>The bulk transfer's writing loop\<close>

definition BULK_CHUNK :: nat where "BULK_CHUNK = 64 * 1024"

text \<open>
  \<open>while written < bytes\<close>: a write of nothing or a blocked stream ends the loop.
\<close>

function bulk_write :: "('co, 'rd, 'ev) stream_ops \<Rightarrow> u64 \<Rightarrow> nat \<Rightarrow> nat \<Rightarrow> 'co \<Rightarrow> nat outcome \<times> 'co" where
  "bulk_write A i amount written c =
     (if written < amount
      then (case so_write A i (replicate (min (amount - written) BULK_CHUNK) 0xa5) c of
              (Inl Blocked, c) \<Rightarrow> (Done written, c)
            | (Inl (WriteFailed e), c) \<Rightarrow> (Exits 1 ''stream write'', c)
            | (Inr n, c) \<Rightarrow> if n = 0 then (Done written, c) else bulk_write A i amount (written + n) c)
      else (Done written, c))"
  by pat_completeness auto
termination
  by (relation "measure (\<lambda>(A, i, amount, written, c). amount - written)") auto

declare bulk_write.simps [simp del]

text \<open>After the loop the stream is finished once, when all is written.\<close>

definition bulk_step :: "('co, 'rd, 'ev) stream_ops \<Rightarrow> u64 \<Rightarrow> nat \<Rightarrow> nat \<times> bool \<Rightarrow> 'co \<Rightarrow> (nat \<times> bool) outcome \<times> 'co" where
  "bulk_step A i amount st c =
     (case st of (written, finished) \<Rightarrow>
        if written < amount \<or> \<not> finished
        then (case bulk_write A i amount written c of
                (Exits n m, c) \<Rightarrow> (Exits n m, c)
              | (Panics p, c) \<Rightarrow> (Panics p, c)
              | (Done written, c) \<Rightarrow>
                  if written \<ge> amount \<and> \<not> finished
                  then (case so_finish A i c of
                          (Inl e, c) \<Rightarrow> (Panics ''finish'', c)
                        | (Inr _, c) \<Rightarrow> (Done (written, True), c))
                  else (Done (written, finished), c))
        else (Done st, c))"

section \<open>Laws\<close>

lemma until_connected_returns: "\<exists>r. until_connected A env d = Some r"
  by (simp add: until_connected_def split: prod.splits)

lemma until_flushed_returns: "\<exists>r. until_flushed env d = Some r"
  by (simp add: until_flushed_def)

lemma until_closed_returns: "\<exists>r. until_closed A env d = Some r"
  by (auto simp: until_closed_def split: prod.splits option.splits lost_reason.splits)

text \<open>Reading ends when every reader gives finitely many chunks.\<close>

definition reads_end :: "('co, 'rd) recv_ops \<Rightarrow> bool" where
  "reads_end S \<longleftrightarrow> (\<forall>acc rd. \<exists>r. read_chunks S acc rd = Some r)"

lemma read_stream_returns: "reads_end S \<Longrightarrow> \<exists>r. read_stream S i acc c = Some r"
  by (cases "recv_read S i True c") (auto simp: read_stream_def reads_end_def split: option.splits, metis option.distinct(1))

lemma until_echoed_returns:
  assumes "reads_end (so_recv A)" shows "\<exists>r. until_echoed A h i acc d = Some r"
proof (cases "map_of (connections d) h")
  case (Some c)
  obtain r where "read_stream (so_recv A) i acc c = Some r" using read_stream_returns [OF assms] by blast
  with Some show ?thesis by (cases r) (simp add: until_echoed_def Let_def)
qed (simp add: until_echoed_def)

lemma until_requested_returns:
  assumes "reads_end (so_recv A)" shows "\<exists>r. until_requested A h env d = Some r"
proof (cases "map_of (connections d) h")
  case (Some c)
  obtain acc req where e: "env = (acc, req)" by fastforce
  obtain x c1 where x: "(case acc of None \<Rightarrow> so_accept_bi A c | Some i \<Rightarrow> (acc, c)) = (x, c1)" by fastforce
  have "\<exists>r. read_stream (so_recv A) i req c1 = Some r" for i by (rule read_stream_returns [OF assms])
  then obtain f where "read_stream (so_recv A) i req c1 = Some (f i)" for i by metis
  with Some x e show ?thesis by (cases x) (auto simp: until_requested_def Let_def split: prod.splits)
qed (simp add: until_requested_def split: prod.splits)

lemma drive_one_total:
  assumes "settles G clk" and "clock_ok (rig_clock G) clk" and returns: "\<And>x d. \<exists>r. predicate x d = Some r"
  shows "\<exists>r. drive_one G predicate x d s = Some r"
proof -
  obtain now s1 where i: "instant_now (rig_clock G) s = (now, s1)" by fastforce
  then show ?thesis using drive_one_loop_ends [where predicate = predicate, OF assms] by (simp add: drive_one_def)
qed

lemma drive_one_Done:
  assumes "drive_one G predicate x d s = Some (Done (v, x', d', s'))"
  shows "\<exists>x0 d0. predicate x0 d0 = Some (Done (Some v), x', d')"
proof -
  obtain now s1 where i: "instant_now (rig_clock G) s = (now, s1)" by fastforce
  then show ?thesis using drive_one_loop_Done assms by (fastforce simp: drive_one_def)
qed

lemma bulk_write_bounds:
  assumes "\<And>i data c n c'. so_write A i data c = (Ok n, c') \<Longrightarrow> n \<le> length data"
    and "written \<le> amount" and "bulk_write A i amount written c = (Done written', c')"
  shows "written \<le> written' \<and> written' \<le> amount"
  using assms
proof (induction A i amount written c rule: bulk_write.induct)
  case (1 A i amount written c)
  show ?case
  proof (cases "written < amount")
    case False
    with 1(3,4) show ?thesis by (simp add: bulk_write.simps)
  next
    case True
    let ?want = "min (amount - written) BULK_CHUNK"
    obtain r c1 where w: "so_write A i (replicate ?want 0xa5) c = (r, c1)" by fastforce
    show ?thesis
    proof (cases "\<exists>n. r = Ok n \<and> n \<noteq> 0")
      case False
      with 1(3,4) w True show ?thesis
        by (subst (asm) bulk_write.simps) (auto split: sum.splits write_error.splits if_splits)
    next
      case T: True
      then obtain n where n: "r = Ok n" "n \<noteq> 0" by blast
      have "n \<le> ?want" using 1(2) [of i "replicate ?want 0xa5" c n c1] w n(1) by simp
      then have le: "written + n \<le> amount" using True by linarith
      have b: "bulk_write A i amount (written + n) c1 = (Done written', c')"
        using 1(4) w True n by (subst (asm) bulk_write.simps) simp
      have "written + n \<le> written' \<and> written' \<le> amount"
        by (rule 1(1) [OF True w [symmetric] n(1) n(2) 1(2) le b])
      then show ?thesis by simp
    qed
  qed
qed

section \<open>A concrete connection\<close>

text \<open>
  A connection whose stream takes at most four bytes per write; its state is what it took and whether
  the stream was finished.
\<close>

definition narrow_streams :: "(bytes \<times> bool, unit, nat) stream_ops" where
  "narrow_streams = \<lparr>so_kind = (\<lambda>_. Ev_Connected),
     so_recv = \<lparr>recv_read = (\<lambda>_ _ c. (Some (), c)), chunks_next = (\<lambda>_. (Finished, ())), chunks_finalize = (\<lambda>_ c. c)\<rparr>,
     so_open_bi = (\<lambda>c. (Some 0, c)), so_accept_bi = (\<lambda>c. (Some 0, c)),
     so_write = (\<lambda>_ data (out, fin). (Ok (min 4 (length data)), out @ take 4 data, fin)),
     so_finish = (\<lambda>_ (out, fin). (Ok (), out, True)), so_close = (\<lambda>_ c. c)\<rparr>"

text \<open>An endpoint at rest whose connections are numbers.\<close>

definition rest_streams :: "(nat, unit, nat) stream_ops" where
  "rest_streams = \<lparr>so_kind = (\<lambda>_. Ev_Connected),
     so_recv = \<lparr>recv_read = (\<lambda>_ _ c. (Some (), c)), chunks_next = (\<lambda>_. (Finished, ())), chunks_finalize = (\<lambda>_ c. c)\<rparr>,
     so_open_bi = (\<lambda>c. (Some 0, c)), so_accept_bi = (\<lambda>c. (Some 0, c)),
     so_write = (\<lambda>_ data c. (Ok (length data), c)), so_finish = (\<lambda>_ c. (Ok (), c)), so_close = (\<lambda>_ c. c)\<rparr>"

lemma rest_reads_end: "reads_end (so_recv rest_streams)"
  by (auto simp: reads_end_def rest_streams_def read_chunks.simps)

lemma narrow_write:
  "so_write narrow_streams i data (out, fin) = (Ok (min 4 (length data)), out @ take 4 data, fin)"
  by (simp add: narrow_streams_def)

lemma narrow_bulk: "bulk_write narrow_streams 0 6 0 ([], False) = (Done 6, replicate 6 0xa5, False)"
proof -
  have "bulk_write narrow_streams 0 6 6 (replicate 6 0xa5, False) = (Done 6, replicate 6 0xa5, False)"
    by (subst bulk_write.simps) simp
  then have "bulk_write narrow_streams 0 6 4 (replicate 4 0xa5, False) = (Done 6, replicate 6 0xa5, False)"
    by (subst bulk_write.simps) (simp add: narrow_write BULK_CHUNK_def replicate_add [symmetric])
  then show ?thesis
    by (subst bulk_write.simps) (simp add: narrow_write BULK_CHUNK_def)
qed

lemma rest_drive:
  "predicate x d = Some (Done (Some v), x', d') \<Longrightarrow> drive_one quiet_rig predicate x d s = Some (Done (v, x', d', s))"
  by (simp add: drive_one_def drive_one_loop.simps pump_until_idle.simps quiet_rig_def quiet_clock_def rest_pump)

section \<open>Properties\<close>

text \<open>
  Both interop endpoints end: when pumping comes to rest, time passes while waiting and a stream
  gives finitely many chunks at a time, the client's and the server's session return, whatever the
  peer does, with success, a failure status or a panic.
\<close>

theorem interop_sessions_end:
  assumes "settles G clk" and "clock_ok (rig_clock G) clk" and "reads_end (so_recv A)"
  shows "(\<exists>r. quic_client_session G A h payload d s = Some r) \<and> (\<exists>r. quic_server_session G A d s = Some r)"
proof
  note drives = drive_one_total [OF assms(1,2)]
  have c: "\<exists>r. drive_one G (until_connected A) x d s = Some r" for x :: unit and d s
    by (rule drives) (rule until_connected_returns)
  have e: "\<exists>r. drive_one G (until_echoed A h i) x d s = Some r" for i x d s
    by (rule drives) (rule until_echoed_returns [OF assms(3)])
  have f: "\<exists>r. drive_one G until_flushed x d s = Some r" for x :: unit and d :: "('b, 'c, 'd) driver" and s
    by (rule drives) (rule until_flushed_returns)
  have q: "\<exists>r. drive_one G (until_requested A h) x d s = Some r" for h x d s
    by (rule drives) (rule until_requested_returns [OF assms(3)])
  have l: "\<exists>r. drive_one G (until_closed A) x d s = Some r" for x :: unit and d s
    by (rule drives) (rule until_closed_returns)
  have bind: "\<exists>y. Option.bind m k = Some y" if "\<exists>r. m = Some r" "\<And>r. \<exists>y. k r = Some y" for m and k :: "'m \<Rightarrow> 'n option"
    using that by auto
  show "\<exists>r. quic_client_session G A h payload d s = Some r"
    unfolding quic_client_session_def client_exchange_def client_close_def Let_def
    by (intro bind c and_then_total) (auto intro!: bind and_then_total e f split: prod.splits)
  show "\<exists>r. quic_server_session G A d s = Some r"
    unfolding quic_server_session_def
    by (intro bind c and_then_total) (auto intro!: bind and_then_total q l)
qed

theorem interop_sessions_end_witness:
  "(\<exists>r. quic_client_session quiet_rig rest_streams 7 [1, 2] demo_driver 5 = Some r) \<and>
   (\<exists>r. quic_server_session quiet_rig rest_streams demo_driver 5 = Some r)"
  by (rule interop_sessions_end [OF rest_settles quiet_clock_ok rest_reads_end])

text \<open>
  The interop client succeeds only on an exact echo: the bytes read up to the end of its stream
  are the payload, and at the end nothing is left to send.
\<close>

theorem client_succeeds_only_on_the_echo:
  fixes d d' :: "('ep, 'co, 'ev) driver"
  assumes "quic_client_session G A h payload d s = Some (Done (response, d', s'))"
  shows "response = payload \<and> \<not> has_outbound d' \<and>
    (\<exists>i before (d0 :: ('ep, 'co, 'ev) driver) d1. until_echoed A h i before d0 = Some (Done (Some ()), payload, d1))"
proof -
  obtain i d2 s1 where x: "client_exchange G A h payload i d2 s1 = Some (Done (response, d', s'))"
    using assms by (auto simp: quic_client_session_def bind_eq_Some_conv and_then_Done)
  obtain d3 s3 where e: "drive_one G (until_echoed A h i) [] d2 s1 = Some (Done ((), response, d3, s3))"
    and p: "response = payload" and c: "client_close G A h response d3 s3 = Some (Done (response, d', s'))"
    using x by (auto simp: client_exchange_def client_close_def bind_eq_Some_conv and_then_Done Let_def
        split: if_splits prod.splits)
  obtain d4 s4 where f: "drive_one G until_flushed () d4 s4 = Some (Done ((), (), d', s'))"
    using c by (auto simp: client_close_def bind_eq_Some_conv and_then_Done Let_def split: prod.splits)
  obtain before d0 where "until_echoed A h i before d0 = Some (Done (Some ()), response, d3)"
    using drive_one_Done [OF e] by blast
  moreover obtain x0 :: unit and d5 where "until_flushed x0 d5 = Some (Done (Some ()), (), d')"
    using drive_one_Done [OF f] by blast
  ultimately show ?thesis using p by (auto simp: until_flushed_def split: if_splits)
qed

theorem client_succeeds_only_on_the_echo_witness:
  "\<exists>d'. quic_client_session quiet_rig rest_streams 7 [] (demo_driver\<lparr>connections := [(7, 90)], events := [(7, 1)]\<rparr>) 5
     = Some (Done ([], d', 5)) \<and> \<not> has_outbound d'"
proof -
  let ?d = "demo_driver\<lparr>connections := [(7, 90)], events := []\<rparr>"
  have "client_close quiet_rig rest_streams 7 [] ?d 5 = Some (Done ([], ?d, 5))"
  proof -
    have "instant_now (rig_clock quiet_rig) 5 = (5, 5)" by (simp add: quiet_rig_def quiet_clock_def)
    then show ?thesis
      by (simp add: client_close_def connection_mut_def rest_streams_def rest_drive until_flushed_def
          has_outbound_def demo_driver_def)
  qed
  then have "client_exchange quiet_rig rest_streams 7 [] 0 ?d 5 = Some (Done ([], ?d, 5))"
    by (simp add: client_exchange_def rest_drive until_echoed_def read_stream_def read_chunks.simps rest_streams_def demo_driver_def)
  then have s: "quic_client_session quiet_rig rest_streams 7 [] (demo_driver\<lparr>connections := [(7, 90)], events := [(7, 1)]\<rparr>) 5
      = Some (Done ([], ?d, 5))"
    by (simp add: quic_client_session_def rest_drive until_connected_def connection_mut_def open_and_send_def
        send_finished_def rest_streams_def demo_driver_def)
  from client_succeeds_only_on_the_echo [OF s] s show ?thesis by blast
qed

text \<open>
  The bulk transfer's writer keeps its books: as long as the stream never takes more than it is
  given, the count never exceeds the amount and never shrinks, and the stream is finished in the step
  in which the last byte is taken, and only then.
\<close>

theorem bulk_transfer_counts_exactly:
  assumes "\<And>i data c n c'. so_write A i data c = (Ok n, c') \<Longrightarrow> n \<le> length data"
    and "written \<le> amount" and "finished \<longrightarrow> written = amount"
    and "bulk_step A i amount (written, finished) c = (Done (written', finished'), c')"
  shows "written \<le> written' \<and> written' \<le> amount \<and> (finished' \<longleftrightarrow> written' = amount)"
proof (cases "written < amount \<or> \<not> finished")
  case False
  then show ?thesis using assms(2-4) by (auto simp: bulk_step_def)
next
  case True
  obtain r c1 where b: "bulk_write A i amount written c = (r, c1)" by fastforce
  then obtain w where w: "r = Done w" using assms(4) True by (cases r) (auto simp: bulk_step_def)
  have "written \<le> w \<and> w \<le> amount" by (rule bulk_write_bounds [OF assms(1,2)]) (use b w in auto)
  with assms(3,4) b w True show ?thesis by (auto simp: bulk_step_def split: if_splits prod.splits sum.splits)
qed

theorem bulk_transfer_counts_exactly_witness:
  "bulk_step narrow_streams 0 6 (0, False) ([], False) = (Done (6, True), replicate 6 0xa5, True) \<and>
   (True \<longleftrightarrow> (6 :: nat) = 6)"
proof -
  have s: "bulk_step narrow_streams 0 6 (0, False) ([], False) = (Done (6, True), replicate 6 0xa5, True)"
    by (simp add: bulk_step_def narrow_bulk) (simp add: narrow_streams_def)
  have "\<And>i data c n c'. so_write narrow_streams i data c = (Ok n, c') \<Longrightarrow> n \<le> length data"
    by (auto simp: narrow_streams_def)
  from bulk_transfer_counts_exactly [OF this _ _ s] s show ?thesis by simp
qed

text \<open>
  The interop endpoints do not look at how much a write took: a stream that takes less than the
  payload is finished all the same, and the rest is never sent.
\<close>

theorem short_write_loses_the_rest:
  "open_and_send narrow_streams [1, 2, 3, 4, 5, 6] ([], False) = (Done 0, [1, 2, 3, 4], True)"
  by (simp add: open_and_send_def send_finished_def narrow_streams_def)

end
