(* ===== verification/Timing_Stats.thy ===== *)
theory Timing_Stats
  imports Complex_Main Prelude
begin

text \<open>
  The statistic of the timing laboratory (\<^verbatim>\<open>src/timing-lab/src/stats.rs\<close>): the online accumulator,
  Welch's t and the maximum over cropped samples. A floating-point number is a real, an infinity or
  not-a-number, and an operation is the exact one followed by the rounding \<open>rnd\<close>, an argument of the
  definitions; the sign of a zero is not kept. Theorems hold for every rounding, except those that
  compare with the textbook formulas, which are for exact arithmetic (\<open>rnd = Fin\<close>).
\<close>

section \<open>Floating point\<close>

datatype f64 = Inf bool | Fin real | NaN

fun f_neg :: "f64 \<Rightarrow> f64" where
  "f_neg (Fin a) = Fin (- a)"
| "f_neg (Inf s) = Inf (\<not> s)"
| "f_neg NaN = NaN"

text \<open>\<open>Inf True\<close> is the negative infinity.\<close>

fun f_add :: "(real \<Rightarrow> f64) \<Rightarrow> f64 \<Rightarrow> f64 \<Rightarrow> f64" where
  "f_add rnd (Fin a) (Fin b) = rnd (a + b)"
| "f_add rnd (Inf s) (Inf t) = (if s = t then Inf s else NaN)"
| "f_add rnd (Inf s) (Fin b) = Inf s"
| "f_add rnd (Fin a) (Inf t) = Inf t"
| "f_add rnd NaN y = NaN"
| "f_add rnd x NaN = NaN"

definition f_sub :: "(real \<Rightarrow> f64) \<Rightarrow> f64 \<Rightarrow> f64 \<Rightarrow> f64" where
  "f_sub rnd x y = f_add rnd x (f_neg y)"

fun f_mul :: "(real \<Rightarrow> f64) \<Rightarrow> f64 \<Rightarrow> f64 \<Rightarrow> f64" where
  "f_mul rnd (Fin a) (Fin b) = rnd (a * b)"
| "f_mul rnd (Inf s) (Inf t) = Inf (s \<noteq> t)"
| "f_mul rnd (Inf s) (Fin b) = (if b = 0 then NaN else Inf (s \<noteq> (b < 0)))"
| "f_mul rnd (Fin a) (Inf t) = (if a = 0 then NaN else Inf (t \<noteq> (a < 0)))"
| "f_mul rnd NaN y = NaN"
| "f_mul rnd x NaN = NaN"

fun f_div :: "(real \<Rightarrow> f64) \<Rightarrow> f64 \<Rightarrow> f64 \<Rightarrow> f64" where
  "f_div rnd (Fin a) (Fin b) = (if b = 0 then if a = 0 then NaN else Inf (a < 0) else rnd (a / b))"
| "f_div rnd (Inf s) (Inf t) = NaN"
| "f_div rnd (Inf s) (Fin b) = Inf (s \<noteq> (b < 0))"
| "f_div rnd (Fin a) (Inf t) = Fin 0"
| "f_div rnd NaN y = NaN"
| "f_div rnd x NaN = NaN"

fun f_sqrt :: "(real \<Rightarrow> f64) \<Rightarrow> f64 \<Rightarrow> f64" where
  "f_sqrt rnd (Fin a) = (if a < 0 then NaN else rnd (sqrt a))"
| "f_sqrt rnd (Inf s) = (if s then NaN else Inf False)"
| "f_sqrt rnd NaN = NaN"

fun f_abs :: "f64 \<Rightarrow> f64" where
  "f_abs (Fin a) = Fin \<bar>a\<bar>"
| "f_abs (Inf s) = Inf False"
| "f_abs NaN = NaN"

definition is_finite :: "f64 \<Rightarrow> bool" where
  "is_finite x = (case x of Fin _ \<Rightarrow> True | _ \<Rightarrow> False)"

text \<open>\<open>total_cmp\<close> is a linear order, with not-a-number last.\<close>

fun total_le :: "f64 \<Rightarrow> f64 \<Rightarrow> bool" where
  "total_le (Inf True) y = True"
| "total_le (Fin a) (Fin b) = (a \<le> b)"
| "total_le (Fin a) (Inf False) = True"
| "total_le (Fin a) NaN = True"
| "total_le (Inf False) (Inf False) = True"
| "total_le (Inf False) NaN = True"
| "total_le NaN NaN = True"
| "total_le x y = False"

instantiation f64 :: linorder
begin

definition less_eq_f64 :: "f64 \<Rightarrow> f64 \<Rightarrow> bool" where
  "less_eq_f64 = total_le"

definition less_f64 :: "f64 \<Rightarrow> f64 \<Rightarrow> bool" where
  "less_f64 x y = (total_le x y \<and> \<not> total_le y x)"

instance
proof
  fix x y z :: f64
  have cases: "\<And>x. (\<And>a. x = Fin a \<Longrightarrow> P) \<Longrightarrow> (x = Inf True \<Longrightarrow> P) \<Longrightarrow> (x = Inf False \<Longrightarrow> P) \<Longrightarrow> (x = NaN \<Longrightarrow> P) \<Longrightarrow> P" for P
    by (metis (full_types) f64.exhaust)
  show "(x < y) = (x \<le> y \<and> \<not> y \<le> x)" by (simp add: less_eq_f64_def less_f64_def)
  show "x \<le> x" by (cases x rule: cases) (simp_all add: less_eq_f64_def)
  show "x \<le> y \<Longrightarrow> y \<le> z \<Longrightarrow> x \<le> z"
    by (cases x rule: cases; cases y rule: cases; cases z rule: cases) (simp_all add: less_eq_f64_def)
  show "x \<le> y \<Longrightarrow> y \<le> x \<Longrightarrow> x = y"
    by (cases x rule: cases; cases y rule: cases) (simp_all add: less_eq_f64_def)
  show "x \<le> y \<or> y \<le> x"
    by (cases x rule: cases; cases y rule: cases) (auto simp: less_eq_f64_def)
qed

end

text \<open>The comparisons of the language, false on not-a-number.\<close>

definition f_le :: "f64 \<Rightarrow> f64 \<Rightarrow> bool" where
  "f_le x y = (x \<noteq> NaN \<and> y \<noteq> NaN \<and> x \<le> y)"

definition f_lt :: "f64 \<Rightarrow> f64 \<Rightarrow> bool" where
  "f_lt x y = (x \<noteq> NaN \<and> y \<noteq> NaN \<and> x < y)"

text \<open>\<open>ceil() as usize\<close>, which saturates.\<close>

fun f_ceil_usize :: "f64 \<Rightarrow> nat" where
  "f_ceil_usize (Fin a) = min (nat \<lceil>a\<rceil>) (2 ^ 32 - 1)"
| "f_ceil_usize (Inf s) = (if s then 0 else 2 ^ 32 - 1)"
| "f_ceil_usize NaN = 0"

section \<open>The accumulator\<close>

record accumulator =
  acc_n :: f64
  acc_mean :: f64
  acc_m2 :: f64

definition accumulator_default :: accumulator where
  "accumulator_default = \<lparr>acc_n = Fin 0, acc_mean = Fin 0, acc_m2 = Fin 0\<rparr>"

definition push :: "(real \<Rightarrow> f64) \<Rightarrow> f64 \<Rightarrow> accumulator \<Rightarrow> accumulator" where
  "push rnd x a =
     (let n = f_add rnd (acc_n a) (Fin 1);
          delta = f_sub rnd x (acc_mean a);
          mean = f_add rnd (acc_mean a) (f_div rnd delta n)
      in \<lparr>acc_n = n, acc_mean = mean, acc_m2 = f_add rnd (acc_m2 a) (f_mul rnd delta (f_sub rnd x mean))\<rparr>)"

definition accumulate :: "(real \<Rightarrow> f64) \<Rightarrow> f64 list \<Rightarrow> accumulator" where
  "accumulate rnd xs = fold (push rnd) xs accumulator_default"

definition variance :: "(real \<Rightarrow> f64) \<Rightarrow> accumulator \<Rightarrow> f64" where
  "variance rnd a =
     (if f_lt (acc_n a) (Fin 2) then NaN else f_div rnd (acc_m2 a) (f_sub rnd (acc_n a) (Fin 1)))"

definition welch_t :: "(real \<Rightarrow> f64) \<Rightarrow> accumulator \<Rightarrow> accumulator \<Rightarrow> f64" where
  "welch_t rnd a b =
     (let va = f_div rnd (variance rnd a) (acc_n a);
          vb = f_div rnd (variance rnd b) (acc_n b)
      in f_div rnd (f_sub rnd (acc_mean a) (acc_mean b)) (f_sqrt rnd (f_add rnd va vb)))"

section \<open>The cropped statistic\<close>

datatype verdict = Quiet | Leak | Inconclusive

definition THRESHOLD :: f64 where "THRESHOLD = Fin 10"

definition CROP_PERCENTILES :: "real list" where
  "CROP_PERCENTILES = [1, 7 / 10, 5 / 10, 3 / 10, 2 / 10, 1 / 10, 5 / 100, 2 / 100, 1 / 100]"

text \<open>One pass of the loop: \<open>None\<close> where the source continues with the next percentile.\<close>

definition cropped_t :: "(real \<Rightarrow> f64) \<Rightarrow> f64 list \<Rightarrow> f64 list \<Rightarrow> f64 list \<Rightarrow> real \<Rightarrow> f64 option" where
  "cropped_t rnd class0 class1 pooled pct =
     (let keep = min (f_ceil_usize (f_mul rnd (rnd (of_nat (length pooled))) (rnd pct))) (length pooled)
      in if keep < 4 then None
         else let cutoff = pooled ! (keep - 1);
                  a = accumulate rnd (filter (\<lambda>x. f_le x cutoff) class0);
                  b = accumulate rnd (filter (\<lambda>x. f_le x cutoff) class1)
              in if f_lt (acc_n a) (Fin 2) \<or> f_lt (acc_n b) (Fin 2) then None
                 else Some (welch_t rnd a b))"

definition take_larger :: "f64 \<Rightarrow> f64 \<Rightarrow> f64" where
  "take_larger t max_t =
     (if is_finite t \<and> (max_t = NaN \<or> f_lt (f_abs max_t) (f_abs t)) then t else max_t)"

fun crop_loop :: "(real \<Rightarrow> f64) \<Rightarrow> f64 list \<Rightarrow> f64 list \<Rightarrow> f64 list \<Rightarrow> real list \<Rightarrow> f64 \<Rightarrow> f64" where
  "crop_loop rnd class0 class1 pooled [] max_t = max_t"
| "crop_loop rnd class0 class1 pooled (pct # pcts) max_t =
     (case cropped_t rnd class0 class1 pooled pct of
        None \<Rightarrow> crop_loop rnd class0 class1 pooled pcts max_t
      | Some t \<Rightarrow> crop_loop rnd class0 class1 pooled pcts (take_larger t max_t))"

definition max_cropped_t :: "(real \<Rightarrow> f64) \<Rightarrow> f64 list \<Rightarrow> f64 list \<Rightarrow> f64" where
  "max_cropped_t rnd class0 class1 =
     crop_loop rnd class0 class1 (sort (class0 @ class1)) CROP_PERCENTILES NaN"

definition verdict_of :: "f64 \<Rightarrow> verdict" where
  "verdict_of max_t =
     (if \<not> is_finite max_t then Inconclusive
      else if f_lt THRESHOLD (f_abs max_t) then Leak
      else Quiet)"

section \<open>Laws\<close>

lemma is_finite_simps [simp]: "is_finite (Fin a)" "\<not> is_finite (Inf s)" "\<not> is_finite NaN"
  by (simp_all add: is_finite_def)

lemma is_finite_iff: "is_finite x \<longleftrightarrow> (\<exists>a. x = Fin a)"
  by (cases x) simp_all

lemma f_lt_Fin [simp]: "f_lt (Fin a) (Fin b) \<longleftrightarrow> a < b"
  by (auto simp: f_lt_def less_f64_def)

lemma f_le_Fin [simp]: "f_le (Fin a) (Fin b) \<longleftrightarrow> a \<le> b"
  by (simp add: f_le_def less_eq_f64_def)

text \<open>The finite values among the crops of a list of percentiles.\<close>

definition crops :: "(real \<Rightarrow> f64) \<Rightarrow> f64 list \<Rightarrow> f64 list \<Rightarrow> real list \<Rightarrow> real set" where
  "crops rnd class0 class1 pcts =
     {t. \<exists>pct \<in> set pcts. cropped_t rnd class0 class1 (sort (class0 @ class1)) pct = Some (Fin t)}"

definition best_of :: "f64 \<Rightarrow> real set \<Rightarrow> bool" where
  "best_of m ts \<longleftrightarrow> (case m of NaN \<Rightarrow> ts = {} | Fin r \<Rightarrow> r \<in> ts \<and> (\<forall>t \<in> ts. \<bar>t\<bar> \<le> \<bar>r\<bar>) | Inf _ \<Rightarrow> False)"

lemma take_larger_best:
  assumes "best_of m ts"
  shows "best_of (take_larger t m) (ts \<union> {r. t = Fin r})"
  using assms by (cases m; cases t) (auto simp: best_of_def take_larger_def)

lemma crop_loop_best:
  assumes "best_of m ts"
  shows "best_of (crop_loop rnd class0 class1 (sort (class0 @ class1)) pcts m) (ts \<union> crops rnd class0 class1 pcts)"
  using assms
proof (induction pcts arbitrary: m ts)
  case (Cons pct pcts)
  let ?c = "cropped_t rnd class0 class1 (sort (class0 @ class1)) pct"
  have split: "ts \<union> crops rnd class0 class1 (pct # pcts) =
      (ts \<union> {r. ?c = Some (Fin r)}) \<union> crops rnd class0 class1 pcts" by (auto simp: crops_def)
  show ?case
  proof (cases ?c)
    case None
    with Cons.IH [OF Cons.prems] show ?thesis by (simp add: split)
  next
    case (Some t)
    have "best_of (crop_loop rnd class0 class1 (sort (class0 @ class1)) pcts (take_larger t m))
        ((ts \<union> {r. t = Fin r}) \<union> crops rnd class0 class1 pcts)"
      by (rule Cons.IH [OF take_larger_best [OF Cons.prems]])
    with Some show ?thesis by (simp add: split)
  qed
qed (simp add: crops_def)

lemma max_cropped_t_best: "best_of (max_cropped_t rnd class0 class1) (crops rnd class0 class1 CROP_PERCENTILES)"
  using crop_loop_best [of NaN "{}" rnd class0 class1 CROP_PERCENTILES]
  by (simp add: max_cropped_t_def best_of_def)

text \<open>The accumulator in exact arithmetic: the sums of the values and of their squares.\<close>

definition sq :: "real \<Rightarrow> real" where "sq x = x * x"

lemma push_exact:
  assumes "a = \<lparr>acc_n = Fin n, acc_mean = Fin m, acc_m2 = Fin q\<rparr>" and "n + 1 \<noteq> 0"
  shows "push Fin (Fin x) a = \<lparr>acc_n = Fin (n + 1), acc_mean = Fin (m + (x - m) / (n + 1)),
    acc_m2 = Fin (q + (x - m) * (x - (m + (x - m) / (n + 1))))\<rparr>"
  using assms by (simp add: push_def f_sub_def Let_def)

lemma welford_step:
  fixes S Q x N :: real
  assumes "0 < N"
  shows "S / N + (x - S / N) / (N + 1) = (S + x) / (N + 1)"
    and "(Q - S * S / N) + (x - S / N) * (x - (S + x) / (N + 1)) = (Q + x * x) - (S + x) * (S + x) / (N + 1)"
proof -
  have n: "N \<noteq> 0" "N + 1 \<noteq> 0" using assms by simp_all
  show "S / N + (x - S / N) / (N + 1) = (S + x) / (N + 1)"
    using n by (simp add: divide_simps) algebra
  show "(Q - S * S / N) + (x - S / N) * (x - (S + x) / (N + 1)) = (Q + x * x) - (S + x) * (S + x) / (N + 1)"
    using n by (simp add: divide_simps) algebra
qed

lemma accumulate_exact:
  assumes "xs \<noteq> []"
  shows "accumulate Fin (map Fin xs) = \<lparr>acc_n = Fin (of_nat (length xs)),
    acc_mean = Fin (sum_list xs / of_nat (length xs)),
    acc_m2 = Fin (sum_list (map sq xs) - sum_list xs * sum_list xs / of_nat (length xs))\<rparr>"
  using assms
proof (induction xs rule: rev_nonempty_induct)
  case (single x)
  then show ?case
    by (simp add: accumulate_def accumulator_default_def push_exact [of _ 0 0 0] sq_def)
next
  case (snoc x xs)
  have "0 < (of_nat (length xs) :: real)" using snoc.hyps by simp
  note w = welford_step(1) [OF this, where S = "sum_list xs" and x = x]
    welford_step(2) [OF this, where S = "sum_list xs" and x = x and Q = "sum_list (map sq xs)"]
  have "accumulate Fin (map Fin (xs @ [x])) = push Fin (Fin x) (accumulate Fin (map Fin xs))"
    by (simp add: accumulate_def)
  then show ?case using w
    by (simp add: snoc.IH push_exact [OF refl] sq_def add.commute)
qed

text \<open>The textbook mean, sample variance and t statistic.\<close>

definition mean_of :: "real list \<Rightarrow> real" where
  "mean_of xs = sum_list xs / of_nat (length xs)"

definition variance_of :: "real list \<Rightarrow> real" where
  "variance_of xs = sum_list (map (\<lambda>x. sq (x - mean_of xs)) xs) / (of_nat (length xs) - 1)"

definition t_of :: "real list \<Rightarrow> real list \<Rightarrow> real" where
  "t_of xs ys = (mean_of xs - mean_of ys) /
     sqrt (variance_of xs / of_nat (length xs) + variance_of ys / of_nat (length ys))"

lemma sum_sq_dev_gen:
  "sum_list (map (\<lambda>x. sq (x - c)) xs) = sum_list (map sq xs) - 2 * c * sum_list xs + of_nat (length xs) * sq c"
  by (induction xs) (simp_all add: sq_def algebra_simps)

lemma sum_sq_dev:
  assumes "xs \<noteq> []"
  shows "sum_list (map (\<lambda>x. sq (x - mean_of xs)) xs) =
    sum_list (map sq xs) - sum_list xs * sum_list xs / of_nat (length xs)"
proof -
  have "(of_nat (length xs) :: real) \<noteq> 0" using assms by simp
  then show ?thesis unfolding sum_sq_dev_gen by (simp add: mean_of_def sq_def field_simps)
qed

lemma welch_t_exact:
  assumes "2 \<le> length xs" and "2 \<le> length ys"
    and "variance_of xs / of_nat (length xs) + variance_of ys / of_nat (length ys) > 0"
  shows "variance Fin (accumulate Fin (map Fin xs)) = Fin (variance_of xs)"
    and "welch_t Fin (accumulate Fin (map Fin xs)) (accumulate Fin (map Fin ys)) = Fin (t_of xs ys)"
proof -
  have v: "variance Fin (accumulate Fin (map Fin zs)) = Fin (variance_of zs)" if "2 \<le> length zs" for zs
  proof -
    have n: "zs \<noteq> []" "\<not> of_nat (length zs) < (2::real)" "(of_nat (length zs) :: real) - 1 \<noteq> 0"
      using that by auto
    then show ?thesis
      by (simp add: variance_def accumulate_exact [OF n(1)] f_sub_def sum_sq_dev [OF n(1)] variance_of_def)
  qed
  show "variance Fin (accumulate Fin (map Fin xs)) = Fin (variance_of xs)" by (rule v [OF assms(1)])
  have ne: "xs \<noteq> []" "ys \<noteq> []" using assms by auto
  have s: "sqrt (variance_of xs / of_nat (length xs) + variance_of ys / of_nat (length ys)) \<noteq> 0" using assms(3) by simp
  show "welch_t Fin (accumulate Fin (map Fin xs)) (accumulate Fin (map Fin ys)) = Fin (t_of xs ys)"
    using v [OF assms(1)] v [OF assms(2)] s assms(3) ne
    by (simp add: welch_t_def Let_def accumulate_exact [OF ne(1)] accumulate_exact [OF ne(2)] f_sub_def t_of_def mean_of_def)
qed

text \<open>The crop at 100 percent keeps every sample.\<close>

lemma sorted_last_ge:
  assumes "x \<in> set zs"
  shows "x \<le> sort zs ! (length zs - 1)"
proof -
  obtain i where i: "i < length (sort zs)" "sort zs ! i = x" using assms by (metis in_set_conv_nth set_sort)
  have "sort zs ! i \<le> sort zs ! (length zs - 1)" using i(1) by (intro sorted_nth_mono) auto
  with i(2) show ?thesis by simp
qed

lemma uncropped_t:
  assumes "2 \<le> length xs" and "2 \<le> length ys" and "length xs + length ys < 2 ^ 32"
    and "variance_of xs / of_nat (length xs) + variance_of ys / of_nat (length ys) > 0"
  shows "cropped_t Fin (map Fin xs) (map Fin ys) (sort (map Fin xs @ map Fin ys)) 1 = Some (Fin (t_of xs ys))"
proof -
  let ?zs = "map Fin xs @ map Fin ys" and ?n = "length xs + length ys"
  have keep: "min (f_ceil_usize (f_mul Fin (Fin (of_nat (length (sort ?zs)))) (Fin 1))) (length (sort ?zs)) = ?n"
  proof -
    have "\<lceil>real ?n\<rceil> = int ?n" by (rule ceiling_of_nat)
    then show ?thesis using assms(3) by (simp add: nat_add_distrib)
  qed
  have c: "f_le x (sort ?zs ! (?n - 1))" if "x \<in> set ?zs" for x
  proof -
    have "sort ?zs ! (?n - 1) \<in> set ?zs" using assms(1) nth_mem [of "?n - 1" "sort ?zs"] by simp
    then have "sort ?zs ! (?n - 1) \<noteq> NaN" by auto
    moreover have "x \<noteq> NaN" using that by auto
    moreover have "x \<le> sort ?zs ! (?n - 1)" using sorted_last_ge [OF that] by simp
    ultimately show ?thesis by (simp add: f_le_def)
  qed
  have f: "filter (\<lambda>x. f_le x (sort ?zs ! (?n - 1))) (map Fin xs) = map Fin xs"
    "filter (\<lambda>x. f_le x (sort ?zs ! (?n - 1))) (map Fin ys) = map Fin ys"
    using c by (simp_all add: filter_id_conv)
  have "xs \<noteq> []" "ys \<noteq> []" using assms by auto
  then show ?thesis unfolding cropped_t_def Let_def keep f
    using welch_t_exact(2) [OF assms(1,2,4)] assms(1,2)
    by (simp add: accumulate_exact)
qed

section \<open>Properties\<close>

text \<open>
  The verdict is the maximum's: whatever the rounding, a surface is called leaky exactly when some
  crop has a finite statistic beyond the threshold, quiet exactly when there is a finite one and none
  is beyond it, and inconclusive exactly when no crop has a finite one.
\<close>

theorem verdict_is_decided_by_the_crops:
  "(verdict_of (max_cropped_t rnd class0 class1) = Leak \<longleftrightarrow>
      (\<exists>t \<in> crops rnd class0 class1 CROP_PERCENTILES. 10 < \<bar>t\<bar>)) \<and>
   (verdict_of (max_cropped_t rnd class0 class1) = Inconclusive \<longleftrightarrow> crops rnd class0 class1 CROP_PERCENTILES = {}) \<and>
   (verdict_of (max_cropped_t rnd class0 class1) = Quiet \<longleftrightarrow>
      crops rnd class0 class1 CROP_PERCENTILES \<noteq> {} \<and> \<not> (\<exists>t \<in> crops rnd class0 class1 CROP_PERCENTILES. 10 < \<bar>t\<bar>))"
proof -
  let ?ts = "crops rnd class0 class1 CROP_PERCENTILES"
  have b: "best_of (max_cropped_t rnd class0 class1) ?ts" by (rule max_cropped_t_best)
  show ?thesis
  proof (cases "max_cropped_t rnd class0 class1")
    case (Fin r)
    then have r: "r \<in> ?ts" "\<forall>t \<in> ?ts. \<bar>t\<bar> \<le> \<bar>r\<bar>" using b by (simp_all add: best_of_def)
    then have "(\<exists>t \<in> ?ts. 10 < \<bar>t\<bar>) \<longleftrightarrow> 10 < \<bar>r\<bar>" by (meson less_le_trans)
    with Fin r(1) show ?thesis by (auto simp: verdict_of_def THRESHOLD_def)
  qed (use b in \<open>simp_all add: best_of_def verdict_of_def\<close>)
qed

text \<open>
  C38. A difference that the textbook test sees is reported: in exact arithmetic, with at least two
  samples per class and not both classes constant, Welch's t beyond the threshold over all samples
  makes the verdict a leak. The online accumulator computes the textbook mean and variance.
\<close>

theorem visible_difference_is_a_leak:
  assumes "2 \<le> length xs" and "2 \<le> length ys" and "length xs + length ys < 2 ^ 32"
    and "variance_of xs / of_nat (length xs) + variance_of ys / of_nat (length ys) > 0"
    and "10 < \<bar>t_of xs ys\<bar>"
  shows "verdict_of (max_cropped_t Fin (map Fin xs) (map Fin ys)) = Leak \<and>
     acc_mean (accumulate Fin (map Fin xs)) = Fin (mean_of xs) \<and>
     variance Fin (accumulate Fin (map Fin xs)) = Fin (variance_of xs)"
proof -
  let ?ts = "crops Fin (map Fin xs) (map Fin ys) CROP_PERCENTILES"
  have "t_of xs ys \<in> ?ts"
    using uncropped_t [OF assms(1-4)] unfolding crops_def by (auto simp: CROP_PERCENTILES_def)
  moreover have "best_of (max_cropped_t Fin (map Fin xs) (map Fin ys)) ?ts" by (rule max_cropped_t_best)
  ultimately have "verdict_of (max_cropped_t Fin (map Fin xs) (map Fin ys)) = Leak"
    using assms(5) by (auto simp: best_of_def verdict_of_def THRESHOLD_def split: f64.splits)
  moreover have "xs \<noteq> []" using assms(1) by auto
  ultimately show ?thesis using welch_t_exact(1) [OF assms(1,2,4)] by (simp add: accumulate_exact mean_of_def)
qed

theorem visible_difference_is_a_leak_witness:
  "verdict_of (max_cropped_t Fin (map Fin [0, 2]) (map Fin [100, 102])) = Leak"
proof -
  have "mean_of [0, 2] = 1" "mean_of [100, 102] = 101" by (simp_all add: mean_of_def)
  then have v: "variance_of [0, 2] = 2" "variance_of [100, 102] = 2" by (simp_all add: variance_of_def sq_def)
  have t: "t_of [0, 2] [100, 102] = - 100 / sqrt 2"
    using v by (simp add: t_of_def mean_of_def)
  have "sqrt 2 < (2 :: real)" by (simp add: real_sqrt_less_iff [of 2 4, simplified])
  then have "10 < \<bar>t_of [0, 2] [100, 102]\<bar>" by (simp add: t field_simps)
  with visible_difference_is_a_leak [of "[0, 2]" "[100, 102]"] v show ?thesis by simp
qed

end
