(* ===== verification/Quic_Bench.thy ===== *)
theory Quic_Bench
  imports Quic_Interop Timing_Stats
begin

text \<open>
  The bulk-throughput benchmark of QUIC over loopback, from the two set-up drivers on: \<open>bench\<close> of the
  example (\<^verbatim>\<open>src/examples/quic-loopback/src/main.rs\<close>) and of its native mirror
  (\<^verbatim>\<open>src/bench/quic-native-bench/src/main.rs\<close>), which have the same text up to the arena they run in.
  The byte counts are natural numbers; what is written never exceeds the size of a transfer.
  Rates are floating-point numbers with the rounding of \<^verbatim>\<open>Timing_Stats\<close>.
\<close>

section \<open>The handshake\<close>

text \<open>
  The event loops of the condition. The smoke test also asserts whose event it is, which \<open>admits\<close>
  stands for.
\<close>

fun see_client :: "('co, 'rd, 'ev) stream_ops \<Rightarrow> (connection_handle \<Rightarrow> bool) \<Rightarrow> (connection_handle \<times> 'ev) list \<Rightarrow> bool \<Rightarrow> bool outcome" where
  "see_client A admits [] seen = Done seen"
| "see_client A admits ((h, e) # es) seen =
     (if admits h then see_client A admits es (seen \<or> so_kind A e = Ev_Connected)
      else Panics ''assertion `left == right` failed'')"

fun see_server :: "('co, 'rd, 'ev) stream_ops \<Rightarrow> (connection_handle \<times> 'ev) list \<Rightarrow> connection_handle option \<Rightarrow> connection_handle option" where
  "see_server A [] handle = handle"
| "see_server A ((h, e) # es) handle = see_server A es (if so_kind A e = Ev_Connected then Some h else handle)"

definition both_connected :: "('co, 'rd, 'ev) stream_ops \<Rightarrow> (connection_handle \<Rightarrow> bool)
    \<Rightarrow> (bool \<times> connection_handle option, ('so, 'ep, 'co, 'ev) any_driver \<times> ('so, 'ep, 'co, 'ev) any_driver, 's, unit) closure" where
  "both_connected A admits env p s =
     (case (env, p) of ((client_connected, server_handle), c, v) \<Rightarrow>
        chain (Some (see_client A admits (events c) client_connected)) (\<lambda>client_connected.
          let server_handle = see_server A (events v) server_handle
          in Some (Done (if client_connected \<and> server_handle \<noteq> None then Some () else None,
               (client_connected, server_handle), (c\<lparr>events := []\<rparr>, v\<lparr>events := []\<rparr>), s))))"

section \<open>One transfer\<close>

record transfer_state =
  tr_written :: nat
  tr_finished :: bool
  tr_received :: nat
  tr_fin_seen :: bool
  tr_accepted :: "u64 option"

definition fresh_transfer :: transfer_state where
  "fresh_transfer = \<lparr>tr_written = 0, tr_finished = False, tr_received = 0, tr_fin_seen = False, tr_accepted = None\<rparr>"

text \<open>The client writes what the stream takes, and what it wrote is pumped out.\<close>

definition send_part :: "(('so, 'ep, 'co, 'ev) any_driver, 's) arena \<Rightarrow> ('co, 'rd, 'ev) stream_ops \<Rightarrow> connection_handle \<Rightarrow> u64 \<Rightarrow> nat
    \<Rightarrow> transfer_state \<Rightarrow> ('so, 'ep, 'co, 'ev) any_driver \<Rightarrow> 's \<Rightarrow> (transfer_state \<times> ('so, 'ep, 'co, 'ev) any_driver \<times> 's) outcome option" where
  "send_part R A h i amount t c s =
     (if tr_written t < amount \<or> \<not> tr_finished t
      then chain (Some (on_connection (ar_no_client R)
               (connection_mut h (bulk_step A i amount (tr_written t, tr_finished t)) c))) (\<lambda>((written, finished), c).
           chain (pump_while (ar_client R) c s) (\<lambda>(c, s).
             Some (Done (t\<lparr>tr_written := written, tr_finished := finished\<rparr>, c, s))))
      else Some (Done (t, c, s)))"

text \<open>The server accepts the stream, drains it and pumps the credit it freed.\<close>

definition receive_part :: "(('so, 'ep, 'co, 'ev) any_driver, 's) arena \<Rightarrow> ('co, 'rd, 'ev) stream_ops \<Rightarrow> connection_handle
    \<Rightarrow> transfer_state \<Rightarrow> ('so, 'ep, 'co, 'ev) any_driver \<Rightarrow> 's \<Rightarrow> (transfer_state \<times> ('so, 'ep, 'co, 'ev) any_driver \<times> 's) outcome option" where
  "receive_part R A h t v s =
     (case map_of (connections v) h of
        None \<Rightarrow> Some (Panics (ar_no_server R))
      | Some c \<Rightarrow>
          (case (case tr_accepted t of None \<Rightarrow> so_accept_bi A c | Some i \<Rightarrow> (Some i, c)) of
             (None, c) \<Rightarrow> Some (Done (t, v\<lparr>connections := AList.update h c (connections v)\<rparr>, s))
           | (Some i, c) \<Rightarrow>
               (case drain_stream (so_recv A) i c of
                  None \<Rightarrow> None
                | Some ((n, fin), c) \<Rightarrow>
                    let v = v\<lparr>connections := AList.update h c (connections v)\<rparr>;
                        t = t\<lparr>tr_accepted := Some i, tr_fin_seen := tr_fin_seen t \<or> fin\<rparr>
                    in if 0 < n
                       then chain (pump_while (ar_server R) v s) (\<lambda>(v, s).
                              Some (Done (t\<lparr>tr_received := tr_received t + n\<rparr>, v, s)))
                       else Some (Done (t, v, s)))))"

definition transferring :: "(('so, 'ep, 'co, 'ev) any_driver, 's) arena \<Rightarrow> ('co, 'rd, 'ev) stream_ops \<Rightarrow> connection_handle \<Rightarrow> connection_handle
    \<Rightarrow> u64 \<Rightarrow> nat \<Rightarrow> (transfer_state, ('so, 'ep, 'co, 'ev) any_driver \<times> ('so, 'ep, 'co, 'ev) any_driver, 's, unit) closure" where
  "transferring R A client_handle server_handle i amount t p s =
     (case p of (c, v) \<Rightarrow>
        (case take_lost A (events c) of
           (Some _, _) \<Rightarrow> Some (Exits 1 ''client connection lost'')
         | (None, es) \<Rightarrow>
        (case take_lost A (events v) of
           (Some _, _) \<Rightarrow> Some (Exits 1 ''server connection lost'')
         | (None, es') \<Rightarrow>
             chain (send_part R A client_handle i amount t (c\<lparr>events := es\<rparr>) s) (\<lambda>(t, c, s).
             chain (receive_part R A server_handle t (v\<lparr>events := es'\<rparr>) s) (\<lambda>(t, v, s).
               Some (Done (if tr_fin_seen t \<and> amount \<le> tr_received t then Some () else None, t, (c, v), s)))))))"

text \<open>\<open>as_secs_f64\<close> adds the seconds and the fraction; then bytes per second in millions.\<close>

definition as_secs_f64 :: "(real \<Rightarrow> f64) \<Rightarrow> nat \<Rightarrow> f64" where
  "as_secs_f64 rnd ns = f_add rnd (rnd (real (ns div 10 ^ 9))) (f_div rnd (rnd (real (ns mod 10 ^ 9))) (Fin (10 ^ 9)))"

definition rate :: "(real \<Rightarrow> f64) \<Rightarrow> nat \<Rightarrow> nat \<Rightarrow> f64" where
  "rate rnd amount ns = f_div rnd (f_div rnd (rnd (real amount)) (as_secs_f64 rnd ns)) (Fin (10 ^ 6))"

definition open_bi :: "('co, 'rd, 'ev) stream_ops \<Rightarrow> 'co \<Rightarrow> u64 outcome \<times> 'co" where
  "open_bi A c = (case so_open_bi A c of (None, c) \<Rightarrow> (Panics ''open stream'', c) | (Some i, c) \<Rightarrow> (Done i, c))"

definition transfer :: "(real \<Rightarrow> f64) \<Rightarrow> (('so, 'ep, 'co, 'ev) any_driver, 's) arena \<Rightarrow> ('co, 'rd, 'ev) stream_ops
    \<Rightarrow> connection_handle \<Rightarrow> connection_handle \<Rightarrow> nat \<Rightarrow> ('so, 'ep, 'co, 'ev) any_driver \<times> ('so, 'ep, 'co, 'ev) any_driver \<Rightarrow> 's
    \<Rightarrow> (f64 \<times> (('so, 'ep, 'co, 'ev) any_driver \<times> ('so, 'ep, 'co, 'ev) any_driver) \<times> 's) outcome option" where
  "transfer rnd R A client_handle server_handle amount p s =
     (case p of (c, v) \<Rightarrow>
        chain (Some (on_connection (ar_no_client R) (connection_mut client_handle (open_bi A) c))) (\<lambda>(i, c).
        case ar_clock R s of (start, s) \<Rightarrow>
        chain (drive R (transferring R A client_handle server_handle i amount) fresh_transfer (c, v) s) (\<lambda>(_, _, p, s).
        case ar_clock R s of (stop, s) \<Rightarrow> Some (Done (rate rnd amount (stop - start), p, s)))))"

section \<open>The benchmark\<close>

definition BATCHES :: nat where "BATCHES = 3"

fun batches :: "nat \<Rightarrow> (real \<Rightarrow> f64) \<Rightarrow> (('so, 'ep, 'co, 'ev) any_driver, 's) arena \<Rightarrow> ('co, 'rd, 'ev) stream_ops
    \<Rightarrow> connection_handle \<Rightarrow> connection_handle \<Rightarrow> nat \<Rightarrow> ('so, 'ep, 'co, 'ev) any_driver \<times> ('so, 'ep, 'co, 'ev) any_driver \<Rightarrow> 's
    \<Rightarrow> (f64 list \<times> (('so, 'ep, 'co, 'ev) any_driver \<times> ('so, 'ep, 'co, 'ev) any_driver) \<times> 's) outcome option" where
  "batches 0 rnd R A ch sh amount p s = Some (Done ([], p, s))"
| "batches (Suc k) rnd R A ch sh amount p s =
     chain (transfer rnd R A ch sh amount p s) (\<lambda>(r, p, s).
     chain (batches k rnd R A ch sh amount p s) (\<lambda>(rs, p, s). Some (Done (r # rs, p, s))))"

text \<open>The printed row: the median, the least and the greatest rate.\<close>

definition bench_row :: "f64 list \<Rightarrow> f64 \<times> f64 \<times> f64" where
  "bench_row rates = (let rs = sort rates in (rs ! (length rs div 2), rs ! 0, rs ! (length rs - 1)))"

definition bench_transfers :: "(real \<Rightarrow> f64) \<Rightarrow> (('so, 'ep, 'co, 'ev) any_driver, 's) arena \<Rightarrow> ('co, 'rd, 'ev) stream_ops
    \<Rightarrow> connection_handle \<Rightarrow> nat \<Rightarrow> ('so, 'ep, 'co, 'ev) any_driver \<times> ('so, 'ep, 'co, 'ev) any_driver \<Rightarrow> 's
    \<Rightarrow> ((f64 \<times> f64 \<times> f64) \<times> (('so, 'ep, 'co, 'ev) any_driver \<times> ('so, 'ep, 'co, 'ev) any_driver) \<times> 's) outcome option" where
  "bench_transfers rnd R A client_handle amount p s =
     chain (drive R (both_connected A (\<lambda>_. True)) (False, None) p s) (\<lambda>(_, (_, server_handle), p, s).
     case server_handle of
       None \<Rightarrow> Some (Panics ''called `Option::unwrap()` on a `None` value'')
     | Some server_handle \<Rightarrow>
         chain (transfer rnd R A client_handle server_handle (max (amount div 4) (1024 * 1024)) p s) (\<lambda>(_, p, s).
         chain (batches BATCHES rnd R A client_handle server_handle amount p s) (\<lambda>(rates, p, s).
           Some (Done (bench_row rates, p, s)))))"

text \<open>
  The size of a transfer, \<open>mib * 1024 * 1024\<close> in \<open>usize\<close> of \<open>width\<close> bits: with overflow checks the product
  panics, without them it wraps.
\<close>

definition bench_bytes :: "nat \<Rightarrow> bool \<Rightarrow> nat \<Rightarrow> nat outcome" where
  "bench_bytes width checked mib =
     (let b = mib * 1024 * 1024
      in if b < 2 ^ width then Done b
         else if checked then Panics ''attempt to multiply with overflow'' else Done (b mod 2 ^ width))"

section \<open>Laws\<close>

lemma read_chunks_conv:
  assumes "read_chunks S acc rd = Some res"
  shows "\<exists>bs. gives S rd bs (fst (snd res)) (snd (snd res)) \<and> fst res = acc @ concat bs"
proof (rule read_chunks.raw_induct [OF _ assms, where P = "\<lambda>S acc rd res.
    \<exists>bs. gives S rd bs (fst (snd res)) (snd (snd res)) \<and> fst res = acc @ concat bs"], goal_cases)
  case (1 loop S acc rd res)
  obtain x rd1 where n: "chunks_next S rd = (x, rd1)" by fastforce
  show ?case
  proof (cases x)
    case (Chunk b)
    then obtain bs where "gives S rd1 bs (fst (snd res)) (snd (snd res))" "fst res = (acc @ b) @ concat bs"
      using 1 n by fastforce
    then show ?thesis using gives_chunk [of S rd b rd1 bs] n Chunk by (intro exI [of _ "b # bs"]) simp
  qed (use 1(2) n in \<open>auto intro!: exI [of _ "[]"] gives_fin gives_err\<close>)
qed

lemma drain_stream_returns:
  assumes "reads_end S" shows "\<exists>r. drain_stream S i c = Some r"
proof (cases "recv_read S i False c")
  case (Pair o1 c1)
  have "\<exists>r. count_chunks S 0 rd = Some r" for rd
  proof -
    obtain res where r: "read_chunks S [] rd = Some res" using assms unfolding reads_end_def by blast
    obtain bs where "gives S rd bs (fst (snd res)) (snd (snd res))" using read_chunks_conv [OF r] by blast
    from count_chunks_gives [OF this, of 0] show ?thesis by simp
  qed
  then obtain f where "count_chunks S 0 rd = Some (f rd)" for rd by metis
  then show ?thesis using Pair by (cases o1) (auto simp: drain_stream_def split: prod.splits)
qed

lemma advances_pure: "advances clk s (\<lambda>_. s) (Some out)"
  by (cases out) simp_all

lemma take_lost_None: "take_lost A es = (None, es') \<Longrightarrow> es' = []"
  by (induction es rule: take_lost.induct) (auto split: event_kind.splits)

locale benching = driving arena_of runs
  for arena_of :: "'g \<Rightarrow> (('so, 'ep, 'co, 'ev) any_driver, 's) arena" and runs :: "'g \<Rightarrow> ('s \<Rightarrow> instant) \<Rightarrow> bool"
begin

lemma send_part_advances:
  assumes "runs G clk"
  shows "advances clk s (snd \<circ> snd) (send_part (arena_of G) A h i amount t c s)"
  unfolding send_part_def
  by (auto intro!: advances_chain [OF advances_pure] advances_chain [OF client_rests [OF assms]])

lemma receive_part_advances:
  assumes "runs G clk" and "reads_end (so_recv A)"
  shows "advances clk s (snd \<circ> snd) (receive_part (arena_of G) A h t v s)"
proof (cases "map_of (connections v) h")
  case (Some c)
  obtain x c1 where x: "(case tr_accepted t of None \<Rightarrow> so_accept_bi A c | Some i \<Rightarrow> (Some i, c)) = (x, c1)" by fastforce
  show ?thesis
  proof (cases x)
    case (Some i)
    obtain r where r: "drain_stream (so_recv A) i c1 = Some r" using drain_stream_returns [OF assms(2)] by blast
    show ?thesis using \<open>map_of (connections v) h = Some c\<close> x Some r
      by (cases r) (auto simp: receive_part_def Let_def intro!: advances_chain [OF server_rests [OF assms(1)]] split: prod.splits)
  qed (use Some x in \<open>simp add: receive_part_def\<close>)
qed (simp add: receive_part_def)

lemma transferring_advances:
  assumes "runs G clk" and "reads_end (so_recv A)"
  shows "advances clk s (snd \<circ> snd \<circ> snd) (transferring (arena_of G) A ch sh i amount t p s)"
  unfolding transferring_def
  by (auto intro!: advances_chain [OF send_part_advances [OF assms(1)]] advances_chain [OF receive_part_advances [OF assms]]
      split: prod.split option.split)

lemma both_connected_advances: "advances clk s (snd \<circ> snd \<circ> snd) (both_connected A admits env p s)"
  unfolding both_connected_def by (auto simp: Let_def intro!: advances_chain [OF advances_pure] split: prod.split)

lemma transfer_advances:
  assumes "runs G clk" and "reads_end (so_recv A)"
  shows "advances clk s (snd \<circ> snd) (transfer rnd (arena_of G) A ch sh amount p s)"
proof -
  obtain c v where p: "p = (c, v)" by fastforce
  obtain start s1 where c1: "ar_clock (arena_of G) s = (start, s1)" by fastforce
  have le: "clk s \<le> clk s1" using reads_clock [OF assms(1) c1] by simp
  have d: "advances clk s1 (snd \<circ> snd) (chain (drive (arena_of G) (transferring (arena_of G) A ch sh i amount) fresh_transfer (c', v) s1)
      (\<lambda>(_, _, p, s). case ar_clock (arena_of G) s of (stop, s) \<Rightarrow> Some (Done (rate rnd amount (stop - start), p, s))))" for i c'
    by (rule advances_chain [OF drive_ends [OF assms(1) transferring_advances [OF assms]]])
      (use reads_clock [OF assms(1)] in \<open>fastforce split: prod.split\<close>)
  have "advances clk s (snd \<circ> snd) (chain (drive (arena_of G) (transferring (arena_of G) A ch sh i amount) fresh_transfer (c', v) s1)
      (\<lambda>(_, _, p, s). case ar_clock (arena_of G) s of (stop, s) \<Rightarrow> Some (Done (rate rnd amount (stop - start), p, s))))" for i c'
    using d [of i c'] by (cases rule: advancesE) (use le in simp_all)
  then show ?thesis unfolding transfer_def p
    by (auto simp: c1 intro!: advances_chain [OF advances_pure])
qed

lemma batches_advance:
  assumes "runs G clk" and "reads_end (so_recv A)"
  shows "advances clk s (snd \<circ> snd) (batches k rnd (arena_of G) A ch sh amount p s)"
proof (induction k arbitrary: p s)
  case (Suc k)
  show ?case by (auto intro!: advances_chain [OF transfer_advances [OF assms]] advances_chain [OF Suc])
qed simp

lemma bench_ends:
  assumes "runs G clk" and "reads_end (so_recv A)"
  shows "advances clk s (snd \<circ> snd) (bench_transfers rnd (arena_of G) A ch amount p s)"
  unfolding bench_transfers_def
  by (auto intro!: advances_chain [OF drive_ends [OF assms(1) both_connected_advances]]
      advances_chain [OF transfer_advances [OF assms]] advances_chain [OF batches_advance [OF assms]] split: option.split)

end

interpretation loopback_bench: benching loopback_arena settle_together
  by unfold_locales

text \<open>A stream takes no more than it is given.\<close>

definition writes_fit :: "('co, 'rd, 'ev) stream_ops \<Rightarrow> bool" where
  "writes_fit A \<longleftrightarrow> (\<forall>i data c n c'. so_write A i data c = (Ok n, c') \<longrightarrow> n \<le> length data)"

lemma writes_fitD: "writes_fit A \<Longrightarrow> so_write A i data c = (Ok n, c') \<Longrightarrow> n \<le> length data"
  unfolding writes_fit_def by blast

text \<open>What a transfer keeps of its counts.\<close>

definition counts_ok :: "nat \<Rightarrow> transfer_state \<Rightarrow> bool" where
  "counts_ok amount t \<longleftrightarrow> tr_written t \<le> amount \<and> (tr_finished t \<longrightarrow> tr_written t = amount)"

lemma on_connection_Done:
  "on_connection m (connection_mut h f d) = Done (v, d') \<Longrightarrow> \<exists>c c'. f c = (Done v, c')"
  by (auto simp: connection_mut_def split: option.splits prod.splits elim!: on_connection.elims)

lemma send_part_counts:
  assumes "writes_fit A"
    and "counts_ok amount t" and "send_part R A h i amount t c s = Some (Done (t', c', s'))"
  shows "counts_ok amount t'"
proof (cases "tr_written t < amount \<or> \<not> tr_finished t")
  case True
  then obtain w f c1 where b: "on_connection (ar_no_client R) (connection_mut h (bulk_step A i amount (tr_written t, tr_finished t)) c) = Done ((w, f), c1)"
    and t': "t' = t\<lparr>tr_written := w, tr_finished := f\<rparr>"
    using assms(3) by (auto simp: send_part_def chain_Done)
  obtain co co' where "bulk_step A i amount (tr_written t, tr_finished t) co = (Done (w, f), co')"
    using on_connection_Done [OF b] by blast
  from bulk_transfer_counts_exactly [OF writes_fitD [OF assms(1)] _ _ this] assms(2) show ?thesis by (auto simp: counts_ok_def t')
qed (use assms(2,3) in \<open>simp add: send_part_def\<close>)

lemma receive_part_counts:
  assumes "receive_part R A h t v s = Some (Done (t', v', s'))"
  shows "tr_written t' = tr_written t \<and> tr_finished t' = tr_finished t"
  using assms by (auto simp: receive_part_def Let_def chain_Done split: option.splits prod.splits if_splits)

lemma transferring_Done:
  assumes "writes_fit A"
    and "counts_ok amount t" and "transferring R A ch sh i amount t p s = Some (Done (r, t', p', s'))"
  shows "counts_ok amount t' \<and> (r \<noteq> None \<longrightarrow> tr_fin_seen t' \<and> amount \<le> tr_received t')"
proof -
  obtain c v where p: "p = (c, v)" by fastforce
  obtain cd sd t1 c1 s1 v1 where sp: "send_part R A ch i amount t cd s = Some (Done (t1, c1, s1))"
    and r: "receive_part R A sh t1 sd s1 = Some (Done (t', v1, s'))"
    and e: "r = (if tr_fin_seen t' \<and> amount \<le> tr_received t' then Some () else None)"
    using assms(3) unfolding p by (auto simp: transferring_def chain_Done split: prod.splits option.splits)
  have "counts_ok amount t1" by (rule send_part_counts [OF assms(1,2) sp])
  then show ?thesis using receive_part_counts [OF r] e by (auto simp: counts_ok_def)
qed

text \<open>
  A measured rate: it is that of a transfer in which the server saw the stream's end with no
  fewer bytes than the transfer has, the client wrote no more of them, and all of them if it finished the
  stream; the clock was read right before and right after.
\<close>

definition whole_transfer :: "(real \<Rightarrow> f64) \<Rightarrow> (('so, 'ep, 'co, 'ev) any_driver, 's) arena \<Rightarrow> ('co, 'rd, 'ev) stream_ops
    \<Rightarrow> connection_handle \<Rightarrow> connection_handle \<Rightarrow> nat \<Rightarrow> f64 \<Rightarrow> bool" where
  "whole_transfer rnd R A ch sh amount r \<longleftrightarrow>
     (\<exists>i p0 s0 t p1 s1 w0 start stop w1. ar_clock R w0 = (start, s0) \<and>
        drive R (transferring R A ch sh i amount) fresh_transfer p0 s0 = Some (Done ((), t, p1, s1)) \<and>
        ar_clock R s1 = (stop, w1) \<and> r = rate rnd amount (stop - start) \<and>
        tr_fin_seen t \<and> amount \<le> tr_received t \<and> tr_written t \<le> amount \<and> (tr_finished t \<longrightarrow> tr_written t = amount))"

lemma transfer_whole:
  assumes "writes_fit A"
    and "transfer rnd R A ch sh amount p s = Some (Done (r, p', s'))"
  shows "whole_transfer rnd R A ch sh amount r"
proof -
  obtain start s0 where c0: "ar_clock R s = (start, s0)" by fastforce
  obtain i p0 t p1 s1 where d: "drive R (transferring R A ch sh i amount) fresh_transfer p0 s0 = Some (Done ((), t, p1, s1))"
    and k: "(case ar_clock R s1 of (stop, s) \<Rightarrow> Some (Done (rate rnd amount (stop - start), p1, s))) = Some (Done (r, p', s'))"
    using assms(2) by (cases p) (auto simp: transfer_def chain_Done c0)
  obtain stop w1 where c1: "ar_clock R s1 = (stop, w1)" by fastforce
  have r: "r = rate rnd amount (stop - start)" using k by (simp add: c1)
  have "counts_ok amount fresh_transfer" by (simp add: counts_ok_def fresh_transfer_def)
  moreover have "counts_ok amount x1" if "counts_ok amount x"
    "transferring R A ch sh i amount x p s = Some (Done (o', x1, p1, s1))" for x p s o' x1 p1 s1
    using transferring_Done [OF assms(1) that] by simp
  ultimately obtain y0 q0 z0 where y: "counts_ok amount y0" "transferring R A ch sh i amount y0 q0 z0 = Some (Done (Some (), t, p1, s1))"
    using drive_Done [OF d, where I = "counts_ok amount"] by blast
  have "counts_ok amount t \<and> tr_fin_seen t \<and> amount \<le> tr_received t" using transferring_Done [OF assms(1) y] by simp
  then show ?thesis unfolding whole_transfer_def
    by (intro exI [of _ i] exI [of _ p0] exI [of _ s0] exI [of _ t] exI [of _ p1] exI [of _ s1] exI [of _ s] exI [of _ start]
        exI [of _ stop] exI [of _ w1]) (simp add: counts_ok_def c0 d c1 r)
qed

lemma batches_whole:
  assumes "writes_fit A"
    and "batches k rnd R A ch sh amount p s = Some (Done (rates, p', s'))"
  shows "length rates = k \<and> list_all (whole_transfer rnd R A ch sh amount) rates"
  using assms(2)
proof (induction k arbitrary: p s rates p' s')
  case (Suc k)
  then obtain r p1 s1 rs where t: "transfer rnd R A ch sh amount p s = Some (Done (r, p1, s1))"
    "batches k rnd R A ch sh amount p1 s1 = Some (Done (rs, p', s'))" "rates = r # rs"
    by (auto simp: chain_Done)
  with Suc.IH [OF t(2)] transfer_whole [OF assms(1) t(1)] show ?case by simp
qed simp

lemma bench_row_three:
  assumes "length rates = 3" and "bench_row rates = (median, least, most)"
  shows "mset rates = {#least, median, most#} \<and> least \<le> median \<and> median \<le> most"
proof -
  have "\<exists>a b c. xs = [a, b, c]" if "length xs = 3" for xs :: "f64 list"
    using that by (auto simp: numeral_3_eq_3 length_Suc_conv)
  then obtain a b c where s: "sort rates = [a, b, c]" using assms(1) by (metis length_sort)
  then have "a \<le> b" "b \<le> c" using sorted_sort [of rates] by simp_all
  moreover have "mset rates = {#a, b, c#}" using mset_sort [of "\<lambda>x. x" rates] s by simp
  moreover have "median = b" "least = a" "most = c" using assms(2) s by (simp_all add: bench_row_def)
  ultimately show ?thesis by simp
qed

section \<open>A concrete benchmark\<close>

text \<open>Connections that take every write and give one mebibyte and the end of the stream.\<close>

definition bulk_streams :: "(nat, bool, nat) stream_ops" where
  "bulk_streams = \<lparr>so_kind = (\<lambda>_. Ev_Connected),
     so_recv = \<lparr>recv_read = (\<lambda>_ _ c. (Some True, c)),
       chunks_next = (\<lambda>rd. if rd then (Chunk (replicate (1024 * 1024) 0xa5), False) else (Finished, False)),
       chunks_finalize = (\<lambda>_ c. c)\<rparr>,
     so_open_bi = Pair (Some 4), so_accept_bi = Pair (Some 4), so_write = (\<lambda>_ data c. (Ok (length data), c)),
     so_finish = (\<lambda>_ c. (Ok (), c)), so_close = (\<lambda>_ c. c)\<rparr>"

definition bulk_client :: "(unit, nat, nat) driver" where
  "bulk_client = demo_driver\<lparr>connections := [(7, 0)], events := [(7, 0)]\<rparr>"

definition bulk_server :: "(unit, nat, nat) driver" where
  "bulk_server = demo_driver\<lparr>connections := [(8, 0)], events := [(8, 0)]\<rparr>"

lemma quiet_pump_while: "pump_while (pump_now quiet_rig e) d s = Some (Done (d, s))"
  by (subst pump_while.simps) (simp add: pump_now_def quiet_rig_def quiet_clock_def rest_pump)

lemma quiet_settles: "settle_both (loopback_arena quiet_rig) p s = Some (Done (p, s))"
  unfolding settle_both_def by (subst pump_while.simps)
    (simp add: pump_pair_def loopback_arena_def pump_now_def quiet_rig_def quiet_clock_def rest_pump split: prod.split)

lemma quiet_settle_together: "settle_together quiet_rig id"
  by (simp add: settle_together_def rest_settles quiet_clock_ok quiet_settles)

lemma bulk_streams_write: "written \<le> amount \<Longrightarrow> bulk_write bulk_streams i amount written c = (Done amount, c)"
proof (induction "amount - written" arbitrary: written rule: less_induct)
  case less
  show ?case
  proof (cases "written < amount")
    case True
    let ?n = "min (amount - written) BULK_CHUNK"
    have "0 < ?n" "written + ?n \<le> amount" using True by (simp_all add: BULK_CHUNK_def)
    moreover have "so_write bulk_streams i (replicate ?n 0xa5) c = (Ok ?n, c)" by (simp add: bulk_streams_def)
    ultimately show ?thesis using less.hyps [of "written + ?n"] True
      by (subst bulk_write.simps) (simp del: min_less_iff_conj)
  qed (use less.prems in \<open>simp add: bulk_write.simps\<close>)
qed

lemma bulk_drain: "drain_stream (so_recv bulk_streams) i c = Some ((1024 * 1024, True), c)"
  by (simp add: drain_stream_def bulk_streams_def count_chunks.simps)

lemma bulk_transferring:
  assumes "amount \<le> 1024 * 1024" and "events c = []" and "events v = []"
    and "map_of (connections c) ch = Some co" and "map_of (connections v) sh = Some vo"
  shows "\<exists>t c' v'. transferring (loopback_arena quiet_rig) bulk_streams ch sh i amount fresh_transfer (c, v) s =
     Some (Done (Some (), t, (c', v'), s)) \<and> events c' = [] \<and> events v' = [] \<and>
     map_of (connections c') ch = Some co \<and> map_of (connections v') sh = Some vo"
proof -
  have b: "bulk_step bulk_streams i amount (0, False) co = (Done (amount, True), co)"
    by (simp add: bulk_step_def bulk_streams_write) (simp add: bulk_streams_def)
  have a: "so_accept_bi bulk_streams vo = (Some 4, vo)" by (simp add: bulk_streams_def)
  show ?thesis using assms
    by (simp add: transferring_def send_part_def receive_part_def fresh_transfer_def connection_mut_def b a bulk_drain
        loopback_arena_def quiet_pump_while Let_def update_conv')
qed

text \<open>Both sides are connected, with nothing left to look at.\<close>

definition bulk_ready :: "(unit, nat, nat) driver \<times> (unit, nat, nat) driver \<Rightarrow> bool" where
  "bulk_ready p = (case p of (c, v) \<Rightarrow> events c = [] \<and> events v = [] \<and>
     map_of (connections c) 7 = Some 0 \<and> map_of (connections v) 8 = Some 0)"

lemma quiet_drive:
  assumes "predicate x p s = Some (Done (Some r, x', p', s'))"
  shows "drive (loopback_arena quiet_rig) predicate x p s = Some (Done (r, x', p', s'))"
proof -
  have c: "ar_clock (loopback_arena quiet_rig) s = (s, s)" by (simp add: loopback_arena_def quiet_rig_def quiet_clock_def)
  show ?thesis unfolding drive_def c prod.case by (subst drive_loop.simps) (simp add: quiet_settles assms)
qed

lemma bulk_transfer:
  assumes "bulk_ready p" and "amount \<le> 1024 * 1024"
  shows "\<exists>p'. transfer Fin (loopback_arena quiet_rig) bulk_streams 7 8 amount p s = Some (Done (rate Fin amount 0, p', s)) \<and> bulk_ready p'"
proof -
  obtain c v where p: "p = (c, v)" by fastforce
  have r: "events c = []" "events v = []" "map_of (connections c) 7 = Some 0" "map_of (connections v) 8 = Some 0"
    using assms(1) by (simp_all add: bulk_ready_def p)
  let ?c = "c\<lparr>connections := AList.update 7 0 (connections c)\<rparr>"
  have c: "events ?c = []" "map_of (connections ?c) 7 = Some 0" using r by (simp_all add: update_conv')
  obtain t c' v' where t: "transferring (loopback_arena quiet_rig) bulk_streams 7 8 4 amount fresh_transfer (?c, v) s =
      Some (Done (Some (), t, (c', v'), s))" "bulk_ready (c', v')"
    using bulk_transferring [OF assms(2) c(1) r(2) c(2) r(4), of 4 s] by (auto simp: bulk_ready_def)
  have "on_connection m (connection_mut 7 (open_bi bulk_streams) c) = Done (4, ?c)" for m
    by (simp add: connection_mut_def r(3) open_bi_def) (simp add: bulk_streams_def)
  moreover have "ar_clock (loopback_arena quiet_rig) s = (s, s)"
    by (simp add: loopback_arena_def quiet_rig_def quiet_clock_def)
  ultimately show ?thesis using quiet_drive [where predicate = "transferring (loopback_arena quiet_rig) bulk_streams 7 8 4 amount", OF t(1)] t(2) by (simp add: transfer_def p)
qed

lemma bulk_batches:
  assumes "bulk_ready p" and "amount \<le> 1024 * 1024"
  shows "\<exists>p'. batches k Fin (loopback_arena quiet_rig) bulk_streams 7 8 amount p s =
    Some (Done (replicate k (rate Fin amount 0), p', s))"
  using assms(1)
proof (induction k arbitrary: p)
  case (Suc k)
  obtain p1 where "transfer Fin (loopback_arena quiet_rig) bulk_streams 7 8 amount p s = Some (Done (rate Fin amount 0, p1, s))"
    "bulk_ready p1" using bulk_transfer [OF Suc.prems assms(2)] by blast
  with Suc.IH [of p1] show ?case by auto
qed simp

lemma bulk_bench:
  "\<exists>p'. bench_transfers Fin (loopback_arena quiet_rig) bulk_streams 7 5 (bulk_client, bulk_server) 0 =
     Some (Done ((Inf False, Inf False, Inf False), p', 0))"
proof -
  let ?p = "(bulk_client\<lparr>events := []\<rparr>, bulk_server\<lparr>events := []\<rparr>)"
  have r: "bulk_ready ?p" by (simp add: bulk_ready_def bulk_client_def bulk_server_def)
  have "both_connected bulk_streams (\<lambda>_. True) (False, None) (bulk_client, bulk_server) 0 =
      Some (Done (Some (), (True, Some 8), ?p, 0))"
    by (simp add: both_connected_def bulk_client_def bulk_server_def bulk_streams_def)
  note h = quiet_drive [where predicate = "both_connected bulk_streams (\<lambda>_. True)", OF this]
  obtain p1 where t: "transfer Fin (loopback_arena quiet_rig) bulk_streams 7 8 (1024 * 1024) ?p 0 =
      Some (Done (rate Fin (1024 * 1024) 0, p1, 0))" "bulk_ready p1" using bulk_transfer [OF r, of "1024 * 1024" 0] by auto
  obtain p2 where b: "batches BATCHES Fin (loopback_arena quiet_rig) bulk_streams 7 8 5 p1 0 =
      Some (Done (replicate BATCHES (rate Fin 5 0), p2, 0))" using bulk_batches [OF t(2), of 5 BATCHES 0] by auto
  have "bench_row (replicate BATCHES (rate Fin 5 0)) = (Inf False, Inf False, Inf False)"
    by (simp add: bench_row_def BATCHES_def numeral_3_eq_3 rate_def as_secs_f64_def)
  then show ?thesis using h t(1) b by (simp add: bench_transfers_def)
qed

section \<open>Properties\<close>

text \<open>
  C29. The benchmark reports what it measured: its row is the median, the least and the greatest of the
  rates of exactly three transfers of the asked size, in each of which the server saw the end of the
  stream with no fewer bytes than that and the client wrote no more than that.
\<close>

theorem bench_reports_whole_transfers:
  assumes "writes_fit A" and "bench_transfers rnd R A ch amount p s = Some (Done ((median, least, most), p', s'))"
  shows "\<exists>sh rates. length rates = 3 \<and> list_all (whole_transfer rnd R A ch sh amount) rates \<and>
     mset rates = {#least, median, most#} \<and> least \<le> median \<and> median \<le> most"
proof -
  obtain sh p1 s1 rates where b: "batches BATCHES rnd R A ch sh amount p1 s1 = Some (Done (rates, p', s'))"
    and r: "bench_row rates = (median, least, most)"
    using assms(2) by (auto simp: bench_transfers_def chain_Done split: option.splits)
  have "length rates = 3" "list_all (whole_transfer rnd R A ch sh amount) rates"
    using batches_whole [OF assms(1) b] by (simp_all add: BATCHES_def)
  with bench_row_three [OF this(1) r] show ?thesis by blast
qed

theorem bench_reports_whole_transfers_witness:
  "\<exists>sh rates. length rates = 3 \<and>
     list_all (whole_transfer Fin (loopback_arena quiet_rig) bulk_streams 7 sh 5) rates \<and>
     mset rates = {#Inf False, Inf False, Inf False#}"
proof -
  obtain p' where b: "bench_transfers Fin (loopback_arena quiet_rig) bulk_streams 7 5 (bulk_client, bulk_server) 0 =
     Some (Done ((Inf False, Inf False, Inf False), p', 0))" using bulk_bench by blast
  have "writes_fit bulk_streams" by (simp add: writes_fit_def bulk_streams_def)
  from bench_reports_whole_transfers [OF this b] show ?thesis by blast
qed

text \<open>Three mebibytes fit every \<open>usize\<close>; four gibibytes on a 32-bit target come out as nothing, or as a panic.\<close>

lemma bench_bytes_wraps:
  "mib < 2 ^ (width - 20) \<Longrightarrow> 20 \<le> width \<Longrightarrow> bench_bytes width checked mib = Done (mib * 2 ^ 20)"
  "bench_bytes 32 False 4096 = Done 0"
  "bench_bytes 32 True 4096 = Panics ''attempt to multiply with overflow''"
proof -
  assume "mib < 2 ^ (width - 20)" "20 \<le> width"
  then have "mib * 2 ^ 20 < 2 ^ (width - 20) * 2 ^ 20" by (simp del: power_numeral)
  also have "\<dots> = (2 ^ width :: nat)" using \<open>20 \<le> width\<close> by (simp only: flip: power_add) simp
  finally show "bench_bytes width checked mib = Done (mib * 2 ^ 20)" by (simp add: bench_bytes_def)
qed (simp_all add: bench_bytes_def)

end
