(* ===== verification/Quic_Setup.thy ===== *)
theory Quic_Setup
  imports Quic_Bench Keys Rpk
begin

text \<open>
  The QUIC example as a program (\<^verbatim>\<open>src/examples/quic-loopback/src/main.rs\<close>): how its endpoints and their
  configurations are made from the crates of this repository, the loopback smoke test, and the
  choice of the mode from the arguments. The constructors of noq-proto, the root store, the files and the
  embedded certificates are parameters. Of a \<open>die\<close> the exit status is kept and the fixed part of its
  message, of an \<open>expect\<close> its text.
\<close>

section \<open>The parameters\<close>

text \<open>
  \<open>st_quic_client\<close> and \<open>st_quic_server\<close> are the conversions into noq-proto's own configurations, which
  refuse a configuration without an initial suite.
\<close>

record ('m, 'th, 'tc, 'sk, 'h, 'k, 'a, 'g, 'v, 'r, 's, 'roots, 'qc, 'qs, 'tr, 'ecfg, 'ccfg, 'scfg, 'ep, 'w) quic_setup =
  st_hmac :: "'m hmac_ops"
  st_token :: "('th, 'tc) token_prims"
  st_dalek :: "'sk ed25519_ops"
  st_builder :: "('h, 'k, 'a, 'g, 'v, 'r, 's) builder_ops"
  st_rustcrypto :: "('h, 'k, 'a, 'g, 'v, 'r, 's) rustcrypto"
  st_roots_empty :: 'roots
  st_roots_add :: "certificate_der \<Rightarrow> 'roots \<Rightarrow> ('roots, string) result"
  st_quic_client :: "('h, 'k, 'a, 'g, 'v, 'r, 's, 'roots) quic_client_config \<Rightarrow> 'qc option"
  st_quic_server :: "('h, 'k, 'a, 'g, 'v, 'r, 's) quic_server_config \<Rightarrow> 'qs option"
  st_transport_default :: 'tr
  st_max_idle_timeout :: "u32 \<Rightarrow> 'tr \<Rightarrow> 'tr"
  st_endpoint_config :: "'m \<Rightarrow> 'ecfg"
  st_client_config :: "'qc \<Rightarrow> 'ccfg"
  st_client_transport :: "'tr \<Rightarrow> 'ccfg \<Rightarrow> 'ccfg"
  st_server_config :: "'qs \<Rightarrow> 'th \<Rightarrow> 'scfg"
  st_server_transport :: "'tr \<Rightarrow> 'scfg \<Rightarrow> 'scfg"
  st_endpoint :: "'ecfg \<Rightarrow> 'scfg option \<Rightarrow> bool \<Rightarrow> 'ep"
  st_read_file :: "string \<Rightarrow> 'w \<Rightarrow> (bytes, string) result \<times> 'w"
  st_parse_ip :: "string \<Rightarrow> (ip_addr, string) result"
  st_ca :: bytes
  st_leaf :: bytes
  st_leaf_key :: bytes

section \<open>Configurations\<close>

definition transport where
  "transport X idle_timeout_ms = st_max_idle_timeout X idle_timeout_ms (st_transport_default X)"

definition endpoint_config where
  "endpoint_config X secret = (case reset_key_new (st_hmac X) secret of Inl p \<Rightarrow> Panics p | Inr k \<Rightarrow> Done (st_endpoint_config X k))"

text \<open>The two set-ups differ in how they fail: the interop endpoints exit, the others panic.\<close>

definition quic_client_setup where
  "quic_client_setup X no_root ca alpn tr =
     (case st_roots_add X ca (st_roots_empty X) of
        Inl e \<Rightarrow> no_root
      | Inr roots \<Rightarrow>
          (case quic_client_config (st_builder X) (st_rustcrypto X) roots alpn of
             Inl p \<Rightarrow> Panics p
           | Inr tls \<Rightarrow>
               (case st_quic_client X tls of
                  None \<Rightarrow> Panics ''initial suite''
                | Some q \<Rightarrow> Done (st_client_transport X tr (st_client_config X q)))))"

definition quic_server_setup where
  "quic_server_setup X no_identity no_config leaf key alpn token_secret tr =
     (case ed25519_identity_from_pkcs8_der (st_dalek X) [leaf] key of
        Inl e \<Rightarrow> no_identity
      | Inr identity \<Rightarrow>
          (case quic_server_config (st_builder X) (st_rustcrypto X) (SI_Ed25519 identity) alpn of
             Inl p \<Rightarrow> Panics p
           | Inr (Inl e) \<Rightarrow> no_config
           | Inr (Inr tls) \<Rightarrow>
               (case st_quic_server X tls of
                  None \<Rightarrow> Panics ''initial suite''
                | Some q \<Rightarrow> Done (st_server_transport X tr (st_server_config X q (token_key_new (st_token X) token_secret))))))"

definition text_bytes :: "string \<Rightarrow> bytes" where "text_bytes = map of_char"

definition LOOPBACK_ALPN :: "bytes list" where "LOOPBACK_ALPN = [text_bytes ''quic-loopback/1'']"
definition INTEROP_ALPN :: "bytes list" where "INTEROP_ALPN = [text_bytes ''quic-interop/1'']"
definition MESSAGE :: bytes where "MESSAGE = text_bytes ''hello over the profile's TLS 1.3, via wasi:sockets''"
definition IDLE_TIMEOUT_MS :: u32 where "IDLE_TIMEOUT_MS = 300"
definition INTEROP_IDLE_TIMEOUT_MS :: u32 where "INTEROP_IDLE_TIMEOUT_MS = 5000"

section \<open>Endpoints\<close>

text \<open>\<open>UdpSocket::bind(address).expect(...)\<close>, and an endpoint over the socket.\<close>

definition bound_driver where
  "bound_driver G expected ep address s =
     (case udp_bind (rig_udp G) address s of
        None \<Rightarrow> None
      | Some (Inl e, s) \<Rightarrow> Some (Panics expected)
      | Some (Inr so, s) \<Rightarrow> Some (Done (driver_new ep so, s)))"

definition connect_now where
  "connect_now G config remote name d s =
     (case instant_now (rig_clock G) s of (now, s) \<Rightarrow>
        (case driver_connect (rig_noq G) now config remote name d of
           (Inl e, d) \<Rightarrow> Panics ''connect''
         | (Inr h, d) \<Rightarrow> Done (h, d, s)))"

definition interop_client where
  "interop_client X G A ip port host_name ca_path payload s =
     chain (Some (parse_addr (st_parse_ip X) ip port)) (\<lambda>remote.
     case st_read_file X ca_path s of
       (Inl e, s) \<Rightarrow> Some (Exits 1 ''read'')
     | (Inr ca, s) \<Rightarrow>
         chain (Some (endpoint_config X (text_bytes ''interop reset key (client)''))) (\<lambda>ecfg.
         chain (Some (quic_client_setup X (Exits 1 ''CA certificate'') ca INTEROP_ALPN (transport X INTEROP_IDLE_TIMEOUT_MS))) (\<lambda>config.
         chain (bound_driver G ''bind client socket'' (st_endpoint X ecfg None True) (wildcard remote) s) (\<lambda>(d, s).
         chain (Some (connect_now G config remote host_name d s)) (\<lambda>(h, d, s).
           quic_client_session G A h (text_bytes payload) d s)))))"

definition interop_server where
  "interop_server X G A ip port leaf_path key_path s =
     chain (Some (parse_addr (st_parse_ip X) ip port)) (\<lambda>local.
     case st_read_file X leaf_path s of
       (Inl e, s) \<Rightarrow> Some (Exits 1 ''read'')
     | (Inr leaf, s) \<Rightarrow>
     (case st_read_file X key_path s of
       (Inl e, s) \<Rightarrow> Some (Exits 1 ''read'')
     | (Inr key, s) \<Rightarrow>
         chain (Some (endpoint_config X (text_bytes ''interop reset key (server)''))) (\<lambda>ecfg.
         chain (Some (quic_server_setup X (Exits 1 ''identity'') (Exits 1 ''server config'') leaf key INTEROP_ALPN
           (text_bytes ''interop token key'') (transport X INTEROP_IDLE_TIMEOUT_MS))) (\<lambda>config.
         chain (bound_driver G ''bind server socket'' (st_endpoint X ecfg (Some config) True) local s) (\<lambda>(d, s).
           quic_server_session G A d s)))))"

text \<open>Both endpoints of one process, on the loopback address and a port of the host's choice.\<close>

definition LOCALHOST :: socket_addr where
  "LOCALHOST = socket_addr_new (V6 (0, 0, 0, 0, 0, 0, 0, 1)) 0"

definition two_drivers where
  "two_drivers X G reset_secret token_secret tr s =
     chain (Some (endpoint_config X reset_secret)) (\<lambda>ecfg.
     chain (Some (quic_server_setup X (Panics ''leaf key is Ed25519'') (Panics ''server config'') (st_leaf X) (st_leaf_key X)
       LOOPBACK_ALPN token_secret tr)) (\<lambda>scfg.
     chain (bound_driver G ''bind server socket'' (st_endpoint X ecfg (Some scfg) True) LOCALHOST s) (\<lambda>(server, s).
     chain (Some (quic_client_setup X (Panics ''CA parses'') (st_ca X) LOOPBACK_ALPN tr)) (\<lambda>ccfg.
     chain (bound_driver G ''bind client socket'' (st_endpoint X ecfg None True) LOCALHOST s) (\<lambda>(client, s).
     chain (Some (connect_now G ccfg (driver_local_addr server) ''localhost'' client s)) (\<lambda>(h, client, s).
       Some (Done (h, (client, server), s))))))))"

section \<open>The smoke test\<close>

text \<open>The server reads the stream to its end; its state is the stream it accepted and what it read.\<close>

definition until_delivered :: "('co, 'rd, 'ev) stream_ops \<Rightarrow> connection_handle
    \<Rightarrow> (u64 option \<times> bytes, ('so, 'ep, 'co, 'ev) any_driver \<times> ('so, 'ep, 'co, 'ev) any_driver, 's, unit) closure" where
  "until_delivered A h env p s =
     (case (env, p) of ((acc, got), c, v) \<Rightarrow>
        let v = v\<lparr>events := []\<rparr>
        in case map_of (connections v) h of
             None \<Rightarrow> Some (Panics ''server conn'')
           | Some co \<Rightarrow>
               (case (case acc of None \<Rightarrow> so_accept_bi A co | Some i \<Rightarrow> (acc, co)) of
                  (None, co) \<Rightarrow> Some (Done (None, (None, got), (c, v\<lparr>connections := AList.update h co (connections v)\<rparr>), s))
                | (Some i, co) \<Rightarrow>
                    (case read_stream (so_recv A) i got co of
                       None \<Rightarrow> None
                     | Some (fin, got, co) \<Rightarrow>
                         Some (Done (if fin then Some () else None, (Some i, got),
                           (c, v\<lparr>connections := AList.update h co (connections v)\<rparr>), s)))))"

fun see_timeout :: "('co, 'rd, 'ev) stream_ops \<Rightarrow> (connection_handle \<times> 'ev) list \<Rightarrow> bool \<Rightarrow> bool" where
  "see_timeout A [] lost = lost"
| "see_timeout A ((h, e) # es) lost = see_timeout A es (lost \<or> so_kind A e = Ev_ConnectionLost TimedOut)"

definition until_lost :: "('co, 'rd, 'ev) stream_ops
    \<Rightarrow> (bool \<times> bool, ('so, 'ep, 'co, 'ev) any_driver \<times> ('so, 'ep, 'co, 'ev) any_driver, 's, unit) closure" where
  "until_lost A env p s =
     (case (env, p) of ((client_lost, server_lost), c, v) \<Rightarrow>
        let client_lost = see_timeout A (events c) client_lost; server_lost = see_timeout A (events v) server_lost
        in Some (Done (if client_lost \<and> server_lost then Some () else None, (client_lost, server_lost),
             (c\<lparr>events := []\<rparr>, v\<lparr>events := []\<rparr>), s)))"

definition smoke_test where
  "smoke_test G A client_handle p s =
     chain (drive (loopback_arena G) (both_connected A (\<lambda>h. h = client_handle)) (False, None) p s) (\<lambda>(_, (_, server_handle), (c, v), s).
     case server_handle of
       None \<Rightarrow> Some (Panics ''called `Option::unwrap()` on a `None` value'')
     | Some server_handle \<Rightarrow>
     chain (Some (on_connection ''client conn'' (connection_mut client_handle (open_and_send A MESSAGE) c))) (\<lambda>(_, c).
     chain (drive (loopback_arena G) (until_delivered A server_handle) (None, []) (c, v) s) (\<lambda>(_, (_, got), p, s).
     if got \<noteq> MESSAGE then Some (Panics ''stream payload mismatch'')
     else
     chain (drive (loopback_arena G) (until_lost A) (False, False) p s) (\<lambda>(_, _, p, s).
       Some (Done (got, p, s))))))"

definition loopback where
  "loopback X G A s =
     chain (two_drivers X G (text_bytes ''loopback reset key'') (text_bytes ''loopback token key'') (transport X IDLE_TIMEOUT_MS) s)
       (\<lambda>(h, p, s). smoke_test G A h p s)"

definition quic_bench where
  "quic_bench X G A rnd checked mib s =
     chain (Some (bench_bytes 32 checked mib)) (\<lambda>amount.
     chain (two_drivers X G (text_bytes ''bench reset key'') (text_bytes ''bench token key'') (transport X 30000) s) (\<lambda>(h, p, s).
       bench_transfers rnd (loopback_arena G) A h amount p s))"

section \<open>The program\<close>

text \<open>What the program reports, and what it leaves in the host's state.\<close>

datatype quic_report = Delivered bytes | Echoed bytes | Served bytes | Row "f64 \<times> f64 \<times> f64"

definition quic_main where
  "quic_main X G A rnd checked args s =
     (case drop 1 args of
        [] \<Rightarrow> chain (loopback X G A s) (\<lambda>(got, _, s). Some (Done (Delivered got, s)))
      | mode # rest \<Rightarrow>
          (case (mode = ''client'', mode = ''server'', mode = ''bench'', rest) of
             (True, _, _, [ip, port, name, ca, payload]) \<Rightarrow>
               chain (interop_client X G A ip port name ca payload s) (\<lambda>(response, _, s). Some (Done (Echoed response, s)))
           | (_, True, _, [ip, port, leaf, key]) \<Rightarrow>
               chain (interop_server X G A ip port leaf key s) (\<lambda>(request, _, s). Some (Done (Served request, s)))
           | (_, _, True, [mib]) \<Rightarrow>
               (case parse_uint (2 ^ 32 - 1) mib of
                  Inl e \<Rightarrow> Some (Exits 1 ''mib'')
                | Inr n \<Rightarrow> chain (quic_bench X G A rnd checked n s) (\<lambda>(row, _, s). Some (Done (Row row, s))))
           | _ \<Rightarrow> Some (Exits 2 ''usage'')))"

section \<open>Laws\<close>

text \<open>
  The conversion refuses exactly the configurations whose provider has no AES-128-GCM suite with packet
  protection, the suite of initial packets.
\<close>

definition has_initial_suite :: "('h, 'k, 'a) supported_cipher_suite list \<Rightarrow> bool" where
  "has_initial_suite suites \<longleftrightarrow> list_ex (\<lambda>s. case s of
     Tls13 b \<Rightarrow> suite b = TLS13_AES_128_GCM_SHA256 \<and> quic b \<noteq> None | Tls12 _ \<Rightarrow> False) suites"

definition initial_suites_ok where
  "initial_suites_ok X \<longleftrightarrow>
     (\<forall>cfg. (st_quic_client X cfg = None) = (\<not> has_initial_suite (cipher_suites (cc_provider cfg)))) \<and>
     (\<forall>cfg. (st_quic_server X cfg = None) = (\<not> has_initial_suite (cipher_suites (sc_provider cfg))))"

lemma quic_provider_initial: "quic_provider R = Ok p \<Longrightarrow> has_initial_suite (cipher_suites p)"
  using quic_provider_Ok(1) [of R p]
  by (auto simp: has_initial_suite_def quic_aes_suite_def split: sum.splits)

lemma quic_client_setup_provided:
  assumes "quic_provider (st_rustcrypto X) = Ok p" and "supports_versions (st_builder X) p [TLSv1_3]"
    and "initial_suites_ok X" and "st_roots_add X ca (st_roots_empty X) = Ok roots"
  shows "\<exists>q. st_quic_client X \<lparr>cc_provider = p, cc_versions = [TLSv1_3], cc_server_auth = WithRootCertificates roots,
       cc_client_auth = NoClientAuth, qc_alpn_protocols = alpn, enable_early_data = True\<rparr> = Some q \<and>
     quic_client_setup X no_root ca alpn tr = Done (st_client_transport X tr (st_client_config X q))"
proof -
  let ?cfg = "\<lparr>cc_provider = p, cc_versions = [TLSv1_3], cc_server_auth = WithRootCertificates roots,
       cc_client_auth = NoClientAuth, qc_alpn_protocols = alpn, enable_early_data = True\<rparr>"
  have "st_quic_client X ?cfg \<noteq> None"
    using assms(3) quic_provider_initial [OF assms(1)] by (simp add: initial_suites_ok_def)
  then obtain q where "st_quic_client X ?cfg = Some q" by blast
  then show ?thesis by (simp add: quic_client_setup_def assms(1,2,4) quic_client_config_def tls13_builder_def)
qed

lemma quic_server_setup_provided:
  assumes "quic_provider (st_rustcrypto X) = Ok p" and "supports_versions (st_builder X) p [TLSv1_3]"
    and "initial_suites_ok X" and "ed25519_identity_from_pkcs8_der (st_dalek X) [leaf] key = Ok identity"
    and "identity_resolver (st_builder X) p (SI_Ed25519 identity) = Ok resolver"
  shows "\<exists>q. st_quic_server X \<lparr>sc_provider = p, sc_versions = [TLSv1_3], sc_client_verification = NoClientCert,
       sc_resolver = resolver, qs_alpn_protocols = alpn, max_early_data_size = U32_MAX\<rparr> = Some q \<and>
     quic_server_setup X no_identity no_config leaf key alpn token_secret tr =
       Done (st_server_transport X tr (st_server_config X q (token_key_new (st_token X) token_secret)))"
proof -
  let ?cfg = "\<lparr>sc_provider = p, sc_versions = [TLSv1_3], sc_client_verification = NoClientCert,
       sc_resolver = resolver, qs_alpn_protocols = alpn, max_early_data_size = U32_MAX\<rparr>"
  have "st_quic_server X ?cfg \<noteq> None"
    using assms(3) quic_provider_initial [OF assms(1)] by (simp add: initial_suites_ok_def)
  then obtain q where "st_quic_server X ?cfg = Some q" by blast
  then show ?thesis by (simp add: quic_server_setup_def assms(1,2,4,5) quic_server_config_def tls13_builder_def)
qed

text \<open>Binding returns: the host does not report would-block for ever.\<close>

definition binds_end :: "'s udp_ops \<Rightarrow> bool" where
  "binds_end U \<longleftrightarrow> (\<forall>so s. \<exists>r. finish_bind_loop U so s = Some r)"

lemma bound_driver_returns:
  assumes "binds_end (rig_udp G)" shows "\<exists>r. bound_driver G expected ep address s = Some r"
proof -
  obtain f where "finish_bind_loop (rig_udp G) so s = Some (f so s)" for so s
    using assms unfolding binds_end_def by metis
  then show ?thesis by (auto simp: bound_driver_def udp_bind_def Let_def split: prod.split sum.split option.split)
qed

lemma chain_total: "\<exists>r. m = Some r \<Longrightarrow> (\<And>v. m = Some (Done v) \<Longrightarrow> \<exists>r. k v = Some r) \<Longrightarrow> \<exists>r. chain m k = Some r"
  by (elim exE, rename_tac r, case_tac r) auto

lemma advances_Some_ex: "advances clk s world r \<Longrightarrow> \<exists>out. r = Some out"
  by (auto simp: advances_def)

lemma until_delivered_advances:
  assumes "reads_end (so_recv A)"
  shows "advances clk s (snd \<circ> snd \<circ> snd) (until_delivered A h env p s)"
proof -
  obtain acc got c v where e: "env = (acc, got)" "p = (c, v)" by fastforce
  have "\<forall>i co. \<exists>r. read_stream (so_recv A) i got co = Some r" using read_stream_returns [OF assms] by blast
  then obtain f where "read_stream (so_recv A) i got co = Some (f i co)" for i co by metis
  then show ?thesis by (auto simp: until_delivered_def e Let_def split: option.split prod.split)
qed

lemma until_lost_advances: "advances clk s (snd \<circ> snd \<circ> snd) (until_lost A env p s)"
  by (simp add: until_lost_def Let_def split: prod.split)

lemma smoke_test_returns:
  assumes "settle_together G clk" and "reads_end (so_recv A)"
  shows "\<exists>r. smoke_test G A h p s = Some r"
  unfolding smoke_test_def
  by (intro chain_total loopback_drive.drive_ends [OF assms(1) loopback_bench.both_connected_advances, THEN advances_Some_ex])
    (auto intro!: chain_total loopback_drive.drive_ends [OF assms(1) until_delivered_advances [OF assms(2)], THEN advances_Some_ex]
      loopback_drive.drive_ends [OF assms(1) until_lost_advances, THEN advances_Some_ex] split: option.split)

lemma two_drivers_return:
  assumes "binds_end (rig_udp G)" shows "\<exists>r. two_drivers X G rs ts tr s = Some r"
  unfolding two_drivers_def
  by (intro chain_total bound_driver_returns [OF assms]; auto intro!: chain_total bound_driver_returns [OF assms])

lemma quic_bench_returns:
  assumes "settle_together G clk" and "reads_end (so_recv A)" and "binds_end (rig_udp G)"
  shows "\<exists>r. quic_bench X G A rnd checked mib s = Some r"
  unfolding quic_bench_def
  by (intro chain_total; auto intro!: chain_total two_drivers_return [OF assms(3)]
      loopback_bench.bench_ends [OF assms(1,2), THEN advances_Some_ex])

lemma interop_returns:
  assumes "settle_together G clk" and "reads_end (so_recv A)" and "binds_end (rig_udp G)"
  shows "\<exists>r. interop_client X G A ip port name ca payload s = Some r"
    and "\<exists>r. interop_server X G A ip port leaf key s = Some r"
proof -
  have g: "settles G clk" "clock_ok (rig_clock G) clk" using assms(1) by (simp_all add: settle_together_def)
  show "\<exists>r. interop_client X G A ip port name ca payload s = Some r"
    unfolding interop_client_def
    by (intro chain_total) (auto intro!: chain_total bound_driver_returns [OF assms(3)] interop_sessions_end [OF g assms(2), THEN conjunct1]
        split: prod.split sum.split)
  show "\<exists>r. interop_server X G A ip port leaf key s = Some r"
    unfolding interop_server_def
    by (intro chain_total) (auto intro!: chain_total bound_driver_returns [OF assms(3)] interop_sessions_end [OF g assms(2), THEN conjunct2]
        split: prod.split sum.split)
qed

lemma drive_condition:
  "drive R predicate env p s = Some (Done (v, x', p', s')) \<Longrightarrow> \<exists>x0 p0 s0. predicate x0 p0 s0 = Some (Done (Some v, x', p', s'))"
  by (drule drive_Done [where I = "\<lambda>_. True"]) simp_all

lemma until_delivered_Done:
  assumes "until_delivered A h env p s = Some (Done (Some (), (i, got), p', s'))"
  shows "\<exists>i before co co'. read_stream (so_recv A) i before co = Some (True, got, co')"
  using assms by (auto simp: until_delivered_def Let_def split: prod.splits option.splits if_splits)

section \<open>An instance\<close>

type_synonym demo_client_config = "(unit, unit, unit, named_group, nat, unit, bytes, bytes list) quic_client_config"
type_synonym demo_server_config = "(unit, unit, unit, named_group, nat, unit, bytes) quic_server_config"

definition demo_setup :: "(bytes, bytes, u8, bytes, unit, unit, unit, named_group, nat, unit, bytes, bytes list,
    demo_client_config, demo_server_config, nat, bytes, unit, demo_server_config, unit, nat) quic_setup" where
  "demo_setup = \<lparr>st_hmac = demo_hmac, st_token = demo_token_prims, st_dalek = demo_dalek, st_builder = demo_builder,
     st_rustcrypto = demo_rustcrypto, st_roots_empty = [], st_roots_add = (\<lambda>c roots. Ok (c # roots)),
     st_quic_client = (\<lambda>cfg. if has_initial_suite (cipher_suites (cc_provider cfg)) then Some cfg else None),
     st_quic_server = (\<lambda>cfg. if has_initial_suite (cipher_suites (sc_provider cfg)) then Some cfg else None),
     st_transport_default = 0, st_max_idle_timeout = (\<lambda>ms _. unat ms), st_endpoint_config = (\<lambda>k. k),
     st_client_config = (\<lambda>_. ()), st_client_transport = (\<lambda>_ c. c), st_server_config = (\<lambda>q _. q),
     st_server_transport = (\<lambda>_ c. c), st_endpoint = (\<lambda>_ _ _. ()), st_read_file = (\<lambda>_ w. (Err ''none'', w)),
     st_parse_ip = (\<lambda>_. Ok (V4 (127, 0, 0, 1))), st_ca = [1], st_leaf = [2], st_leaf_key = [3]\<rparr>"

lemma quiet_binds_end: "binds_end (rig_udp quiet_rig)"
  by (simp add: binds_end_def finish_bind_loop.simps quiet_rig_def quiet_udp_def)

lemma demo_initial_suites: "initial_suites_ok demo_setup"
  by (simp add: initial_suites_ok_def demo_setup_def)

section \<open>Properties\<close>



text \<open>
  C28. The endpoints of the QUIC program are those of the profile: with a base provider that has the
  profile's algorithms, every set-up makes a TLS-1.3 configuration over the profile's suites, the
  conversion to noq-proto's configuration cannot fail, the client verifies the server against the
  given authority alone and the server signs with its own identity.
\<close>

theorem endpoints_use_the_profile:
  assumes "quic_provider (st_rustcrypto X) = Ok p" and "supports_versions (st_builder X) p [TLSv1_3]"
    and "initial_suites_ok X"
  shows "map suite_id (cipher_suites p) = CIPHER_SUITES \<and>
    (\<forall>ca alpn tr no_root roots. st_roots_add X ca (st_roots_empty X) = Ok roots \<longrightarrow>
       (\<exists>q. st_quic_client X \<lparr>cc_provider = p, cc_versions = [TLSv1_3], cc_server_auth = WithRootCertificates roots,
           cc_client_auth = NoClientAuth, qc_alpn_protocols = alpn, enable_early_data = True\<rparr> = Some q \<and>
         quic_client_setup X no_root ca alpn tr = Done (st_client_transport X tr (st_client_config X q)))) \<and>
    (\<forall>leaf key alpn token_secret tr no_identity no_config identity resolver.
       ed25519_identity_from_pkcs8_der (st_dalek X) [leaf] key = Ok identity \<and>
       identity_resolver (st_builder X) p (SI_Ed25519 identity) = Ok resolver \<longrightarrow>
       (\<exists>q. st_quic_server X \<lparr>sc_provider = p, sc_versions = [TLSv1_3], sc_client_verification = NoClientCert,
           sc_resolver = resolver, qs_alpn_protocols = alpn, max_early_data_size = U32_MAX\<rparr> = Some q \<and>
         quic_server_setup X no_identity no_config leaf key alpn token_secret tr =
           Done (st_server_transport X tr (st_server_config X q (token_key_new (st_token X) token_secret)))))"
  using quic_delivery.make_suites [OF assms(1)] quic_client_setup_provided [OF assms] quic_server_setup_provided [OF assms]
  by blast

theorem endpoints_use_the_profile_witness:
  "\<exists>q. quic_client_setup demo_setup (Exits 1 ''CA certificate'') [1] INTEROP_ALPN 5 = Done () \<and>
     cc_server_auth (q :: demo_client_config) = WithRootCertificates [[1]] \<and> map suite_id (cipher_suites (cc_provider q)) = CIPHER_SUITES"
proof -
  obtain p where p: "quic_provider (st_rustcrypto demo_setup) = Ok p"
    by (simp add: demo_setup_def demo_rpk_simps quic_provider_def quic_chacha_suite_def quic_aes_suite_def tls13_suite_def)
  have v: "supports_versions (st_builder demo_setup) p [TLSv1_3]" by (simp add: demo_setup_def demo_builder_def)
  have r: "st_roots_add demo_setup [1] (st_roots_empty demo_setup) = Ok [[1]]" by (simp add: demo_setup_def)
  let ?cfg = "\<lparr>cc_provider = p, cc_versions = [TLSv1_3], cc_server_auth = WithRootCertificates [[1]],
     cc_client_auth = NoClientAuth, qc_alpn_protocols = INTEROP_ALPN, enable_early_data = True\<rparr> :: demo_client_config"
  note t = endpoints_use_the_profile [OF p v demo_initial_suites]
  have "quic_client_setup demo_setup (Exits 1 ''CA certificate'') [1] INTEROP_ALPN 5 = Done ()"
    using t r by simp
  moreover have "map suite_id (cipher_suites p) = CIPHER_SUITES" using t by simp
  ultimately show ?thesis by (intro exI [of _ ?cfg]) simp
qed

text \<open>
  The smoke test passes only if the message arrived and the idle timeout worked: the server read
  exactly the message up to the end of the stream, and in the end both sides have seen their
  connection time out.
\<close>

theorem smoke_test_verdict:
  assumes "smoke_test G A client_handle p s = Some (Done (got, p', s'))"
  shows "got = MESSAGE \<and> (\<exists>i before co co'. read_stream (so_recv A) i before co = Some (True, MESSAGE, co')) \<and>
     (\<exists>env p0 s0. until_lost A env p0 s0 = Some (Done (Some (), (True, True), p', s')))"
proof -
  obtain sh c v s1 i p2 s2 lost where d: "drive (loopback_arena G) (until_delivered A sh) (None, []) (c, v) s1 = Some (Done ((), (i, got), p2, s2))"
    and m: "got = MESSAGE"
    and l: "drive (loopback_arena G) (until_lost A) (False, False) p2 s2 = Some (Done ((), lost, p', s'))"
    using assms by (auto simp: smoke_test_def chain_Done split: option.splits if_splits)
  obtain x0 p0 s0 where "until_lost A x0 p0 s0 = Some (Done (Some (), lost, p', s'))" using drive_condition [OF l] by blast
  moreover from this have "lost = (True, True)" by (auto simp: until_lost_def Let_def split: prod.splits if_splits)
  ultimately show ?thesis using drive_condition [OF d] until_delivered_Done m by metis
qed

end
