(* ===== verification/Native_Bench.thy ===== *)
theory Native_Bench
  imports Quic_Setup
begin

text \<open>
  The native mirror of the QUIC benchmark (\<^verbatim>\<open>src/bench/quic-native-bench/src/main.rs\<close>): the driver of
  \<^verbatim>\<open>Quic_Driver\<close> over a non-blocking \<open>std::net\<close> socket, and the benchmark of \<^verbatim>\<open>Quic_Bench\<close> over two of
  them. A datagram is received, handled and sent one at a time, and an error of the socket ends
  the process. The socket's calls, the clock and the yield are parameters.
\<close>

section \<open>The driver\<close>

datatype io_error = Would_Block | Io_Error string

record ('so, 's) native_udp =
  nu_bind :: "socket_addr \<Rightarrow> 's \<Rightarrow> ('so, string) result \<times> 's"
  nu_set_nonblocking :: "'so \<Rightarrow> 's \<Rightarrow> (unit, string) result \<times> 's"
  nu_local_addr :: "'so \<Rightarrow> 's \<Rightarrow> (socket_addr, string) result \<times> 's"
  nu_recv_from :: "'so \<Rightarrow> 's \<Rightarrow> (datagram, io_error) result \<times> 's"
  nu_send_to :: "'so \<Rightarrow> bytes \<Rightarrow> socket_addr \<Rightarrow> 's \<Rightarrow> (nat, io_error) result \<times> 's"

definition native_driver_new :: "('so, 's) native_udp \<Rightarrow> 'ep \<Rightarrow> 'so \<Rightarrow> 's \<Rightarrow> (('so, 'ep, 'co, 'ev) any_driver \<times> 's) outcome" where
  "native_driver_new U ep so s =
     (case nu_set_nonblocking U so s of
        (Inl e, s) \<Rightarrow> Panics ''nonblocking''
      | (Inr _, s) \<Rightarrow> Done (driver_new ep so, s))"

definition native_local_addr :: "('so, 's) native_udp \<Rightarrow> ('so, 'ep, 'co, 'ev) any_driver \<Rightarrow> 's \<Rightarrow> (socket_addr \<times> 's) outcome" where
  "native_local_addr U d s =
     (case nu_local_addr U (dr_socket d) s of (Inl e, s) \<Rightarrow> Panics ''local addr'' | (Inr a, s) \<Rightarrow> Done (a, s))"

definition native_connect :: "('ep, 'co, 'ev, 'cev, 'eev, 'inc, 'cfg) noq_ops \<Rightarrow> instant \<Rightarrow> 'cfg \<Rightarrow> socket_addr \<Rightarrow> string
    \<Rightarrow> ('so, 'ep, 'co, 'ev) any_driver \<Rightarrow> (connection_handle \<times> ('so, 'ep, 'co, 'ev) any_driver) outcome" where
  "native_connect N now config remote name d =
     (case driver_connect N now config remote name d of (Inl e, d) \<Rightarrow> Panics ''connect'' | (Inr h, d) \<Rightarrow> Done (h, d))"

section \<open>The pump\<close>

partial_function (option) native_receive ::
    "('so, 's) native_udp \<Rightarrow> ('ep, 'co, 'ev, 'cev, 'eev, 'inc, 'cfg) noq_ops \<Rightarrow> instant \<Rightarrow> bool \<Rightarrow> ('so, 'ep, 'co, 'ev) any_driver \<Rightarrow> 's \<Rightarrow>
     (bool \<times> ('so, 'ep, 'co, 'ev) any_driver \<times> 's) outcome option" where
  "native_receive U N now moved d s =
     (case nu_recv_from U (dr_socket d) s of
        (Inl Would_Block, s) \<Rightarrow> Some (Done (moved, d, s))
      | (Inl (Io_Error e), s) \<Rightarrow> Some (Exits 1 ''recv_from'')
      | (Inr dg, s) \<Rightarrow>
          (case handle_datagram N now dg d of
             Inl p \<Rightarrow> Some (Panics p)
           | Inr d \<Rightarrow> native_receive U N now True d s))"

fun native_flush :: "('so, 's) native_udp \<Rightarrow> 'so \<Rightarrow> bool \<Rightarrow> datagram list \<Rightarrow> 's \<Rightarrow> (bool \<times> datagram list \<times> 's) outcome" where
  "native_flush U so moved [] s = Done (moved, [], s)"
| "native_flush U so moved (x # queue) s =
     (case nu_send_to U so (fst x) (snd x) s of
        (Inl Would_Block, s) \<Rightarrow> Done (moved, x # queue, s)
      | (Inl (Io_Error e), s) \<Rightarrow> Exits 1 ''send_to''
      | (Inr _, s) \<Rightarrow> native_flush U so True queue s)"

record ('so, 's, 'ep, 'co, 'ev, 'cev, 'eev, 'inc, 'cfg) native_rig =
  nr_udp :: "('so, 's) native_udp"
  nr_now :: "'s \<Rightarrow> instant \<times> 's"
  nr_yield :: "'s \<Rightarrow> 's"
  nr_noq :: "('ep, 'co, 'ev, 'cev, 'eev, 'inc, 'cfg) noq_ops"
  nr_visit :: "(connection_handle \<times> 'co) list \<Rightarrow> (connection_handle \<times> 'co) list"

definition native_pump :: "('so, 's, 'ep, 'co, 'ev, 'cev, 'eev, 'inc, 'cfg) native_rig \<Rightarrow> (('so, 'ep, 'co, 'ev) any_driver, 's) pumping" where
  "native_pump G d s =
     (case nr_now G s of (now, s) \<Rightarrow>
        chain (native_receive (nr_udp G) (nr_noq G) now False d s) (\<lambda>(moved, d, s).
        case service_phase (nr_noq G) (nr_visit G) now moved d of
          None \<Rightarrow> None
        | Some (Inl p) \<Rightarrow> Some (Panics p)
        | Some (Inr (moved, d)) \<Rightarrow>
            chain (Some (native_flush (nr_udp G) (dr_socket d) moved (outbound d) s)) (\<lambda>(moved, queue, s).
              Some (Done (moved, d\<lparr>outbound := queue\<rparr>, s)))))"

definition native_arena :: "('so, 's, 'ep, 'co, 'ev, 'cev, 'eev, 'inc, 'cfg) native_rig \<Rightarrow> (('so, 'ep, 'co, 'ev) any_driver, 's) arena" where
  "native_arena G = \<lparr>ar_client = native_pump G, ar_server = native_pump G, ar_clock = nr_now G,
     ar_wait = (\<lambda>p s. (p, nr_yield G s)), ar_stalled = ''bench stalled'',
     ar_no_client = ''connection'', ar_no_server = ''connection''\<rparr>"

section \<open>The program\<close>

text \<open>
  The set-up is that of the example's benchmark with the socket of \<open>std::net\<close>; every failure is a panic.
\<close>

definition NATIVE_ALPN :: "bytes list" where "NATIVE_ALPN = [text_bytes ''quic-bench/1'']"

definition native_bound_driver where
  "native_bound_driver G expected ep s =
     (case nu_bind (nr_udp G) LOCALHOST s of
        (Inl e, s) \<Rightarrow> Panics expected
      | (Inr so, s) \<Rightarrow> native_driver_new (nr_udp G) ep so s)"

definition native_two_drivers where
  "native_two_drivers X G s =
     chain (Some (endpoint_config X (text_bytes ''bench reset key''))) (\<lambda>ecfg.
     chain (Some (quic_server_setup X (Panics ''leaf key is Ed25519'') (Panics ''server config'') (st_leaf X) (st_leaf_key X)
       NATIVE_ALPN (text_bytes ''bench token key'') (transport X 30000))) (\<lambda>scfg.
     chain (Some (native_bound_driver G ''bind server socket'' (st_endpoint X ecfg (Some scfg) True) s)) (\<lambda>(server, s).
     chain (Some (quic_client_setup X (Panics ''CA parses'') (st_ca X) NATIVE_ALPN (transport X 30000))) (\<lambda>ccfg.
     chain (Some (native_bound_driver G ''bind client socket'' (st_endpoint X ecfg None True) s)) (\<lambda>(client, s).
     chain (Some (native_local_addr (nr_udp G) server s)) (\<lambda>(remote, s).
     case nr_now G s of (now, s) \<Rightarrow>
     chain (Some (native_connect (nr_noq G) now ccfg remote ''localhost'' client)) (\<lambda>(h, client).
       Some (Done (h, (client, server), s)))))))))"

definition native_bench where
  "native_bench X G A rnd checked mib s =
     chain (Some (bench_bytes 64 checked mib)) (\<lambda>amount.
     chain (native_two_drivers X G s) (\<lambda>(h, p, s).
       bench_transfers rnd (native_arena G) A h amount p s))"

definition native_main where
  "native_main X G A rnd checked args s =
     (case drop 1 args of
        [] \<Rightarrow> Some (Exits 2 ''usage'')
      | arg # _ \<Rightarrow>
          (case parse_uint (2 ^ 64 - 1) arg of
             Inl e \<Rightarrow> Some (Exits 2 ''usage'')
           | Inr mib \<Rightarrow> native_bench X G A rnd checked mib s))"

section \<open>Laws\<close>

text \<open>
  \<open>out\<close> reads off the world what was sent: a datagram whose send returned, and nothing else.
\<close>

definition native_ok :: "('so, 's) native_udp \<Rightarrow> ('s \<Rightarrow> instant \<times> 's) \<Rightarrow> ('s \<Rightarrow> datagram list) \<Rightarrow> bool" where
  "native_ok U now out \<longleftrightarrow>
     (\<forall>so data remote s. case nu_send_to U so data remote s of
        (Inr _, s') \<Rightarrow> out s' = out s @ [(data, remote)] | (Inl _, s') \<Rightarrow> out s' = out s) \<and>
     (\<forall>so s. out (snd (nu_recv_from U so s)) = out s) \<and> (\<forall>s. out (snd (now s)) = out s)"

lemma native_okD:
  assumes "native_ok U now out"
  shows "nu_send_to U so data remote s = (Inr n, s') \<Longrightarrow> out s' = out s @ [(data, remote)]"
    and "nu_send_to U so data remote s = (Inl e, s') \<Longrightarrow> out s' = out s"
    and "nu_recv_from U so s = (r, s') \<Longrightarrow> out s' = out s"
    and "now s = (t, s') \<Longrightarrow> out s' = out s"
  using assms unfolding native_ok_def
  by (auto dest!: spec [of _ so] spec [of _ data] spec [of _ remote] spec [of _ s])

lemma native_receive_run:
  assumes "native_receive U N now moved d s = Some res" and "native_ok U clock out"
  shows "\<forall>m d' s'. res = Done (m, d', s') \<longrightarrow> grows N d d' \<and> out s' = out s \<and> (moved \<longrightarrow> m) \<and>
     (\<not> m \<longrightarrow> d' = d \<and> nu_recv_from U (dr_socket d) s = (Err Would_Block, s'))"
proof -
  let ?Q = "\<lambda>U N moved d s res. \<forall>m d' s'. res = Done (m, d', s') \<longrightarrow> grows N d d' \<and> out s' = out s \<and> (moved \<longrightarrow> m) \<and>
     (\<not> m \<longrightarrow> d' = d \<and> nu_recv_from U (dr_socket d) s = (Err Would_Block, s'))"
  let ?P = "\<lambda>U N now moved d s res. native_ok U clock out \<longrightarrow> ?Q U N moved d s res"
  have "?P U N now moved d s res"
  proof (rule native_receive.raw_induct [where P = ?P, OF _ assms(1)], intro impI, goal_cases)
    case (1 loop U N now moved d s res)
    obtain r s1 where u: "nu_recv_from U (dr_socket d) s = (r, s1)" by fastforce
    have o1: "out s1 = out s" by (rule native_okD(3) [OF 1(3) u])
    show ?case
    proof (cases "\<exists>dg d1. r = Inr dg \<and> handle_datagram N now dg d = Ok d1")
      case True
      then obtain dg d1 where h: "r = Inr dg" "handle_datagram N now dg d = Ok d1" by blast
      have "loop U N now True d1 s1 = Some res" using 1(2) u h by simp
      note ih = 1(1) [OF this, rule_format, OF 1(3)]
      show ?thesis
      proof (intro allI impI)
        fix m d' s' assume "res = Done (m, d', s')"
        from ih [OF this] grows_trans [OF handle_datagram_grows [OF h(2)]] o1
        show "grows N d d' \<and> out s' = out s \<and> (moved \<longrightarrow> m) \<and>
            (\<not> m \<longrightarrow> d' = d \<and> nu_recv_from U (dr_socket d) s = (Err Would_Block, s'))" by simp
      qed
    next
      case False
      then show ?thesis using 1(2) u o1 by (auto split: sum.splits io_error.splits)
    qed
  qed
  with assms(2) show ?thesis by blast
qed

lemma native_flush_run:
  assumes "native_ok U clock out" and "native_flush U so moved queue s = Done (m, q, s')"
  shows "\<exists>k \<le> length queue. q = drop k queue \<and> out s' = out s @ take k queue \<and> m = (moved \<or> 0 < k)"
  using assms(2)
proof (induction queue arbitrary: moved s)
  case (Cons x queue)
  obtain r s1 where u: "nu_send_to U so (fst x) (snd x) s = (r, s1)" by fastforce
  show ?case
  proof (cases r)
    case (Inl e)
    then show ?thesis using Cons.prems u native_okD(2) [OF assms(1), of so "fst x" "snd x" s e s1]
      by (intro exI [of _ 0]) (cases e; simp)
  next
    case (Inr n)
    then have o1: "out s1 = out s @ [x]" using native_okD(1) [OF assms(1), of so "fst x" "snd x" s n s1] u by simp
    obtain k where "k \<le> length queue" "q = drop k queue" "out s' = out s1 @ take k queue" "m"
      using Cons.IH [of True s1] Cons.prems u Inr by auto
    then show ?thesis using o1 by (intro exI [of _ "Suc k"]) simp
  qed
qed simp

lemma native_pump_run:
  assumes "native_ok (nr_udp G) (nr_now G) out" and "visit_ok (nr_visit G)"
    and "native_pump G d s = Some (Done (m, d', s'))"
  shows "\<exists>mid k. grows (nr_noq G) d mid \<and> k \<le> length (outbound mid) \<and> d' = mid\<lparr>outbound := drop k (outbound mid)\<rparr> \<and>
     out s' = out s @ take k (outbound mid) \<and>
     (\<not> m \<longrightarrow> k = 0 \<and> outbound mid = outbound d \<and> events mid = events d \<and>
        mset (map fst (connections mid)) = mset (map fst (connections d)))"
proof -
  obtain now s0 where n: "nr_now G s = (now, s0)" by fastforce
  obtain m1 d1 s1 where r: "native_receive (nr_udp G) (nr_noq G) now False d s0 = Some (Done (m1, d1, s1))"
    using assms(3) by (auto simp: native_pump_def n chain_Done)
  note p = assms(3) [unfolded native_pump_def n prod.case r chain_simps]
  obtain m2 d2 where sp: "service_phase (nr_noq G) (nr_visit G) now m1 d1 = Some (Ok (m2, d2))"
    using p by (auto split: option.splits sum.splits)
  obtain q where f: "native_flush (nr_udp G) (dr_socket d2) m2 (outbound d2) s1 = Done (m, q, s')"
    and d': "d' = d2\<lparr>outbound := q\<rparr>"
    using p by (auto simp: sp chain_Done)
  have o0: "out s0 = out s" by (rule native_okD(4) [OF assms(1) n])
  have a: "grows (nr_noq G) d d1" "out s1 = out s0" "\<not> m1 \<longrightarrow> d1 = d"
    using native_receive_run [OF r assms(1)] by blast+
  note b = service_phase_run [OF sp assms(2)]
  obtain k where k: "k \<le> length (outbound d2)" "q = drop k (outbound d2)" "out s' = out s1 @ take k (outbound d2)"
    "m = (m2 \<or> 0 < k)" using native_flush_run [OF assms(1) f] by blast
  have "grows (nr_noq G) d d2" using b grows_trans [OF a(1)] by blast
  then show ?thesis using a b k d' o0 by (intro exI [of _ d2] exI [of _ k] conjI) auto
qed

text \<open>What the native benchmark relies on to end.\<close>

definition native_runs :: "('so, 's, 'ep, 'co, 'ev, 'cev, 'eev, 'inc, 'cfg) native_rig \<Rightarrow> ('s \<Rightarrow> instant) \<Rightarrow> bool" where
  "native_runs G clk \<longleftrightarrow>
     (\<forall>d s. \<exists>d' s'. pump_while (native_pump G) d s = Some (Done (d', s')) \<and> clk s \<le> clk s') \<and>
     (\<forall>p s. \<exists>p' s'. settle_both (native_arena G) p s = Some (Done (p', s')) \<and> clk s \<le> clk s') \<and>
     (\<forall>s. fst (nr_now G s) = clk s \<and> clk s \<le> clk (snd (nr_now G s))) \<and> (\<forall>s. clk s < clk (nr_yield G s))"

interpretation native_bench: benching native_arena native_runs
proof (unfold_locales, goal_cases)
  case (1 G clk s d)
  then obtain d' s' where "pump_while (native_pump G) d s = Some (Done (d', s'))" "clk s \<le> clk s'"
    unfolding native_runs_def by blast
  then show ?case by (simp add: native_arena_def)
next
  case (2 G clk s d)
  then obtain d' s' where "pump_while (native_pump G) d s = Some (Done (d', s'))" "clk s \<le> clk s'"
    unfolding native_runs_def by blast
  then show ?case by (simp add: native_arena_def)
next
  case (3 G clk s p)
  then obtain p' s' where "settle_both (native_arena G) p s = Some (Done (p', s'))" "clk s \<le> clk s'"
    unfolding native_runs_def by blast
  then show ?case by simp
next
  case (4 G clk s now s')
  then show ?case unfolding native_runs_def native_arena_def by (metis arena.select_convs(3) fst_conv snd_conv)
next
  case (5 G clk p s p' s')
  then show ?case by (auto simp: native_runs_def native_arena_def)
qed

section \<open>An instance\<close>

text \<open>A socket without traffic that takes every datagram; the world is the clock and what was sent.\<close>

definition idle_native :: "(nat, nat \<times> datagram list) native_udp" where
  "idle_native = \<lparr>nu_bind = (\<lambda>_ s. (Ok 3, s)), nu_set_nonblocking = (\<lambda>_ s. (Ok (), s)),
     nu_local_addr = (\<lambda>_ s. (Ok LOCALHOST, s)), nu_recv_from = (\<lambda>_ s. (Err Would_Block, s)),
     nu_send_to = (\<lambda>_ data remote (t, out). (Ok (length data), t, out @ [(data, remote)]))\<rparr>"

definition idle_native_rig :: "(nat, nat \<times> datagram list, unit, nat, nat, unit, unit, unit, unit) native_rig" where
  "idle_native_rig = \<lparr>nr_udp = idle_native, nr_now = (\<lambda>s. (fst s, s)), nr_yield = (\<lambda>(t, out). (t + 1, out)),
     nr_noq = rest_noq, nr_visit = (\<lambda>cs. cs)\<rparr>"

lemma idle_native_ok: "native_ok (nr_udp idle_native_rig) (nr_now idle_native_rig) snd"
  by (auto simp: native_ok_def idle_native_rig_def idle_native_def split: prod.split)

lemma idle_native_flush: "native_flush idle_native so m q (t, out) = Done (m \<or> q \<noteq> [], [], t, out @ q)"
  by (induction q arbitrary: m out) (auto simp: idle_native_def)

lemma idle_native_pump:
  "native_pump idle_native_rig d (t, out) = Some (Done (outbound d \<noteq> [], d\<lparr>outbound := []\<rparr>, t, out @ outbound d))"
proof -
  have "native_receive idle_native rest_noq now False d s = Some (Done (False, d, s))" for now s
    by (simp add: native_receive.simps idle_native_def)
  then show ?thesis
    by (simp add: native_pump_def idle_native_rig_def service_phase_def rest_service_all served_none_def idle_native_flush)
qed

lemma idle_native_settles:
  "pump_while (native_pump idle_native_rig) d (t, out) = Some (Done (d\<lparr>outbound := []\<rparr>, t, out @ outbound d))"
  "settle_both (native_arena idle_native_rig) (c, v) (t, out) =
     Some (Done ((c\<lparr>outbound := []\<rparr>, v\<lparr>outbound := []\<rparr>), t, out @ outbound c @ outbound v))"
proof -
  have "pump_while (native_pump idle_native_rig) d (t, out) = Some (Done (d, t, out))" if "outbound d = []" for d out
    using that by (subst pump_while.simps) (simp add: idle_native_pump)
  then show "pump_while (native_pump idle_native_rig) d (t, out) = Some (Done (d\<lparr>outbound := []\<rparr>, t, out @ outbound d))"
    by (subst pump_while.simps) (simp add: idle_native_pump)
  have "settle_both (native_arena idle_native_rig) (c, v) (t, out) = Some (Done ((c, v), t, out))"
    if "outbound c = []" "outbound v = []" for c v out
    using that unfolding settle_both_def by (subst pump_while.simps) (simp add: pump_pair_def native_arena_def idle_native_pump)
  then show "settle_both (native_arena idle_native_rig) (c, v) (t, out) =
     Some (Done ((c\<lparr>outbound := []\<rparr>, v\<lparr>outbound := []\<rparr>), t, out @ outbound c @ outbound v))"
    unfolding settle_both_def by (subst pump_while.simps) (simp add: pump_pair_def native_arena_def idle_native_pump)
qed

lemma idle_native_runs: "native_runs idle_native_rig fst"
  unfolding native_runs_def by (auto simp: idle_native_settles) (auto simp: idle_native_rig_def)

section \<open>Properties\<close>

text \<open>
  The native driver, too, neither loses, repeats nor reorders a datagram, and its pump tells the truth: what
  was sent followed by what is queued are the sent and queued datagrams of before and new ones
  noq-proto asked for; the table of connections stays a map; and a pump that reports no progress sent
  nothing, queued nothing and gave no event.
\<close>

theorem native_pump_keeps_datagrams:
  assumes "native_ok (nr_udp G) (nr_now G) out" and "visit_ok (nr_visit G)"
    and "native_pump G d s = Some (Done (moved, d', s'))"
  shows "(\<exists>new evs. out s' @ outbound d' = out s @ outbound d @ new \<and> (\<forall>x \<in> set new. emits (nr_noq G) x) \<and>
       events d' = events d @ evs) \<and>
     (keys_distinct d \<longrightarrow> keys_distinct d') \<and>
     (\<not> moved \<longrightarrow> out s' = out s \<and> outbound d' = outbound d \<and> events d' = events d)"
proof -
  obtain mid k where m: "grows (nr_noq G) d mid" "d' = mid\<lparr>outbound := drop k (outbound mid)\<rparr>"
    "out s' = out s @ take k (outbound mid)"
    "\<not> moved \<longrightarrow> k = 0 \<and> outbound mid = outbound d \<and> events mid = events d"
    using native_pump_run [OF assms] by blast
  obtain new where n: "outbound mid = outbound d @ new" "\<forall>x \<in> set new. emits (nr_noq G) x"
    using m(1) unfolding grows_def by blast
  have "out s' @ outbound d' = out s @ outbound mid" using m(2,3) by simp
  then have "out s' @ outbound d' = out s @ outbound d @ new" by (simp add: n(1))
  moreover have "\<exists>evs. events d' = events d @ evs" "keys_distinct d \<longrightarrow> keys_distinct d'"
    using growsD(2,3) [OF m(1)] m(2) by (simp_all add: keys_distinct_def)
  moreover have "\<not> moved \<longrightarrow> out s' = out s \<and> outbound d' = outbound d \<and> events d' = events d" using m(2-4) by simp
  ultimately show ?thesis using n(2) by blast
qed

theorem native_pump_keeps_datagrams_witness:
  "native_pump idle_native_rig (driver_new () 3\<lparr>outbound := [([1], LOCALHOST), ([2], LOCALHOST)]\<rparr>) (0, []) =
     Some (Done (True, driver_new () 3, 0, [([1], LOCALHOST), ([2], LOCALHOST)])) \<and>
   (\<exists>new. [([1], LOCALHOST), ([2], LOCALHOST)] = [] @ [([1], LOCALHOST), ([2], LOCALHOST)] @ new \<and>
      (\<forall>x \<in> set new. emits rest_noq x))"
proof -
  let ?d = "driver_new () 3\<lparr>outbound := [([1], LOCALHOST), ([2], LOCALHOST)]\<rparr>"
  have p: "native_pump idle_native_rig ?d (0, []) =
      Some (Done (True, driver_new () 3, 0, [([1], LOCALHOST), ([2], LOCALHOST)]))"
    by (simp add: idle_native_pump driver_new_def)
  have v: "visit_ok (nr_visit idle_native_rig)" by (simp add: visit_ok_def idle_native_rig_def)
  from native_pump_keeps_datagrams [OF idle_native_ok v p] p show ?thesis
    by (simp add: driver_new_def idle_native_rig_def)
qed

text \<open>
  The native benchmark always ends, whatever its arguments: it prints a row, panics or exits, if pumping
  comes to rest, time passes with every yield and a stream gives finitely many chunks at a time.
\<close>

theorem native_program_always_ends:
  assumes "native_runs G clk" and "reads_end (so_recv A)"
  shows "\<exists>r. native_main X G A rnd checked args s = Some r"
proof -
  have t: "\<exists>r. native_two_drivers X G s = Some r" for s
    unfolding native_two_drivers_def by (intro chain_total) (auto intro!: chain_total split: prod.split)
  have "\<exists>r. native_bench X G A rnd checked mib s = Some r" for mib
    unfolding native_bench_def
    by (intro chain_total) (auto intro!: chain_total t native_bench.bench_ends [OF assms, THEN advances_Some_ex])
  then show ?thesis by (auto simp: native_main_def split: list.split sum.split)
qed

theorem native_program_always_ends_witness:
  "\<exists>r. native_main demo_setup idle_native_rig rest_streams Fin False
     [''quic-native-bench'', ''64''] (0, []) = Some r"
  by (rule native_program_always_ends [OF idle_native_runs rest_reads_end])

text \<open>
  The mirror is not step for step: the driver of the example polls the connections' events once more at
  the end of a pump, the native one does not. An event that the answer to an endpoint event
  raises is given by the example's pump and left for the next one by the native pump.
\<close>

definition late_noq :: "(unit, nat, nat, unit, unit, unit, unit) noq_ops" where
  "late_noq = rest_noq\<lparr>co_poll_endpoint_events := (\<lambda>c. if c = 0 then (Some (), 1) else (None, c)),
     ep_handle_event := (\<lambda>_ _ ep. (Some (), ep)), is_drained := (\<lambda>_. False), co_handle_event := (\<lambda>_ c. 2),
     co_poll := (\<lambda>c. if c = 2 then (Some 9, 3) else (None, c))\<rparr>"

theorem native_pump_leaves_late_events:
  "(\<exists>d s'. pump quiet_udp late_noq (\<lambda>cs. cs) 0 (demo_driver\<lparr>connections := [(7, 0)]\<rparr>) 0 = Some (Ok (Ok True, d, s')) \<and>
      events d = [(7, 9)]) \<and>
   (\<exists>d s'. native_pump (idle_native_rig\<lparr>nr_noq := late_noq\<rparr>) (driver_new () 3\<lparr>connections := [(7, 0)]\<rparr>) (0, []) =
        Some (Done (True, d, s')) \<and> events d = [])"
  by (simp add: pump_eval native_pump_def native_receive.simps late_noq_def rest_noq_def quiet_noq_def quiet_udp_def
      deliver_def idle_native_rig_def idle_native_def driver_new_def)

end
