(* ===== verification/Timing_Inputs.thy ===== *)
theory Timing_Inputs
  imports Prelude "HOL-Library.Multiset"
begin

text \<open>
  The inputs of the timing laboratory (\<^verbatim>\<open>src/timing-lab/src/main.rs\<close>): the xorshift64* generator with its
  fill and shuffle, the hexadecimal constants, the two deliberately leaky controls, the corrupted
  probes, the fixed scalars and the range check of random ones.
\<close>

section \<open>The generator\<close>

type_synonym rng = u64

definition rng_new :: "u64 \<Rightarrow> rng" where
  "rng_new seed = max seed 1"

definition xorshift :: "u64 \<Rightarrow> u64" where
  "xorshift x =
     (let x = x XOR drop_bit 12 x;
          x = x XOR push_bit 25 x
      in x XOR drop_bit 27 x)"

definition next_u64 :: "rng \<Rightarrow> u64 \<times> rng" where
  "next_u64 r = (let x = xorshift r in (x * 0x2545f4914f6cdd1d, x))"

text \<open>Filling a buffer of \<open>n\<close> bytes: every chunk of eight takes one output, the last may be shorter.\<close>

function fill :: "nat \<Rightarrow> rng \<Rightarrow> bytes \<times> rng" where
  "fill n r =
     (if n = 0 then ([], r)
      else let (v, r) = next_u64 r;
               (rest, r') = fill (n - 8) r
           in (take (min 8 n) (le_bytes 8 v) @ rest, r'))"
  by pat_completeness auto
termination
  by (relation "measure fst") auto

declare fill.simps [simp del]

definition swap :: "nat \<Rightarrow> nat \<Rightarrow> 'a list \<Rightarrow> 'a list" where
  "swap i j xs = xs[i := xs ! j, j := xs ! i]"

text \<open>The loop \<open>for i in (1..len).rev()\<close>, from index \<open>i\<close> down to 1.\<close>

fun shuffle_down :: "nat \<Rightarrow> 'a list \<Rightarrow> rng \<Rightarrow> 'a list \<times> rng" where
  "shuffle_down 0 xs r = (xs, r)"
| "shuffle_down (Suc k) xs r =
     (let (v, r) = next_u64 r;
          j = unat v mod (Suc k + 1)
      in shuffle_down k (swap (Suc k) j xs) r)"

definition shuffle :: "'a list \<Rightarrow> rng \<Rightarrow> 'a list \<times> rng" where
  "shuffle xs r = shuffle_down (length xs - 1) xs r"

section \<open>Hexadecimal constants\<close>

definition nibble :: "u8 \<Rightarrow> u8 or_panic" where
  "nibble b =
     (if 48 \<le> b \<and> b \<le> 57 then Ok (b - 48)
      else if 97 \<le> b \<and> b \<le> 102 then Ok (b - 97 + 10)
      else Panic ''invalid hex hex_digit'')"

fun hex_bytes :: "bytes \<Rightarrow> bytes or_panic" where
  "hex_bytes (a # b # rest) =
     (case nibble a of
        Inl p \<Rightarrow> Panic p
      | Inr x \<Rightarrow>
          (case nibble b of
             Inl p \<Rightarrow> Panic p
           | Inr y \<Rightarrow>
               (case hex_bytes rest of Inl p \<Rightarrow> Panic p | Inr out \<Rightarrow> Ok ((push_bit 4 x OR y) # out))))"
| "hex_bytes s = Ok []"

definition hex :: "nat \<Rightarrow> bytes \<Rightarrow> bytes or_panic" where
  "hex N s = (if length s = N * 2 then hex_bytes s else Panic ''hex literal has the wrong length'')"

definition hex_string :: "nat \<Rightarrow> string \<Rightarrow> bytes or_panic" where
  "hex_string N s = hex N (map of_char s)"

section \<open>The controls\<close>

fun first_difference :: "(u8 \<times> u8) list \<Rightarrow> bool" where
  "first_difference [] = True"
| "first_difference ((x, y) # rest) = (if x \<noteq> y then False else first_difference rest)"

definition leaky_equal :: "bytes \<Rightarrow> bytes \<Rightarrow> bool" where
  "leaky_equal a b = (if length a \<noteq> length b then False else first_difference (zip a b))"

definition byte_work :: "u8 \<Rightarrow> u32 \<Rightarrow> u32" where
  "byte_work b acc = ((\<lambda>acc. acc * 31 + ucast b) ^^ unat (b AND 0x0f)) acc"

definition data_dependent_work :: "bytes \<Rightarrow> u32" where
  "data_dependent_work data = fold byte_work data 1"

text \<open>On an empty buffer the index of either class is out of range.\<close>

definition corrupted :: "bytes \<Rightarrow> bool \<Rightarrow> bytes or_panic" where
  "corrupted expected at_last =
     (if expected = [] then Panic ''index out of bounds''
      else let index = (if at_last then length expected - 1 else 0)
           in Ok (expected[index := expected ! index XOR 0x01]))"

section \<open>Keys and scalars\<close>

definition ED25519_PKCS8_PREFIX :: bytes where
  "ED25519_PKCS8_PREFIX = [0x30, 0x2e, 0x02, 0x01, 0x00, 0x30, 0x05, 0x06, 0x03, 0x2b, 0x65, 0x70, 0x04, 0x22, 0x04, 0x20]"

definition ed25519_pkcs8 :: "bytes \<Rightarrow> bytes" where
  "ed25519_pkcs8 seed = ED25519_PKCS8_PREFIX @ seed"

definition single_bit_scalar :: "nat \<Rightarrow> bool \<Rightarrow> nat \<Rightarrow> bytes or_panic" where
  "single_bit_scalar N LE b =
     (let byte = b div 8;
          index = (if LE then byte else N - 1 - byte)
      in if byte < N then Ok ((replicate N 0)[index := push_bit (b mod 8) 1])
         else Panic ''index out of bounds'')"

definition N_P256 :: bytes where
  "N_P256 = [0xff, 0xff, 0xff, 0xff, 0x00, 0x00, 0x00, 0x00, 0xff, 0xff, 0xff, 0xff, 0xff, 0xff, 0xff, 0xff,
     0xbc, 0xe6, 0xfa, 0xad, 0xa7, 0x17, 0x9e, 0x84, 0xf3, 0xb9, 0xca, 0xc2, 0xfc, 0x63, 0x25, 0x51]"

text \<open>The order of slices is lexicographic.\<close>

fun slice_lt :: "bytes \<Rightarrow> bytes \<Rightarrow> bool" where
  "slice_lt xs [] = False"
| "slice_lt [] (y # ys) = True"
| "slice_lt (x # xs) (y # ys) = (x < y \<or> x = y \<and> slice_lt xs ys)"

definition scalar_in_range :: "bytes \<Rightarrow> bytes \<Rightarrow> bool" where
  "scalar_in_range scalar order = ((\<exists>b \<in> set scalar. b \<noteq> 0) \<and> slice_lt scalar order)"

text \<open>The draw of a P-256 scalar: \<open>None\<close> if the generator never gives one in range.\<close>

partial_function (option) draw_scalar :: "rng \<Rightarrow> (bytes \<times> rng) option" where
  "draw_scalar r =
     (case fill 32 r of (bs, r) \<Rightarrow> if scalar_in_range bs N_P256 then Some (bs, r) else draw_scalar r)"

section \<open>Laws of the generator\<close>

lemma xor_drop_bit_eq_0:
  fixes x :: u64
  assumes "0 < k" and "x XOR drop_bit k x = 0"
  shows "x = 0"
proof (rule ccontr)
  assume n: "x \<noteq> 0"
  have "x = drop_bit k x" using assms(2) word_xor_left_inj [of x "drop_bit k x" x] by simp
  then have "unat x = unat x div 2 ^ k" by (metis drop_bit_eq_div unsigned_drop_bit_eq take_bit_drop_bit
        unat_drop_bit_eq)
  moreover have "unat x div 2 ^ k < unat x"
  proof (rule div_less_dividend)
    show "1 < (2::nat) ^ k" using assms(1) by (intro one_less_power) simp_all
    show "0 < unat x" using n by (simp add: unat_gt_0)
  qed
  ultimately show False by simp
qed

lemma xor_push_bit_eq_0:
  fixes x :: u64
  assumes "0 < k" and "x XOR push_bit k x = 0"
  shows "x = 0"
proof -
  have e: "x = push_bit k x" using assms(2) word_xor_left_inj [of x "push_bit k x" x] by simp
  have "\<not> bit x n" for n
  proof (induction n rule: less_induct)
    case (less n)
    show ?case
    proof
      assume b: "bit x n"
      then have "bit (push_bit k x) n" using e by simp
      then have "k \<le> n" "bit x (n - k)" by (auto simp: bit_push_bit_iff)
      with less [of "n - k"] assms(1) show False by simp
    qed
  qed
  then show ?thesis by (intro bit_eqI) simp
qed

lemma xorshift_nonzero: "x \<noteq> 0 \<Longrightarrow> xorshift x \<noteq> 0"
  unfolding xorshift_def Let_def by (metis xor_drop_bit_eq_0 xor_push_bit_eq_0 zero_less_numeral)

lemma length_fill: "length (fst (fill n r)) = n"
proof (induction n r rule: fill.induct)
  case (1 n r)
  show ?case
  proof (cases "n = 0")
    case True
    then show ?thesis by (subst fill.simps) simp
  next
    case False
    obtain v r1 where v: "next_u64 r = (v, r1)" by fastforce
    have "length (fst (fill (n - 8) r1)) = n - 8" using 1 [OF False v [symmetric] refl] by simp
    then show ?thesis using False v by (subst fill.simps) (auto simp: Let_def split: prod.splits)
  qed
qed

lemma swap_mset: "i < length xs \<Longrightarrow> j < length xs \<Longrightarrow> mset (swap i j xs) = mset xs"
  unfolding swap_def by (rule mset_swap)

lemma shuffle_down_mset: "k < length xs \<or> k = 0 \<Longrightarrow> mset (fst (shuffle_down k xs r)) = mset xs"
proof (induction k arbitrary: xs r)
  case (Suc k)
  obtain v r1 where v: "next_u64 r = (v, r1)" by fastforce
  have "mset (swap (Suc k) (unat v mod (Suc k + 1)) xs) = mset xs"
  proof (rule swap_mset)
    show "Suc k < length xs" using Suc.prems by simp
    have "unat v mod (Suc k + 1) < Suc k + 1" by simp
    then show "unat v mod (Suc k + 1) < length xs" using Suc.prems by linarith
  qed
  moreover have "k < length (swap (Suc k) (unat v mod (Suc k + 1)) xs)" using Suc.prems by (simp add: swap_def)
  ultimately show ?case using Suc.IH [of "swap (Suc k) (unat v mod (Suc k + 1)) xs" r1] v by (simp add: Let_def)
qed simp

lemma shuffle_mset: "mset (fst (shuffle xs r)) = mset xs"
  unfolding shuffle_def by (rule shuffle_down_mset) auto

text \<open>The outputs of the generator, and the state after them.\<close>

fun outputs :: "nat \<Rightarrow> rng \<Rightarrow> u64 list" where
  "outputs 0 r = []"
| "outputs (Suc k) r = fst (next_u64 r) # outputs k (snd (next_u64 r))"

definition after :: "nat \<Rightarrow> rng \<Rightarrow> rng" where
  "after k r = (xorshift ^^ k) r"

lemma after_simps [simp]: "after 0 r = r" "after (Suc k) r = after k (xorshift r)"
  by (simp_all add: after_def funpow_swap1)

lemma after_nonzero: "r \<noteq> 0 \<Longrightarrow> after k r \<noteq> 0"
  by (induction k arbitrary: r) (simp_all add: xorshift_nonzero)

lemma snd_next_u64 [simp]: "snd (next_u64 r) = xorshift r"
  by (simp add: next_u64_def Let_def)

lemma fill_stream:
  "fill n r = (take n (concat (map (le_bytes 8) (outputs ((n + 7) div 8) r))), after ((n + 7) div 8) r)"
proof (induction n r rule: fill.induct)
  case (1 n r)
  show ?case
  proof (cases "n = 0")
    case True
    then show ?thesis by (subst fill.simps) simp
  next
    case False
    obtain v r1 where v: "next_u64 r = (v, r1)" by fastforce
    have r1: "r1 = xorshift r" using v snd_next_u64 [of r] by simp
    have k: "(n + 7) div 8 = Suc ((n - 8 + 7) div 8)" using False by (cases "n \<le> 8") auto
    have ih: "fill (n - 8) r1 = (take (n - 8) (concat (map (le_bytes 8) (outputs ((n - 8 + 7) div 8) r1))),
        after ((n - 8 + 7) div 8) r1)" using 1 [OF False v [symmetric] refl] by simp
    have t: "take (min 8 n) (le_bytes 8 v) = take n (le_bytes 8 v)" by (simp add: min_def)
    show ?thesis using False v ih k r1 t by (subst fill.simps) (simp add: Let_def)
  qed
qed

lemma shuffle_down_state: "snd (shuffle_down k xs r) = after k r"
proof (induction k arbitrary: xs r)
  case (Suc k)
  obtain v r1 where v: "next_u64 r = (v, r1)" by fastforce
  then show ?case using Suc snd_next_u64 [of r] by (simp add: Let_def)
qed simp

section \<open>Laws of the byte strings\<close>

text \<open>The hexadecimal digits of a byte.\<close>

definition hex_digit :: "u8 \<Rightarrow> u8" where
  "hex_digit x = (if x < 10 then 48 + x else 87 + x)"

definition hex_digits :: "bytes \<Rightarrow> bytes" where
  "hex_digits bs = concat (map (\<lambda>b. [hex_digit (drop_bit 4 b), hex_digit (b AND 0x0f)]) bs)"

lemma hex_digits_simps [simp]: "hex_digits [] = []" "hex_digits (b # bs) = hex_digit (drop_bit 4 b) # hex_digit (b AND 0x0f) # hex_digits bs"
  by (simp_all add: hex_digits_def)

lemma length_hex_digits: "length (hex_digits bs) = length bs * 2"
  by (induction bs) simp_all

lemma nibble_digit:
  assumes "x < 16"
  shows "nibble (hex_digit x) = Ok x"
proof -
  have "unat x < 16" using assms by (simp add: word_less_nat_alt)
  then have "x \<in> {0, 1, 2, 3, 4, 5, 6, 7, 8, 9, 10, 11, 12, 13, 14, 15}"
    by (simp add: word_unat_eq_iff) presburger
  then show ?thesis by (auto simp: nibble_def hex_digit_def)
qed

lemma byte_nibbles:
  fixes b :: u8
  shows "push_bit 4 (drop_bit 4 b) OR (b AND 0x0f) = b" and "drop_bit 4 b < 16" and "b AND 0x0f < 16"
proof -
  have m: "(0x0f :: u8) = mask 4" by (simp add: mask_eq_exp_minus_1)
  show "push_bit 4 (drop_bit 4 b) OR (b AND 0x0f) = b"
    unfolding m by (rule bit_word_eqI) (auto simp: bit_simps)
  have "unat b < 256" by (rule unat_u8_bound)
  then show "drop_bit 4 b < 16"
    by (simp add: word_less_nat_alt drop_bit_eq_div unat_div)
  show "b AND 0x0f < 16" unfolding m
    by (simp add: word_less_nat_alt take_bit_eq_mask [symmetric] unsigned_take_bit_eq take_bit_nat_eq_self)
      (use take_bit_nat_less_exp [of 4 "unat b"] in simp)
qed

lemma hex_bytes_hex_digits: "hex_bytes (hex_digits bs) = Ok bs"
  by (induction bs) (simp_all add: nibble_digit byte_nibbles)

lemma first_difference_iff: "length a = length b \<Longrightarrow> first_difference (zip a b) \<longleftrightarrow> a = b"
  by (induction a b rule: list_induct2) auto

text \<open>The value of a big-endian byte string.\<close>

definition be_val :: "bytes \<Rightarrow> nat" where
  "be_val bs = le_val (rev bs)"

lemma le_val_append: "le_val (xs @ ys) = le_val xs + 256 ^ length xs * le_val ys"
  by (induction xs) (simp_all add: algebra_simps)

lemma be_val_Cons: "be_val (b # bs) = unat b * 256 ^ length bs + be_val bs"
  by (simp add: be_val_def le_val_append)

lemma be_val_bound: "be_val bs < 256 ^ length bs"
  using le_val_bound [of "rev bs"] by (simp add: be_val_def)

lemma slice_lt_be_val:
  "length xs = length ys \<Longrightarrow> slice_lt xs ys \<longleftrightarrow> be_val xs < be_val ys"
proof (induction xs ys rule: list_induct2)
  case (Cons x xs y ys)
  have b: "be_val xs < 256 ^ length ys" "be_val ys < 256 ^ length ys"
    using be_val_bound [of xs] be_val_bound [of ys] Cons.hyps by simp_all
  have lt: "unat x * 256 ^ length ys + be_val xs < unat y * 256 ^ length ys + be_val ys" if "unat x < unat y"
  proof -
    have "unat x * 256 ^ length ys + be_val xs < (unat x + 1) * 256 ^ length ys" using b by simp
    also have "\<dots> \<le> unat y * 256 ^ length ys" using that by (intro mult_le_mono1) simp
    finally show ?thesis by simp
  qed
  have gt: "\<not> unat x * 256 ^ length ys + be_val xs < unat y * 256 ^ length ys + be_val ys" if "unat y < unat x"
  proof -
    have "unat y * 256 ^ length ys + be_val ys < (unat y + 1) * 256 ^ length ys" using b by simp
    also have "\<dots> \<le> unat x * 256 ^ length ys" using that by (intro mult_le_mono1) simp
    finally show ?thesis by simp
  qed
  consider "unat x < unat y" | "unat y < unat x" | "x = y" by (metis linorder_neqE_nat word_unat_eq_iff)
  then show ?case using lt gt Cons.IH Cons.hyps
    by cases (auto simp: be_val_Cons word_less_nat_alt)
qed (simp add: be_val_def)

lemma be_val_zero: "be_val bs = 0 \<longleftrightarrow> (\<forall>b \<in> set bs. b = 0)"
  by (induction bs) (auto simp: be_val_Cons be_val_def [of "[]"] unat_eq_0)

lemma draw_scalar_in_range:
  assumes "draw_scalar r = Some res"
  shows "scalar_in_range (fst res) N_P256 \<and> length (fst res) = 32"
proof (rule draw_scalar.raw_induct [OF _ assms, where P = "\<lambda>r res. scalar_in_range (fst res) N_P256 \<and> length (fst res) = 32"], goal_cases)
  case (1 loop r res)
  obtain bs r1 where f: "fill 32 r = (bs, r1)" by fastforce
  have "length bs = 32" using length_fill [of 32 r] f by simp
  with 1(1) [of r1] 1(2) f show ?case by (cases res) (auto split: if_splits)
qed

lemma digit_nibble:
  assumes "nibble a = Ok x"
  shows "a = hex_digit x" and "x < 16"
proof -
  consider "48 \<le> a" "a \<le> 57" "x = a - 48" | "97 \<le> a" "a \<le> 102" "x = a - 97 + 10"
    using assms by (auto simp: nibble_def split: if_splits)
  then have "a = hex_digit x \<and> x < 16"
  proof cases
    case 1
    then have "unat a \<in> {48, 49, 50, 51, 52, 53, 54, 55, 56, 57}" by (simp add: word_le_nat_alt) presburger
    then have "a \<in> {48, 49, 50, 51, 52, 53, 54, 55, 56, 57}" by (auto simp: word_unat_eq_iff)
    then show ?thesis using 1 by (auto simp: hex_digit_def)
  next
    case 2
    then have "unat a \<in> {97, 98, 99, 100, 101, 102}" by (simp add: word_le_nat_alt) presburger
    then have "a \<in> {97, 98, 99, 100, 101, 102}" by (auto simp: word_unat_eq_iff)
    then show ?thesis using 2 by (auto simp: hex_digit_def)
  qed
  then show "a = hex_digit x" and "x < 16" by simp_all
qed

lemma nibbles_byte:
  fixes x y :: u8
  assumes "x < 16" and "y < 16"
  shows "drop_bit 4 (push_bit 4 x OR y) = x" and "(push_bit 4 x OR y) AND 0x0f = y"
proof -
  have bits: "\<not> bit z n" if "z < 16" "4 \<le> n" for z :: u8 and n
  proof -
    have "unat z < 2 ^ 4" using that(1) by (simp add: word_less_nat_alt)
    then have "take_bit 4 z = z" by (simp add: word_unat_eq_iff unsigned_take_bit_eq take_bit_nat_eq_self)
    then show ?thesis using that(2) by (metis bit_take_bit_iff not_less)
  qed
  have m: "(0x0f :: u8) = mask 4" by (simp add: mask_eq_exp_minus_1)
  show "drop_bit 4 (push_bit 4 x OR y) = x"
  proof (rule bit_word_eqI)
    fix n :: nat
    assume "n < LENGTH(8)"
    then show "bit (drop_bit 4 (push_bit 4 x OR y)) n = bit x n"
      using bits [OF assms(2), of "4 + n"] bits [OF assms(1), of n] by (cases "4 \<le> n") (auto simp: bit_simps)
  qed
  show "(push_bit 4 x OR y) AND 0x0f = y" unfolding m
    by (rule bit_word_eqI) (use bits [OF assms(2)] in \<open>auto simp: bit_simps not_le [symmetric]\<close>)
qed

lemma hex_digits_hex_bytes: "hex_bytes s = Ok bs \<Longrightarrow> even (length s) \<Longrightarrow> s = hex_digits bs"
proof (induction s arbitrary: bs rule: hex_bytes.induct)
  case (1 a b rest)
  obtain x y out where xy: "nibble a = Ok x" "nibble b = Ok y" "hex_bytes rest = Ok out"
    "bs = (push_bit 4 x OR y) # out"
    using "1.prems"(1) by (auto split: sum.splits)
  have "rest = hex_digits out" using 1 xy by simp
  then show ?case using xy(4) digit_nibble [OF xy(1)] digit_nibble [OF xy(2)]
    by (simp only: hex_digits_simps nibbles_byte)
qed auto

lemma le_val_replicate_0: "le_val (replicate n 0) = 0"
  by (induction n) simp_all

lemma le_val_update_0:
  "i < n \<Longrightarrow> le_val ((replicate n 0)[i := b]) = unat b * 256 ^ i"
proof (induction i arbitrary: n)
  case 0
  then show ?case by (cases n) (simp_all add: le_val_replicate_0)
next
  case (Suc i)
  then obtain m where "n = Suc m" by (cases n) auto
  with Suc show ?case by simp
qed

lemma unat_single_bit: "k < 8 \<Longrightarrow> unat (push_bit k (1 :: u8)) = 2 ^ k"
  by (simp add: push_bit_eq_mult unat_mult_lem [THEN iffD1] less_Suc_eq numeral_eq_Suc) auto

section \<open>Properties\<close>

text \<open>
  Filling a buffer copies out the generator's successive outputs in little-endian order, eight bytes
  at a time and nothing more; and from no seed, zero included, does the state ever reach zero, where
  xorshift would stay forever.
\<close>

theorem fill_streams_the_generator:
  "fill n (rng_new seed) =
     (take n (concat (map (le_bytes 8) (outputs ((n + 7) div 8) (rng_new seed)))), after ((n + 7) div 8) (rng_new seed))
   \<and> length (fst (fill n (rng_new seed))) = n \<and> after k (rng_new seed) \<noteq> 0"
proof -
  have "rng_new seed \<noteq> 0" by (auto simp: rng_new_def max_def)
  then show ?thesis using fill_stream length_fill after_nonzero by blast
qed

text \<open>
  The hexadecimal reader of the test vectors accepts exactly the strings of \<open>2 N\<close> lower-case digits,
  and reading is the inverse of writing: it returns \<open>bs\<close> exactly on the rendering of the \<open>N\<close> bytes \<open>bs\<close>.
\<close>

theorem hex_reads_the_rendering: "hex N s = Ok bs \<longleftrightarrow> length bs = N \<and> s = hex_digits bs"
proof
  assume h: "hex N s = Ok bs"
  then have l: "length s = N * 2" and b: "hex_bytes s = Ok bs" by (auto simp: hex_def split: if_splits)
  then have "s = hex_digits bs" using hex_digits_hex_bytes by simp
  with l show "length bs = N \<and> s = hex_digits bs" by (simp add: length_hex_digits)
next
  assume "length bs = N \<and> s = hex_digits bs"
  then show "hex N s = Ok bs" by (simp add: hex_def length_hex_digits hex_bytes_hex_digits)
qed

text \<open>
  A corrupted probe of a non-empty buffer has its length, differs from it in exactly one byte, the
  first for one class and the last for the other, and therefore never compares equal to it.
\<close>

theorem corrupted_probe_compares_unequal:
  assumes "expected \<noteq> []"
  shows "\<exists>probe. corrupted expected at_last = Ok probe \<and> length probe = length expected
    \<and> (\<forall>i. i < length expected \<longrightarrow>
          (probe ! i \<noteq> expected ! i \<longleftrightarrow> i = (if at_last then length expected - 1 else 0)))
    \<and> \<not> leaky_equal expected probe"
proof -
  define k where "k = (if at_last then length expected - 1 else 0)"
  define probe where "probe = expected[k := expected ! k XOR 1]"
  have k: "k < length expected" using assms by (auto simp: k_def)
  have ne: "expected ! k XOR 1 \<noteq> expected ! k" using word_xor_left_inj [of "expected ! k" 1 0] by auto
  have p: "probe ! i \<noteq> expected ! i \<longleftrightarrow> i = k" if "i < length expected" for i
    using that k ne by (auto simp: probe_def nth_list_update)
  then have "probe \<noteq> expected" using k by auto
  then have "\<not> leaky_equal expected probe"
    by (simp add: leaky_equal_def probe_def first_difference_iff [of expected])
  then show ?thesis using assms p by (auto simp: corrupted_def Let_def probe_def k_def)
qed

theorem corrupted_probe_compares_unequal_witness:
  "\<exists>probe. corrupted [7, 8, 9] True = Ok probe \<and> length probe = length [7, 8, 9 :: u8]
    \<and> \<not> leaky_equal [7, 8, 9] probe"
  using corrupted_probe_compares_unequal [of "[7, 8, 9]" True] by auto

text \<open>
  The byte-wise range check of a scalar is the numeric one: for big-endian strings of one length,
  a scalar is accepted exactly when its value lies strictly between zero and the group order.
\<close>

theorem scalar_range_is_numeric:
  assumes "length scalar = length order"
  shows "scalar_in_range scalar order \<longleftrightarrow> 0 < be_val scalar \<and> be_val scalar < be_val order"
  using be_val_zero [of scalar] slice_lt_be_val [OF assms] by (auto simp: scalar_in_range_def)

theorem scalar_range_is_numeric_witness:
  "length (replicate 32 (1 :: u8)) = length N_P256
   \<and> (scalar_in_range (replicate 32 1) N_P256
      \<longleftrightarrow> 0 < be_val (replicate 32 1) \<and> be_val (replicate 32 1) < be_val N_P256)"
proof -
  have l: "length (replicate 32 (1 :: u8)) = length N_P256" by (simp add: N_P256_def)
  then show ?thesis using scalar_range_is_numeric [OF l] by simp
qed

text \<open>
  The fixed scalars have one bit: the string of \<open>N\<close> bytes built for bit \<open>b\<close> has the value \<open>2 ^ b\<close> in
  the byte order asked for, for every bit the string has room for.
\<close>

theorem single_bit_scalar_value:
  assumes "b < 8 * N"
  shows "\<exists>s. single_bit_scalar N LE b = Ok s \<and> length s = N \<and> (if LE then le_val s else be_val s) = 2 ^ b"
proof -
  define s where "s = (replicate N (0 :: u8))[(if LE then b div 8 else N - 1 - b div 8) := push_bit (b mod 8) 1]"
  have byte: "b div 8 < N" using assms by simp
  have pow: "unat (push_bit (b mod 8) (1 :: u8)) * 256 ^ (b div 8) = 2 ^ b"
  proof -
    have "(256 :: nat) ^ (b div 8) = 2 ^ (8 * (b div 8))" by (simp add: power_mult)
    then show ?thesis using unat_single_bit [of "b mod 8"] by (simp only: power_add [symmetric]) simp
  qed
  have rev: "rev ((replicate N (0 :: u8))[N - 1 - b div 8 := v]) = (replicate N 0)[b div 8 := v]" for v
    using byte by (subst rev_update) simp_all
  have "(if LE then le_val s else be_val s) = 2 ^ b"
    unfolding s_def be_val_def using byte pow by (cases LE) (simp_all only: rev if_True if_False le_val_update_0)
  moreover have "single_bit_scalar N LE b = Ok s" using byte by (simp add: single_bit_scalar_def s_def Let_def)
  ultimately show ?thesis by (auto simp: s_def)
qed

theorem single_bit_scalar_value_witness:
  "\<exists>s. single_bit_scalar 32 False 128 = Ok s \<and> length s = 32 \<and> be_val s = 2 ^ 128"
  using single_bit_scalar_value [of 128 32 False] by auto

end
