(* ===== verification/Timing_Lab.thy ===== *)
theory Timing_Lab
  imports Timing_Stats Timing_Inputs Keys
begin

text \<open>
  The harness of the timing laboratory (\<^verbatim>\<open>src/timing-lab/src/main.rs\<close>): the interleaved measurement of
  two input classes, the evaluation of the reports, and the surfaces built on this repository's own
  operations: the controls, the QUIC packet keys, header protection and the retry token key. A trial is a function of the
  class and of a state (captured generators and the world the clock lives in); \<open>now\<close> reads the clock
  in nanoseconds and is a parameter, as are the operations of other crates.
\<close>

section \<open>Constants\<close>

definition DEFAULT_SAMPLES :: nat where "DEFAULT_SAMPLES = 2000"

definition WARMUP :: nat where "WARMUP = 32"

definition COMPARE_LEN :: nat where "COMPARE_LEN = 4096"

definition TAG_PROBE_LEN :: nat where "TAG_PROBE_LEN = 64"

definition SEAL_LEN :: nat where "SEAL_LEN = 16 * 1024"

definition TAG_LEN :: nat where "TAG_LEN = 16"

definition TAG_BATCH :: nat where "TAG_BATCH = 16"

definition HP_BATCH :: nat where "HP_BATCH = 32"

definition PACKET_HEADER :: bytes where "PACKET_HEADER = [0x42, 0x00, 0xbf, 0xf4]"

definition PACKET_NUMBER :: u64 where "PACKET_NUMBER = 3"

section \<open>Measurement\<close>

text \<open>
  Why a trial or a rig gives no value: an error, a panic, or a loop that never ends. Nothing after it
  is run.
\<close>

datatype lab_error = Failed string | Panicked string | Diverged

type_synonym 's sampler = "bool \<Rightarrow> 's \<Rightarrow> (u64, lab_error) result \<times> 's"

record report =
  r_name :: string
  r_expect_leak :: bool
  r_samples_per_class :: nat
  r_batch :: nat
  r_max_t :: f64
  r_verdict :: verdict
  r_mean_ns :: f64
  r_sigma_ns :: f64
  r_delta_ns :: f64

fun named :: "string \<Rightarrow> lab_error \<Rightarrow> lab_error" where
  "named name (Failed e) = Failed (name @ '': '' @ e)"
| "named name (Panicked m) = Panicked m"
| "named name Diverged = Diverged"

text \<open>The warm-up loop from \<open>i\<close>, with \<open>k\<close> turns to go.\<close>

fun warm_up :: "string \<Rightarrow> 's sampler \<Rightarrow> nat \<Rightarrow> nat \<Rightarrow> 's \<Rightarrow> (unit, lab_error) result \<times> 's" where
  "warm_up name sample i 0 s = (Ok (), s)"
| "warm_up name sample i (Suc k) s =
     (case sample (i mod 2 = 1) s of
        (Inl e, s) \<Rightarrow> (Err (named name e), s)
      | (Inr _, s) \<Rightarrow> warm_up name sample (Suc i) k s)"

definition schedule :: "nat \<Rightarrow> rng \<Rightarrow> bool list \<times> rng" where
  "schedule samples r = shuffle (replicate samples False @ replicate samples True) r"

fun sampling :: "(real \<Rightarrow> f64) \<Rightarrow> string \<Rightarrow> 's sampler \<Rightarrow> bool list \<Rightarrow> f64 list \<Rightarrow> f64 list \<Rightarrow> 's
    \<Rightarrow> (f64 list \<times> f64 list, lab_error) result \<times> 's" where
  "sampling rnd name sample [] class0 class1 s = (Ok (class0, class1), s)"
| "sampling rnd name sample (c # cs) class0 class1 s =
     (case sample c s of
        (Inl e, s) \<Rightarrow> (Err (named name e), s)
      | (Inr ns, s) \<Rightarrow>
          let x = rnd (of_nat (unat ns))
          in if c then sampling rnd name sample cs class0 (class1 @ [x]) s
             else sampling rnd name sample cs (class0 @ [x]) class1 s)"

definition report_of :: "(real \<Rightarrow> f64) \<Rightarrow> string \<Rightarrow> bool \<Rightarrow> nat \<Rightarrow> nat \<Rightarrow> f64 list \<Rightarrow> f64 list \<Rightarrow> report" where
  "report_of rnd name expect_leak samples batch class0 class1 =
     (let max_t = max_cropped_t rnd class0 class1;
          pooled = accumulate rnd (class0 @ class1);
          acc0 = accumulate rnd class0;
          acc1 = accumulate rnd class1
      in \<lparr>r_name = name, r_expect_leak = expect_leak, r_samples_per_class = samples, r_batch = batch,
          r_max_t = max_t, r_verdict = verdict_of max_t, r_mean_ns = acc_mean pooled,
          r_sigma_ns = f_sqrt rnd (variance rnd pooled),
          r_delta_ns = f_sub rnd (acc_mean acc0) (acc_mean acc1)\<rparr>)"

definition measure_surface :: "(real \<Rightarrow> f64) \<Rightarrow> string \<Rightarrow> bool \<Rightarrow> nat \<Rightarrow> nat \<Rightarrow> rng \<Rightarrow> 's sampler \<Rightarrow> 's
    \<Rightarrow> (report, lab_error) result \<times> rng \<times> 's" where
  "measure_surface rnd name expect_leak samples batch r sample s =
     (case warm_up name sample 0 (WARMUP * 2) s of
        (Inl e, s) \<Rightarrow> (Err e, r, s)
      | (Inr _, s) \<Rightarrow>
          let (sched, r) = schedule samples r
          in case sampling rnd name sample sched [] [] s of
               (Inl e, s) \<Rightarrow> (Err e, r, s)
             | (Inr (class0, class1), s) \<Rightarrow>
                 (Ok (report_of rnd name expect_leak samples batch class0 class1), r, s))"

section \<open>Evaluation\<close>

text \<open>The printed table is not part of the state; the message carries the number of surprises.\<close>

definition as_expected :: "report \<Rightarrow> bool" where
  "as_expected r = (case (r_verdict r, r_expect_leak r) of (Leak, True) \<Rightarrow> True | (Quiet, False) \<Rightarrow> True | _ \<Rightarrow> False)"

fun failures_of :: "report list \<Rightarrow> nat \<Rightarrow> nat" where
  "failures_of [] failures = failures"
| "failures_of (r # rs) failures = failures_of rs (if as_expected r then failures else failures + 1)"

definition evaluate :: "report list \<Rightarrow> (unit, nat) result" where
  "evaluate reports = (let failures = failures_of reports 0 in if failures > 0 then Err failures else Ok ())"

datatype exit_code = SUCCESS | FAILURE

definition lab_main :: "(unit, 'e) result \<Rightarrow> exit_code" where
  "lab_main run = (case run of Inr _ \<Rightarrow> SUCCESS | Inl _ \<Rightarrow> FAILURE)"

section \<open>Surfaces\<close>

text \<open>\<open>elapsed().as_nanos() as u64\<close>: the difference saturates at zero and is cut to 64 bits.\<close>

definition elapsed :: "nat \<Rightarrow> nat \<Rightarrow> u64" where
  "elapsed start t = of_nat (t - start)"

definition flip :: "nat \<Rightarrow> bytes \<Rightarrow> bytes or_panic" where
  "flip index bs = (if index < length bs then Ok (bs[index := bs ! index XOR 0x01]) else Panic ''index out of bounds'')"

text \<open>The two comparison controls differ in the comparison: \<open>leaky_equal\<close> and \<open>subtle\<close>'s \<open>ct_eq\<close>.\<close>

definition control_compare :: "('w \<Rightarrow> nat \<times> 'w) \<Rightarrow> (bytes \<Rightarrow> bytes \<Rightarrow> bool) \<Rightarrow> bytes \<Rightarrow> 'w sampler" where
  "control_compare now eq expected cls w =
     (case corrupted expected cls of
        Inl m \<Rightarrow> (Err (Panicked m), w)
      | Inr probe \<Rightarrow>
          let (start, w) = now w;
              equal = eq expected probe;
              (t, w) = now w
          in if equal then (Err (Failed ''corrupted buffer compared equal''), w) else (Ok (elapsed start t), w))"

fun compare_batch :: "nat \<Rightarrow> bytes \<Rightarrow> bytes \<Rightarrow> (unit, lab_error) result" where
  "compare_batch 0 tag probe = Ok ()"
| "compare_batch (Suc k) tag probe =
     (if leaky_equal tag probe then Err (Failed ''corrupted tag compared equal'') else compare_batch k tag probe)"

definition control_leaky_tag :: "('w \<Rightarrow> nat \<times> 'w) \<Rightarrow> bytes \<Rightarrow> 'w sampler" where
  "control_leaky_tag now tag cls w =
     (case corrupted tag cls of
        Inl m \<Rightarrow> (Err (Panicked m), w)
      | Inr probe \<Rightarrow>
          let (start, w) = now w
          in case compare_batch TAG_BATCH tag probe of
               Inl e \<Rightarrow> (Err e, w)
             | Inr _ \<Rightarrow> let (t, w) = now w in (Ok (elapsed start t), w))"

text \<open>The fixed-versus-random trials draw from a generator of their own before the clock is read.\<close>

definition control_data_work :: "('w \<Rightarrow> nat \<times> 'w) \<Rightarrow> (rng \<times> 'w) sampler" where
  "control_data_work now cls s =
     (let (inputs, w) = s;
          fixed = replicate SEAL_LEN 0;
          (random, inputs) = fill SEAL_LEN inputs;
          data = (if cls then random else fixed);
          (start, w) = now w;
          acc = data_dependent_work data;
          (t, w) = now w
      in (Ok (elapsed start t), inputs, w))"

text \<open>
  Packet keys. rustls derives the initial keys of a connection identifier for each side; they and the
  header protection of a key are parameters.
\<close>

datatype side = Client_Side | Server_Side

record ('c, 'h) dir_keys =
  dk_packet :: "'c packet_key"
  dk_header :: 'h

record ('c, 'h) quic_keys =
  qk_local :: "('c, 'h) dir_keys"
  qk_remote :: "('c, 'h) dir_keys"

record ('c, 'h) quic_env =
  qe_aead :: "'c aead_ops"
  qe_nonces :: nonce_ops
  qe_keys :: "bytes \<Rightarrow> side \<Rightarrow> ('c, 'h) quic_keys"
  qe_hp_encrypt :: "'h \<Rightarrow> bytes \<Rightarrow> u8 \<Rightarrow> bytes \<Rightarrow> (unit, tls_error) result \<times> u8 \<times> bytes"
  qe_show :: "tls_error \<Rightarrow> string"

record ('c, 'h) rig_keys =
  pr_seal :: "('c, 'h) quic_keys"
  pr_open :: "('c, 'h) quic_keys"
  pr_template :: bytes

definition seal_packet :: "('c, 'h) quic_env \<Rightarrow> ('c, 'h) quic_keys \<Rightarrow> bytes \<Rightarrow> (bytes, tls_error) result \<times> bytes" where
  "seal_packet E keys payload =
     encrypt_in_place (qe_aead E) (qe_nonces E) (dk_packet (qk_local keys)) PACKET_NUMBER PACKET_HEADER payload"

definition open_packet :: "('c, 'h) quic_env \<Rightarrow> ('c, 'h) quic_keys \<Rightarrow> bytes \<Rightarrow> (bytes, tls_error) result \<times> bytes" where
  "open_packet E keys payload =
     decrypt_in_place (qe_aead E) (qe_nonces E) (dk_packet (qk_remote keys)) PACKET_NUMBER PACKET_HEADER payload"

definition packet_rig :: "('c, 'h) quic_env \<Rightarrow> rng \<Rightarrow> (('c, 'h) rig_keys, lab_error) result \<times> rng" where
  "packet_rig E r =
     (let (cid, r) = fill 8 r;
          seal = qe_keys E cid Client_Side;
          opener = qe_keys E cid Server_Side;
          (plain, r) = fill TAG_PROBE_LEN r
      in case seal_packet E seal plain of
           (Inl e, _) \<Rightarrow> (Err (Failed (''packet rig seal: '' @ qe_show E e)), r)
         | (Inr tag, payload) \<Rightarrow>
             let template = payload @ tag
             in case open_packet E opener template of
                  (Inl e, _) \<Rightarrow> (Err (Failed (''packet rig roundtrip: '' @ qe_show E e)), r)
                | (Inr text, _) \<Rightarrow>
                    if text \<noteq> plain then (Err (Failed ''packet rig roundtrip produced wrong plaintext''), r)
                    else case flip TAG_PROBE_LEN template of
                      Inl m \<Rightarrow> (Err (Panicked m), r)
                    | Inr snapshot \<Rightarrow>
                        (case open_packet E opener snapshot of
                           (Inr _, _) \<Rightarrow> (Err (Failed ''packet rig accepted a corrupted packet''), r)
                         | (Inl _, bad) \<Rightarrow>
                             if bad \<noteq> snapshot
                             then (Err (Failed ''packet opener modified the buffer on failure''), r)
                             else (Ok \<lparr>pr_seal = seal, pr_open = opener, pr_template = template\<rparr>, r)))"

text \<open>The batch of an open-reject trial: the probe is reused, as the opening left it.\<close>

fun reject_batch :: "nat \<Rightarrow> (bytes \<Rightarrow> (bool \<times> bytes) or_panic) \<Rightarrow> string \<Rightarrow> bytes \<Rightarrow> (bytes, lab_error) result" where
  "reject_batch 0 opener msg probe = Ok probe"
| "reject_batch (Suc k) opener msg probe =
     (case opener probe of
        Inl m \<Rightarrow> Err (Panicked m)
      | Inr (accepted, probe) \<Rightarrow> if accepted then Err (Failed msg) else reject_batch k opener msg probe)"

definition reject_trial :: "('w \<Rightarrow> nat \<times> 'w) \<Rightarrow> (bytes \<Rightarrow> (bool \<times> bytes) or_panic) \<Rightarrow> string \<Rightarrow> bytes \<Rightarrow> nat
    \<Rightarrow> 'w \<Rightarrow> (u64, lab_error) result \<times> 'w" where
  "reject_trial now opener msg template index w =
     (case flip index template of
        Inl m \<Rightarrow> (Err (Panicked m), w)
      | Inr probe \<Rightarrow>
          let (start, w) = now w
          in case reject_batch TAG_BATCH opener msg probe of
               Inl e \<Rightarrow> (Err e, w)
             | Inr _ \<Rightarrow> let (t, w) = now w in (Ok (elapsed start t), w))"

definition packet_open_reject :: "('w \<Rightarrow> nat \<times> 'w) \<Rightarrow> ('c, 'h) quic_env \<Rightarrow> ('c, 'h) rig_keys \<Rightarrow> 'w sampler" where
  "packet_open_reject now E rig cls w =
     reject_trial now (\<lambda>probe. case open_packet E (pr_open rig) probe of (res, probe) \<Rightarrow> Ok (is_ok res, probe))
       ''corrupted packet accepted'' (pr_template rig)
       (if cls then TAG_PROBE_LEN + TAG_LEN - 1 else TAG_PROBE_LEN) w"

definition packet_seal :: "('w \<Rightarrow> nat \<times> 'w) \<Rightarrow> ('c, 'h) quic_env \<Rightarrow> ('c, 'h) rig_keys \<Rightarrow> bytes \<Rightarrow> (rng \<times> 'w) sampler" where
  "packet_seal now E rig fixed cls s =
     (let (inputs, w) = s;
          (random, inputs) = fill SEAL_LEN inputs;
          work = (if cls then random else fixed);
          (start, w) = now w
      in case seal_packet E (pr_seal rig) work of
           (Inl e, _) \<Rightarrow> (Err (Failed (''seal: '' @ qe_show E e)), inputs, w)
         | (Inr tag, _) \<Rightarrow> let (t, w) = now w in (Ok (elapsed start t), inputs, w))"

fun mask_batch :: "nat \<Rightarrow> ('c, 'h) quic_env \<Rightarrow> 'h \<Rightarrow> bytes \<Rightarrow> (unit, lab_error) result" where
  "mask_batch 0 E hp sample = Ok ()"
| "mask_batch (Suc k) E hp sample =
     (case qe_hp_encrypt E hp sample 0x43 [0x00, 0x01, 0x02, 0x03] of
        (Inl e, _) \<Rightarrow> Err (Failed (''hp mask: '' @ qe_show E e))
      | (Inr _, _) \<Rightarrow> mask_batch k E hp sample)"

definition packet_hp_mask :: "('w \<Rightarrow> nat \<times> 'w) \<Rightarrow> ('c, 'h) quic_env \<Rightarrow> ('c, 'h) rig_keys \<Rightarrow> bytes \<Rightarrow> (rng \<times> 'w) sampler" where
  "packet_hp_mask now E rig fixed_sample cls s =
     (let (inputs, w) = s;
          (random_sample, inputs) = fill 16 inputs;
          (start, w) = now w
      in case mask_batch HP_BATCH E (dk_header (qk_local (pr_seal rig))) (if cls then random_sample else fixed_sample) of
           Inl e \<Rightarrow> (Err e, inputs, w)
         | Inr _ \<Rightarrow> let (t, w) = now w in (Ok (elapsed start t), inputs, w))"

text \<open>The retry token key.\<close>

definition TOKEN_NONCE :: u128 where "TOKEN_NONCE = 0x746c7331335f74696d696e67"

definition token_rig :: "('h, 'c) token_prims \<Rightarrow> bytes \<Rightarrow> rng \<Rightarrow> ('h \<times> bytes, lab_error) result \<times> rng" where
  "token_rig T master r =
     (let token_key = token_key_new T master;
          (plain, r) = fill TAG_PROBE_LEN r
      in case token_seal T token_key TOKEN_NONCE plain of
           Inl m \<Rightarrow> (Err (Panicked m), r)
         | Inr (Inl _, _) \<Rightarrow> (Err (Failed ''token seal failed''), r)
         | Inr (Inr _, template) \<Rightarrow>
             (case token_open T token_key TOKEN_NONCE template of
                Inl m \<Rightarrow> (Err (Panicked m), r)
              | Inr (Inl _, _) \<Rightarrow> (Err (Failed ''token roundtrip failed''), r)
              | Inr (Inr text, _) \<Rightarrow>
                  if text \<noteq> plain then (Err (Failed ''token roundtrip produced wrong plaintext''), r)
                  else if length template < TAG_LEN then (Err (Panicked ''attempt to subtract with overflow''), r)
                  else case flip (length template - TAG_LEN) template of
                    Inl m \<Rightarrow> (Err (Panicked m), r)
                  | Inr snapshot \<Rightarrow>
                      (case token_open T token_key TOKEN_NONCE snapshot of
                         Inl m \<Rightarrow> (Err (Panicked m), r)
                       | Inr (Inr _, _) \<Rightarrow> (Err (Failed ''token rig accepted a corrupted token''), r)
                       | Inr (Inl _, bad) \<Rightarrow>
                           if bad \<noteq> snapshot then (Err (Failed ''token opener modified the buffer on failure''), r)
                           else (Ok (token_key, template), r))))"

definition token_open_reject :: "('w \<Rightarrow> nat \<times> 'w) \<Rightarrow> ('h, 'c) token_prims \<Rightarrow> 'h \<Rightarrow> bytes \<Rightarrow> 'w sampler" where
  "token_open_reject now T token_key template cls w =
     reject_trial now
       (\<lambda>probe. case token_open T token_key TOKEN_NONCE probe of
                  Inl m \<Rightarrow> Panic m | Inr (res, probe) \<Rightarrow> Ok (is_ok res, probe))
       ''corrupted token accepted'' template
       (let tag_at = length template - TAG_LEN in if cls then tag_at + TAG_LEN - 1 else tag_at) w"

section \<open>Laws of the measurement\<close>

text \<open>
  The specification: run the trials of a list of classes one after the other, up to and including the
  first that fails; the times of those that did not, and the failure.
\<close>

fun trials :: "'s sampler \<Rightarrow> bool list \<Rightarrow> 's \<Rightarrow> u64 list \<times> lab_error option \<times> 's" where
  "trials sample [] s = ([], None, s)"
| "trials sample (c # cs) s =
     (case sample c s of
        (Inl e, s) \<Rightarrow> ([], Some e, s)
      | (Inr ns, s) \<Rightarrow> (case trials sample cs s of (ts, e, s) \<Rightarrow> (ns # ts, e, s)))"

definition warm_up_classes :: "bool list" where
  "warm_up_classes = concat (replicate WARMUP [False, True])"

definition times_of :: "(real \<Rightarrow> f64) \<Rightarrow> bool \<Rightarrow> bool list \<Rightarrow> u64 list \<Rightarrow> f64 list" where
  "times_of rnd c sched ts = [rnd (of_nat (unat ns)). (c', ns) \<leftarrow> zip sched ts, c' = c]"

lemma length_trials: "trials sample cs s = (ts, None, s') \<Longrightarrow> length ts = length cs"
  by (induction cs arbitrary: s ts) (auto split: prod.splits sum.splits)

lemma trials_append:
  "trials sample (cs @ ds) s =
     (case trials sample cs s of
        (ts, Some e, s) \<Rightarrow> (ts, Some e, s)
      | (ts, None, s) \<Rightarrow> (case trials sample ds s of (ts', e, s) \<Rightarrow> (ts @ ts', e, s)))"
  by (induction cs arbitrary: s) (auto split: prod.splits sum.splits option.splits)

lemma warm_up_trials:
  "warm_up name sample i k s =
     (case trials sample (map (\<lambda>j. j mod 2 = 1) [i ..< i + k]) s of
        (ts, Some e, s) \<Rightarrow> (Err (named name e), s)
      | (ts, None, s) \<Rightarrow> (Ok (), s))"
proof (induction k arbitrary: i s)
  case (Suc k)
  have u: "[i ..< i + Suc k] = i # [Suc i ..< Suc i + k]" by (simp add: upt_conv_Cons)
  show ?case unfolding u using Suc.IH [of "Suc i"] by (simp split: prod.splits sum.splits option.splits)
qed simp

lemma alternating: "map (\<lambda>j. j mod 2 = 1) [0 ..< n * 2] = concat (replicate n [False, True])"
proof (induction n)
  case (Suc n)
  have "concat (replicate (Suc n) [False, True]) = concat (replicate n [False, True]) @ [False, True]"
    by (induction n) simp_all
  moreover have "[0 ..< Suc n * 2] = [0 ..< n * 2] @ [n * 2, Suc (n * 2)]" by simp
  ultimately show ?case using Suc by simp presburger
qed simp

lemma sampling_trials:
  "sampling rnd name sample cs class0 class1 s =
     (case trials sample cs s of
        (ts, Some e, s) \<Rightarrow> (Err (named name e), s)
      | (ts, None, s) \<Rightarrow> (Ok (class0 @ times_of rnd False cs ts, class1 @ times_of rnd True cs ts), s))"
  by (induction cs arbitrary: class0 class1 s)
    (auto simp: Let_def times_of_def split: prod.splits sum.splits option.splits)

lemma schedule_balanced:
  "mset (fst (schedule n r)) = replicate_mset n False + replicate_mset n True"
  by (simp add: schedule_def shuffle_mset)

lemma length_schedule: "length (fst (schedule n r)) = n * 2"
proof -
  have "size (mset (fst (schedule n r))) = n * 2" unfolding schedule_balanced by simp
  then show ?thesis by simp
qed

lemma length_times_of:
  "length ts = length sched \<Longrightarrow> length (times_of rnd c sched ts) = count (mset sched) c"
proof (induction ts sched rule: list_induct2)
  case (Cons ns ts c' sched)
  then show ?case by (simp add: times_of_def)
qed (simp add: times_of_def)

lemma as_expected_iff: "as_expected r \<longleftrightarrow> r_verdict r = (if r_expect_leak r then Leak else Quiet)"
  by (auto simp: as_expected_def split: verdict.splits bool.splits)

lemma failures_of_count: "failures_of rs k = k + length (filter (\<lambda>r. \<not> as_expected r) rs)"
  by (induction rs arbitrary: k) simp_all

lemma lab_evaluation: "evaluate reports = Ok () \<longleftrightarrow> list_all (\<lambda>r. r_verdict r = (if r_expect_leak r then Leak else Quiet)) reports"
  by (auto simp: evaluate_def failures_of_count as_expected_iff Let_def filter_empty_conv list_all_iff)

text \<open>
  A run of trials from a state with an invariant: every failure is one of the trials' own.
\<close>

lemma trials_outcome:
  assumes keep: "\<And>cls s. I s \<Longrightarrow> I (snd (sample cls s)) \<and> Q (fst (sample cls s))"
    and "I s" and "trials sample cs s = (ts, e, s')"
  shows "I s' \<and> (case e of None \<Rightarrow> True | Some x \<Rightarrow> Q (Err x))"
  using assms(2,3)
proof (induction cs arbitrary: s ts e s')
  case (Cons c cs)
  obtain x s1 where x: "sample c s = (x, s1)" by fastforce
  have k: "I s1" "Q x" using keep [OF Cons.prems(1), of c] x by simp_all
  show ?case
  proof (cases x)
    case (Inr ns)
    obtain ts' e' s2 where t: "trials sample cs s1 = (ts', e', s2)" by (metis prod_cases3)
    then show ?thesis using Cons.IH [OF k(1) t] Cons.prems(2) x Inr by simp
  qed (use Cons.prems(2) x k in auto)
qed simp

lemma measure_outcome:
  assumes keep: "\<And>cls s. I s \<Longrightarrow> I (snd (sample cls s)) \<and> Q (fst (sample cls s))"
    and "I s" and m: "measure_surface rnd name expect_leak samples batch r sample s = (res, r', s')"
  shows "I s'" and "r' = r \<or> r' = snd (schedule samples r)"
    and "res = Err x \<Longrightarrow> \<exists>e. x = named name e \<and> Q (Err e)"
    and "res = Ok rep \<Longrightarrow> r_name rep = name \<and> r_expect_leak rep = expect_leak \<and>
      r_samples_per_class rep = samples \<and> r_batch rep = batch"
proof -
  obtain ts e s1 where w: "trials sample (map (\<lambda>j. j mod 2 = 1) [0 ..< 0 + WARMUP * 2]) s = (ts, e, s1)"
    by (metis prod_cases3)
  obtain sched r1 where sc: "schedule samples r = (sched, r1)" by fastforce
  obtain ts2 e2 s2 where t: "trials sample sched s1 = (ts2, e2, s2)" by (metis prod_cases3)
  note o1 = trials_outcome [where I = I and Q = Q, OF keep \<open>I s\<close> w]
  note o2 = trials_outcome [where I = I and Q = Q, OF keep conjunct1 [OF o1] t]
  have "I s' \<and> (r' = r \<or> r' = snd (schedule samples r)) \<and> (\<forall>x. res = Err x \<longrightarrow> (\<exists>e. x = named name e \<and> Q (Err e))) \<and>
    (\<forall>rep. res = Ok rep \<longrightarrow> r_name rep = name \<and> r_expect_leak rep = expect_leak \<and>
      r_samples_per_class rep = samples \<and> r_batch rep = batch)"
    using m w sc t o1 o2
    by (cases e; cases e2) (auto simp: measure_surface_def warm_up_trials sampling_trials report_of_def Let_def)
  then show "I s'" and "r' = r \<or> r' = snd (schedule samples r)"
    and "res = Err x \<Longrightarrow> \<exists>e. x = named name e \<and> Q (Err e)"
    and "res = Ok rep \<Longrightarrow> r_name rep = name \<and> r_expect_leak rep = expect_leak \<and>
      r_samples_per_class rep = samples \<and> r_batch rep = batch" by blast+
qed

lemma measure_total_from:
  assumes "\<And>cls s. I s \<Longrightarrow> I (snd (sample cls s)) \<and> is_ok (fst (sample cls s))" and "I s"
  shows "\<exists>rep r' s'. measure_surface rnd name expect_leak samples batch r sample s = (Ok rep, r', s')"
proof -
  obtain res r' s' where m: "measure_surface rnd name expect_leak samples batch r sample s = (res, r', s')"
    by (metis prod_cases3)
  show ?thesis using measure_outcome(3) [where I = I and Q = is_ok, OF assms m] m by (cases res) auto
qed

lemma measure_total:
  assumes "\<And>cls s. \<exists>ns s'. sample cls s = (Ok ns, s')"
  shows "\<exists>rep r' s'. measure_surface rnd name expect_leak samples batch r sample s = (Ok rep, r', s')"
proof (rule measure_total_from [where I = "\<lambda>_. True"])
  fix cls s
  obtain ns s' where "sample cls s = (Ok ns, s')" using assms by blast
  then show "True \<and> is_ok (fst (sample cls s))" by simp
qed simp

section \<open>Openers that check the tag\<close>

text \<open>
  An AEAD is strict if it refuses every tag but the one it computed, before it touches the buffer.
\<close>

definition aead_strict :: "'c aead_ops \<Rightarrow> bool" where
  "aead_strict A \<longleftrightarrow> (\<forall>c n a p q t t'. encrypt_inout_detached A c n a p = (q, Some t) \<longrightarrow>
     length t' = 16 \<longrightarrow> t' \<noteq> t \<longrightarrow> decrypt_inout_detached A c n a q t' = (q, False))"

text \<open>
  What the open-reject surfaces rely on: a template made by a rig, with any byte of its tag flipped,
  is refused and the buffer stays as it was.
\<close>

locale tag_checked =
  fixes ok :: "'env \<Rightarrow> bool"
    and made :: "'env \<Rightarrow> bytes \<Rightarrow> bool"
    and opener :: "'env \<Rightarrow> bytes \<Rightarrow> (bool \<times> bytes) or_panic"
    and len :: nat
  assumes made_length: "ok E \<Longrightarrow> made E template \<Longrightarrow> length template = len"
    and refuses: "ok E \<Longrightarrow> made E template \<Longrightarrow> length template - TAG_LEN \<le> i \<Longrightarrow>
      flip i template = Ok probe \<Longrightarrow> opener E probe = Ok (False, probe)"
begin

lemma batch_keeps_probe:
  assumes "ok E" and "made E template" and "length template - TAG_LEN \<le> i" and "flip i template = Ok probe"
  shows "reject_batch k (opener E) msg probe = Ok probe"
  using refuses [OF assms] by (induction k) simp_all

lemma trial_ok:
  assumes "ok E" and "made E template" and "length template - TAG_LEN \<le> i" and "i < length template"
  shows "\<exists>ns w'. reject_trial now (opener E) msg template i w = (Ok ns, w')"
proof -
  obtain probe where p: "flip i template = Ok probe" using assms(4) by (simp add: flip_def)
  then show ?thesis using batch_keeps_probe [OF assms(1-3) p]
    by (simp add: reject_trial_def Let_def split: prod.splits)
qed

lemma surface_measures:
  assumes "ok E" and "made E template"
    and "\<And>cls w. \<exists>i. sample cls w = reject_trial now (opener E) msg template i w \<and>
      length template - TAG_LEN \<le> i \<and> i < length template"
  shows "\<exists>rep r' w'. measure_surface rnd name expect_leak samples batch r sample w = (Ok rep, r', w')"
proof (rule measure_total)
  fix cls w
  obtain i where "sample cls w = reject_trial now (opener E) msg template i w"
    "length template - TAG_LEN \<le> i" "i < length template" using assms(3) by blast
  then show "\<exists>ns s'. sample cls w = (Ok ns, s')" using trial_ok [OF assms(1,2)] by fastforce
qed

end

lemma flip_tag:
  assumes "flip i (q @ t) = Ok probe" and "length q \<le> i"
  obtains t' where "probe = q @ t'" and "length t' = length t" and "t' \<noteq> t"
proof -
  define j where "j = i - length q"
  have i: "i = length q + j" "j < length t" using assms by (auto simp: j_def flip_def split: if_splits)
  have "t ! j XOR 1 \<noteq> t ! j" using word_xor_left_inj [of "t ! j" 1 0] by auto
  then have "t[j := t ! j XOR 1] \<noteq> t" using i(2) by (metis nth_list_update_eq)
  moreover have "probe = q @ t[j := t ! j XOR 1]" using assms(1) i by (auto simp: flip_def nth_append list_update_append split: if_splits)
  ultimately show thesis using that by auto
qed

lemma open_with_flipped:
  assumes "aead_ok A" and "aead_strict A" and "seal_with A k n h p = (Ok t, q)"
    and "flip i (q @ t) = Ok probe" and "length q \<le> i"
  shows "open_with A k n h probe = (Err DecryptError, probe)"
proof -
  have e: "encrypt_inout_detached A (cipher k) n h p = (q, Some t)"
    using assms(3) by (auto simp: seal_with_def split: prod.splits option.splits)
  obtain t' where t': "probe = q @ t'" "length t' = length t" "t' \<noteq> t" using flip_tag [OF assms(4,5)] by blast
  have l: "length t = 16" using assms(1) e by (simp add: aead_ok_def)
  then have "decrypt_inout_detached A (cipher k) n h q t' = (q, False)"
    using assms(2) e t' unfolding aead_strict_def by metis
  then show ?thesis using t' l by (simp add: open_with_def Let_def)
qed

text \<open>The QUIC packet keys: what one side seals with, the other opens with.\<close>

definition quic_env_ok :: "('c, 'h) quic_env \<Rightarrow> bool" where
  "quic_env_ok E \<longleftrightarrow> aead_ok (qe_aead E) \<and> aead_strict (qe_aead E) \<and>
     (\<forall>cid. dk_packet (qk_remote (qe_keys E cid Server_Side)) = dk_packet (qk_local (qe_keys E cid Client_Side)))"

lemma packet_rig_made:
  assumes E: "quic_env_ok E" and "packet_rig E r = (Ok rig, r')"
  obtains p q t where "seal_packet E (pr_seal rig) p = (Ok t, q)" and "pr_template rig = q @ t"
    and "length p = TAG_PROBE_LEN" and "length q = TAG_PROBE_LEN" and "length t = TAG_LEN"
    and "dk_packet (qk_remote (pr_open rig)) = dk_packet (qk_local (pr_seal rig))"
proof -
  obtain cid r1 where c: "fill 8 r = (cid, r1)" by fastforce
  obtain p r2 where p: "fill TAG_PROBE_LEN r1 = (p, r2)" by fastforce
  have lp: "length p = TAG_PROBE_LEN" using length_fill [of TAG_PROBE_LEN r1] p by simp
  obtain t q where s: "seal_packet E (qe_keys E cid Client_Side) p = (Ok t, q)"
    and rig: "pr_seal rig = qe_keys E cid Client_Side" "pr_open rig = qe_keys E cid Server_Side" "pr_template rig = q @ t"
    using assms(2) c p by (auto simp: packet_rig_def Let_def split: prod.splits sum.splits if_splits)
  have "encrypt_inout_detached (qe_aead E) (cipher (dk_packet (qk_local (qe_keys E cid Client_Side))))
      (nonce_new (qe_nonces E) (iv (dk_packet (qk_local (qe_keys E cid Client_Side)))) PACKET_NUMBER) PACKET_HEADER p = (q, Some t)"
    using s by (auto simp: seal_packet_def encrypt_in_place_def seal_with_def split: prod.splits option.splits)
  then have "length q = length p" "length t = 16" using E by (auto simp: quic_env_ok_def aead_ok_def)
  then show thesis using that [of p t q] s rig lp E by (simp add: quic_env_ok_def TAG_LEN_def)
qed

interpretation packet_opener: tag_checked "\<lambda>(E, rig). quic_env_ok E"
  "\<lambda>(E, rig) template. (\<exists>r r'. packet_rig E r = (Ok rig, r')) \<and> template = pr_template rig"
  "\<lambda>(E, rig) probe. case open_packet E (pr_open rig) probe of (res, probe) \<Rightarrow> Ok (is_ok res, probe)"
  "TAG_PROBE_LEN + TAG_LEN"
proof (unfold_locales, goal_cases)
  case (1 X template)
  then obtain E rig r r' where X: "X = (E, rig)" "quic_env_ok E" "packet_rig E r = (Ok rig, r')"
    "template = pr_template rig" by (cases X) auto
  then show ?case using packet_rig_made [OF X(2,3)] by (metis length_append)
next
  case (2 X template i probe)
  then obtain E rig r r' where X: "X = (E, rig)" "quic_env_ok E" "packet_rig E r = (Ok rig, r')"
    "template = pr_template rig" by (cases X) auto
  obtain p q t where s: "seal_packet E (pr_seal rig) p = (Ok t, q)" "pr_template rig = q @ t"
    "length q = TAG_PROBE_LEN" "length t = TAG_LEN"
    "dk_packet (qk_remote (pr_open rig)) = dk_packet (qk_local (pr_seal rig))"
    using packet_rig_made [OF X(2,3)] by metis
  have "open_packet E (pr_open rig) probe = (Err DecryptError, probe)"
    unfolding open_packet_def decrypt_in_place_def s(5)
    by (rule open_with_flipped [of _ _ _ _ p t q i])
      (use X(2) s 2(3,4) X(4) in \<open>simp_all add: quic_env_ok_def seal_packet_def encrypt_in_place_def\<close>)
  then show ?case by (simp add: X(1) is_ok_def)
qed

definition token_env_ok :: "('h, 'c) token_prims \<Rightarrow> bool" where
  "token_env_ok T \<longleftrightarrow> token_prims_ok T \<and> aead_strict (token_aead T)"

lemma token_open_flipped:
  assumes T: "token_env_ok T" and s: "token_seal T k n p = Ok (Ok (), w)"
    and f: "flip i w = Ok probe" and i: "length w - TAG_LEN \<le> i"
  shows "token_open T k n probe = Ok (Err CryptoError, probe)"
proof -
  have T': "token_prims_ok T" "aead_ok (token_aead T)" "aead_strict (token_aead T)"
    using T by (auto simp: token_env_ok_def token_prims_ok_def)
  obtain c where c: "derive_aead T k n = Ok c" using derive_aead_total [OF T'(1)] by blast
  with s have "aead_encrypt_in_place T c ZERO_NONCE [] p = (w, True)"
    by (auto simp: token_seal_def split: prod.splits bool.splits)
  then obtain q t where e: "encrypt_inout_detached (token_aead T) c ZERO_NONCE [] p = (q, Some t)"
    and w: "w = q @ t" using T'(1) unfolding token_prims_ok_def by blast
  have l: "length t = 16" using T'(2) e by (simp add: aead_ok_def)
  then have "length q \<le> i" using i w by (simp add: TAG_LEN_def)
  then obtain t' where t': "probe = q @ t'" "length t' = length t" "t' \<noteq> t" using flip_tag f w by metis
  then have "decrypt_inout_detached (token_aead T) c ZERO_NONCE [] q t' = (q, False)"
    using T'(3) e l unfolding aead_strict_def by metis
  then show ?thesis using t' l c by (simp add: token_open_def Let_def)
qed

lemma token_rig_made:
  assumes "token_rig T master r = (Ok (k, template), r')"
  obtains p where "token_seal T k TOKEN_NONCE p = Ok (Ok (), template)" and "length p = TAG_PROBE_LEN"
proof -
  obtain p r1 where p: "fill TAG_PROBE_LEN r = (p, r1)" by fastforce
  have "length p = TAG_PROBE_LEN" using length_fill [of TAG_PROBE_LEN r] p by simp
  moreover have "token_seal T k TOKEN_NONCE p = Ok (Ok (), template)"
    using assms p by (auto simp: token_rig_def Let_def split: prod.splits sum.splits if_splits)
  ultimately show thesis using that by blast
qed

interpretation token_opener: tag_checked "\<lambda>(T, k). token_env_ok T"
  "\<lambda>(T, k) template. \<exists>master r r'. token_rig T master r = (Ok (k, template), r')"
  "\<lambda>(T, k) probe. case token_open T k TOKEN_NONCE probe of Inl m \<Rightarrow> Panic m | Inr (res, probe) \<Rightarrow> Ok (is_ok res, probe)"
  "TAG_PROBE_LEN + TAG_LEN"
proof (unfold_locales, goal_cases)
  case (1 X template)
  then obtain T k master r r' where X: "X = (T, k)" "token_env_ok T" "token_rig T master r = (Ok (k, template), r')"
    by (cases X) auto
  obtain p where "token_seal T k TOKEN_NONCE p = Ok (Ok (), template)" "length p = TAG_PROBE_LEN"
    using token_rig_made [OF X(3)] by blast
  then show ?case using token_open_seal [of T k TOKEN_NONCE p template] X(2) by (simp add: token_env_ok_def TAG_LEN_def)
next
  case (2 X template i probe)
  then obtain T k master r r' where X: "X = (T, k)" "token_env_ok T" "token_rig T master r = (Ok (k, template), r')"
    by (cases X) auto
  obtain p where "token_seal T k TOKEN_NONCE p = Ok (Ok (), template)" using token_rig_made [OF X(3)] by blast
  then show ?case using token_open_flipped [OF X(2) _ 2(4,3)] by (simp add: X(1) is_ok_def)
qed

text \<open>A rig's checks pass when sealing works.\<close>

lemma packet_rig_total:
  assumes E: "quic_env_ok E" and seals: "\<And>c n a p. \<exists>q t. encrypt_inout_detached (qe_aead E) c n a p = (q, Some t)"
  shows "\<exists>rig r'. packet_rig E r = (Ok rig, r')"
proof -
  obtain cid r1 where c: "fill 8 r = (cid, r1)" by fastforce
  obtain p r2 where p: "fill TAG_PROBE_LEN r1 = (p, r2)" by fastforce
  have lp: "length p = TAG_PROBE_LEN" using length_fill [of TAG_PROBE_LEN r1] p by simp
  let ?ks = "qe_keys E cid Client_Side" and ?ko = "qe_keys E cid Server_Side"
  have same: "dk_packet (qk_remote ?ko) = dk_packet (qk_local ?ks)" using E by (simp add: quic_env_ok_def)
  have "\<exists>t q. seal_with A k n h p = (Ok t, q)" if "\<exists>q t. encrypt_inout_detached A (cipher k) n h p = (q, Some t)" for A k n h
    using that by (auto simp: seal_with_def)
  then obtain t q where s': "seal_with (qe_aead E) (dk_packet (qk_local ?ks))
      (nonce_new (qe_nonces E) (iv (dk_packet (qk_local ?ks))) PACKET_NUMBER) PACKET_HEADER p = (Ok t, q)"
    using seals by metis
  then have s: "seal_packet E ?ks p = (Ok t, q)" by (simp add: seal_packet_def encrypt_in_place_def)
  have A: "aead_ok (qe_aead E)" "aead_strict (qe_aead E)" using E by (simp_all add: quic_env_ok_def)
  have w: "wire (encrypt_in_place (qe_aead E) (qe_nonces E) (dk_packet (qk_local ?ks)) PACKET_NUMBER PACKET_HEADER p) = Some (q @ t)"
    using s by (simp add: seal_packet_def wire_def)
  have o: "opened (open_packet E ?ko (q @ t)) = Some p" and len: "length (q @ t) = length p + 16"
    using plain.unseal_seal [of "(qe_aead E, qe_nonces E)", simplified, OF A(1) w]
      plain.seal_length [of "(qe_aead E, qe_nonces E)", simplified, OF A(1) w] by (simp_all add: open_packet_def same)
  obtain buf where ob: "open_packet E ?ko (q @ t) = (Ok p, buf)"
    using o by (cases "open_packet E ?ko (q @ t)") (auto simp: opened_def split: sum.splits)
  obtain probe where f: "flip TAG_PROBE_LEN (q @ t) = Ok probe" using len lp by (simp add: flip_def)
  have "length q \<le> TAG_PROBE_LEN" using len lp A(1) s' by (auto simp: seal_with_def aead_ok_def split: prod.splits option.splits)
  then have "open_packet E ?ko probe = (Err DecryptError, probe)"
    using open_with_flipped [OF A s' f] by (simp add: open_packet_def decrypt_in_place_def same)
  then show ?thesis using c p s ob f by (simp add: packet_rig_def Let_def)
qed

lemma token_rig_total:
  assumes T: "token_env_ok T" and seals: "\<And>c n a p. \<exists>q. aead_encrypt_in_place T c n a p = (q, True)"
  shows "\<exists>k template r'. token_rig T master r = (Ok (k, template), r')"
proof -
  obtain p r1 where p: "fill TAG_PROBE_LEN r = (p, r1)" by fastforce
  have lp: "length p = TAG_PROBE_LEN" using length_fill [of TAG_PROBE_LEN r] p by simp
  let ?k = "token_key_new T master"
  have T': "token_prims_ok T" using T by (simp add: token_env_ok_def)
  obtain c where c: "derive_aead T ?k TOKEN_NONCE = Ok c" using derive_aead_total [OF T'] by blast
  obtain w where "aead_encrypt_in_place T c ZERO_NONCE [] p = (w, True)" using seals by blast
  then have s: "token_seal T ?k TOKEN_NONCE p = Ok (Ok (), w)" using c by (simp add: token_seal_def)
  have o: "token_open T ?k TOKEN_NONCE w = Ok (Ok p, p @ drop (length p) w)" "length w = length p + 16"
    using token_open_seal [OF T' s] by simp_all
  obtain probe where f: "flip (length w - TAG_LEN) w = Ok probe" using o(2) lp by (simp add: flip_def TAG_LEN_def)
  have "token_open T ?k TOKEN_NONCE probe = Ok (Err CryptoError, probe)" by (rule token_open_flipped [OF T s f order_refl])
  then show ?thesis using p s o f by (simp add: token_rig_def Let_def TAG_LEN_def)
qed

section \<open>Concrete keys\<close>

definition demo_quic_env :: "(u8, unit) quic_env" where
  "demo_quic_env = \<lparr>qe_aead = demo_aead\<lparr>decrypt_inout_detached :=
        (\<lambda>k n a c t. if t = replicate 16 k then (map (\<lambda>b. b XOR k) c, True) else (c, False))\<rparr>,
     qe_nonces = demo_nonces,
     qe_keys = (\<lambda>cid sd. \<lparr>qk_local = \<lparr>dk_packet = demo_key, dk_header = ()\<rparr>,
        qk_remote = \<lparr>dk_packet = demo_key, dk_header = ()\<rparr>\<rparr>),
     qe_hp_encrypt = aes_hp_encrypt_in_place demo_prims, qe_show = (\<lambda>_. [])\<rparr>"

definition demo_clock :: "nat \<Rightarrow> nat \<times> nat" where
  "demo_clock w = (w, w + 5)"

lemma demo_quic_env_ok: "quic_env_ok demo_quic_env"
  by (auto simp: quic_env_ok_def demo_quic_env_def aead_ok_def aead_strict_def demo_aead_def comp_def)

definition demo_strict_token :: "(bytes, u8) token_prims" where
  "demo_strict_token = demo_token_prims\<lparr>token_aead := qe_aead demo_quic_env\<rparr>"

lemma demo_strict_token_ok: "token_env_ok demo_strict_token"
proof -
  have "\<exists>c. new_from_slice demo_aead key = Some c" if "length key = 32" for key
    using that by (cases key) (simp_all add: demo_aead_def)
  moreover have "encrypt_inout_detached demo_aead k n a p = (map (\<lambda>b. b XOR k) p, Some (replicate 16 k))"
    for k n a p by (simp add: demo_aead_def)
  moreover have "new_from_slice (qe_aead demo_quic_env) = new_from_slice demo_aead"
    "encrypt_inout_detached (qe_aead demo_quic_env) = encrypt_inout_detached demo_aead"
    by (simp_all add: demo_quic_env_def)
  ultimately show ?thesis using demo_quic_env_ok
    by (auto simp: token_env_ok_def token_prims_ok_def demo_strict_token_def demo_token_prims_def min_def quic_env_ok_def)
qed

section \<open>Properties\<close>

text \<open>
  C37. A measurement refines the plain run of its trials: thirty-two warm-up trials of each class in
  alternation, then a permutation of \<open>samples\<close> trials of each class. It stops at the first failing trial and names
  the surface; otherwise the report is computed from exactly \<open>samples\<close> times per class, those of the
  scheduled trials, and none of the warm-up's.
\<close>

theorem measurement_is_the_balanced_run:
  "\<exists>sched. mset sched = replicate_mset samples False + replicate_mset samples True \<and>
     (case measure_surface rnd name expect_leak samples batch r sample s of
        (res, r', s') \<Rightarrow>
          (case trials sample (warm_up_classes @ sched) s of
             (ts, Some e, s'') \<Rightarrow> res = Err (named name e) \<and> s' = s''
           | (ts, None, s'') \<Rightarrow>
               let class0 = times_of rnd False sched (drop (WARMUP * 2) ts);
                   class1 = times_of rnd True sched (drop (WARMUP * 2) ts)
               in res = Ok (report_of rnd name expect_leak samples batch class0 class1) \<and> s' = s'' \<and>
                  length class0 = samples \<and> length class1 = samples))"
proof -
  let ?sched = "fst (schedule samples r)"
  have bal: "mset ?sched = replicate_mset samples False + replicate_mset samples True"
    by (rule schedule_balanced)
  have w: "warm_up name sample 0 (WARMUP * 2) s =
     (case trials sample warm_up_classes s of
        (ts, Some e, s) \<Rightarrow> (Err (named name e), s) | (ts, None, s) \<Rightarrow> (Ok (), s))"
    using warm_up_trials [of name sample 0 "WARMUP * 2" s] alternating [of WARMUP] by (simp add: warm_up_classes_def)
  have lw: "length warm_up_classes = WARMUP * 2" by (simp add: warm_up_classes_def WARMUP_def numeral_eq_Suc)
  obtain ts e s1 where t: "trials sample warm_up_classes s = (ts, e, s1)" by (metis prod_cases3)
  obtain sched r1 where sc: "schedule samples r = (sched, r1)" by fastforce
  obtain ts2 e2 s2 where t2: "trials sample sched s1 = (ts2, e2, s2)" by (metis prod_cases3)
  have len: "e = None \<Longrightarrow> length ts = WARMUP * 2" "e2 = None \<Longrightarrow> length ts2 = length sched"
    using length_trials t t2 lw by fastforce+
  have cnt: "count (mset sched) c = samples" for c using bal sc by (cases c) simp_all
  have ?thesis if "mset sched = replicate_mset samples False + replicate_mset samples True"
    apply (rule exI [of _ sched])
    using that t t2 len cnt
    by (simp add: measure_surface_def w sc trials_append sampling_trials length_times_of split: option.splits)
  then show ?thesis using bal sc by simp
qed

text \<open>
  The laboratory succeeds exactly when every positive control was seen to leak and every other
  surface was quiet; otherwise it fails with the number of surfaces that diverged. An inconclusive
  surface always diverges.
\<close>

theorem lab_succeeds_iff_all_as_expected:
  "(lab_main (evaluate reports) = SUCCESS \<longleftrightarrow>
      list_all (\<lambda>r. r_verdict r = (if r_expect_leak r then Leak else Quiet)) reports) \<and>
   (lab_main (evaluate reports) = FAILURE \<longleftrightarrow>
      evaluate reports = Err (length (filter (\<lambda>r. r_verdict r \<noteq> (if r_expect_leak r then Leak else Quiet)) reports)))"
  by (auto simp: lab_main_def evaluate_def failures_of_count as_expected_iff Let_def filter_empty_conv list_all_iff)

text \<open>
  The packet open-reject surface measures what it claims to: with an AEAD that checks tags before
  it touches the buffer and keys that pair up, the rig passes its own checks, and every trial of either
  class is a batch of sixteen refusals of one and the same probe, so the measurement always ends in a
  report.
\<close>

theorem packet_surface_measures_refusals:
  assumes "quic_env_ok E" and "\<And>c n a p. \<exists>q t. encrypt_inout_detached (qe_aead E) c n a p = (q, Some t)"
  shows "\<exists>rig r'. packet_rig E r = (Ok rig, r') \<and>
    length (pr_template rig) = TAG_PROBE_LEN + TAG_LEN \<and>
    (\<exists>rep r'' w'. measure_surface rnd name False samples TAG_BATCH r' (packet_open_reject now E rig) w = (Ok rep, r'', w'))"
proof -
  obtain rig r' where rig: "packet_rig E r = (Ok rig, r')" using packet_rig_total [OF assms] by blast
  have len: "length (pr_template rig) = TAG_PROBE_LEN + TAG_LEN"
    using packet_opener.made_length [of "(E, rig)" "pr_template rig"] assms(1) rig by auto
  have "\<exists>rep r'' w'. measure_surface rnd name False samples TAG_BATCH r' (packet_open_reject now E rig) w = (Ok rep, r'', w')"
  proof (rule packet_opener.surface_measures [of "(E, rig)" "pr_template rig" _ now "''corrupted packet accepted''"])
    fix cls w
    show "\<exists>i. packet_open_reject now E rig cls w =
        reject_trial now (case (E, rig) of (E, rig) \<Rightarrow>
          \<lambda>probe. case open_packet E (pr_open rig) probe of (res, probe) \<Rightarrow> Ok (is_ok res, probe))
          ''corrupted packet accepted'' (pr_template rig) i w \<and>
        length (pr_template rig) - TAG_LEN \<le> i \<and> i < length (pr_template rig)"
      by (rule exI [of _ "if cls then TAG_PROBE_LEN + TAG_LEN - 1 else TAG_PROBE_LEN"])
        (simp add: packet_open_reject_def len, simp add: TAG_LEN_def)
  qed (use assms(1) rig in auto)
  with rig len show ?thesis by blast
qed

theorem packet_surface_measures_refusals_witness:
  "\<exists>rig r'. packet_rig demo_quic_env 1 = (Ok rig, r') \<and>
    length (pr_template rig) = TAG_PROBE_LEN + TAG_LEN \<and>
    (\<exists>rep r'' w'. measure_surface Fin ''packet'' False 3 TAG_BATCH r' (packet_open_reject demo_clock demo_quic_env rig) 0 = (Ok rep, r'', w'))"
  by (rule packet_surface_measures_refusals [OF demo_quic_env_ok]) (simp add: demo_quic_env_def demo_aead_def)

text \<open>
  The same holds of the retry token surface: the rig passes its checks, every trial of either class
  is a batch of refusals of one and the same probe, none panics, and the measurement ends in a report.
\<close>

theorem token_surface_measures_refusals:
  assumes "token_env_ok T" and "\<And>c n a p. \<exists>q. aead_encrypt_in_place T c n a p = (q, True)"
  shows "\<exists>k template r'. token_rig T master r = (Ok (k, template), r') \<and>
    (\<exists>rep r'' w'. measure_surface rnd name False samples TAG_BATCH r' (token_open_reject now T k template) w = (Ok rep, r'', w'))"
proof -
  obtain k template r' where rig: "token_rig T master r = (Ok (k, template), r')"
    using token_rig_total [OF assms] by blast
  have len: "length template = TAG_PROBE_LEN + TAG_LEN"
    using token_opener.made_length [of "(T, k)" template] assms rig by auto
  have "\<exists>rep r'' w'. measure_surface rnd name False samples TAG_BATCH r' (token_open_reject now T k template) w = (Ok rep, r'', w')"
  proof (rule token_opener.surface_measures [of "(T, k)" template _ now "''corrupted token accepted''"])
    fix cls w
    show "\<exists>i. token_open_reject now T k template cls w =
        reject_trial now (case (T, k) of (T, k) \<Rightarrow>
          \<lambda>probe. case token_open T k TOKEN_NONCE probe of Inl m \<Rightarrow> Panic m | Inr (res, probe) \<Rightarrow> Ok (is_ok res, probe))
          ''corrupted token accepted'' template i w \<and> length template - TAG_LEN \<le> i \<and> i < length template"
      by (rule exI [of _ "if cls then TAG_PROBE_LEN + TAG_LEN - 1 else TAG_PROBE_LEN"])
        (simp add: token_open_reject_def len, simp add: TAG_LEN_def)
  qed (use assms rig in auto)
  with rig show ?thesis by blast
qed

theorem token_surface_measures_refusals_witness:
  "\<exists>k template r'. token_rig demo_strict_token [1, 2] 1 = (Ok (k, template), r') \<and>
    (\<exists>rep r'' w'. measure_surface Fin ''token'' False 3 TAG_BATCH r'
       (token_open_reject demo_clock demo_strict_token k template) 0 = (Ok rep, r'', w'))"
  by (rule token_surface_measures_refusals [OF demo_strict_token_ok])
    (simp add: demo_strict_token_def demo_token_prims_def)

text \<open>
  A fixed-versus-random trial prepares both classes alike: whatever the class, the packet seal and
  the header-protection trial take the same draws from their generator, and the class decides only
  which buffer is worked on, the fixed one or the fresh draw.
\<close>

theorem preparation_is_class_independent:
  "fst (snd (packet_seal now E rig fixed True (inputs, w))) = fst (snd (packet_seal now E rig fixed False (inputs, w))) \<and>
   fst (snd (packet_hp_mask now E rig fixed True (inputs, w))) = fst (snd (packet_hp_mask now E rig fixed False (inputs, w))) \<and>
   packet_seal now E rig fixed True (inputs, w) =
     packet_seal now E rig (fst (fill SEAL_LEN inputs)) False (inputs, w) \<and>
   packet_hp_mask now E rig fixed True (inputs, w) =
     packet_hp_mask now E rig (fst (fill 16 inputs)) False (inputs, w)"
  by (simp add: packet_seal_def packet_hp_mask_def Let_def split: prod.splits sum.splits)

end
