(* ===== verification/Timing_Handshake.thy ===== *)
theory Timing_Handshake
  imports Timing_Lab Rpk
begin

text \<open>
  The rustls plumbing of the timing laboratory (\<^verbatim>\<open>src/timing-lab/src/main.rs\<close>): the provider cut down to one
  suite, the raw-public-key configuration pair, and the in-memory handshake that times the server. The
  connections are parameters; the two inner loops are partial functions (\<open>None\<close> when one does not
  end), the outer one runs at most sixteen rounds.
\<close>

section \<open>Provider and configurations\<close>

definition provider_with_suite :: "('h, 'k, 'a, 'g, 'v, 'r, 's) rustcrypto \<Rightarrow> cipher_suite
    \<Rightarrow> ('h, 'k, 'a, 'g, 'v, 'r, 's) provider or_panic" where
  "provider_with_suite R i =
     (case core_provider R of
        Inl m \<Rightarrow> Panic m
      | Inr base \<Rightarrow>
          (case List.find (\<lambda>s. suite_id s = i) (cipher_suites base) of
             None \<Rightarrow> Panic ''the profile provider carries the requested suite''
           | Some s \<Rightarrow> Ok \<lparr>cipher_suites = [s], kx_groups = kx_groups base,
               signature_verification_algorithms = signature_verification_algorithms base,
               secure_random = secure_random base, key_provider = key_provider base\<rparr>))"

record ('h, 'k, 'a, 'g, 'v, 'r, 's, 'roots) lab_client_config =
  "('h, 'k, 'a, 'g, 'v, 'r, 's, 'roots) client_config" +
  lc_enable_secret_extraction :: bool

record ('h, 'k, 'a, 'g, 'v, 'r, 's) lab_server_config =
  "('h, 'k, 'a, 'g, 'v, 'r, 's) server_config" +
  ls_send_tls13_tickets :: nat
  ls_enable_secret_extraction :: bool

definition rpk_pair :: "('h, 'k, 'a, 'g, 'v, 'r, 's) builder_ops \<Rightarrow> ('h, 'k, 'a, 'g, 'v, 'r, 's) rustcrypto
    \<Rightarrow> (tls_error \<Rightarrow> string) \<Rightarrow> string \<Rightarrow> ('h, 'k, 'a, 'g, 'v, 'r, 's) provider \<Rightarrow> 's rpk_identity \<Rightarrow> bool
    \<Rightarrow> (('h, 'k, 'a, 'g, 'v, 'r, 's, 'roots) lab_client_config \<times> ('h, 'k, 'a, 'g, 'v, 'r, 's) lab_server_config,
        string) result" where
  "rpk_pair B R disp version_error prov identity extract_secrets =
     (let algorithms = signature_verification_algorithms prov
      in case rpk_certified_key R identity of
           Inl e \<Rightarrow> Err (''rpk certified key: '' @ disp e)
         | Inr certified \<Rightarrow>
             if \<not> supports_versions B prov [TLSv1_3] then Err (''server config versions: '' @ version_error)
             else
               let server = \<lparr>sc_provider = prov, sc_versions = [TLSv1_3], sc_client_verification = NoClientCert,
                     sc_resolver = ServerRawPublicKeys certified,
                     ls_send_tls13_tickets = 0, ls_enable_secret_extraction = extract_secrets\<rparr>;
                   client = \<lparr>cc_provider = prov, cc_versions = [TLSv1_3],
                     cc_server_auth = WithCustomVerifier (rpk_server_verifier_new (rpk_public_key identity) algorithms),
                     cc_client_auth = NoClientAuth, lc_enable_secret_extraction = extract_secrets\<rparr>
               in Ok (client, server))"

text \<open>rustls's connection constructors, with their errors rendered.\<close>

definition new_connections :: "('ccfg \<Rightarrow> string \<Rightarrow> ('c, string) result) \<Rightarrow> ('scfg \<Rightarrow> ('s, string) result) \<Rightarrow> 'ccfg \<Rightarrow> 'scfg
    \<Rightarrow> ('c \<times> 's, string) result" where
  "new_connections mk_client mk_server client_config server_config =
     (case mk_client client_config ''rpk.invalid'' of
        Inl e \<Rightarrow> Err (''client connection: '' @ e)
      | Inr client \<Rightarrow>
          (case mk_server server_config of
             Inl e \<Rightarrow> Err (''server connection: '' @ e)
           | Inr server \<Rightarrow> Ok (client, server)))"

section \<open>The handshake\<close>

record 'c hs_conn =
  hc_is_handshaking :: "'c \<Rightarrow> bool"
  hc_wants_write :: "'c \<Rightarrow> bool"
  hc_write_tls :: "'c \<Rightarrow> (bytes, string) result \<times> 'c"
  hc_read_tls :: "bytes \<Rightarrow> 'c \<Rightarrow> (nat, string) result \<times> 'c"
  hc_process :: "'c \<Rightarrow> (unit, string) result \<times> 'c"

partial_function (option) write_flight :: "'c hs_conn \<Rightarrow> string \<Rightarrow> 'c \<Rightarrow> bytes \<Rightarrow> ((bytes, string) result \<times> 'c) option" where
  "write_flight ops who c buf =
     (if \<not> hc_wants_write ops c then Some (Ok buf, c)
      else case hc_write_tls ops c of
             (Inl e, c) \<Rightarrow> Some (Err (who @ '' write_tls: '' @ e), c)
           | (Inr out, c) \<Rightarrow> write_flight ops who c (buf @ out))"

partial_function (option) read_flight :: "'c hs_conn \<Rightarrow> string \<Rightarrow> 'c \<Rightarrow> bytes \<Rightarrow> ((unit, string) result \<times> 'c) option" where
  "read_flight ops who c rd =
     (if rd = [] then Some (Ok (), c)
      else case hc_read_tls ops rd c of
             (Inl e, c) \<Rightarrow> Some (Err (who @ '' read_tls: '' @ e), c)
           | (Inr n, c) \<Rightarrow>
               (case hc_process ops c of
                  (Inl e, c) \<Rightarrow> Some (Err (who @ '' handshake: '' @ e), c)
                | (Inr _, c) \<Rightarrow> read_flight ops who c (drop n rd)))"

text \<open>The server's halves of a round are timed; without work the clock is not read.\<close>

definition server_reads :: "('w \<Rightarrow> nat \<times> 'w) \<Rightarrow> 's hs_conn \<Rightarrow> 's \<Rightarrow> bytes \<Rightarrow> u64 \<Rightarrow> 'w
    \<Rightarrow> ((u64, string) result \<times> 's \<times> 'w) option" where
  "server_reads now S s buf server_ns w =
     (if buf = [] then Some (Ok server_ns, s, w)
      else let (start, w) = now w
           in case read_flight S ''server'' s buf of
                None \<Rightarrow> None
              | Some (Inl e, s) \<Rightarrow> Some (Err e, s, w)
              | Some (Inr _, s) \<Rightarrow> let (t, w) = now w in Some (Ok (server_ns + elapsed start t), s, w))"

definition server_writes :: "('w \<Rightarrow> nat \<times> 'w) \<Rightarrow> 's hs_conn \<Rightarrow> 's \<Rightarrow> u64 \<Rightarrow> 'w
    \<Rightarrow> ((bytes \<times> u64, string) result \<times> 's \<times> 'w) option" where
  "server_writes now S s server_ns w =
     (if \<not> hc_wants_write S s then Some (Ok ([], server_ns), s, w)
      else let (start, w) = now w
           in case write_flight S ''server'' s [] of
                None \<Rightarrow> None
              | Some (Inl e, s) \<Rightarrow> Some (Err e, s, w)
              | Some (Inr buf, s) \<Rightarrow> let (t, w) = now w in Some (Ok (buf, server_ns + elapsed start t), s, w))"

definition settled :: "'c hs_conn \<Rightarrow> 's hs_conn \<Rightarrow> 'c \<Rightarrow> 's \<Rightarrow> bool" where
  "settled C S c s \<longleftrightarrow> \<not> hc_is_handshaking C c \<and> \<not> hc_is_handshaking S s \<and>
     \<not> hc_wants_write C c \<and> \<not> hc_wants_write S s"

fun handshake_rounds :: "nat \<Rightarrow> ('w \<Rightarrow> nat \<times> 'w) \<Rightarrow> 'c hs_conn \<Rightarrow> 's hs_conn \<Rightarrow> 'c \<Rightarrow> 's \<Rightarrow> u64 \<Rightarrow> 'w
    \<Rightarrow> ((u64, string) result \<times> 'c \<times> 's \<times> 'w) option" where
  "handshake_rounds 0 now C S c s server_ns w = Some (Err ''handshake did not complete'', c, s, w)"
| "handshake_rounds (Suc k) now C S c s server_ns w =
     (case write_flight C ''client'' c [] of
        None \<Rightarrow> None
      | Some (Inl e, c) \<Rightarrow> Some (Err e, c, s, w)
      | Some (Inr buf, c) \<Rightarrow>
     (case server_reads now S s buf server_ns w of
        None \<Rightarrow> None
      | Some (Inl e, s, w) \<Rightarrow> Some (Err e, c, s, w)
      | Some (Inr server_ns, s, w) \<Rightarrow>
     (case server_writes now S s server_ns w of
        None \<Rightarrow> None
      | Some (Inl e, s, w) \<Rightarrow> Some (Err e, c, s, w)
      | Some (Inr (buf, server_ns), s, w) \<Rightarrow>
     (case read_flight C ''client'' c buf of
        None \<Rightarrow> None
      | Some (Inl e, c) \<Rightarrow> Some (Err e, c, s, w)
      | Some (Inr _, c) \<Rightarrow>
          if settled C S c s then Some (Ok server_ns, c, s, w)
          else handshake_rounds k now C S c s server_ns w))))"

definition handshake_timed :: "('w \<Rightarrow> nat \<times> 'w) \<Rightarrow> 'c hs_conn \<Rightarrow> 's hs_conn \<Rightarrow> 'c \<Rightarrow> 's \<Rightarrow> 'w
    \<Rightarrow> ((u64, string) result \<times> 'c \<times> 's \<times> 'w) option" where
  "handshake_timed now C S c s w = handshake_rounds 16 now C S c s 0 w"

section \<open>What the connections promise\<close>

text \<open>
  The bytes a connection has written and taken so far: a write appends what it returns, a read what it
  reports as taken.
\<close>

definition hs_ok :: "'c hs_conn \<Rightarrow> ('c \<Rightarrow> bytes) \<Rightarrow> ('c \<Rightarrow> bytes) \<Rightarrow> bool" where
  "hs_ok ops out inn \<longleftrightarrow>
     (\<forall>c b c'. hc_write_tls ops c = (Ok b, c') \<longrightarrow> out c' = out c @ b \<and> inn c' = inn c) \<and>
     (\<forall>rd c n c'. hc_read_tls ops rd c = (Ok n, c') \<longrightarrow> out c' = out c \<and> inn c' = inn c @ take n rd) \<and>
     (\<forall>c c'. hc_process ops c = (Ok (), c') \<longrightarrow> out c' = out c \<and> inn c' = inn c)"

text \<open>Progress: a write shrinks the backlog, a read of a non-empty buffer takes something.\<close>

definition hs_progress :: "'c hs_conn \<Rightarrow> ('c \<Rightarrow> nat) \<Rightarrow> bool" where
  "hs_progress ops backlog \<longleftrightarrow>
     (\<forall>c b c'. hc_wants_write ops c \<longrightarrow> hc_write_tls ops c = (Ok b, c') \<longrightarrow> backlog c' < backlog c) \<and>
     (\<forall>rd c n c'. rd \<noteq> [] \<longrightarrow> hc_read_tls ops rd c = (Ok n, c') \<longrightarrow> 0 < n)"

lemma write_flight_out:
  assumes ok: "hs_ok ops out inn" and w: "write_flight ops who c buf = Some (Ok buf', c')"
  shows "\<exists>b. buf' = buf @ b \<and> out c' = out c @ b \<and> inn c' = inn c"
proof -
  have "\<forall>buf'' c''. res = (Ok buf'', c'') \<longrightarrow> (\<exists>b. buf'' = buf @ b \<and> out c'' = out c @ b \<and> inn c'' = inn c)"
    if "write_flight ops who c buf = Some res" for res
  proof (rule write_flight.raw_induct [OF _ that, where P = "\<lambda>ops who c buf res. hs_ok ops out inn \<longrightarrow>
        (\<forall>buf'' c''. res = (Ok buf'', c'') \<longrightarrow> (\<exists>b. buf'' = buf @ b \<and> out c'' = out c @ b \<and> inn c'' = inn c))",
      THEN mp], goal_cases)
    case (1 loop ops who c buf res)
    show ?case
    proof (intro impI allI)
      fix buf'' c''
      assume o: "hs_ok ops out inn" and r: "res = (Ok buf'', c'')"
      show "\<exists>b. buf'' = buf @ b \<and> out c'' = out c @ b \<and> inn c'' = inn c"
      proof (cases "hc_wants_write ops c")
        case False
        then show ?thesis using 1(2) r by simp
      next
        case True
        obtain b c1 where s: "hc_write_tls ops c = (Ok b, c1)" "loop ops who c1 (buf @ b) = Some res"
          using 1(2) r True by (auto split: prod.splits sum.splits)
        have "out c1 = out c @ b" "inn c1 = inn c" using o s(1) by (auto simp: hs_ok_def)
        then show ?thesis using 1(1) [OF s(2)] o r by fastforce
      qed
    qed
  qed (rule ok)
  then show ?thesis using w by blast
qed

lemma read_flight_in:
  assumes ok: "hs_ok ops out inn" and w: "read_flight ops who c rd = Some (Ok u, c')"
  shows "out c' = out c \<and> inn c' = inn c @ rd"
proof -
  have "\<forall>u c''. res = (Ok u, c'') \<longrightarrow> out c'' = out c \<and> inn c'' = inn c @ rd"
    if "read_flight ops who c rd = Some res" for res
  proof (rule read_flight.raw_induct [OF _ that, where P = "\<lambda>ops who c rd res. hs_ok ops out inn \<longrightarrow>
        (\<forall>u c''. res = (Ok u, c'') \<longrightarrow> out c'' = out c \<and> inn c'' = inn c @ rd)", THEN mp], goal_cases)
    case (1 loop ops who c rd res)
    show ?case
    proof (intro impI allI)
      fix u c''
      assume o: "hs_ok ops out inn" and r: "res = (Ok u, c'')"
      show "out c'' = out c \<and> inn c'' = inn c @ rd"
      proof (cases "rd = []")
        case True
        then show ?thesis using 1(2) r by simp
      next
        case False
        obtain n c1 c2 where s: "hc_read_tls ops rd c = (Ok n, c1)" "hc_process ops c1 = (Ok (), c2)"
          "loop ops who c2 (drop n rd) = Some res"
          using 1(2) r False by (auto split: prod.splits sum.splits)
        have "out c2 = out c" "inn c2 = inn c @ take n rd" using o s(1,2) unfolding hs_ok_def by metis+
        then show ?thesis using 1(1) [OF s(3)] o r by simp
      qed
    qed
  qed (rule ok)
  then show ?thesis using w by blast
qed

lemma write_flight_ends:
  assumes "hs_progress ops backlog"
  shows "\<exists>res. write_flight ops who c buf = Some res"
proof (induction "backlog c" arbitrary: c buf rule: less_induct)
  case less
  show ?case
  proof (cases "hc_wants_write ops c")
    case True
    obtain r c1 where w: "hc_write_tls ops c = (r, c1)" by fastforce
    have "backlog c1 < backlog c" if "r = Ok b" for b using assms w True that unfolding hs_progress_def by blast
    with less w True show ?thesis by (subst write_flight.simps) (auto split: sum.splits)
  qed (subst write_flight.simps, simp)
qed

lemma read_flight_ends:
  assumes "hs_progress ops backlog"
  shows "\<exists>res. read_flight ops who c rd = Some res"
proof (induction "length rd" arbitrary: c rd rule: less_induct)
  case less
  show ?case
  proof (cases "rd = []")
    case False
    obtain r c1 where w: "hc_read_tls ops rd c = (r, c1)" by fastforce
    obtain q c2 where p: "hc_process ops c1 = (q, c2)" by fastforce
    have "length (drop n rd) < length rd" if "r = Ok n" for n
    proof -
      have "0 < n" using assms w False that unfolding hs_progress_def by blast
      then show ?thesis using False by simp
    qed
    with less w p False show ?thesis by (subst read_flight.simps) (auto split: sum.splits)
  qed (subst read_flight.simps, simp)
qed

lemma server_reads_in:
  assumes "hs_ok S out inn" and "server_reads now S s buf ns w = Some (Ok ns', s', w')"
  shows "out s' = out s \<and> inn s' = inn s @ buf"
  using assms read_flight_in [OF assms(1)]
  by (auto simp: server_reads_def Let_def split: if_splits option.splits prod.splits sum.splits)

lemma server_writes_out:
  assumes "hs_ok S out inn" and "server_writes now S s ns w = Some (Ok (buf, ns'), s', w')"
  shows "out s' = out s @ buf \<and> inn s' = inn s"
  using assms write_flight_out [OF assms(1), of "''server''" s "[]"]
  by (fastforce simp: server_writes_def Let_def split: if_splits option.splits prod.splits sum.splits)

text \<open>Everything either side wrote has been taken by the other.\<close>

definition exchanged :: "('c \<Rightarrow> bytes) \<Rightarrow> ('c \<Rightarrow> bytes) \<Rightarrow> ('s \<Rightarrow> bytes) \<Rightarrow> ('s \<Rightarrow> bytes) \<Rightarrow> 'c \<Rightarrow> 's \<Rightarrow> 'c \<Rightarrow> 's \<Rightarrow> bool" where
  "exchanged c_out c_in s_out s_in c s c' s' \<longleftrightarrow>
     (\<exists>xs ys. c_out c' = c_out c @ xs \<and> s_in s' = s_in s @ xs \<and> s_out s' = s_out s @ ys \<and> c_in c' = c_in c @ ys)"

lemma exchanged_trans:
  "exchanged co ci so si c s c1 s1 \<Longrightarrow> exchanged co ci so si c1 s1 c2 s2 \<Longrightarrow> exchanged co ci so si c s c2 s2"
  unfolding exchanged_def by (metis append.assoc)

lemma handshake_rounds_exchanged:
  assumes C: "hs_ok C c_out c_in" and S: "hs_ok S s_out s_in"
    and r: "handshake_rounds k now C S c s ns w = Some (Ok ns', c', s', w')"
  shows "settled C S c' s' \<and> exchanged c_out c_in s_out s_in c s c' s'"
  using r
proof (induction k arbitrary: c s ns w)
  case (Suc k)
  obtain buf c1 where 1: "write_flight C ''client'' c [] = Some (Ok buf, c1)"
    using Suc.prems by (auto split: option.splits prod.splits sum.splits)
  obtain ns1 s1 w1 where 2: "server_reads now S s buf ns w = Some (Ok ns1, s1, w1)"
    using Suc.prems 1 by (auto split: option.splits prod.splits sum.splits)
  obtain buf2 ns2 s2 w2 where 3: "server_writes now S s1 ns1 w1 = Some (Ok (buf2, ns2), s2, w2)"
    using Suc.prems 1 2 by (auto split: option.splits prod.splits sum.splits)
  obtain u c2 where 4: "read_flight C ''client'' c1 buf2 = Some (Ok u, c2)"
    using Suc.prems 1 2 3 by (auto split: option.splits prod.splits sum.splits)
  have e: "exchanged c_out c_in s_out s_in c s c2 s2"
    using write_flight_out [OF C 1] server_reads_in [OF S 2] server_writes_out [OF S 3] read_flight_in [OF C 4]
    by (auto simp: exchanged_def)
  show ?case
  proof (cases "settled C S c2 s2")
    case True
    then show ?thesis using Suc.prems 1 2 3 4 e by simp
  next
    case False
    then have "handshake_rounds k now C S c2 s2 ns2 w2 = Some (Ok ns', c', s', w')" using Suc.prems 1 2 3 4 by simp
    from Suc.IH [OF this] show ?thesis using exchanged_trans [OF e] by blast
  qed
qed simp

lemma handshake_rounds_end:
  assumes C: "hs_progress C bc" and S: "hs_progress S bs"
  shows "\<exists>res. handshake_rounds k now C S c s ns w = Some res"
proof (induction k arbitrary: c s ns w)
  case (Suc k)
  obtain r1 where 1: "write_flight C ''client'' c [] = Some r1" using write_flight_ends [OF C] by blast
  have 2: "\<exists>r. server_reads now S s buf ns w = Some r" for s buf ns w
    using read_flight_ends [OF S, of "''server''" s buf]
    by (auto simp: server_reads_def Let_def split: prod.splits sum.splits)
  have 3: "\<exists>r. server_writes now S s ns w = Some r" for s ns w
    using write_flight_ends [OF S, of "''server''" s "[]"]
    by (auto simp: server_writes_def Let_def split: prod.splits sum.splits)
  have 4: "\<exists>r. read_flight C ''client'' c buf = Some r" for c buf using read_flight_ends [OF C] by blast
  obtain x1 c1 where r1: "r1 = (x1, c1)" by fastforce
  show ?case
  proof (cases x1)
    case (Inr buf)
    obtain x2 s1 w1 where r2: "server_reads now S s buf ns w = Some (x2, s1, w1)" using 2 by (metis prod_cases3)
    show ?thesis
    proof (cases x2)
      case x2: (Inr ns1)
      obtain x3 s2 w2 where r3: "server_writes now S s1 ns1 w1 = Some (x3, s2, w2)" using 3 by (metis prod_cases3)
      show ?thesis
      proof (cases x3)
        case x3: (Inr y)
        obtain x4 c2 where "read_flight C ''client'' c1 (fst y) = Some (x4, c2)" using 4 by (metis surj_pair)
        then show ?thesis using 1 r1 Inr r2 x2 r3 x3 Suc.IH by (cases y; cases x4) simp_all
      qed (use 1 r1 Inr r2 x2 r3 in simp)
    qed (use 1 r1 Inr r2 in simp)
  qed (use 1 r1 in simp)
qed simp

lemma find_suite:
  "i \<in> suite_id ` set xs \<Longrightarrow> \<exists>s \<in> set xs. List.find (\<lambda>s. suite_id s = i) xs = Some s \<and> suite_id s = i"
  by (induction xs) auto

section \<open>A concrete connection\<close>

text \<open>A side that has a number of one-byte flights to write, and handshakes until it has read as many.\<close>

type_synonym demo_side = "nat \<times> nat \<times> bytes \<times> bytes"

definition demo_hs :: "demo_side hs_conn" where
  "demo_hs = \<lparr>hc_is_handshaking = (\<lambda>(w, r, _). 0 < r), hc_wants_write = (\<lambda>(w, r, _). 0 < w),
     hc_write_tls = (\<lambda>(w, r, out, inn). (Ok [7], w - 1, r, out @ [7], inn)),
     hc_read_tls = (\<lambda>rd (w, r, out, inn). (Ok (length rd), w, r - length rd, out, inn @ rd)),
     hc_process = (\<lambda>c. (Ok (), c))\<rparr>"

definition demo_out :: "demo_side \<Rightarrow> bytes" where "demo_out = (\<lambda>(w, r, out, inn). out)"

definition demo_inn :: "demo_side \<Rightarrow> bytes" where "demo_inn = (\<lambda>(w, r, out, inn). inn)"

lemma demo_hs_ok: "hs_ok demo_hs demo_out demo_inn"
  by (auto simp: hs_ok_def demo_hs_def demo_out_def demo_inn_def)

lemma demo_hs_progress: "hs_progress demo_hs fst"
  by (auto simp: hs_progress_def demo_hs_def)

section \<open>Properties\<close>

text \<open>
  The timed handshake always ends, and a reported time is that of a finished handshake: with
  connections that make progress the loops end; when a time is returned neither side is still
  handshaking or has anything left to write, and each side has taken exactly the bytes the other
  wrote, in order.
\<close>

theorem handshake_timed_completes:
  assumes "hs_ok C c_out c_in" and "hs_ok S s_out s_in" and "hs_progress C bc" and "hs_progress S bs"
  shows "\<exists>res c' s' w'. handshake_timed now C S c s w = Some (res, c', s', w') \<and>
    (is_ok res \<longrightarrow> settled C S c' s' \<and>
       (\<exists>xs ys. c_out c' = c_out c @ xs \<and> s_in s' = s_in s @ xs \<and> s_out s' = s_out s @ ys \<and> c_in c' = c_in c @ ys))"
proof -
  obtain res c' s' w' where h: "handshake_timed now C S c s w = Some (res, c', s', w')"
    using handshake_rounds_end [OF assms(3,4)] unfolding handshake_timed_def by (metis prod_cases4)
  moreover have "settled C S c' s' \<and> exchanged c_out c_in s_out s_in c s c' s'" if ok: "is_ok res"
  proof -
    obtain ns where "res = Ok ns" using ok by (cases res) (simp_all add: is_ok_def)
    with h have "handshake_rounds 16 now C S c s 0 w = Some (Ok ns, c', s', w')" by (simp add: handshake_timed_def)
    then show ?thesis by (rule handshake_rounds_exchanged [OF assms(1,2)])
  qed
  ultimately show ?thesis unfolding exchanged_def by blast
qed

theorem handshake_timed_completes_witness:
  "\<exists>res c' s' w'. handshake_timed demo_clock demo_hs demo_hs (2, 1, [], []) (1, 2, [], []) 0 = Some (res, c', s', w') \<and>
    (is_ok res \<longrightarrow> settled demo_hs demo_hs c' s' \<and>
       (\<exists>xs ys. demo_out c' = demo_out (2 :: nat, 1 :: nat, [], []) @ xs \<and> demo_inn s' = demo_inn (1 :: nat, 2 :: nat, [], []) @ xs \<and>
          demo_out s' = demo_out (1 :: nat, 2 :: nat, [], []) @ ys \<and> demo_inn c' = demo_inn (2 :: nat, 1 :: nat, [], []) @ ys))"
  by (rule handshake_timed_completes [OF demo_hs_ok demo_hs_ok demo_hs_progress demo_hs_progress])

text \<open>
  The laboratory's configurations are the repository's, narrowed: for a profile suite the provider
  offers that suite alone, taken from the profile provider, and the pair built on it runs TLS 1.3 only,
  asks for no client certificate, sends no tickets, and the client accepts exactly the certificate of
  the server's own identity.
\<close>

theorem lab_pair_pins_the_identity:
  assumes "core_provider R = Ok base" and "i \<in> set CIPHER_SUITES"
    and "provider_with_suite R i = Ok prov" and "rpk_pair B R disp version_error prov identity extract = Ok (client, server)"
    and "cc_server_auth client = WithCustomVerifier v"
  shows "map suite_id (cipher_suites prov) = [i] \<and> set (cipher_suites prov) \<subseteq> set (cipher_suites base) \<and>
    cc_versions client = [TLSv1_3] \<and> sc_versions server = [TLSv1_3] \<and>
    sc_client_verification server = NoClientCert \<and> ls_send_tls13_tickets server = 0 \<and>
    (\<exists>ck. sc_resolver server = ServerRawPublicKeys ck \<and> ck_cert ck = [rpk_spki_der identity]) \<and>
    (\<forall>cert. verify_server_cert v cert [] name ocsp now = Ok () \<longleftrightarrow> cert = rpk_spki_der identity)"
proof -
  have "i \<in> suite_id ` set (cipher_suites base)"
    using core_delivery.make_suites [OF assms(1)] assms(2) by (metis image_set)
  from find_suite [OF this] obtain s where s: "s \<in> set (cipher_suites base)"
    "List.find (\<lambda>s. suite_id s = i) (cipher_suites base) = Some s" "suite_id s = i" by blast
  have p: "cipher_suites prov = [s]" using assms(1,3) s(2) by (auto simp: provider_with_suite_def)
  obtain ck where ck: "rpk_certified_key R identity = Ok ck"
    using assms(4) by (cases "rpk_certified_key R identity") (simp_all add: rpk_pair_def)
  have sv: "supports_versions B prov [TLSv1_3]" using assms(4) ck by (simp add: rpk_pair_def split: if_splits)
  have cs: "\<lparr>cc_provider = prov, cc_versions = [TLSv1_3],
        cc_server_auth = WithCustomVerifier (rpk_server_verifier_new (rpk_public_key identity) (signature_verification_algorithms prov)),
        cc_client_auth = NoClientAuth, lc_enable_secret_extraction = extract\<rparr> = client"
      "\<lparr>sc_provider = prov, sc_versions = [TLSv1_3], sc_client_verification = NoClientCert,
        sc_resolver = ServerRawPublicKeys ck, ls_send_tls13_tickets = 0, ls_enable_secret_extraction = extract\<rparr> = server"
    using assms(4) ck sv by (simp_all add: rpk_pair_def Let_def)
  have pair: "sc_resolver server = ServerRawPublicKeys ck" "cc_versions client = [TLSv1_3]" "sc_versions server = [TLSv1_3]"
      "sc_client_verification server = NoClientCert" "ls_send_tls13_tickets server = 0"
    unfolding cs [symmetric] by simp_all
  have v: "v = rpk_server_verifier_new (rpk_public_key identity) (signature_verification_algorithms prov)"
    using assms(5) unfolding cs(1) [symmetric] by simp
  have c: "ck_cert ck = [rpk_spki_der identity]" using ck by (auto simp: rpk_certified_key_def split: sum.splits)
  have "verify_server_cert v cert [] name ocsp now = Ok () \<longleftrightarrow> cert = rpk_spki_der identity" for cert
    by (auto simp: v rpk_server_verifier_new_def verify_server_cert_def rpk_spki_der_def)
  then show ?thesis using s p pair c by auto
qed

theorem lab_pair_pins_the_identity_witness:
  "\<exists>prov client server v.
    provider_with_suite demo_rustcrypto TLS13_AES_128_GCM_SHA256 = Ok prov \<and>
    rpk_pair demo_builder demo_rustcrypto (\<lambda>_. []) [] prov demo_rpk True =
      Ok (client :: (unit, unit, unit, named_group, nat, unit, bytes, unit) lab_client_config, server) \<and>
    map suite_id (cipher_suites prov) = [TLS13_AES_128_GCM_SHA256] \<and>
    verify_server_cert (v :: nat rpk_server_verifier) (rpk_spki_der demo_rpk) [] ''rpk.invalid'' [] 0 = Ok ()"
proof -
  obtain base where b: "core_provider demo_rustcrypto = Ok base" by (simp add: demo_rpk_simps)
  have i: "TLS13_AES_128_GCM_SHA256 \<in> set CIPHER_SUITES" by (simp add: CIPHER_SUITES_def)
  obtain prov where p: "provider_with_suite demo_rustcrypto TLS13_AES_128_GCM_SHA256 = Ok prov"
    by (simp add: provider_with_suite_def demo_rpk_simps)
  obtain ck where ck: "rpk_certified_key demo_rustcrypto demo_rpk = Ok ck" by (simp add: demo_rpk_simps)
  let ?v = "rpk_server_verifier_new (rpk_public_key demo_rpk) (signature_verification_algorithms prov)"
  obtain client :: "(unit, unit, unit, named_group, nat, unit, bytes, unit) lab_client_config" and server
    where pr: "rpk_pair demo_builder demo_rustcrypto (\<lambda>_. []) [] prov demo_rpk True = Ok (client, server)"
      "cc_server_auth client = WithCustomVerifier ?v"
    using ck by (simp add: rpk_pair_def Let_def demo_builder_def)
  from lab_pair_pins_the_identity [OF b i p pr] p pr(1) show ?thesis by blast
qed

end
