(* ===== verification/Timing_Draw.thy ===== *)
theory Timing_Draw
  imports Timing_Inputs
begin

text \<open>
  The rejection sampling of P-256 scalars in the timing laboratory (\<^verbatim>\<open>src/timing-lab/src/main.rs\<close>) ends. A
  draw out of range has four leading bytes 0xff, which fixes the low half of the generator's state; the
  generator's step is linear over the two-element field, so three such states in a row, four steps
  apart, contradict each other. The contradiction is a parity of three masks, transported through
  the steps by the transposed step.
\<close>

section \<open>Parities\<close>

definition parity_of :: "u64 \<Rightarrow> u64 \<Rightarrow> bool" where
  "parity_of m x = odd (card {i. bit m i \<and> bit x i})"

lemma finite_bits [simp]: "finite {i. bit (m :: u64) i \<and> P i}"
  by (rule finite_subset [of _ "{..<64}"]) (auto dest: bit_imp_le_length)

lemma parity_of_commute: "parity_of m x = parity_of x m"
  by (simp add: parity_of_def conj_commute)

lemma odd_card_xor:
  assumes "finite A" and "finite B"
  shows "odd (card (A - B \<union> (B - A))) \<longleftrightarrow> odd (card A) \<noteq> odd (card B)"
proof -
  have "card A = card (A - B) + card (A \<inter> B)" "card B = card (B - A) + card (A \<inter> B)"
    using assms card_Diff_subset_Int [of A B] card_Diff_subset_Int [of B A]
      card_mono [of A "A \<inter> B"] card_mono [of B "A \<inter> B"] by (auto simp: Int_commute)
  moreover have "card (A - B \<union> (B - A)) = card (A - B) + card (B - A)"
    using assms by (intro card_Un_disjoint) auto
  ultimately show ?thesis by presburger
qed

lemma parity_of_xor: "parity_of m (x XOR y) \<longleftrightarrow> parity_of m x \<noteq> parity_of m y"
proof -
  have "{i. bit m i \<and> bit (x XOR y) i} =
      {i. bit m i \<and> bit x i} - {i. bit m i \<and> bit y i} \<union> ({i. bit m i \<and> bit y i} - {i. bit m i \<and> bit x i})"
    by (auto simp: bit_simps)
  then show ?thesis by (simp only: parity_of_def odd_card_xor finite_bits)
qed

lemma parity_of_xor_mask: "parity_of (m XOR n) x \<longleftrightarrow> parity_of m x \<noteq> parity_of n x"
  by (simp only: parity_of_commute [of _ x] parity_of_xor)

lemma parity_of_drop_bit: "parity_of m (drop_bit k x) = parity_of (push_bit k m) x"
proof -
  have "{j. bit (push_bit k m) j \<and> bit x j} = (+) k ` {i. bit m i \<and> bit (drop_bit k x) i}"
  proof (rule set_eqI)
    fix j
    show "j \<in> {j. bit (push_bit k m) j \<and> bit x j} \<longleftrightarrow> j \<in> (+) k ` {i. bit m i \<and> bit (drop_bit k x) i}"
    proof (cases "k \<le> j")
      case True
      then show ?thesis
        by (auto simp: bit_simps image_iff intro: exI [of _ "j - k"] dest: bit_imp_le_length)
    qed (auto simp: bit_simps)
  qed
  moreover have "card ((+) k ` {i. bit m i \<and> bit (drop_bit k x) i}) = card {i. bit m i \<and> bit (drop_bit k x) i}"
    by (rule card_image) simp
  ultimately show ?thesis by (simp add: parity_of_def)
qed

lemma parity_of_push_bit: "parity_of m (push_bit k x) = parity_of (drop_bit k m) x"
  using parity_of_drop_bit [of x k m] by (simp only: parity_of_commute [of m] parity_of_commute [of "drop_bit k m"])

text \<open>The transposed step.\<close>

definition xorshift_t :: "u64 \<Rightarrow> u64" where
  "xorshift_t m =
     (let m = m XOR push_bit 27 m;
          m = m XOR drop_bit 25 m
      in m XOR push_bit 12 m)"

lemma parity_of_xorshift: "parity_of m (xorshift x) = parity_of (xorshift_t m) x"
  by (simp only: xorshift_def xorshift_t_def Let_def parity_of_xor parity_of_xor_mask parity_of_drop_bit parity_of_push_bit)
    (auto simp: parity_of_xor parity_of_xor_mask parity_of_drop_bit parity_of_push_bit)

lemma parity_of_after: "parity_of m (after k x) = parity_of ((xorshift_t ^^ k) m) x"
  by (induction k arbitrary: x) (simp_all add: parity_of_xorshift)

lemma parity_of_low:
  assumes "take_bit 32 x = take_bit 32 y" and "m < 2 ^ 32"
  shows "parity_of m x = parity_of m y"
proof -
  have "take_bit 32 (unat m) = unat m" using assms(2) by (simp add: take_bit_nat_eq_self_iff word_less_nat_alt)
  then have m: "take_bit 32 m = m" by (simp add: word_unat_eq_iff unsigned_take_bit_eq)
  have "bit m i \<Longrightarrow> i < 32" for i by (metis m bit_take_bit_iff)
  then have "{i. bit m i \<and> bit x i} = {i. bit m i \<and> bit y i}"
    by (metis (mono_tags, lifting) assms(1) bit_take_bit_iff)
  then show ?thesis by (simp add: parity_of_def)
qed

lemma parity_of_code: "parity_of m x = odd (length (filter (bit (m AND x)) [0..<64]))"
proof -
  have "{i. bit m i \<and> bit x i} = set (filter (bit (m AND x)) [0..<64])"
    by (auto simp: bit_simps dest: bit_imp_le_length)
  then show ?thesis unfolding parity_of_def by (simp only: distinct_card [OF distinct_filter [OF distinct_upt]])
qed

section \<open>Draws out of range\<close>

text \<open>The low half of a state whose output ends in four bytes 0xff.\<close>

definition stuck_low :: u64 where "stuck_low = 0x27e132cb"

lemma length_outputs [simp]: "length (outputs k r) = k"
  by (induction k arbitrary: r) simp_all

lemma length_concat_le_bytes: "length (concat (map (le_bytes n) ws)) = n * length ws"
  by (induction ws) simp_all

lemma fill_32: "fill 32 r = (concat (map (le_bytes 8) (outputs 4 r)), after 4 r)"
  by (simp add: fill_stream length_concat_le_bytes)


text \<open>Multiplication by the odd constant is undone by its inverse.\<close>

lemma output_inverse: "fst (next_u64 r) * 0x59071d96d81ecd35 = xorshift r"
proof -
  have "(0x2545f4914f6cdd1d * 0x59071d96d81ecd35 :: u64) = 1" by simp
  then show ?thesis by (simp only: next_u64_def Let_def fst_conv mult.assoc mult_1_right)
qed

lemma output_nonzero: "r \<noteq> 0 \<Longrightarrow> fst (next_u64 r) \<noteq> 0"
  using output_inverse [of r] xorshift_nonzero [of r] by auto

lemma low_half_mult:
  fixes v w :: u64
  shows "take_bit 32 (v * w) = take_bit 32 (take_bit 32 v * take_bit 32 w)"
proof -
  have "unat (take_bit 32 (v * w)) = unat v * unat w mod 2 ^ 32"
    by (simp add: unsigned_take_bit_eq take_bit_eq_mod unat_word_ariths mod_mod_cancel)
  moreover have "unat (take_bit 32 (take_bit 32 v * take_bit 32 w)) = (unat v mod 2 ^ 32) * (unat w mod 2 ^ 32) mod 2 ^ 32"
    by (simp add: unsigned_take_bit_eq take_bit_eq_mod unat_word_ariths mod_mod_cancel)
  ultimately show ?thesis by (simp add: word_unat_eq_iff mod_mult_eq)
qed

lemma stuck_state:
  assumes "take_bit 32 (fst (next_u64 r)) = 0xffffffff"
  shows "take_bit 32 (xorshift r) = take_bit 32 stuck_low"
proof -
  have "take_bit 32 (xorshift r) = take_bit 32 (take_bit 32 (fst (next_u64 r)) * take_bit 32 0x59071d96d81ecd35)"
    by (simp only: output_inverse [of r, symmetric] low_half_mult [of "fst (next_u64 r)"])
  then show ?thesis by (simp add: assms stuck_low_def)
qed

lemma byte_not_less: "\<not> b < 0xff \<Longrightarrow> b = (0xff :: u8)"
  using unat_u8_bound [of b] by (simp add: word_less_nat_alt word_unat_eq_iff)

lemma low_half_ones:
  assumes "\<forall>i < 4. le_bytes 8 v ! i = 0xff"
  shows "take_bit 32 (v :: u64) = 0xffffffff"
proof (rule bit_word_eqI)
  fix n :: nat
  assume "n < LENGTH(64)"
  have m: "(0xffffffff :: u64) = mask 32" "(0xff :: u8) = mask 8" by (simp_all add: mask_eq_exp_minus_1)
  show "bit (take_bit 32 v) n = bit (0xffffffff :: u64) n"
  proof (cases "n < 32")
    case True
    then have "le_bytes 8 v ! (n div 8) = mask 8" using assms m(2) by simp
    then have "bit (le_bytes 8 v ! (n div 8)) (n mod 8)" by (simp only: bit_mask_iff) simp
    then have "bit v n" using True bit_le_bytes_nth [of "n div 8" 8 "n mod 8" v] by simp
    then show ?thesis unfolding m(1) using True by (simp add: bit_take_bit_iff bit_mask_iff)
  next
    case False
    then show ?thesis unfolding m(1) by (simp add: bit_take_bit_iff bit_mask_iff)
  qed
qed

lemma outputs_4: "outputs 4 r = fst (next_u64 r) # outputs 3 (xorshift r)"
  by (simp add: eval_nat_numeral)

lemma out_of_range_stuck:
  assumes r: "r \<noteq> 0" and o: "\<not> scalar_in_range (fst (fill 32 r)) N_P256"
  shows "take_bit 32 (xorshift r) = take_bit 32 stuck_low"
proof (rule stuck_state, rule low_half_ones)
  let ?v = "fst (next_u64 r)"
  obtain rest where f: "fst (fill 32 r) = le_bytes 8 ?v @ rest"
    by (simp add: fill_32 outputs_4)
  have nz: "\<exists>b \<in> set (fst (fill 32 r)). b \<noteq> 0"
  proof (rule ccontr)
    assume "\<not> ?thesis"
    then have "\<forall>b \<in> set (le_bytes 8 ?v). b = 0" unfolding f by simp
    then have "le_bytes 8 ?v = le_bytes 8 (0 :: u64)" using replicate_length_same [of "le_bytes 8 ?v" 0] by simp
    then have "?v = 0" by (rule le_bytes_inj) simp
    with output_nonzero [OF r] show False by simp
  qed
  have lt: "\<not> slice_lt (le_bytes 8 ?v @ rest) N_P256" using o nz unfolding scalar_in_range_def f by blast
  have four: "\<exists>b0 b1 b2 b3 bs. xs = b0 # b1 # b2 # b3 # bs" if "length xs = 8" for xs :: bytes
    using that by (auto simp: numeral_eq_Suc length_Suc_conv)
  obtain b0 b1 b2 b3 bs where b: "le_bytes 8 ?v = b0 # b1 # b2 # b3 # bs"
    using four [OF length_le_bytes [of 8 ?v]] by blast
  have "\<not> b0 < 0xff \<and> (b0 = 0xff \<longrightarrow> \<not> b1 < 0xff \<and> (b1 = 0xff \<longrightarrow> \<not> b2 < 0xff \<and> (b2 = 0xff \<longrightarrow> \<not> b3 < 0xff)))"
    using lt unfolding b N_P256_def append_Cons slice_lt.simps by blast
  then have ff: "b0 = 0xff" "b1 = 0xff" "b2 = 0xff" "b3 = 0xff" using byte_not_less by blast+
  have "(b0 # b1 # b2 # b3 # bs) ! i = 0xff" if "i < 4" for i
  proof -
    from that have "i \<in> {0, 1, 2, 3}" by auto
    then show ?thesis using ff by auto
  qed
  then show "\<forall>i < 4. le_bytes 8 ?v ! i = 0xff" unfolding b by blast
qed

text \<open>The two masks, moved back four and eight steps.\<close>

lemma mask_steps:
  "xorshift_t 0x3d58fbaf = 0xad971cde016bc50d"
  "xorshift_t 0xad971cde016bc50d = 0x99b1c8ac0ca92e39"
  "xorshift_t 0x99b1c8ac0ca92e39 = 0xb1ce934fb2e470db"
  "xorshift_t 0xb1ce934fb2e470db = 0x575344cc877af46e"
  "xorshift_t 2 = 0x1001000a00a"
  "xorshift_t 0x1001000a00a = 0xc004002a00002a"
  "xorshift_t 0xc004002a00002a = 0x1d01f21920b7097"
  "xorshift_t 0x1d01f21920b7097 = 0x90a7c0118090202"
  "xorshift_t 0x90a7c0118090202 = 0xa28b2ac0ddbb6a86"
  "xorshift_t 0xa28b2ac0ddbb6a86 = 0xcb7a9c2ae4cca0f0"
  "xorshift_t 0xcb7a9c2ae4cca0f0 = 0x53cacdc849d41642"
  "xorshift_t 0x53cacdc849d41642 = 0x575344ccb1544b6e"
  by (simp_all add: xorshift_t_def)

lemma stuck_parities:
  "parity_of 0x362ebf00 stuck_low" "parity_of 0x3d58fbaf stuck_low" "parity_of 2 stuck_low"
  unfolding parity_of_code stuck_low_def by code_simp+

text \<open>Three states, four steps apart, cannot all be stuck.\<close>

lemma not_stuck_three_times:
  assumes "take_bit 32 y = take_bit 32 stuck_low" and "take_bit 32 (after 4 y) = take_bit 32 stuck_low"
    and "take_bit 32 (after 8 y) = take_bit 32 stuck_low"
  shows False
proof -
  have f: "(f ^^ 4) x = f (f (f (f x)))" "(f ^^ 8) x = f (f (f (f (f (f (f (f x)))))))" for f and x :: u64
    by (simp_all add: eval_nat_numeral)
  have z: "0x362ebf00 XOR (xorshift_t ^^ 4) 0x3d58fbaf XOR (xorshift_t ^^ 8) 2 = 0"
    unfolding f mask_steps by simp
  have "\<not> parity_of 0 y" by (simp add: parity_of_def)
  then have "(parity_of 0x362ebf00 y \<noteq> parity_of 0x3d58fbaf (after 4 y)) = parity_of 2 (after 8 y)"
    unfolding z [symmetric] parity_of_xor_mask parity_of_after by argo
  moreover have "parity_of 0x362ebf00 y = parity_of 0x362ebf00 stuck_low"
    "parity_of 0x3d58fbaf (after 4 y) = parity_of 0x3d58fbaf stuck_low"
    "parity_of 2 (after 8 y) = parity_of 2 stuck_low"
    by (rule parity_of_low [OF assms(1)], simp, rule parity_of_low [OF assms(2)], simp,
      rule parity_of_low [OF assms(3)], simp)
  ultimately show False using stuck_parities by argo
qed

section \<open>The draw\<close>

lemma draw_scalar_found:
  "scalar_in_range (fst (fill 32 r)) N_P256 \<Longrightarrow> draw_scalar r = Some (fill 32 r)"
  by (subst draw_scalar.simps) (simp add: split_beta)

lemma draw_scalar_again:
  "\<not> scalar_in_range (fst (fill 32 r)) N_P256 \<Longrightarrow> draw_scalar r = draw_scalar (after 4 r)"
  by (subst draw_scalar.simps) (simp add: split_beta fill_32)

lemma draw_scalar_bounded:
  assumes "r \<noteq> 0"
  shows "\<exists>k \<le> 2. draw_scalar r = Some (fill 32 (after (4 * k) r)) \<and>
    scalar_in_range (fst (fill 32 (after (4 * k) r))) N_P256"
proof (rule ccontr)
  let ?in = "\<lambda>k. scalar_in_range (fst (fill 32 (after (4 * k) r))) N_P256"
  assume n: "\<not> ?thesis"
  have 0: "\<not> ?in 0" using n draw_scalar_found [of r] by (metis after_simps(1) mult_0_right zero_le)
  have d0: "draw_scalar r = draw_scalar (after 4 r)" using draw_scalar_again 0 by simp
  have 1: "\<not> ?in 1" using n draw_scalar_found [of "after 4 r"] d0 by (metis mult.right_neutral one_le_numeral)
  have d1: "draw_scalar r = draw_scalar (after 8 r)"
    using draw_scalar_again [of "after 4 r"] 1 d0 by (simp add: after_def funpow_add [of 4 4, simplified])
  have "4 * 2 = (8 :: nat)" by simp
  then have 2: "\<not> ?in 2" using n draw_scalar_found [of "after 8 r"] d1 by (metis order_refl)
  have nz: "after k r \<noteq> 0" for k by (rule after_nonzero [OF assms])
  have shift: "xorshift (after k r) = after k (xorshift r)" for k by (simp add: after_def funpow_swap1)
  show False
    using not_stuck_three_times [of "xorshift r"] out_of_range_stuck [OF nz, of 0] out_of_range_stuck [OF nz, of 4]
      out_of_range_stuck [OF nz, of 8] 0 1 2 by (simp add: shift)
qed

section \<open>Properties\<close>

text \<open>
  C36. The draw of a P-256 scalar always ends, after at most three fills: from every state a generator can
  be in, one of the first three draws of thirty-two bytes is in range, and it is the one returned.
\<close>

theorem scalar_draw_ends_within_three:
  assumes "r \<noteq> 0"
  shows "\<exists>k \<le> 2. draw_scalar r = Some (fill 32 (after (4 * k) r)) \<and>
    scalar_in_range (fst (fill 32 (after (4 * k) r))) N_P256"
  by (rule draw_scalar_bounded [OF assms])

theorem scalar_draw_ends_within_three_witness:
  "\<exists>k \<le> 2. draw_scalar (rng_new 0) = Some (fill 32 (after (4 * k) (rng_new 0))) \<and>
    scalar_in_range (fst (fill 32 (after (4 * k) (rng_new 0)))) N_P256"
  by (rule scalar_draw_ends_within_three) (simp add: rng_new_def)

end
