(* ===== verification/Timing_Records.thy ===== *)
theory Timing_Records
  imports Timing_Handshake Timing_Draw
begin

text \<open>
  The surfaces of the timing laboratory that run on rustls connections
  (\<^verbatim>\<open>src/timing-lab/src/main.rs\<close>): the record rig, whose encrypter and decrypter are keyed with the
  traffic secrets of a real handshake, the record surfaces on it, the server handshake and the
  rejection of a corrupted record by a live connection. The connections, their traffic secrets and
  the suites' record protection are parameters, collected in one record.
\<close>

section \<open>Sequencing\<close>

text \<open>The question mark operator, a panic and an error with its context, as errors of the laboratory.\<close>

fun attempt :: "('a, 'e) result \<Rightarrow> ('a \<Rightarrow> ('b, 'e) result) \<Rightarrow> ('b, 'e) result" where
  "attempt (Inr v) k = k v"
| "attempt (Inl e) k = Err e"

definition or_abort :: "'a or_panic \<Rightarrow> ('a, lab_error) result" where
  "or_abort = map_err Panicked"

definition context_of :: "string \<Rightarrow> ('a, string) result \<Rightarrow> ('a, lab_error) result" where
  "context_of ctx = map_err (\<lambda>e. Failed (ctx @ e))"

definition ok_or_fail :: "string \<Rightarrow> 'a option \<Rightarrow> ('a, lab_error) result" where
  "ok_or_fail m = ok_or (Failed m)"

lemma attempt_Ok: "attempt r k = Ok y \<longleftrightarrow> (\<exists>v. r = Ok v \<and> k v = Ok y)"
  by (cases r) auto

lemma attempt_Err: "attempt r k = Err e \<longleftrightarrow> r = Err e \<or> (\<exists>v. r = Ok v \<and> k v = Err e)"
  by (cases r) auto

text \<open>
  A timed operation: the clock is read before it, and after it unless it failed.
\<close>

definition timed :: "('w \<Rightarrow> nat \<times> 'w) \<Rightarrow> ('a, lab_error) result \<Rightarrow> 'w \<Rightarrow> (u64, lab_error) result \<times> 'w" where
  "timed now res w =
     (let (start, w) = now w
      in case res of
           Inl e \<Rightarrow> (Err e, w)
         | Inr _ \<Rightarrow> let (t, w) = now w in (Ok (elapsed start t), w))"

lemma timed_error: "fst (timed now res w) = Err e \<longleftrightarrow> res = Err e"
  by (cases res) (simp_all add: timed_def split: prod.splits)

lemma timed_Err: "timed now res w = (Err e, w') \<Longrightarrow> res = Err e"
  using timed_error [of now res w e] by simp

lemma timed_Ok: "(\<exists>ns w'. timed now res w = (Ok ns, w')) \<longleftrightarrow> is_ok res"
  by (cases res) (simp_all add: timed_def split: prod.splits)

section \<open>Parameters\<close>

datatype content_type = ApplicationData | OtherContent u8

definition TLSv1_2 :: protocol_version where "TLSv1_2 = OtherVersion 0x0303"

datatype traffic_secrets =
    Chacha20Poly1305 bytes bytes
  | Aes128Gcm bytes bytes
  | Aes256Gcm bytes bytes
  | OtherSecrets

text \<open>
  What the rustls surfaces run on. \<open>rl_extract_client\<close> gives the sequence number and secrets a client
  sends with, \<open>rl_extract_server\<close> those a server receives with; a decrypter works in the buffer it is
  given and returns the plaintext.
\<close>

record ('w, 'h, 'k, 'a, 'g, 'v, 'r, 's, 'sk, 'roots, 'cl, 'sv, 'en, 'de) record_lab =
  rl_now :: "'w \<Rightarrow> nat \<times> 'w"
  rl_builder :: "('h, 'k, 'a, 'g, 'v, 'r, 's) builder_ops"
  rl_rustcrypto :: "('h, 'k, 'a, 'g, 'v, 'r, 's) rustcrypto"
  rl_dalek :: "'sk ed25519_ops"
  rl_show :: "tls_error \<Rightarrow> string"
  rl_version_error :: string
  rl_new_client :: "('h, 'k, 'a, 'g, 'v, 'r, 's, 'roots) lab_client_config \<Rightarrow> string \<Rightarrow> ('cl, string) result"
  rl_new_server :: "('h, 'k, 'a, 'g, 'v, 'r, 's) lab_server_config \<Rightarrow> ('sv, string) result"
  rl_client :: "'cl hs_conn"
  rl_server :: "'sv hs_conn"
  rl_write_all :: "bytes \<Rightarrow> 'cl \<Rightarrow> (unit, string) result \<times> 'cl"
  rl_extract_client :: "'cl \<Rightarrow> (u64 \<times> traffic_secrets, string) result"
  rl_extract_server :: "'sv \<Rightarrow> (u64 \<times> traffic_secrets, string) result"
  rl_encrypter :: "'a \<Rightarrow> bytes \<Rightarrow> bytes \<Rightarrow> 'en"
  rl_decrypter :: "'a \<Rightarrow> bytes \<Rightarrow> bytes \<Rightarrow> 'de"
  rl_encrypt :: "content_type \<Rightarrow> protocol_version \<Rightarrow> bytes \<Rightarrow> u64 \<Rightarrow> 'en \<Rightarrow> (bytes, tls_error) result \<times> 'en"
  rl_decrypt :: "content_type \<Rightarrow> protocol_version \<Rightarrow> bytes \<Rightarrow> u64 \<Rightarrow> 'de \<Rightarrow> (bytes, tls_error) result \<times> bytes \<times> 'de"

section \<open>Connections\<close>

definition lab_identity :: "('w, 'h, 'k, 'a, 'g, 'v, 'r, 's, 'sk, 'roots, 'cl, 'sv, 'en, 'de) record_lab \<Rightarrow> string \<Rightarrow> bytes
    \<Rightarrow> ('s rpk_identity, lab_error) result" where
  "lab_identity L ctx seed =
     context_of ctx (map_err invalid_identity_to_string (rpk_from_pkcs8_der (rl_dalek L) (ed25519_pkcs8 seed)))"

definition lab_pair :: "('w, 'h, 'k, 'a, 'g, 'v, 'r, 's, 'sk, 'roots, 'cl, 'sv, 'en, 'de) record_lab
    \<Rightarrow> ('h, 'k, 'a, 'g, 'v, 'r, 's) provider \<Rightarrow> 's rpk_identity \<Rightarrow> bool
    \<Rightarrow> (('h, 'k, 'a, 'g, 'v, 'r, 's, 'roots) lab_client_config \<times> ('h, 'k, 'a, 'g, 'v, 'r, 's) lab_server_config,
        lab_error) result" where
  "lab_pair L prov identity extract =
     context_of [] (rpk_pair (rl_builder L) (rl_rustcrypto L) (rl_show L) (rl_version_error L) prov identity extract)"

text \<open>New connections and their handshake, with the time the server took.\<close>

definition lab_connect :: "('w, 'h, 'k, 'a, 'g, 'v, 'r, 's, 'sk, 'roots, 'cl, 'sv, 'en, 'de) record_lab \<Rightarrow> string
    \<Rightarrow> ('h, 'k, 'a, 'g, 'v, 'r, 's, 'roots) lab_client_config \<Rightarrow> ('h, 'k, 'a, 'g, 'v, 'r, 's) lab_server_config \<Rightarrow> 'w
    \<Rightarrow> (u64 \<times> 'cl \<times> 'sv, lab_error) result \<times> 'w" where
  "lab_connect L ctx cc sc w =
     (case new_connections (rl_new_client L) (rl_new_server L) cc sc of
        Inl e \<Rightarrow> (Err (Failed e), w)
      | Inr (client, server) \<Rightarrow>
          (case handshake_timed (rl_now L) (rl_client L) (rl_server L) client server w of
             None \<Rightarrow> (Err Diverged, w)
           | Some (Inl e, client, server, w) \<Rightarrow> (Err (Failed (ctx @ e)), w)
           | Some (Inr ns, client, server, w) \<Rightarrow> (Ok (ns, client, server), w)))"

section \<open>The record rig\<close>

record ('en, 'de) record_rig =
  rr_enc :: 'en
  rr_dec :: 'de
  rr_seq :: u64
  rr_template :: bytes

text \<open>The label of extracted secrets is ignored; only a variant without key and nonce is refused.\<close>

fun key_iv :: "traffic_secrets \<Rightarrow> (bytes \<times> bytes, lab_error) result" where
  "key_iv (Chacha20Poly1305 key nonce) = Ok (key, nonce)"
| "key_iv (Aes128Gcm key nonce) = Ok (key, nonce)"
| "key_iv (Aes256Gcm key nonce) = Ok (key, nonce)"
| "key_iv OtherSecrets = Err (Failed ''unexpected extracted secrets variant'')"

definition record_keys :: "('w, 'h, 'k, 'a, 'g, 'v, 'r, 's, 'sk, 'roots, 'cl, 'sv, 'en, 'de) record_lab \<Rightarrow> 'a \<Rightarrow> 'cl \<Rightarrow> 'sv
    \<Rightarrow> (u64 \<times> u64 \<times> 'en \<times> 'de, lab_error) result" where
  "record_keys L alg client server =
     attempt (context_of ''client secret extraction: '' (rl_extract_client L client)) (\<lambda>(tx_seq, tx).
     attempt (context_of ''server secret extraction: '' (rl_extract_server L server)) (\<lambda>(rx_seq, rx).
     if tx_seq \<noteq> rx_seq then Err (Failed ''extracted sequence numbers disagree'')
     else
     attempt (key_iv tx) (\<lambda>(enc_key, enc_iv).
     attempt (key_iv rx) (\<lambda>(dec_key, dec_iv).
     Ok (tx_seq, rx_seq, rl_encrypter L alg enc_key enc_iv, rl_decrypter L alg dec_key dec_iv)))))"

definition seal_record :: "('w, 'h, 'k, 'a, 'g, 'v, 'r, 's, 'sk, 'roots, 'cl, 'sv, 'en, 'de) record_lab \<Rightarrow> bytes \<Rightarrow> u64 \<Rightarrow> 'en
    \<Rightarrow> (bytes, tls_error) result \<times> 'en" where
  "seal_record L plain seq enc = rl_encrypt L ApplicationData TLSv1_3 plain seq enc"

definition open_record :: "('w, 'h, 'k, 'a, 'g, 'v, 'r, 's, 'sk, 'roots, 'cl, 'sv, 'en, 'de) record_lab \<Rightarrow> bytes \<Rightarrow> u64 \<Rightarrow> 'de
    \<Rightarrow> (bytes, tls_error) result \<times> bytes \<times> 'de" where
  "open_record L buf seq dec = rl_decrypt L ApplicationData TLSv1_2 buf seq dec"

text \<open>
  The template and its guards: an uncorrupted record opens to its plaintext; a corrupted one is refused
  and its buffer left intact. \<open>bad.len() - TAG_LEN\<close> panics on a shorter record.
\<close>

definition record_template :: "('w, 'h, 'k, 'a, 'g, 'v, 'r, 's, 'sk, 'roots, 'cl, 'sv, 'en, 'de) record_lab \<Rightarrow> bytes
    \<Rightarrow> u64 \<times> u64 \<times> 'en \<times> 'de \<Rightarrow> (('en, 'de) record_rig, lab_error) result" where
  "record_template L plain keys =
     (case keys of (tx_seq, rx_seq, enc, dec) \<Rightarrow>
     (case seal_record L plain tx_seq enc of
        (Inl e, _) \<Rightarrow> Err (Failed (''record rig seal: '' @ rl_show L e))
      | (Inr template, enc) \<Rightarrow>
     (case open_record L template rx_seq dec of
        (Inl e, _) \<Rightarrow> Err (Failed (''record rig roundtrip: '' @ rl_show L e))
      | (Inr text, _, dec) \<Rightarrow>
          if text \<noteq> plain then Err (Failed ''record rig roundtrip produced wrong plaintext'')
          else if length template < TAG_LEN then Err (Panicked ''attempt to subtract with overflow'')
          else attempt (or_abort (flip (length template - TAG_LEN) template)) (\<lambda>snapshot.
     (case open_record L snapshot rx_seq dec of
        (Inr _, _) \<Rightarrow> Err (Failed ''record rig accepted a corrupted record'')
      | (Inl _, bad, dec) \<Rightarrow>
          if bad \<noteq> snapshot then Err (Failed ''record decrypter modified the buffer on failure'')
          else Ok \<lparr>rr_enc = enc, rr_dec = dec, rr_seq = tx_seq, rr_template = template\<rparr>)))))"

text \<open>\<open>cipher_suites[0].tls13().expect(..)\<close>.\<close>

definition first_tls13 :: "('h, 'k, 'a, 'g, 'v, 'r, 's) provider \<Rightarrow> ('h, 'k, 'a) tls13_cipher_suite or_panic" where
  "first_tls13 prov =
     (case cipher_suites prov of
        [] \<Rightarrow> Panic ''index out of bounds''
      | s # _ \<Rightarrow> (case s of Tls13 inner \<Rightarrow> Ok inner | Tls12 _ \<Rightarrow> Panic ''profile suites are TLS 1.3''))"

definition record_rig :: "('w, 'h, 'k, 'a, 'g, 'v, 'r, 's, 'sk, 'roots, 'cl, 'sv, 'en, 'de) record_lab \<Rightarrow> cipher_suite \<Rightarrow> rng \<Rightarrow> 'w
    \<Rightarrow> (('en, 'de) record_rig, lab_error) result \<times> rng \<times> 'w" where
  "record_rig L i r w =
     (case or_abort (provider_with_suite (rl_rustcrypto L) i) of
        Inl e \<Rightarrow> (Err e, r, w)
      | Inr prov \<Rightarrow>
     (case or_abort (first_tls13 prov) of
        Inl e \<Rightarrow> (Err e, r, w)
      | Inr inner \<Rightarrow>
          let (seed, r) = fill 32 r
          in
     (case attempt (lab_identity L ''record rig identity: '' seed) (\<lambda>identity. lab_pair L prov identity True) of
        Inl e \<Rightarrow> (Err e, r, w)
      | Inr (cc, sc) \<Rightarrow>
     (case lab_connect L ''record rig handshake: '' cc sc w of
        (Inl e, w) \<Rightarrow> (Err e, r, w)
      | (Inr (_, client, server), w) \<Rightarrow>
     (case record_keys L (aead_alg inner) client server of
        Inl e \<Rightarrow> (Err e, r, w)
      | Inr keys \<Rightarrow>
          let (plain, r) = fill TAG_PROBE_LEN r
          in (record_template L plain keys, r, w))))))"

section \<open>The record surfaces\<close>

text \<open>
  The decrypter is captured by the trial and changed by its calls, so it is part of the trial's state.
\<close>

fun record_batch :: "nat \<Rightarrow> ('w, 'h, 'k, 'a, 'g, 'v, 'r, 's, 'sk, 'roots, 'cl, 'sv, 'en, 'de) record_lab \<Rightarrow> u64 \<Rightarrow> bytes \<Rightarrow> 'de
    \<Rightarrow> (bytes, lab_error) result \<times> 'de" where
  "record_batch 0 L seq probe dec = (Ok probe, dec)"
| "record_batch (Suc k) L seq probe dec =
     (case open_record L probe seq dec of
        (Inr _, _, dec) \<Rightarrow> (Err (Failed ''corrupted record accepted''), dec)
      | (Inl _, probe, dec) \<Rightarrow> record_batch k L seq probe dec)"

definition record_open_reject :: "('w, 'h, 'k, 'a, 'g, 'v, 'r, 's, 'sk, 'roots, 'cl, 'sv, 'en, 'de) record_lab
    \<Rightarrow> ('en, 'de) record_rig \<Rightarrow> ('de \<times> 'w) sampler" where
  "record_open_reject L rig cls s =
     (let (dec, w) = s;
          tag_at = length (rr_template rig) - TAG_LEN
      in case or_abort (flip (if cls then tag_at + TAG_LEN - 1 else tag_at) (rr_template rig)) of
           Inl e \<Rightarrow> (Err e, dec, w)
         | Inr probe \<Rightarrow>
             let (res, dec) = record_batch TAG_BATCH L (rr_seq rig) probe dec;
                 (ns, w) = timed (rl_now L) res w
             in (ns, dec, w))"

definition record_seal :: "('w, 'h, 'k, 'a, 'g, 'v, 'r, 's, 'sk, 'roots, 'cl, 'sv, 'en, 'de) record_lab
    \<Rightarrow> ('en, 'de) record_rig \<Rightarrow> (bool \<Rightarrow> bytes \<Rightarrow> bytes) \<Rightarrow> ('en \<times> rng \<times> 'w) sampler" where
  "record_seal L rig prepare cls s =
     (let (enc, inputs, w) = s;
          (random, inputs) = fill SEAL_LEN inputs;
          (res, enc) = seal_record L (prepare cls random) (rr_seq rig) enc;
          (ns, w) = timed (rl_now L) (context_of ''seal: '' (map_err (rl_show L) res)) w
      in (ns, enc, inputs, w))"

text \<open>The work buffer of a fixed-versus-random seal, and of one under mask preparation.\<close>

definition copy_prep :: "bytes \<Rightarrow> bool \<Rightarrow> bytes \<Rightarrow> bytes" where
  "copy_prep fixed cls random = (if cls then random else fixed)"

definition mask_prep :: "bool \<Rightarrow> bytes \<Rightarrow> bytes" where
  "mask_prep cls random = (let m = (if cls then 0xff else 0x00) in map (\<lambda>r. r AND m) random)"

section \<open>The server's handshake\<close>

definition handshake_server :: "('w, 'h, 'k, 'a, 'g, 'v, 'r, 's, 'sk, 'roots, 'cl, 'sv, 'en, 'de) record_lab
    \<Rightarrow> ('h, 'k, 'a, 'g, 'v, 'r, 's) provider \<Rightarrow> bytes \<Rightarrow> (rng \<times> 'w) sampler" where
  "handshake_server L prov fixed_seed cls s =
     (let (inputs, w) = s;
          (random_seed, inputs) = fill 32 inputs;
          seed = (if cls then random_seed else fixed_seed)
      in case attempt (lab_identity L ''identity: '' seed) (\<lambda>identity. lab_pair L prov identity False) of
           Inl e \<Rightarrow> (Err e, inputs, w)
         | Inr (cc, sc) \<Rightarrow>
             (case lab_connect L [] cc sc w of
                (Inl e, w) \<Rightarrow> (Err e, inputs, w)
              | (Inr (ns, _), w) \<Rightarrow> (Ok ns, inputs, w)))"

text \<open>The guard of the surface: the loader derives the key \<open>ed25519_dalek\<close> derives from the seed.\<close>

definition handshake_guard :: "('w, 'h, 'k, 'a, 'g, 'v, 'r, 's, 'sk, 'roots, 'cl, 'sv, 'en, 'de) record_lab
    \<Rightarrow> (bytes \<Rightarrow> bytes) \<Rightarrow> bytes \<Rightarrow> (unit, lab_error) result" where
  "handshake_guard L public_of_seed fixed_seed =
     attempt (lab_identity L ''handshake identity template: '' fixed_seed) (\<lambda>identity.
       if rpk_public_key identity \<noteq> public_of_seed fixed_seed
       then Err (Failed ''ed25519 PKCS#8 template derives the wrong public key'')
       else Ok ())"

section \<open>The rejection path\<close>

partial_function (option) feed :: "'c hs_conn \<Rightarrow> string \<Rightarrow> 'c \<Rightarrow> bytes \<Rightarrow> ((unit, string) result \<times> 'c) option" where
  "feed ops who c rd =
     (if rd = [] then Some (Ok (), c)
      else case hc_read_tls ops rd c of
             (Inl e, c) \<Rightarrow> Some (Err (who @ '' read_tls: '' @ e), c)
           | (Inr n, c) \<Rightarrow> feed ops who c (drop n rd))"

text \<open>The client's record with one byte of its tag flipped.\<close>

definition corrupted_wire :: "('w, 'h, 'k, 'a, 'g, 'v, 'r, 's, 'sk, 'roots, 'cl, 'sv, 'en, 'de) record_lab \<Rightarrow> bytes \<Rightarrow> bool
    \<Rightarrow> 'cl \<Rightarrow> (bytes, lab_error) result" where
  "corrupted_wire L message cls client =
     (case rl_write_all L message client of
        (Inl e, _) \<Rightarrow> Err (Failed (''client write: '' @ e))
      | (Inr _, client) \<Rightarrow>
          (case write_flight (rl_client L) ''client'' client [] of
             None \<Rightarrow> Err Diverged
           | Some (Inl e, _) \<Rightarrow> Err (Failed e)
           | Some (Inr buf, _) \<Rightarrow>
               if length buf < (if cls then 1 else TAG_LEN) then Err (Panicked ''attempt to subtract with overflow'')
               else or_abort (flip (if cls then length buf - 1 else length buf - TAG_LEN) buf)))"

text \<open>
  The timed window: the server takes the bytes and processes them; whether it refused is looked at
  after the clock was read.
\<close>

definition record_reject :: "('w, 'h, 'k, 'a, 'g, 'v, 'r, 's, 'sk, 'roots, 'cl, 'sv, 'en, 'de) record_lab
    \<Rightarrow> ('h, 'k, 'a, 'g, 'v, 'r, 's, 'roots) lab_client_config \<Rightarrow> ('h, 'k, 'a, 'g, 'v, 'r, 's) lab_server_config
    \<Rightarrow> bytes \<Rightarrow> 'w sampler" where
  "record_reject L cc sc message cls w =
     (case lab_connect L [] cc sc w of
        (Inl e, w) \<Rightarrow> (Err e, w)
      | (Inr (_, client, server), w) \<Rightarrow>
     (case corrupted_wire L message cls client of
        Inl e \<Rightarrow> (Err e, w)
      | Inr buf \<Rightarrow>
          let (start, w) = rl_now L w
          in
     (case feed (rl_server L) ''server'' server buf of
        None \<Rightarrow> (Err Diverged, w)
      | Some (Inl e, server) \<Rightarrow> (Err (Failed e), w)
      | Some (Inr _, server) \<Rightarrow>
          let rejected = \<not> is_ok (fst (hc_process (rl_server L) server));
              (t, w) = rl_now L w
          in if \<not> rejected then (Err (Failed ''corrupted record accepted''), w) else (Ok (elapsed start t), w))))"

section \<open>Record protection\<close>

text \<open>
  What the laboratory relies on of a suite's record protection, for a relation between an encrypter and
  the decrypter of the same keys: a sealed record is the protected inner plaintext, one byte longer
  than the payload, followed by the tag; it opens to the payload, and with any other tag it is refused
  before the buffer is touched. Neither call separates the pair.
\<close>

definition record_protects :: "('w, 'h, 'k, 'a, 'g, 'v, 'r, 's, 'sk, 'roots, 'cl, 'sv, 'en, 'de) record_lab
    \<Rightarrow> ('en \<Rightarrow> 'de \<Rightarrow> bool) \<Rightarrow> bool" where
  "record_protects L P \<longleftrightarrow>
     (\<forall>alg key nonce. P (rl_encrypter L alg key nonce) (rl_decrypter L alg key nonce)) \<and>
     (\<forall>enc dec p sn b enc'. P enc dec \<longrightarrow> seal_record L p sn enc = (Ok b, enc') \<longrightarrow> P enc' dec) \<and>
     (\<forall>enc dec b sn. P enc dec \<longrightarrow> P enc (snd (snd (open_record L b sn dec)))) \<and>
     (\<forall>enc dec p sn b enc'. P enc dec \<longrightarrow> seal_record L p sn enc = (Ok b, enc') \<longrightarrow>
        (\<exists>q t. b = q @ t \<and> length q = Suc (length p) \<and> length t = TAG_LEN \<and>
           fst (open_record L b sn dec) = Ok p \<and>
           (\<forall>t'. length t' = TAG_LEN \<longrightarrow> t' \<noteq> t \<longrightarrow>
              \<not> is_ok (fst (open_record L (q @ t') sn dec)) \<and> fst (snd (open_record L (q @ t') sn dec)) = q @ t')))"

lemma record_protectsD:
  assumes "record_protects L P" and "P enc dec"
  shows "P enc (snd (snd (open_record L b sn dec)))"
    and "seal_record L p sn enc = (Ok b, enc') \<Longrightarrow> P enc' dec"
    and "seal_record L p sn enc = (Ok b, enc') \<Longrightarrow> length b = length p + 1 + TAG_LEN"
    and "seal_record L p sn enc = (Ok b, enc') \<Longrightarrow> fst (open_record L b sn dec) = Ok p"
    and "seal_record L p sn enc = (Ok b, enc') \<Longrightarrow> flip i b = Ok probe \<Longrightarrow> length b - TAG_LEN \<le> i \<Longrightarrow>
      \<not> is_ok (fst (open_record L probe sn dec)) \<and> fst (snd (open_record L probe sn dec)) = probe"
proof -
  show "P enc (snd (snd (open_record L b sn dec)))" using assms unfolding record_protects_def by blast
  assume s: "seal_record L p sn enc = (Ok b, enc')"
  show "P enc' dec" using assms s unfolding record_protects_def by blast
  obtain q t where q: "b = q @ t" "length q = Suc (length p)" "length t = TAG_LEN"
    "fst (open_record L b sn dec) = Ok p"
    "\<And>t'. length t' = TAG_LEN \<Longrightarrow> t' \<noteq> t \<Longrightarrow> \<not> is_ok (fst (open_record L (q @ t') sn dec)) \<and>
       fst (snd (open_record L (q @ t') sn dec)) = q @ t'"
    using assms s unfolding record_protects_def by metis
  show "length b = length p + 1 + TAG_LEN" using q by simp
  show "fst (open_record L b sn dec) = Ok p" by (rule q(4))
  assume f: "flip i b = Ok probe" and i: "length b - TAG_LEN \<le> i"
  obtain t' where "probe = q @ t'" "length t' = length t" "t' \<noteq> t"
    using flip_tag [OF f [unfolded q(1)]] i q(1,3) by auto
  then show "\<not> is_ok (fst (open_record L probe sn dec)) \<and> fst (snd (open_record L probe sn dec)) = probe"
    using q(3,5) by simp
qed

text \<open>A template sealed by the partner of a decrypter.\<close>

definition sealed_for :: "('w, 'h, 'k, 'a, 'g, 'v, 'r, 's, 'sk, 'roots, 'cl, 'sv, 'en, 'de) record_lab
    \<Rightarrow> ('en \<Rightarrow> 'de \<Rightarrow> bool) \<Rightarrow> u64 \<Rightarrow> 'de \<Rightarrow> bytes \<Rightarrow> bool" where
  "sealed_for L P sn dec template \<longleftrightarrow>
     (\<exists>enc p enc'. P enc dec \<and> length p = TAG_PROBE_LEN \<and> seal_record L p sn enc = (Ok template, enc'))"

lemma sealed_for_kept:
  "record_protects L P \<Longrightarrow> sealed_for L P sn dec template \<Longrightarrow> sealed_for L P sn (snd (snd (open_record L b sn dec))) template"
  unfolding sealed_for_def using record_protectsD(1) by metis

interpretation record_opener: tag_checked "\<lambda>(L, P, sn, dec). record_protects L P"
  "\<lambda>(L, P, sn, dec) template. sealed_for L P sn dec template"
  "\<lambda>(L, P, sn, dec) probe. case open_record L probe sn dec of (res, probe, _) \<Rightarrow> Ok (is_ok res, probe)"
  "TAG_PROBE_LEN + 1 + TAG_LEN"
proof (unfold_locales, goal_cases)
  case (1 X template)
  obtain L P sn dec where X: "X = (L, P, sn, dec)" by (cases X) auto
  then show ?case using 1 record_protectsD(3) by (fastforce simp: sealed_for_def)
next
  case (2 X template i probe)
  obtain L P sn dec where X: "X = (L, P, sn, dec)" by (cases X) auto
  obtain enc p enc' where s: "P enc dec" "seal_record L p sn enc = (Ok template, enc')"
    using 2(2) X by (auto simp: sealed_for_def)
  have "\<not> is_ok (fst (open_record L probe sn dec)) \<and> fst (snd (open_record L probe sn dec)) = probe"
    by (rule record_protectsD(5) [where P = P and enc = enc and p = p and b = template and enc' = enc' and i = i])
      (use 2 X s in auto)
  then show ?case using X by (auto split: prod.splits)
qed

text \<open>The decrypter changes from call to call; the template stays one of its partner's.\<close>

lemma record_batch_keeps_probe:
  assumes L: "record_protects L P" and "sealed_for L P sn dec template"
    and i: "length template - TAG_LEN \<le> i" "flip i template = Ok probe"
  shows "\<exists>dec'. record_batch k L sn probe dec = (Ok probe, dec') \<and> sealed_for L P sn dec' template"
  using assms(2)
proof (induction k arbitrary: dec)
  case (Suc k)
  obtain res b dec1 where o: "open_record L probe sn dec = (res, b, dec1)" by (metis prod_cases3)
  have "\<not> is_ok res" "b = probe"
    using record_opener.refuses [of "(L, P, sn, dec)" template i probe] L Suc.prems i o by auto
  moreover have "sealed_for L P sn dec1 template" using sealed_for_kept [OF L Suc.prems, of probe] o by simp
  ultimately show ?case using Suc.IH [of dec1] o by (cases res) auto
qed simp

lemma record_open_reject_trial:
  assumes L: "record_protects L P" and t: "sealed_for L P (rr_seq rig) dec (rr_template rig)"
  shows "\<exists>ns dec' w'. record_open_reject L rig cls (dec, w) = (Ok ns, dec', w') \<and>
    sealed_for L P (rr_seq rig) dec' (rr_template rig)"
proof -
  let ?len = "length (rr_template rig)"
  let ?i = "if cls then ?len - TAG_LEN + TAG_LEN - 1 else ?len - TAG_LEN"
  have len: "?len = TAG_PROBE_LEN + 1 + TAG_LEN"
    using record_opener.made_length [of "(L, P, rr_seq rig, dec)"] L t by simp
  then have i: "?len - TAG_LEN \<le> ?i" "?i < ?len" by (simp_all add: TAG_LEN_def)
  then obtain probe where p: "flip ?i (rr_template rig) = Ok probe" by (simp add: flip_def)
  obtain dec' where b: "record_batch TAG_BATCH L (rr_seq rig) probe dec = (Ok probe, dec')"
    "sealed_for L P (rr_seq rig) dec' (rr_template rig)"
    using record_batch_keeps_probe [OF L t i(1) p] by blast
  obtain ns w' where "timed (rl_now L) (Ok probe) w = (Ok ns, w')" using timed_Ok [of "rl_now L" "Ok probe" w] by auto
  with b p show ?thesis by (simp add: record_open_reject_def Let_def or_abort_def map_err_def)
qed

lemma record_template_total:
  assumes L: "record_protects L P" and P: "P enc dec" and s: "seal_record L plain sn enc = (Ok b, enc')"
    and len: "length plain = TAG_PROBE_LEN"
  shows "\<exists>rig. record_template L plain (sn, sn, enc, dec) = Ok rig \<and> rr_template rig = b \<and> rr_seq rig = sn \<and>
    sealed_for L P sn (rr_dec rig) b"
proof -
  note D = record_protectsD [OF L]
  obtain res x dec1 where o: "open_record L b sn dec = (res, x, dec1)" by (metis prod_cases3)
  have res: "res = Ok plain" using D(4) [OF P s] o by simp
  have P1: "P enc dec1" using D(1) [OF P, of b sn] o by simp
  have lb: "length b = TAG_PROBE_LEN + 1 + TAG_LEN" using D(3) [OF P s] len by simp
  then obtain snapshot where f: "flip (length b - TAG_LEN) b = Ok snapshot" by (simp add: flip_def TAG_LEN_def)
  obtain res2 bad dec2 where o2: "open_record L snapshot sn dec1 = (res2, bad, dec2)" by (metis prod_cases3)
  have r2: "\<not> is_ok res2" "bad = snapshot" using D(5) [OF P1 s f] o2 by simp_all
  have "P enc dec2" using D(1) [OF P1, of snapshot sn] o2 by simp
  then have "sealed_for L P sn dec2 b" using s len unfolding sealed_for_def by blast
  moreover obtain er where "res2 = Err er" using r2(1) by (cases res2) auto
  ultimately show ?thesis using s o res f o2 r2(2) lb
    by (simp add: record_template_def or_abort_def map_err_def)
qed

section \<open>Termination\<close>

text \<open>The loops over connections end when the connections make progress.\<close>

definition lab_progress :: "('w, 'h, 'k, 'a, 'g, 'v, 'r, 's, 'sk, 'roots, 'cl, 'sv, 'en, 'de) record_lab \<Rightarrow> bool" where
  "lab_progress L \<longleftrightarrow> (\<exists>bc. hs_progress (rl_client L) bc) \<and> (\<exists>bs. hs_progress (rl_server L) bs)"

lemma feed_ends:
  assumes "hs_progress ops backlog"
  shows "\<exists>res. feed ops who c rd = Some res"
proof (induction "length rd" arbitrary: c rd rule: less_induct)
  case less
  show ?case
  proof (cases "rd = []")
    case False
    obtain r c1 where w: "hc_read_tls ops rd c = (r, c1)" by fastforce
    have "length (drop n rd) < length rd" if "r = Ok n" for n
    proof -
      have "0 < n" using assms w False that unfolding hs_progress_def by blast
      then show ?thesis using False by simp
    qed
    with less w False show ?thesis by (subst feed.simps) (auto split: sum.splits)
  qed (subst feed.simps, simp)
qed

lemma context_of_not_Diverged [simp]: "context_of ctx r \<noteq> Err Diverged"
  by (cases r) (simp_all add: context_of_def map_err_def)

lemma or_abort_not_Diverged [simp]: "or_abort r \<noteq> Err Diverged"
  by (cases r) (simp_all add: or_abort_def map_err_def)

lemma ok_or_fail_not_Diverged [simp]: "ok_or_fail m x \<noteq> Err Diverged"
  by (cases x) (simp_all add: ok_or_fail_def)

lemma attempt_not_Diverged:
  "r \<noteq> Err Diverged \<Longrightarrow> (\<And>v. r = Ok v \<Longrightarrow> k v \<noteq> Err Diverged) \<Longrightarrow> attempt r k \<noteq> Err Diverged"
  by (cases r) auto

lemma timed_not_Diverged: "res \<noteq> Err Diverged \<Longrightarrow> fst (timed now res w) \<noteq> Err Diverged"
  by (simp add: timed_error)

lemma lab_identity_not_Diverged [simp]: "lab_identity L ctx seed \<noteq> Err Diverged"
  by (simp add: lab_identity_def)

lemma lab_pair_not_Diverged [simp]: "lab_pair L prov identity extract \<noteq> Err Diverged"
  by (simp add: lab_pair_def)

lemma lab_connect_ends:
  assumes "lab_progress L"
  shows "fst (lab_connect L ctx cc sc w) \<noteq> Err Diverged"
proof -
  obtain bc bs where p: "hs_progress (rl_client L) bc" "hs_progress (rl_server L) bs"
    using assms by (auto simp: lab_progress_def)
  show ?thesis
    using handshake_rounds_end [OF p, of 16 "rl_now L" _ _ 0]
    by (auto simp: lab_connect_def handshake_timed_def split: sum.splits prod.splits option.splits)
      (metis option.distinct(1))
qed

lemma record_batch_ends: "record_batch k L sn probe dec \<noteq> (Err Diverged, dec')"
  by (induction k arbitrary: probe dec) (auto split: prod.splits sum.splits)

lemma record_open_reject_ends: "fst (record_open_reject L rig cls s) \<noteq> Err Diverged"
  by (cases s) (auto simp: record_open_reject_def Let_def record_batch_ends split: sum.splits prod.splits dest!: timed_Err)

lemma record_seal_ends: "fst (record_seal L rig prepare cls s) \<noteq> Err Diverged"
  by (cases s) (auto simp: record_seal_def Let_def split: prod.splits dest!: timed_Err)

lemma lab_connect_ends':
  assumes "lab_progress L"
  shows "lab_connect L ctx cc sc w \<noteq> (Err Diverged, w')"
  using lab_connect_ends [OF assms, of ctx cc sc w] by auto

lemma handshake_server_ends:
  assumes "lab_progress L"
  shows "fst (handshake_server L prov fixed cls s) \<noteq> Err Diverged"
proof -
  have "attempt (lab_identity L ctx seed) (\<lambda>identity. lab_pair L prov identity False) \<noteq> Err Diverged" for ctx seed
    by (intro attempt_not_Diverged) simp_all
  then show ?thesis
    by (cases s) (auto simp: handshake_server_def Let_def lab_connect_ends' [OF assms] split: sum.splits prod.splits)
qed

lemma record_reject_ends:
  assumes "lab_progress L"
  shows "fst (record_reject L cc sc message cls w) \<noteq> Err Diverged"
proof -
  obtain bc bs where p: "hs_progress (rl_client L) bc" "hs_progress (rl_server L) bs"
    using assms by (auto simp: lab_progress_def)
  have w: "\<exists>r. write_flight (rl_client L) who c b = Some r" for who c b by (rule write_flight_ends [OF p(1)])
  have "corrupted_wire L message cls c \<noteq> Err Diverged" for c
    using w by (auto simp: corrupted_wire_def split: sum.splits prod.splits option.splits) (metis option.distinct(1))
  moreover have "\<exists>r. feed (rl_server L) who c b = Some r" for who c b by (rule feed_ends [OF p(2)])
  ultimately show ?thesis using lab_connect_ends [OF assms, of "[]" cc sc w]
    by (auto simp: record_reject_def Let_def split: sum.splits prod.splits option.splits) (metis option.distinct(1))+
qed

lemma record_rig_ends:
  assumes "lab_progress L"
  shows "fst (record_rig L i r w) \<noteq> Err Diverged"
proof -
  have a: "attempt (lab_identity L ctx seed) (\<lambda>identity. lab_pair L prov identity True) \<noteq> Err Diverged" for ctx seed prov
    by (intro attempt_not_Diverged) simp_all
  have "key_iv t \<noteq> Err Diverged" for t by (cases t) simp_all
  then have k: "record_keys L alg c sv \<noteq> Err Diverged" for alg c sv
    by (auto simp: record_keys_def attempt_Err split: if_splits)
  have t: "record_template L plain keys \<noteq> Err Diverged" for plain keys
    by (auto simp: record_template_def attempt_Err split: prod.splits sum.splits if_splits)
  show ?thesis using a k t
    by (auto simp: record_rig_def Let_def lab_connect_ends' [OF assms] split: sum.splits prod.splits)
qed

section \<open>A concrete laboratory\<close>

type_synonym demo_record_lab = "(nat, unit, unit, unit, named_group, nat, unit, bytes, bytes, unit, demo_side, demo_side, u8, u8) record_lab"

definition demo_record_lab :: demo_record_lab where
  "demo_record_lab = \<lparr>rl_now = demo_clock, rl_builder = demo_builder, rl_rustcrypto = demo_rustcrypto,
     rl_dalek = demo_dalek, rl_show = (\<lambda>_. []), rl_version_error = [],
     rl_new_client = (\<lambda>cfg name. Ok (2, 1, [], [])), rl_new_server = (\<lambda>cfg. Ok (1, 2, [], [])),
     rl_client = demo_hs, rl_server = demo_hs, rl_write_all = (\<lambda>b c. (Ok (), c)),
     rl_extract_client = (\<lambda>c. Ok (0, Aes256Gcm [5] [])), rl_extract_server = (\<lambda>c. Ok (0, Aes256Gcm [5] [])),
     rl_encrypter = (\<lambda>alg key nonce. hd (key @ [0])), rl_decrypter = (\<lambda>alg key nonce. hd (key @ [0])),
     rl_encrypt = (\<lambda>typ ver p sn k. (Ok ((p @ [0x17]) @ replicate TAG_LEN k), k)),
     rl_decrypt = (\<lambda>typ ver b sn k. (if drop (length b - TAG_LEN) b = replicate TAG_LEN k
        then Ok (butlast (take (length b - TAG_LEN) b)) else Err DecryptError, b, k))\<rparr>"

lemma demo_record_protects: "record_protects demo_record_lab (=)"
  unfolding record_protects_def
proof (intro conjI allI impI)
  fix enc dec :: u8 and p sn b enc'
  assume e: "enc = dec" and s: "seal_record demo_record_lab p sn enc = (Ok b, enc')"
  then have b: "b = (p @ [0x17]) @ replicate TAG_LEN dec" by (auto simp: seal_record_def demo_record_lab_def)
  show "\<exists>q t. b = q @ t \<and> length q = Suc (length p) \<and> length t = TAG_LEN \<and>
      fst (open_record demo_record_lab b sn dec) = Ok p \<and>
      (\<forall>t'. length t' = TAG_LEN \<longrightarrow> t' \<noteq> t \<longrightarrow> \<not> is_ok (fst (open_record demo_record_lab (q @ t') sn dec)) \<and>
         fst (snd (open_record demo_record_lab (q @ t') sn dec)) = q @ t')"
  proof (intro exI conjI allI impI)
    show "b = (p @ [0x17]) @ replicate TAG_LEN dec" by (rule b)
  qed (simp_all add: b open_record_def demo_record_lab_def)
qed (auto simp: seal_record_def open_record_def demo_record_lab_def)

lemma demo_lab_progress: "lab_progress demo_record_lab"
  using demo_hs_progress by (auto simp: lab_progress_def demo_record_lab_def)

section \<open>Properties\<close>

text \<open>
  The record open-reject surface measures what it claims to: for a decrypter that checks tags before it
  touches the buffer, the rig's own guards pass, the template is the sealed probe with its content
  type and tag, and every trial of either class is a batch of sixteen refusals of one and the same
  probe, whatever the earlier calls left in the decrypter; so the measurement always ends in a
  report.
\<close>

theorem record_surface_measures_refusals:
  assumes "record_protects L P" and "P enc dec" and "seal_record L plain sn enc = (Ok b, enc')"
    and "length plain = TAG_PROBE_LEN"
  shows "\<exists>rig. record_template L plain (sn, sn, enc, dec) = Ok rig \<and>
    length (rr_template rig) = TAG_PROBE_LEN + 1 + TAG_LEN \<and>
    (\<exists>rep r' s'. measure_surface rnd name False samples TAG_BATCH r (record_open_reject L rig) (rr_dec rig, w) = (Ok rep, r', s'))"
proof -
  obtain rig where rig: "record_template L plain (sn, sn, enc, dec) = Ok rig" "rr_template rig = b" "rr_seq rig = sn"
    "sealed_for L P sn (rr_dec rig) b" using record_template_total [OF assms] by blast
  let ?I = "\<lambda>s. sealed_for L P (rr_seq rig) (fst s) (rr_template rig)"
  have "\<exists>rep r' s'. measure_surface rnd name False samples TAG_BATCH r (record_open_reject L rig) (rr_dec rig, w) = (Ok rep, r', s')"
  proof (rule measure_total_from [where I = ?I])
    fix cls and s :: "'n \<times> 'a"
    assume "?I s"
    then show "?I (snd (record_open_reject L rig cls s)) \<and> is_ok (fst (record_open_reject L rig cls s))"
      using record_open_reject_trial [OF assms(1), of rig "fst s" cls "snd s"] by (cases s) auto
  qed (use rig in simp)
  moreover have "length (rr_template rig) = TAG_PROBE_LEN + 1 + TAG_LEN"
    using record_protectsD(3) [OF assms(1-3)] assms(4) rig(2) by simp
  ultimately show ?thesis using rig(1) by blast
qed

theorem record_surface_measures_refusals_witness:
  "\<exists>rig. record_template demo_record_lab (replicate TAG_PROBE_LEN 9) (4, 4, 5, 5) = Ok rig \<and>
    length (rr_template rig) = TAG_PROBE_LEN + 1 + TAG_LEN \<and>
    (\<exists>rep r' s'. measure_surface Fin ''record'' False 3 TAG_BATCH 1 (record_open_reject demo_record_lab rig) (rr_dec rig, 0) = (Ok rep, r', s'))"
  by (rule record_surface_measures_refusals [OF demo_record_protects, where enc' = 5])
    (simp_all add: seal_record_def demo_record_lab_def)

text \<open>
  Mask preparation separates the classes by value only: the random class works on the draw itself, the
  other on zeros of the same length, both written through the same code; a seal trial takes the same
  draws from its generator for both, and its random class is the one of the copying preparation.
\<close>

theorem mask_prep_changes_values_only:
  "mask_prep True random = random \<and> mask_prep False random = replicate (length random) 0 \<and>
   fst (snd (snd (record_seal L rig mask_prep True (enc, inputs, w)))) =
     fst (snd (snd (record_seal L rig mask_prep False (enc, inputs, w)))) \<and>
   record_seal L rig (copy_prep fixed) True (enc, inputs, w) = record_seal L rig mask_prep True (enc, inputs, w)"
proof -
  have t: "mask_prep True random = random" for random
  proof -
    have "(0xff :: u8) = - 1" by simp
    then have "r AND 0xff = r" for r :: u8 by (metis and.right_neutral)
    then show ?thesis by (simp add: mask_prep_def)
  qed
  have "mask_prep False random = replicate (length random) 0"
    by (simp add: mask_prep_def map_replicate_const)
  then show ?thesis by (simp add: t record_seal_def copy_prep_def Let_def split: prod.splits)
qed

end
