(* ===== verification/Tls_Bench.thy ===== *)
theory Tls_Bench
  imports Timing_Records Quic_Setup
begin

text \<open>
  The in-process benchmark (\<^verbatim>\<open>src/bench/tls-bench/src/main.rs\<close>): packet protection of both suites, TLS 1.3
  handshakes over memory and the record path. rustls's connections, its derivation of initial keys,
  the primitives and the clock are parameters; a printed line is a value. Floating-point numbers are
  those of \<^verbatim>\<open>Timing_Stats\<close>.
\<close>

section \<open>Measuring\<close>

text \<open>An operation works on a state of its own and does not look at the clock.\<close>

fun repeat_op :: "nat \<Rightarrow> ('x \<Rightarrow> 'x outcome option) \<Rightarrow> 'x \<Rightarrow> 'x outcome option" where
  "repeat_op 0 op x = Some (Done x)"
| "repeat_op (Suc k) op x = chain (op x) (repeat_op k op)"

definition timed_batch :: "(real \<Rightarrow> f64) \<Rightarrow> ('w \<Rightarrow> nat \<times> 'w) \<Rightarrow> nat \<Rightarrow> ('x \<Rightarrow> 'x outcome option) \<Rightarrow> 'x \<Rightarrow> 'w
    \<Rightarrow> (f64 \<times> 'x \<times> 'w) outcome option" where
  "timed_batch rnd now iters op x w =
     (case now w of (start, w) \<Rightarrow>
        chain (repeat_op iters op x) (\<lambda>x.
        case now w of (stop, w) \<Rightarrow>
          Some (Done (f_div rnd (as_secs_f64 rnd (stop - start)) (rnd (real iters)), x, w))))"

fun timed_batches :: "nat \<Rightarrow> (real \<Rightarrow> f64) \<Rightarrow> ('w \<Rightarrow> nat \<times> 'w) \<Rightarrow> nat \<Rightarrow> ('x \<Rightarrow> 'x outcome option) \<Rightarrow> 'x \<Rightarrow> 'w
    \<Rightarrow> (f64 list \<times> 'x \<times> 'w) outcome option" where
  "timed_batches 0 rnd now iters op x w = Some (Done ([], x, w))"
| "timed_batches (Suc k) rnd now iters op x w =
     chain (timed_batch rnd now iters op x w) (\<lambda>(t, x, w).
     chain (timed_batches k rnd now iters op x w) (\<lambda>(ts, x, w). Some (Done (t # ts, x, w))))"

definition TLS_BATCHES :: nat where "TLS_BATCHES = 9"

text \<open>
  The row is called with the median, the greatest and the least time of a call, in this order: its
  parameters are named for rates.
\<close>

definition time_row :: "f64 list \<Rightarrow> f64 \<times> f64 \<times> f64" where
  "time_row secs = (let ts = sort secs in (ts ! (length ts div 2), last ts, ts ! 0))"

definition measure_row :: "(real \<Rightarrow> f64) \<Rightarrow> ('w \<Rightarrow> nat \<times> 'w) \<Rightarrow> nat \<Rightarrow> ('x \<Rightarrow> 'x outcome option) \<Rightarrow> 'x \<Rightarrow> 'w
    \<Rightarrow> ((f64 \<times> f64 \<times> f64) \<times> 'x \<times> 'w) outcome option" where
  "measure_row rnd now iters op x w =
     chain (timed_batch rnd now iters op x w) (\<lambda>(_, x, w).
     chain (timed_batches TLS_BATCHES rnd now iters op x w) (\<lambda>(secs, x, w).
       Some (Done (time_row secs, x, w))))"

text \<open>A printed line: its name, its detail (a suite, with a payload size where one is printed), its unit and the three numbers.\<close>

datatype bench_line = Bench_Line string "string \<times> nat option" string "f64 \<times> f64 \<times> f64"

fun row_map :: "(f64 \<Rightarrow> f64) \<Rightarrow> f64 \<times> f64 \<times> f64 \<Rightarrow> f64 \<times> f64 \<times> f64" where
  "row_map f (a, b, c) = (f a, f b, f c)"

definition megabytes :: "(real \<Rightarrow> f64) \<Rightarrow> nat \<Rightarrow> f64 \<Rightarrow> f64" where
  "megabytes rnd len seconds = f_div rnd (f_div rnd (rnd (real len)) seconds) (Fin (10 ^ 6))"

fun suite_label :: "cipher_suite \<Rightarrow> string" where
  "suite_label TLS13_AES_128_GCM_SHA256 = ''aes-128-gcm''"
| "suite_label TLS13_CHACHA20_POLY1305_SHA256 = ''chacha20-poly1305''"
| "suite_label (OtherSuite _) = ''unknown''"

section \<open>Packet protection\<close>

definition AEAD_SIZES :: "nat list" where "AEAD_SIZES = [256, 1200, 16384]"

definition aead_iters :: "nat \<Rightarrow> nat" where
  "aead_iters len = (if len \<le> 512 then 20000 else if len \<le> 4096 then 5000 else 1000)"

definition BENCH_HEADER :: bytes where "BENCH_HEADER = [0x42, 0xc0, 0xff, 0xee]"
definition BENCH_CID :: bytes where "BENCH_CID = [0x83, 0x94, 0xc8, 0xf0, 0x3e, 0x51, 0x57, 0x08]"

text \<open>Sealing in place: the tag is copied behind the payload, and the packet number moves on.\<close>

definition seal_op :: "('c, 'h) quic_env \<Rightarrow> 'c packet_key \<Rightarrow> nat \<Rightarrow> u64 \<times> bytes \<Rightarrow> (u64 \<times> bytes) outcome option" where
  "seal_op E k plain_len st =
     (case st of (pn, payload) \<Rightarrow>
        (case encrypt_in_place (qe_aead E) (qe_nonces E) k pn BENCH_HEADER (take plain_len payload) of
           (Inl e, _) \<Rightarrow> Some (Panics ''seal'')
         | (Inr tag, body) \<Rightarrow>
             if length tag = length payload - plain_len then Some (Done (pn + 1, body @ tag))
             else Some (Panics ''copy_from_slice: source slice length does not match destination slice length'')))"

definition open_op :: "('c, 'h) quic_env \<Rightarrow> 'c packet_key \<Rightarrow> u64 \<Rightarrow> bytes \<Rightarrow> bytes \<Rightarrow> bytes outcome option" where
  "open_op E k sealed_pn sealed payload =
     (case decrypt_in_place (qe_aead E) (qe_nonces E) k sealed_pn BENCH_HEADER sealed of
        (Inl e, _) \<Rightarrow> Some (Panics ''open'')
      | (Inr _, payload) \<Rightarrow> Some (Done payload))"

definition mask_op :: "('c, 'h) quic_env \<Rightarrow> 'h \<Rightarrow> u8 \<times> bytes \<Rightarrow> (u8 \<times> bytes) outcome option" where
  "mask_op E hk st =
     (case st of (first, pn_bytes) \<Rightarrow>
        (case qe_hp_encrypt E hk (replicate 16 0x5a) first pn_bytes of
           (Inl e, _) \<Rightarrow> Some (Panics ''mask'')
         | (Inr _, st) \<Rightarrow> Some (Done st)))"

definition aead_suite_size :: "(real \<Rightarrow> f64) \<Rightarrow> ('w \<Rightarrow> nat \<times> 'w) \<Rightarrow> ('c, 'h) quic_env \<Rightarrow> string \<Rightarrow> nat \<Rightarrow> 'w
    \<Rightarrow> (bench_line list \<times> 'w) outcome option" where
  "aead_suite_size rnd now E label len w =
     (let keys = qk_local (qe_keys E BENCH_CID Client_Side);
          packet = dk_packet keys;
          payload = replicate (len + tag_len packet) 0xa5
      in chain (measure_row rnd now (aead_iters len) (seal_op E packet len) (0, payload) w) (\<lambda>(seal_row, (pn, payload), w).
         chain (measure_row rnd now (aead_iters len) (open_op E packet (pn - 1) payload) payload w) (\<lambda>(open_row, _, w).
         chain (measure_row rnd now 200000 (mask_op E (dk_header keys)) (0x42, replicate 4 0) w) (\<lambda>(hp_row, _, w).
           Some (Done ([Bench_Line ''aead-seal'' (label, Some len) ''MB/s'' (row_map (megabytes rnd len) seal_row),
             Bench_Line ''aead-open'' (label, Some len) ''MB/s'' (row_map (megabytes rnd len) open_row),
             Bench_Line ''header-mask'' (label, None) ''ns/op'' (row_map (\<lambda>t. f_mul rnd t (Fin (10 ^ 9))) hp_row)], w))))))"

fun aead_sizes :: "nat list \<Rightarrow> (real \<Rightarrow> f64) \<Rightarrow> ('w \<Rightarrow> nat \<times> 'w) \<Rightarrow> ('c, 'h) quic_env \<Rightarrow> string \<Rightarrow> 'w
    \<Rightarrow> (bench_line list \<times> 'w) outcome option" where
  "aead_sizes [] rnd now E label w = Some (Done ([], w))"
| "aead_sizes (len # lens) rnd now E label w =
     chain (aead_suite_size rnd now E label len w) (\<lambda>(xs, w).
     chain (aead_sizes lens rnd now E label w) (\<lambda>(ys, w). Some (Done (xs @ ys, w))))"

text \<open>A suite's packet protection is that of its algorithm, each with primitives of its own.\<close>

fun aead_suites :: "('h0, 'k0, 'a0) supported_cipher_suite list \<Rightarrow> (real \<Rightarrow> f64) \<Rightarrow> ('w \<Rightarrow> nat \<times> 'w) \<Rightarrow> ('c1, 'h1) quic_env \<Rightarrow> ('c2, 'h2) quic_env
    \<Rightarrow> 'w \<Rightarrow> (bench_line list \<times> 'w) outcome option" where
  "aead_suites [] rnd now EC EA w = Some (Done ([], w))"
| "aead_suites (s # ss) rnd now EC EA w =
     chain (case s of
         Tls12 _ \<Rightarrow> Some (Panics ''profile suites are TLS 1.3'')
       | Tls13 t13 \<Rightarrow>
           (case quic t13 of
              None \<Rightarrow> Some (Panics ''QUIC provider suites carry QUIC support'')
            | Some ChaCha20Poly1305Algorithm \<Rightarrow> aead_sizes AEAD_SIZES rnd now EC (suite_label (suite_id s)) w
            | Some Aes128GcmAlgorithm \<Rightarrow> aead_sizes AEAD_SIZES rnd now EA (suite_label (suite_id s)) w)) (\<lambda>(xs, w).
     chain (aead_suites ss rnd now EC EA w) (\<lambda>(ys, w). Some (Done (xs @ ys, w))))"

definition aead_bench where
  "aead_bench R rnd now EC EA w =
     chain (Some (outcome_of (quic_provider R))) (\<lambda>p. aead_suites (cipher_suites p) rnd now EC EA w)"

section \<open>TLS over memory\<close>

text \<open>What the TLS part runs on: rustls's builders, its connections, and the embedded certificates.\<close>

record ('h, 'k, 'a, 'g, 'v, 'r, 's, 'sk, 'roots, 'cl, 'sv) tls_rig =
  tb_builder :: "('h, 'k, 'a, 'g, 'v, 'r, 's) builder_ops"
  tb_rustcrypto :: "('h, 'k, 'a, 'g, 'v, 'r, 's) rustcrypto"
  tb_dalek :: "'sk ed25519_ops"
  tb_roots_empty :: 'roots
  tb_roots_add :: "certificate_der \<Rightarrow> 'roots \<Rightarrow> ('roots, string) result"
  tb_ca :: bytes
  tb_leaf :: bytes
  tb_leaf_key :: bytes
  tb_new_client :: "('h, 'k, 'a, 'g, 'v, 'r, 's, 'roots) client_config \<Rightarrow> string \<Rightarrow> ('cl, string) result"
  tb_new_server :: "('h, 'k, 'a, 'g, 'v, 'r, 's) server_config \<Rightarrow> ('sv, string) result"
  tb_client :: "'cl hs_conn"
  tb_server :: "'sv hs_conn"
  tb_write_all :: "bytes \<Rightarrow> 'cl \<Rightarrow> (unit, string) result \<times> 'cl"
  tb_read :: "nat \<Rightarrow> 'sv \<Rightarrow> (bytes, string) result \<times> 'sv"

text \<open>The profile's provider with one suite; the other fields are the base's.\<close>

definition single_suite_provider where
  "single_suite_provider R s = (case core_provider R of Inl m \<Rightarrow> Panic m | Inr base \<Rightarrow> Ok (base\<lparr>cipher_suites := [s]\<rparr>))"

definition bench_configs where
  "bench_configs T prov =
     (case tb_roots_add T (tb_ca T) (tb_roots_empty T) of
        Inl e \<Rightarrow> Panics ''fixture CA''
      | Inr roots \<Rightarrow>
     (case ed25519_identity_from_pkcs8_der (tb_dalek T) [tb_leaf T] (tb_leaf_key T) of
        Inl e \<Rightarrow> Panics ''fixture identity''
      | Inr identity \<Rightarrow>
     (case prov of
        Some p \<Rightarrow>
          if \<not> supports_versions (tb_builder T) p [TLSv1_3] then Panics ''called `Result::unwrap()` on an `Err` value''
          else (case with_single_cert (tb_builder T) p (fst (into_parts identity)) (snd (into_parts identity)) of
                  Inl e \<Rightarrow> Panics ''fixture identity''
                | Inr ck \<Rightarrow> Done (\<lparr>cc_provider = p, cc_versions = [TLSv1_3], cc_server_auth = WithRootCertificates roots, cc_client_auth = NoClientAuth\<rparr>,
                    \<lparr>sc_provider = p, sc_versions = [TLSv1_3], sc_client_verification = NoClientCert, sc_resolver = SingleCert ck\<rparr>))
      | None \<Rightarrow>
          (case core_client_config (tb_builder T) (tb_rustcrypto T) roots of
             Inl m \<Rightarrow> Panics m
           | Inr client \<Rightarrow>
               (case core_server_config (tb_builder T) (tb_rustcrypto T) (SI_Ed25519 identity) of
                  Inl m \<Rightarrow> Panics m
                | Inr (Inl e) \<Rightarrow> Panics ''fixture identity''
                | Inr (Inr server) \<Rightarrow> Done (client, server))))))"

text \<open>Feeding a connection: a read that takes nothing of a non-empty buffer is a panic, so the loop ends.\<close>

function feed_checked :: "'c hs_conn \<Rightarrow> string \<Rightarrow> 'c \<Rightarrow> bytes \<Rightarrow> 'c outcome" where
  "feed_checked ops who c rd =
     (if rd = [] then Done c
      else case hc_read_tls ops rd c of
             (Inl e, c) \<Rightarrow> Panics (who @ '' read_tls'')
           | (Inr n, c) \<Rightarrow> if 0 < n then feed_checked ops who c (drop n rd) else Panics ''assertion failed: n > 0'')"
  by pat_completeness auto
termination
  by (relation "measure (\<lambda>(ops, who, c, rd). length rd)") auto

declare feed_checked.simps [simp del]

text \<open>One direction of a turn of \<open>pump\<close>; it moved if the writer wrote something.\<close>

definition pass_on :: "'a hs_conn \<Rightarrow> 'b hs_conn \<Rightarrow> string \<Rightarrow> string \<Rightarrow> 'a \<Rightarrow> 'b \<Rightarrow> (bool \<times> 'a \<times> 'b) outcome option" where
  "pass_on W D writer reader c d =
     (case write_flight W writer c [] of
        None \<Rightarrow> None
      | Some (Inl e, c) \<Rightarrow> Some (Panics (writer @ '' write_tls''))
      | Some (Inr buf, c) \<Rightarrow>
          if buf = [] then Some (Done (False, c, d))
          else chain (Some (feed_checked D reader d buf)) (\<lambda>d.
            case hc_process D d of
              (Inl e, d) \<Rightarrow> Some (Panics (reader @ '' packets''))
            | (Inr _, d) \<Rightarrow> Some (Done (True, c, d))))"

definition tls_turn :: "'cl hs_conn \<Rightarrow> 'sv hs_conn \<Rightarrow> ('cl \<times> 'sv, unit) pumping" where
  "tls_turn C S p u =
     (case p of (c, s) \<Rightarrow>
        chain (pass_on C S ''client'' ''server'' c s) (\<lambda>(m1, c, s).
        chain (pass_on S C ''server'' ''client'' s c) (\<lambda>(m2, s, c). Some (Done (m1 \<or> m2, (c, s), u)))))"

definition tls_pump :: "'cl hs_conn \<Rightarrow> 'sv hs_conn \<Rightarrow> 'cl \<times> 'sv \<Rightarrow> (('cl \<times> 'sv) \<times> unit) outcome option" where
  "tls_pump C S p = pump_while (tls_turn C S) p ()"

definition bench_connected where
  "bench_connected T client_config server_config =
     (case tb_new_client T client_config ''localhost'' of
        Inl e \<Rightarrow> Some (Panics ''client connection'')
      | Inr c \<Rightarrow>
     (case tb_new_server T server_config of
        Inl e \<Rightarrow> Some (Panics ''server connection'')
      | Inr s \<Rightarrow>
          chain (tls_pump (tb_client T) (tb_server T) (c, s)) (\<lambda>((c, s), _).
          if \<not> hc_is_handshaking (tb_client T) c \<and> \<not> hc_is_handshaking (tb_server T) s then Some (Done (c, s))
          else Some (Panics ''assertion failed: !client.is_handshaking() && !server.is_handshaking()''))))"

definition handshake_bench where
  "handshake_bench T rnd now w =
     chain (Some (bench_configs T None)) (\<lambda>(cc, sc).
     chain (measure_row rnd now 50 (\<lambda>u. chain (bench_connected T cc sc) (\<lambda>_. Some (Done u))) () w) (\<lambda>(row, _, w).
       Some (Done ([Bench_Line ''handshake'' (''ed25519'', None) ''handshakes/s'' (row_map (f_div rnd (Fin 1)) row)], w))))"

definition BULK_BATCH_BYTES :: nat where "BULK_BATCH_BYTES = 8 * 1024 * 1024"
definition TLS_BULK_CHUNK :: nat where "TLS_BULK_CHUNK = 32 * 1024"

text \<open>\<open>while received < BULK_CHUNK\<close>; a read that gives nothing for ever does not end.\<close>

partial_function (option) read_bulk :: "(nat \<Rightarrow> 'sv \<Rightarrow> (bytes, string) result \<times> 'sv) \<Rightarrow> nat \<Rightarrow> 'sv \<Rightarrow> (nat \<times> 'sv) outcome option" where
  "read_bulk rd got s =
     (if got < TLS_BULK_CHUNK
      then (case rd (2 * TLS_BULK_CHUNK) s of
              (Inl e, s) \<Rightarrow> Some (Panics ''plaintext read'')
            | (Inr b, s) \<Rightarrow> read_bulk rd (got + length b) s)
      else Some (Done (got, s)))"

partial_function (option) read_records :: "'c hs_conn \<Rightarrow> 'c \<Rightarrow> bytes \<Rightarrow> 'c outcome option" where
  "read_records ops c rd =
     (if rd = [] then Some (Done c)
      else case hc_read_tls ops rd c of
             (Inl e, c) \<Rightarrow> Some (Panics ''server read_tls'')
           | (Inr n, c) \<Rightarrow>
               (case hc_process ops c of
                  (Inl e, c) \<Rightarrow> Some (Panics ''server packets'')
                | (Inr _, c) \<Rightarrow> read_records ops c (drop n rd)))"

definition push_chunk where
  "push_chunk T p =
     (case p of (c, s) \<Rightarrow>
        (case tb_write_all T (replicate TLS_BULK_CHUNK 0xa5) c of
           (Inl e, _) \<Rightarrow> Some (Panics ''plaintext write'')
         | (Inr _, c) \<Rightarrow>
        (case write_flight (tb_client T) ''client'' c [] of
           None \<Rightarrow> None
         | Some (Inl e, _) \<Rightarrow> Some (Panics ''client write_tls'')
         | Some (Inr buf, c) \<Rightarrow>
             chain (read_records (tb_server T) s buf) (\<lambda>s.
             chain (read_bulk (tb_read T) 0 s) (\<lambda>(got, s).
               if got = TLS_BULK_CHUNK then Some (Done (c, s)) else Some (Panics ''assertion `left == right` failed''))))))"

definition bulk_suite where
  "bulk_suite T rnd now s w =
     chain (Some (outcome_of s)) (\<lambda>s.
     chain (Some (outcome_of (single_suite_provider (tb_rustcrypto T) s))) (\<lambda>prov.
     chain (Some (bench_configs T (Some prov))) (\<lambda>(cc, sc).
     chain (bench_connected T cc sc) (\<lambda>p.
     chain (measure_row rnd now (BULK_BATCH_BYTES div TLS_BULK_CHUNK) (push_chunk T) p w) (\<lambda>(row, _, w).
       Some (Done (Bench_Line ''tls-bulk'' (suite_label (suite_id s), None) ''MB/s'' (row_map (megabytes rnd TLS_BULK_CHUNK) row), w)))))))"

definition bulk_bench_lines where
  "bulk_bench_lines T rnd now w =
     chain (bulk_suite T rnd now (quic_chacha_suite (tb_rustcrypto T)) w) (\<lambda>(a, w).
     chain (bulk_suite T rnd now (quic_aes_suite (tb_rustcrypto T)) w) (\<lambda>(b, w). Some (Done ([a, b], w))))"

definition tls_bench_main where
  "tls_bench_main T rnd now EC EA args w =
     (let aead = aead_bench (tb_rustcrypto T) rnd now EC EA
      in case drop 1 args of
           mode # _ \<Rightarrow>
             if mode = ''aead'' then aead w
             else if mode = ''handshake'' then handshake_bench T rnd now w
             else if mode = ''bulk'' then bulk_bench_lines T rnd now w
             else if mode = ''all'' then
               chain (aead w) (\<lambda>(xs, w). chain (handshake_bench T rnd now w) (\<lambda>(ys, w).
               chain (bulk_bench_lines T rnd now w) (\<lambda>(zs, w). Some (Done (xs @ ys @ zs, w)))))
             else Some (Exits 2 ''usage'')
         | [] \<Rightarrow> Some (Exits 2 ''usage''))"

section \<open>Laws\<close>

text \<open>An operation that keeps an indexed property runs any number of times.\<close>

definition steps :: "(nat \<Rightarrow> 'x \<Rightarrow> bool) \<Rightarrow> ('x \<Rightarrow> 'x outcome option) \<Rightarrow> bool" where
  "steps J op \<longleftrightarrow> (\<forall>n x. J n x \<longrightarrow> (\<exists>x'. op x = Some (Done x') \<and> J (Suc n) x'))"

lemma steps_step: "steps J op \<Longrightarrow> J n x \<Longrightarrow> \<exists>x'. op x = Some (Done x') \<and> J (Suc n) x'"
  by (simp add: steps_def)

lemma repeat_op_count:
  assumes step: "steps J op" and "J n x"
  shows "\<exists>x'. repeat_op k op x = Some (Done x') \<and> J (n + k) x'"
  using assms(2)
proof (induction k arbitrary: n x)
  case (Suc k)
  obtain x1 where x1: "op x = Some (Done x1)" "J (Suc n) x1" using steps_step [OF step Suc.prems] by blast
  from Suc.IH [OF x1(2)] show ?case using x1(1) by simp
qed simp

lemma timed_batch_count:
  assumes step: "steps J op" and "J n x"
  shows "\<exists>t x' w'. timed_batch rnd now iters op x w = Some (Done (t, x', w')) \<and> J (n + iters) x'"
proof -
  obtain x' where "repeat_op iters op x = Some (Done x')" "J (n + iters) x'"
    using repeat_op_count [OF step assms(2)] by blast
  then show ?thesis by (auto simp: timed_batch_def split: prod.split)
qed

lemma timed_batches_count:
  assumes step: "steps J op" and "J n x"
  shows "\<exists>ts x' w'. timed_batches k rnd now iters op x w = Some (Done (ts, x', w')) \<and> J (n + k * iters) x'"
  using assms(2)
proof (induction k arbitrary: n x w)
  case (Suc k)
  obtain t x1 w1 where t: "timed_batch rnd now iters op x w = Some (Done (t, x1, w1))" "J (n + iters) x1"
    using timed_batch_count [OF step Suc.prems, of rnd now iters w] by blast
  from Suc.IH [OF t(2), of w1] show ?case using t(1) by (auto simp: add.assoc)
qed simp

lemma measure_row_count:
  assumes step: "steps J op" and "J n x"
  shows "\<exists>row x' w'. measure_row rnd now iters op x w = Some (Done (row, x', w')) \<and> J (n + 10 * iters) x'"
proof -
  obtain t x1 w1 where t: "timed_batch rnd now iters op x w = Some (Done (t, x1, w1))" "J (n + iters) x1"
    using timed_batch_count [OF step assms(2), of rnd now iters w] by blast
  obtain ts x2 w2 where b: "timed_batches TLS_BATCHES rnd now iters op x1 w1 = Some (Done (ts, x2, w2))"
    "J (n + iters + TLS_BATCHES * iters) x2"
    using timed_batches_count [OF step t(2), of TLS_BATCHES rnd now iters w1] by blast
  have "n + iters + TLS_BATCHES * iters = n + 10 * iters" by (simp add: TLS_BATCHES_def)
  with b(2) have "J (n + 10 * iters) x2" by metis
  then show ?thesis using t(1) b(1) by (cases "time_row ts") (auto simp: measure_row_def)
qed

lemma timed_batches_length:
  "timed_batches k rnd now iters op x w = Some (Done (ts, x', w')) \<Longrightarrow> length ts = k"
  by (induction k arbitrary: x w ts x' w') (auto simp: chain_Done)

lemma time_row_order:
  assumes "secs \<noteq> []" and "time_row secs = (median, slowest, fastest)"
  shows "fastest \<le> median \<and> median \<le> slowest \<and> {median, slowest, fastest} \<subseteq> set secs"
proof -
  let ?s = "sort secs"
  have n: "?s \<noteq> []" using assms(1) by (metis length_0_conv length_sort)
  have h: "length ?s div 2 < length ?s" using assms(1) by simp
  have l: "last ?s = ?s ! (length ?s - 1)" using n by (rule last_conv_nth)
  have m: "median = ?s ! (length ?s div 2)" "slowest = last ?s" "fastest = ?s ! 0"
    using assms(2) by (simp_all add: time_row_def Let_def)
  have "?s ! 0 \<le> ?s ! (length ?s div 2)" by (rule sorted_nth_mono) (use n h in auto)
  moreover have "?s ! (length ?s div 2) \<le> ?s ! (length ?s - 1)" by (rule sorted_nth_mono) (use n h in auto)
  moreover have "set ?s = set secs" by simp
  ultimately show ?thesis using m l n h by (metis nth_mem last_in_set length_greater_0_conv insert_subset empty_subsetI)
qed

lemma measure_row_order:
  assumes "measure_row rnd now iters op x w = Some (Done ((median, slowest, fastest), x', w'))"
  shows "fastest \<le> median \<and> median \<le> slowest"
proof -
  obtain secs x1 w1 where t: "timed_batches TLS_BATCHES rnd now iters op x1 w1 = Some (Done (secs, x', w'))"
    "time_row secs = (median, slowest, fastest)" using assms by (auto simp: measure_row_def chain_Done)
  have "secs \<noteq> []" using timed_batches_length [OF t(1)] by (auto simp: TLS_BATCHES_def)
  from time_row_order [OF this t(2)] show ?thesis by blast
qed

lemma measure_row_returns:
  assumes "\<And>x. \<exists>r. op x = Some r"
  shows "\<exists>r. measure_row rnd now iters op x w = Some r"
proof -
  have r: "\<exists>r. repeat_op k op x = Some r" for k x
    by (induction k arbitrary: x) (use assms in \<open>auto intro!: chain_total\<close>)
  have b: "\<exists>r. timed_batch rnd now iters op x w = Some r" for x w
    by (auto simp: timed_batch_def intro!: chain_total r split: prod.split)
  have "\<exists>r. timed_batches k rnd now iters op x w = Some r" for k x w
    by (induction k arbitrary: x w) (auto intro!: chain_total b)
  then show ?thesis by (auto simp: measure_row_def intro!: chain_total b)
qed

section \<open>The packet benchmark\<close>

text \<open>
  What it asks of the primitives: the key seals what fits a record, and the header key masks four
  bytes under a sample of sixteen.
\<close>

definition seals_records :: "('c, 'h) quic_env \<Rightarrow> 'c packet_key \<Rightarrow> bool" where
  "seals_records E k \<longleftrightarrow> (\<forall>n a p. length p \<le> 16384 \<longrightarrow>
     (\<exists>q t. encrypt_inout_detached (qe_aead E) (cipher k) n a p = (q, Some t)))"

definition mask_ready :: "('c, 'h) quic_env \<Rightarrow> 'h \<Rightarrow> bool" where
  "mask_ready E hk \<longleftrightarrow> (\<forall>sample first pn. length sample = 16 \<longrightarrow> length pn = 4 \<longrightarrow>
     (\<exists>first' pn'. qe_hp_encrypt E hk sample first pn = (Ok (), first', pn') \<and> length pn' = 4))"

lemma xor_pn_loop_length [simp]: "length (xor_pn_loop P pn_len i dsts ms) = length dsts"
  by (induction P pn_len i dsts ms rule: xor_pn_loop.induct) (simp_all add: Let_def)

text \<open>The header keys of both algorithms are ready.\<close>

lemma aes_mask_ready:
  assumes "qe_hp_encrypt E = aes_hp_encrypt_in_place P" and "\<And>k b. length b = 16 \<Longrightarrow> length (encrypt_block P k b) = 16"
  shows "mask_ready E hk"
  using assms by (auto simp: mask_ready_def aes_hp_encrypt_in_place_def aes_mask_def xor_in_place_def Let_def)

lemma chacha_mask_ready:
  assumes "qe_hp_encrypt E = chacha_hp_encrypt_in_place P"
  shows "mask_ready E hk"
  using assms by (auto simp: mask_ready_def chacha_hp_encrypt_in_place_def chacha_mask_def xor_in_place_def Let_def)

text \<open>After \<open>n\<close> seals the buffer holds the packet sealed under number \<open>n - 1\<close>.\<close>

definition sealed_after :: "('c, 'h) quic_env \<Rightarrow> 'c packet_key \<Rightarrow> nat \<Rightarrow> nat \<Rightarrow> u64 \<times> bytes \<Rightarrow> bool" where
  "sealed_after E k len n st \<longleftrightarrow> fst st = of_nat n \<and> length (snd st) = len + 16 \<and>
     (0 < n \<longrightarrow> (\<exists>p t q. seal_with (qe_aead E) k (nonce_new (qe_nonces E) (iv k) (of_nat (n - 1))) BENCH_HEADER p = (Ok t, q) \<and>
        snd st = q @ t))"

lemma seal_op_steps:
  assumes "aead_ok (qe_aead E)" and "seals_records E k" and "len \<le> 16384"
  shows "steps (sealed_after E k len) (seal_op E k len)"
  unfolding steps_def
proof (intro allI impI)
  fix n :: nat and x :: "u64 \<times> bytes"
  assume J: "sealed_after E k len n x"
  obtain payload where x: "x = (of_nat n, payload)" "length payload = len + 16"
    using J by (cases x) (simp add: sealed_after_def)
  let ?n = "nonce_new (qe_nonces E) (iv k) (of_nat n)"
  obtain q t where e: "encrypt_inout_detached (qe_aead E) (cipher k) ?n BENCH_HEADER (take len payload) = (q, Some t)"
    using assms(2,3) x(2) unfolding seals_records_def by (metis add_leE length_take min.absorb2 le_add1)
  have l: "length q = len" "length t = 16" using assms(1) e x(2) by (auto simp: aead_ok_def)
  have s: "seal_with (qe_aead E) k ?n BENCH_HEADER (take len payload) = (Ok t, q)" using e by (simp add: seal_with_def)
  then have "seal_op E k len x = Some (Done (of_nat (Suc n), q @ t))"
    using x l by (simp add: seal_op_def encrypt_in_place_def add.commute)
  moreover have "sealed_after E k len (Suc n) (of_nat (Suc n), q @ t)"
    using l s by (auto simp: sealed_after_def simp del: of_nat_Suc)
  ultimately show "\<exists>x'. seal_op E k len x = Some (Done x') \<and> sealed_after E k len (Suc n) x'" by blast
qed

lemma open_op_steps:
  assumes "aead_ok (qe_aead E)" and J: "sealed_after E k len (Suc n) (pn, payload)"
  shows "steps (\<lambda>_ _. True) (open_op E k (pn - 1) payload)"
proof -
  obtain p t q where s: "seal_with (qe_aead E) k (nonce_new (qe_nonces E) (iv k) (of_nat n)) BENCH_HEADER p = (Ok t, q)"
    "payload = q @ t" using J by (auto simp: sealed_after_def)
  have "pn - 1 = of_nat n" using J by (simp add: sealed_after_def)
  then show ?thesis using open_with_seal [OF assms(1) s(1)] s(2)
    by (simp add: steps_def open_op_def decrypt_in_place_def)
qed

lemma mask_op_steps: "mask_ready E hk \<Longrightarrow> steps (\<lambda>_ st. length (snd st) = 4) (mask_op E hk)"
  unfolding steps_def mask_op_def mask_ready_def
  by (auto simp: length_replicate split: prod.splits sum.splits) (metis Inr_inject length_replicate prod.inject sum.distinct(1))+

text \<open>The row of a measurement, with its times in the order it is called with.\<close>

fun row_ordered :: "f64 \<times> f64 \<times> f64 \<Rightarrow> bool" where
  "row_ordered (median, slowest, fastest) \<longleftrightarrow> fastest \<le> median \<and> median \<le> slowest"

lemma measure_row_ordered: "measure_row rnd now iters op x w = Some (Done (row, x', w')) \<Longrightarrow> row_ordered row"
  by (cases row) (auto dest: measure_row_order)

text \<open>
  C33. The packet benchmark of one suite and size never panics: each seal succeeds, the packet it
  leaves in the buffer opens in every round of the second measurement, and the header key masks in
  every round of the third; it prints its three lines, each from times in their order.
\<close>

theorem packet_benchmark_completes:
  assumes "aead_ok (qe_aead E)" and "keys = qk_local (qe_keys E BENCH_CID Client_Side)"
    and "seals_records E (dk_packet keys)" and "mask_ready E (dk_header keys)" and "len \<le> 16384"
  shows "\<exists>seal_row open_row hp_row w'. aead_suite_size rnd now E label len w =
      Some (Done ([Bench_Line ''aead-seal'' (label, Some len) ''MB/s'' (row_map (megabytes rnd len) seal_row),
        Bench_Line ''aead-open'' (label, Some len) ''MB/s'' (row_map (megabytes rnd len) open_row),
        Bench_Line ''header-mask'' (label, None) ''ns/op'' (row_map (\<lambda>t. f_mul rnd t (Fin (10 ^ 9))) hp_row)], w')) \<and>
    row_ordered seal_row \<and> row_ordered open_row \<and> row_ordered hp_row"
proof -
  let ?k = "dk_packet keys" and ?i = "aead_iters len"
  have "sealed_after E ?k len 0 (0, replicate (len + tag_len ?k) 0xa5)" by (simp add: sealed_after_def tag_len_def)
  from measure_row_count [OF seal_op_steps [OF assms(1,3,5)] this, of rnd now ?i w]
  obtain r1 pn payload w1 where 1: "measure_row rnd now ?i (seal_op E ?k len) (0, replicate (len + tag_len ?k) 0xa5) w =
      Some (Done (r1, (pn, payload), w1))" "sealed_after E ?k len (10 * ?i) (pn, payload)" by auto
  have "10 * ?i = Suc (10 * ?i - 1)" by (simp add: aead_iters_def)
  then have "sealed_after E ?k len (Suc (10 * ?i - 1)) (pn, payload)" using 1(2) by metis
  from measure_row_count [OF open_op_steps [OF assms(1) this] TrueI, where rnd = rnd and now = now and iters = ?i and x = payload and w = w1]
  obtain r2 x2 w2 where 2: "measure_row rnd now ?i (open_op E ?k (pn - 1) payload) payload w1 = Some (Done (r2, x2, w2))"
    by auto
  from measure_row_count [OF mask_op_steps [OF assms(4)], where x = "(0x42, replicate 4 0)" and rnd = rnd and now = now
      and iters = 200000 and w = w2]
  obtain r3 x3 w3 where 3: "measure_row rnd now 200000 (mask_op E (dk_header keys)) (0x42, replicate 4 0) w2 = Some (Done (r3, x3, w3))"
    by auto
  have "aead_suite_size rnd now E label len w =
      Some (Done ([Bench_Line ''aead-seal'' (label, Some len) ''MB/s'' (row_map (megabytes rnd len) r1),
        Bench_Line ''aead-open'' (label, Some len) ''MB/s'' (row_map (megabytes rnd len) r2),
        Bench_Line ''header-mask'' (label, None) ''ns/op'' (row_map (\<lambda>t. f_mul rnd t (Fin (10 ^ 9))) r3)], w3))"
    using 1(1) 2 3 by (simp add: aead_suite_size_def Let_def assms(2) [symmetric])
  then show ?thesis using 1(1) 2 3 by (blast intro: measure_row_ordered)
qed

theorem packet_benchmark_completes_witness:
  "\<exists>seal_row open_row hp_row w'. aead_suite_size Fin demo_clock demo_quic_env ''aes-128-gcm'' 1200 0 =
      Some (Done ([Bench_Line ''aead-seal'' (''aes-128-gcm'', Some 1200) ''MB/s'' (row_map (megabytes Fin 1200) seal_row),
        Bench_Line ''aead-open'' (''aes-128-gcm'', Some 1200) ''MB/s'' (row_map (megabytes Fin 1200) open_row),
        Bench_Line ''header-mask'' (''aes-128-gcm'', None) ''ns/op'' (row_map (\<lambda>t. f_mul Fin t (Fin (10 ^ 9))) hp_row)], w')) \<and>
    row_ordered seal_row \<and> row_ordered open_row \<and> row_ordered hp_row"
proof (rule packet_benchmark_completes [OF _ refl])
  show "aead_ok (qe_aead demo_quic_env)" using demo_quic_env_ok by (simp add: quic_env_ok_def)
  show "seals_records demo_quic_env (dk_packet (qk_local (qe_keys demo_quic_env BENCH_CID Client_Side)))"
    by (simp add: seals_records_def demo_quic_env_def demo_aead_def)
  show "mask_ready demo_quic_env (dk_header (qk_local (qe_keys demo_quic_env BENCH_CID Client_Side)))"
    by (rule aes_mask_ready [where P = demo_prims]) (use demo_prims_ok in \<open>simp_all add: demo_quic_env_def hp_prims_ok_def\<close>)
qed simp

text \<open>
  The lines are documented as median, least and greatest. Times come to the row slowest first, which
  is right for the rates; the header mask is printed as a time, so its second column, the least one,
  is the slowest batch.
\<close>

theorem header_mask_columns_swapped:
  assumes "aead_suite_size rnd now E label len w = Some (Done (lines, w'))"
  shows "\<exists>median slowest fastest. lines ! 2 = Bench_Line ''header-mask'' (label, None) ''ns/op''
      (f_mul rnd median (Fin (10 ^ 9)), f_mul rnd slowest (Fin (10 ^ 9)), f_mul rnd fastest (Fin (10 ^ 9))) \<and>
    fastest \<le> median \<and> median \<le> slowest"
proof -
  obtain st' w1 median slowest fastest s1 s2 w2 where
    m: "measure_row rnd now 200000 (mask_op E (dk_header (qk_local (qe_keys E BENCH_CID Client_Side)))) (0x42, replicate 4 0) w1 =
      Some (Done ((median, slowest, fastest), st', w2))" and
    l: "lines = [s1, s2, Bench_Line ''header-mask'' (label, None) ''ns/op''
      (row_map (\<lambda>t. f_mul rnd t (Fin (10 ^ 9))) (median, slowest, fastest))]"
    using assms by (auto simp: aead_suite_size_def Let_def chain_Done)
  from measure_row_order [OF m] show ?thesis using l by auto
qed

section \<open>Termination\<close>

text \<open>
  The peers of the benchmark come to rest: some measure falls with each turn in which bytes moved. A
  reader either has plaintext or reports an error; an empty read is the end of a stream, which no
  peer here closes.
\<close>

definition peers_settle :: "'cl hs_conn \<Rightarrow> 'sv hs_conn \<Rightarrow> ('cl \<times> 'sv \<Rightarrow> nat) \<Rightarrow> bool" where
  "peers_settle C S m \<longleftrightarrow> (\<forall>p p' u. tls_turn C S p u = Some (Done (True, p', u)) \<longrightarrow> m p' < m p)"

definition reads_something :: "(nat \<Rightarrow> 'sv \<Rightarrow> (bytes, string) result \<times> 'sv) \<Rightarrow> bool" where
  "reads_something rd \<longleftrightarrow> (\<forall>n s b s'. 0 < n \<longrightarrow> rd n s = (Ok b, s') \<longrightarrow> b \<noteq> [])"

lemma pass_on_ends: "hs_progress W bw \<Longrightarrow> \<exists>r. pass_on W D writer reader c d = Some r"
  using write_flight_ends [of W bw writer c "[]"]
  by (auto simp: pass_on_def intro!: chain_total split: option.splits prod.splits sum.splits)

lemma tls_turn_ends: "hs_progress C bc \<Longrightarrow> hs_progress S bs \<Longrightarrow> \<exists>r. tls_turn C S p u = Some r"
  by (auto simp: tls_turn_def intro!: chain_total pass_on_ends split: prod.splits)

lemma tls_pump_ends:
  assumes "hs_progress C bc" and "hs_progress S bs" and "peers_settle C S m"
  shows "\<exists>r. tls_pump C S p = Some r"
  unfolding tls_pump_def
proof (induction "m p" arbitrary: p rule: less_induct)
  case less
  obtain r where r: "tls_turn C S p () = Some r" using tls_turn_ends [OF assms(1,2)] by blast
  have "m p' < m p" if "r = Done (True, p', ())" for p' using assms(3) r that unfolding peers_settle_def by blast
  with less r show ?case by (subst pump_while.simps) (auto split: outcome.splits)
qed

lemma read_bulk_ends:
  assumes "reads_something rd"
  shows "\<exists>r. read_bulk rd got s = Some r"
proof (induction "TLS_BULK_CHUNK - got" arbitrary: got s rule: less_induct)
  case less
  obtain r s1 where w: "rd (2 * TLS_BULK_CHUNK) s = (r, s1)" by fastforce
  have "b \<noteq> []" if "r = Ok b" for b using assms w that unfolding reads_something_def
    by (metis TLS_BULK_CHUNK_def mult_pos_pos zero_less_numeral)
  then have "TLS_BULK_CHUNK - (got + length b) < TLS_BULK_CHUNK - got" if "r = Ok b" "got < TLS_BULK_CHUNK" for b
    using that by (simp add: diff_less_mono2)
  with less w show ?case by (subst read_bulk.simps) (auto split: sum.splits)
qed

lemma read_records_ends:
  assumes "hs_progress ops backlog"
  shows "\<exists>r. read_records ops c rd = Some r"
proof (induction "length rd" arbitrary: c rd rule: less_induct)
  case less
  obtain r c1 where w: "hc_read_tls ops rd c = (r, c1)" by fastforce
  have "length (drop n rd) < length rd" if "r = Ok n" "rd \<noteq> []" for n
  proof -
    have "0 < n" using assms w that unfolding hs_progress_def by blast
    then show ?thesis using that by simp
  qed
  with less w show ?case by (subst read_records.simps) (auto split: sum.splits prod.splits)
qed

text \<open>What the loops of the benchmark need of the connections.\<close>

definition bench_progress :: "('h, 'k, 'a, 'g, 'v, 'r, 's, 'sk, 'roots, 'cl, 'sv) tls_rig \<Rightarrow> bool" where
  "bench_progress T \<longleftrightarrow> (\<exists>bc. hs_progress (tb_client T) bc) \<and> (\<exists>bs. hs_progress (tb_server T) bs) \<and>
     (\<exists>m. peers_settle (tb_client T) (tb_server T) m) \<and> reads_something (tb_read T)"

lemma bench_connected_ends: "bench_progress T \<Longrightarrow> \<exists>r. bench_connected T cc sc = Some r"
  by (auto simp: bench_connected_def bench_progress_def intro!: chain_total tls_pump_ends split: sum.splits prod.splits)

lemma push_chunk_ends:
  assumes "bench_progress T"
  shows "\<exists>r. push_chunk T p = Some r"
proof -
  obtain bc bs where C: "hs_progress (tb_client T) bc" and S: "hs_progress (tb_server T) bs" and R: "reads_something (tb_read T)"
    using assms by (auto simp: bench_progress_def)
  obtain c s where p: "p = (c, s)" by fastforce
  obtain r c1 where 1: "tb_write_all T (replicate TLS_BULK_CHUNK 0xa5) c = (r, c1)" by fastforce
  obtain r2 c2 where 2: "write_flight (tb_client T) ''client'' c1 [] = Some (r2, c2)" using write_flight_ends [OF C] by fastforce
  show ?thesis using p 1 2 by (cases r; cases r2)
    (auto simp: push_chunk_def intro!: chain_total read_records_ends [OF S] read_bulk_ends [OF R])
qed

lemma aead_sizes_ends: "\<exists>r. aead_sizes lens rnd now E label w = Some r"
proof -
  have s: "\<exists>r. seal_op E k len x = Some r" for k len x
    by (cases x) (auto simp: seal_op_def split: prod.splits sum.splits)
  have o: "\<exists>r. open_op E k pn sealed x = Some r" for k pn sealed x
    by (auto simp: open_op_def split: prod.splits sum.splits)
  have m: "\<exists>r. mask_op E hk x = Some r" for hk x
    by (cases x) (auto simp: mask_op_def split: prod.splits sum.splits)
  have "\<exists>r. aead_suite_size rnd now E label len w = Some r" for len w
    by (auto simp: aead_suite_size_def Let_def intro!: chain_total measure_row_returns s o m)
  then show ?thesis by (induction lens arbitrary: w) (auto intro!: chain_total)
qed

lemma aead_suites_ends: "\<exists>r. aead_suites ss rnd now EC EA w = Some r"
  by (induction ss arbitrary: w)
    (auto intro!: chain_total aead_sizes_ends split: supported_cipher_suite.splits option.splits quic_algorithm.splits)

lemma aead_bench_ends: "\<exists>r. aead_bench R rnd now EC EA w = Some r"
  by (auto simp: aead_bench_def intro!: chain_total aead_suites_ends)

lemma handshake_bench_ends: "bench_progress T \<Longrightarrow> \<exists>r. handshake_bench T rnd now w = Some r"
  by (auto simp: handshake_bench_def intro!: chain_total measure_row_returns bench_connected_ends)

lemma bulk_bench_ends:
  assumes "bench_progress T"
  shows "\<exists>r. bulk_bench_lines T rnd now w = Some r"
proof -
  have "\<exists>r. bulk_suite T rnd now s w = Some r" for s w
    by (auto simp: bulk_suite_def intro!: chain_total measure_row_returns bench_connected_ends push_chunk_ends assms)
  then show ?thesis by (auto simp: bulk_bench_lines_def intro!: chain_total)
qed

text \<open>
  With peers that make progress and come to rest the benchmark ends, whatever its arguments, the
  primitives, the clock and the certificates: it prints its lines, exits with the usage, or panics.
\<close>

theorem tls_benchmark_always_ends:
  assumes "bench_progress T"
  shows "\<exists>r. tls_bench_main T rnd now EC EA args w = Some r"
  by (auto simp: tls_bench_main_def Let_def split: list.split
      intro!: chain_total aead_bench_ends handshake_bench_ends bulk_bench_ends assms)

lemma demo_write_flight:
  "write_flight demo_hs who (n, r, out, inn) buf = Some (Ok (buf @ replicate n 7), 0, r, out @ replicate n 7, inn)"
proof (induction n arbitrary: out buf)
  case (Suc n)
  then show ?case by (subst write_flight.simps) (simp add: demo_hs_def replicate_app_Cons_same)
qed (subst write_flight.simps, simp add: demo_hs_def)

lemma demo_peers_settle: "peers_settle demo_hs demo_hs (\<lambda>(c, s). fst c + fst s)"
proof -
  have f: "feed_checked demo_hs who (n, r, out, inn) rd = Done (n, r - length rd, out, inn @ rd)" for who n r out inn rd
    by (cases "rd = []"; subst feed_checked.simps; (subst feed_checked.simps)?) (auto simp: demo_hs_def)
  have "pass_on demo_hs demo_hs wr re (n, r, o1, i1) (m, q, o2, i2) =
      Some (Done (0 < n, (0, r, o1 @ replicate n 7, i1), m, q - n, o2, i2 @ replicate n 7))" for wr re n r o1 i1 m q o2 i2
    by (auto simp: pass_on_def demo_write_flight f) (simp_all add: demo_hs_def)
  then show ?thesis by (auto simp: peers_settle_def tls_turn_def)
qed

definition demo_tls_rig :: "(unit, unit, unit, named_group, nat, unit, bytes, bytes, unit, demo_side, demo_side) tls_rig" where
  "demo_tls_rig = \<lparr>tb_builder = demo_builder, tb_rustcrypto = demo_rustcrypto, tb_dalek = demo_dalek, tb_roots_empty = (),
     tb_roots_add = (\<lambda>der r. Ok r), tb_ca = [1], tb_leaf = [2], tb_leaf_key = [3],
     tb_new_client = (\<lambda>cfg name. Ok (2, 1, [], [])), tb_new_server = (\<lambda>cfg. Ok (1, 2, [], [])),
     tb_client = demo_hs, tb_server = demo_hs, tb_write_all = (\<lambda>b c. (Ok (), c)),
     tb_read = (\<lambda>n s. (Ok (replicate (min n TLS_BULK_CHUNK) 0xa5), s))\<rparr>"

lemma demo_bench_progress: "bench_progress demo_tls_rig"
  unfolding bench_progress_def using demo_hs_progress demo_peers_settle
  by (auto simp: demo_tls_rig_def reads_something_def TLS_BULK_CHUNK_def)

theorem tls_benchmark_always_ends_witness:
  "\<exists>r. tls_bench_main demo_tls_rig Fin demo_clock demo_quic_env demo_quic_env [''tls-bench'', ''all''] 0 = Some r"
  by (rule tls_benchmark_always_ends) (rule demo_bench_progress)

end
