(* ===== verification/Timing_Crypto.thy ===== *)
theory Timing_Crypto
  imports Timing_Records
begin

text \<open>
  The surfaces of the timing laboratory on single cryptographic operations
  (\<^verbatim>\<open>src/timing-lab/src/main.rs\<close>): the signer of the provider, the suite's HKDF, X25519 and P-256 key exchange, and
  the isolation surfaces. Each begins with a published known answer, so that a wrong path fails before it
  is sampled. The operations of the crypto crates are parameters.
\<close>

section \<open>Constants\<close>

definition HKDF_BATCH :: nat where "HKDF_BATCH = 16"

text \<open>A constant is evaluated by the compiler, which refuses one that panics.\<close>

definition const_bytes :: "bytes or_panic \<Rightarrow> bytes" where
  "const_bytes x = (case x of Inr bs \<Rightarrow> bs | Inl _ \<Rightarrow> [])"

definition ED25519_KAT_SEED :: bytes where
  "ED25519_KAT_SEED = const_bytes (hex_string 32 ''9d61b19deffd5a60ba844af492ec2cc44449c5697b326919703bac031cae7f60'')"

definition ED25519_KAT_SIG :: bytes where
  "ED25519_KAT_SIG = const_bytes (hex_string 64 (''e5564300c360ac729086e2cc806e828a84877f1eb8e5d974d873e065224901555fb8821590a33bacc61e3970'' @
     ''1cf9b46bd25bf5f0595bbe24655141438e7a100b''))"

definition X25519_KAT_D :: bytes where
  "X25519_KAT_D = const_bytes (hex_string 32 ''77076d0a7318a57d3c16c17251b26645df4c2f87ebc0992ab177fba51db92c2a'')"

definition X25519_PEER :: bytes where
  "X25519_PEER = const_bytes (hex_string 32 ''de9edb7d7b7dc1b4d35b61c2ece435373f8343c85b78674dadfc7e146f882b4f'')"

definition X25519_SHARED :: bytes where
  "X25519_SHARED = const_bytes (hex_string 32 ''4a5d9d5ba4ce2de1728e3bf480350f25e07e21c947d19e3376f09b3c1e161742'')"

definition ECDH_P256_KAT_D :: bytes where
  "ECDH_P256_KAT_D = const_bytes (hex_string 32 ''0612465c89a023ab17855b0a6bcebfd3febb53aef84138647b5352e02c10c346'')"

definition ECDH_P256_PEER :: bytes where
  "ECDH_P256_PEER = const_bytes (hex_string 65 (''0462d5bd3372af75fe85a040715d0f502428e07046868b0bfdfa61d731afe44f26ac333a93a9e70a81cd5a95'' @
     ''b5bf8d13990eb741c8c38872b4a07d275a014e30cf''))"

definition ECDH_P256_SHARED :: bytes where
  "ECDH_P256_SHARED = const_bytes (hex_string 32 ''53020d908b0219328b658b525f26780e3ae12bcd952bb25a93bc0895e1714285'')"

definition X25519_FIXED_D :: bytes where
  "X25519_FIXED_D = const_bytes (single_bit_scalar 32 True 128)"

definition ECDH_P256_FIXED_D :: bytes where
  "ECDH_P256_FIXED_D = const_bytes (single_bit_scalar 32 False 128)"

definition HKDF_KAT_IKM :: bytes where
  "HKDF_KAT_IKM = const_bytes (hex_string 22 ''0b0b0b0b0b0b0b0b0b0b0b0b0b0b0b0b0b0b0b0b0b0b'')"

definition HKDF_KAT_SALT :: bytes where
  "HKDF_KAT_SALT = const_bytes (hex_string 13 ''000102030405060708090a0b0c'')"

definition HKDF_KAT_INFO :: bytes where
  "HKDF_KAT_INFO = const_bytes (hex_string 10 ''f0f1f2f3f4f5f6f7f8f9'')"

definition HKDF_KAT_OKM :: bytes where
  "HKDF_KAT_OKM = const_bytes (hex_string 32 ''3cb25f25faacd57a90434f64d0362f2a2d2d0a90cf1a5a4c5db02d56ecc4c5bf'')"

section \<open>Parameters\<close>

record ('s, 'sg, 'k, 'x, 'pt, 'sc) crypto_lab =
  cl_show :: "tls_error \<Rightarrow> string"
  cl_choose_scheme :: "'s \<Rightarrow> signature_scheme list \<Rightarrow> 'sg option"
  cl_sign :: "'sg \<Rightarrow> bytes \<Rightarrow> (bytes, tls_error) result"
  cl_public_of_seed :: "bytes \<Rightarrow> bytes"
  cl_extract :: "'k \<Rightarrow> bytes option \<Rightarrow> bytes \<Rightarrow> 'x"
  cl_expand_slice :: "'x \<Rightarrow> bytes list \<Rightarrow> nat \<Rightarrow> bytes option"
  cl_x25519 :: "bytes \<Rightarrow> bytes \<Rightarrow> bytes"
  cl_from_sec1_bytes :: "bytes \<Rightarrow> ('pt, string) result"
  cl_from_repr :: "bytes \<Rightarrow> 'sc option"
  cl_diffie_hellman :: "'sc \<Rightarrow> 'pt \<Rightarrow> bytes"
  cl_ct_eq :: "bytes \<Rightarrow> bytes \<Rightarrow> bool"
  cl_apply_keystream :: "bytes \<Rightarrow> bytes \<Rightarrow> bytes \<Rightarrow> bytes"
  cl_ghash :: "bytes \<Rightarrow> bytes \<Rightarrow> bytes"

text \<open>A fixed-versus-random trial: both classes draw, and the operation on the chosen bytes is timed.\<close>

definition fixed_random_trial :: "('w \<Rightarrow> nat \<times> 'w) \<Rightarrow> nat \<Rightarrow> (bool \<Rightarrow> bytes \<Rightarrow> ('b, lab_error) result)
    \<Rightarrow> ('b \<Rightarrow> ('c, lab_error) result) \<Rightarrow> (rng \<times> 'w) sampler" where
  "fixed_random_trial now n prepare oper cls s =
     (let (inputs, w) = s;
          (random, inputs) = fill n inputs
      in case prepare cls random of
           Inl e \<Rightarrow> (Err e, inputs, w)
         | Inr b \<Rightarrow> let (ns, w) = timed now (oper b) w in (ns, inputs, w))"

section \<open>The signer\<close>

definition load_signer :: "('s, 'sg, 'k, 'x, 'pt, 'sc) crypto_lab \<Rightarrow> ('h, 'k, 'a, 'g, 'v, 'r, 's) provider
    \<Rightarrow> string \<Rightarrow> string \<Rightarrow> bytes \<Rightarrow> ('sg, lab_error) result" where
  "load_signer K prov ctx missing seed =
     attempt (context_of ctx (map_err (cl_show K) (key_provider prov (Pkcs8 (ed25519_pkcs8 seed))))) (\<lambda>key.
       ok_or_fail missing (cl_choose_scheme K key [ED25519]))"

definition sign_known_answer :: "('s, 'sg, 'k, 'x, 'pt, 'sc) crypto_lab \<Rightarrow> ('h, 'k, 'a, 'g, 'v, 'r, 's) provider
    \<Rightarrow> (unit, lab_error) result" where
  "sign_known_answer K prov =
     attempt (load_signer K prov ''ed25519 known-answer load: '' ''ed25519 known-answer signer missing'' ED25519_KAT_SEED) (\<lambda>signer.
     attempt (context_of ''ed25519 known-answer sign: '' (map_err (cl_show K) (cl_sign K signer []))) (\<lambda>sig.
       if sig \<noteq> ED25519_KAT_SIG then Err (Failed ''ed25519 known-answer signature mismatch'') else Ok ()))"

definition certificate_verify_sign :: "('w \<Rightarrow> nat \<times> 'w) \<Rightarrow> ('s, 'sg, 'k, 'x, 'pt, 'sc) crypto_lab
    \<Rightarrow> ('h, 'k, 'a, 'g, 'v, 'r, 's) provider \<Rightarrow> bytes \<Rightarrow> bytes \<Rightarrow> (rng \<times> 'w) sampler" where
  "certificate_verify_sign now K prov fixed_seed message =
     fixed_random_trial now 32
       (\<lambda>cls random_seed. load_signer K prov ''key load: '' ''no ed25519 signer'' (if cls then random_seed else fixed_seed))
       (\<lambda>signer. context_of ''sign: '' (map_err (cl_show K) (cl_sign K signer message)))"

section \<open>The key schedule\<close>

definition hkdf_known_answer :: "('s, 'sg, 'k, 'x, 'pt, 'sc) crypto_lab \<Rightarrow> 'k \<Rightarrow> (unit, lab_error) result" where
  "hkdf_known_answer K hkdf =
     (let expander = cl_extract K hkdf (Some HKDF_KAT_SALT) HKDF_KAT_IKM
      in attempt (ok_or_fail ''hkdf known-answer expand failed'' (cl_expand_slice K expander [HKDF_KAT_INFO] 32)) (\<lambda>okm.
           if okm \<noteq> HKDF_KAT_OKM then Err (Failed ''hkdf known-answer output mismatch'') else Ok ()))"

definition EXPAND_INFO :: bytes where "EXPAND_INFO = map of_char ''timing lab expand''"

fun hkdf_batch :: "nat \<Rightarrow> ('s, 'sg, 'k, 'x, 'pt, 'sc) crypto_lab \<Rightarrow> 'k \<Rightarrow> bytes \<Rightarrow> bytes \<Rightarrow> (unit, lab_error) result" where
  "hkdf_batch 0 K hkdf salt secret = Ok ()"
| "hkdf_batch (Suc n) K hkdf salt secret =
     attempt (ok_or_fail ''expand failed'' (cl_expand_slice K (cl_extract K hkdf (Some salt) secret) [EXPAND_INFO] 32)) (\<lambda>_.
       hkdf_batch n K hkdf salt secret)"

definition hkdf_extract_expand :: "('w \<Rightarrow> nat \<times> 'w) \<Rightarrow> ('s, 'sg, 'k, 'x, 'pt, 'sc) crypto_lab \<Rightarrow> 'k \<Rightarrow> bytes \<Rightarrow> bytes
    \<Rightarrow> (rng \<times> 'w) sampler" where
  "hkdf_extract_expand now K hkdf salt fixed_secret =
     fixed_random_trial now 32 (\<lambda>cls random. Ok (if cls then random else fixed_secret)) (hkdf_batch HKDF_BATCH K hkdf salt)"

section \<open>Key exchange\<close>

definition x25519_known_answer :: "('s, 'sg, 'k, 'x, 'pt, 'sc) crypto_lab \<Rightarrow> (unit, lab_error) result" where
  "x25519_known_answer K =
     (if cl_x25519 K X25519_KAT_D X25519_PEER \<noteq> X25519_SHARED
      then Err (Failed ''x25519 known-answer mismatch'') else Ok ())"

definition kx_x25519 :: "('w \<Rightarrow> nat \<times> 'w) \<Rightarrow> ('s, 'sg, 'k, 'x, 'pt, 'sc) crypto_lab \<Rightarrow> (rng \<times> 'w) sampler" where
  "kx_x25519 now K =
     fixed_random_trial now 32 (\<lambda>cls random. Ok (if cls then random else X25519_FIXED_D))
       (\<lambda>scalar. Ok (cl_x25519 K scalar X25519_PEER))"

definition p256_known_answer :: "('s, 'sg, 'k, 'x, 'pt, 'sc) crypto_lab \<Rightarrow> ('pt, lab_error) result" where
  "p256_known_answer K =
     attempt (context_of ''p256 peer point: '' (cl_from_sec1_bytes K ECDH_P256_PEER)) (\<lambda>peer.
     attempt (ok_or_fail ''p256 known-answer scalar out of range'' (cl_from_repr K ECDH_P256_KAT_D)) (\<lambda>scalar.
       if cl_diffie_hellman K scalar peer \<noteq> ECDH_P256_SHARED
       then Err (Failed ''p256 known-answer mismatch'') else Ok peer))"

text \<open>The scalar is drawn until it is in range, for both classes.\<close>

definition kx_p256 :: "('w \<Rightarrow> nat \<times> 'w) \<Rightarrow> ('s, 'sg, 'k, 'x, 'pt, 'sc) crypto_lab \<Rightarrow> 'pt \<Rightarrow> (rng \<times> 'w) sampler" where
  "kx_p256 now K peer cls s =
     (let (inputs, w) = s
      in case draw_scalar inputs of
           None \<Rightarrow> (Err Diverged, inputs, w)
         | Some (random_bytes, inputs) \<Rightarrow>
             (case ok_or_fail ''scalar out of range'' (cl_from_repr K (if cls then random_bytes else ECDH_P256_FIXED_D)) of
                Inl e \<Rightarrow> (Err e, inputs, w)
              | Inr scalar \<Rightarrow>
                  let (ns, w) = timed (now) (Ok (cl_diffie_hellman K scalar peer)) w in (ns, inputs, w)))"

section \<open>Isolation\<close>

definition XOR_BATCH :: nat where "XOR_BATCH = 4"

definition isolate_ctr :: "('w \<Rightarrow> nat \<times> 'w) \<Rightarrow> ('s, 'sg, 'k, 'x, 'pt, 'sc) crypto_lab \<Rightarrow> bytes \<Rightarrow> (rng \<times> 'w) sampler" where
  "isolate_ctr now K key =
     fixed_random_trial now SEAL_LEN (\<lambda>cls random. Ok (mask_prep cls random))
       (\<lambda>work. Ok (cl_apply_keystream K key (replicate 16 0) work))"

definition isolate_ghash :: "('w \<Rightarrow> nat \<times> 'w) \<Rightarrow> ('s, 'sg, 'k, 'x, 'pt, 'sc) crypto_lab \<Rightarrow> bytes
    \<Rightarrow> (bool \<Rightarrow> bytes \<Rightarrow> bytes) \<Rightarrow> (rng \<times> 'w) sampler" where
  "isolate_ghash now K h prepare =
     fixed_random_trial now SEAL_LEN (\<lambda>cls random. Ok (prepare cls random)) (\<lambda>work. Ok (cl_ghash K h work))"

fun xor_sweep :: "nat \<Rightarrow> bytes \<Rightarrow> bytes \<Rightarrow> bytes \<Rightarrow> bytes" where
  "xor_sweep 0 work pad out = out"
| "xor_sweep (Suc n) work pad out =
     xor_sweep n work pad (map2 (\<lambda>w p. w XOR p) work pad @ drop (min (length work) (length pad)) out)"

definition isolate_xor :: "('w \<Rightarrow> nat \<times> 'w) \<Rightarrow> bytes \<Rightarrow> bytes \<Rightarrow> (rng \<times> 'w) sampler" where
  "isolate_xor now pad out =
     fixed_random_trial now SEAL_LEN (\<lambda>cls random. Ok (mask_prep cls random))
       (\<lambda>work. Ok (xor_sweep XOR_BATCH work pad out))"

section \<open>Laws\<close>

lemma nibble_of_char:
  assumes "c \<in> set ''0123456789abcdef''"
  shows "is_ok (nibble (of_char c))"
proof -
  have "list_all (\<lambda>c. is_ok (nibble (of_char c))) ''0123456789abcdef''" by (simp add: nibble_def)
  then show ?thesis using assms by (simp only: list_all_iff)
qed

lemma length_hex_constant:
  assumes "length s = N * 2" and "list_all (\<lambda>c. c \<in> set ''0123456789abcdef'') s"
  shows "length (const_bytes (hex_string N s)) = N"
proof -
  have "\<exists>bs. hex_bytes (map of_char s) = Ok bs \<and> length bs = n"
    if "length s = n * 2" "\<forall>c \<in> set s. is_ok (nibble (of_char c))" for n s
    using that
  proof (induction n arbitrary: s)
    case (Suc n)
    then obtain a b t where s: "s = a # b # t" "length t = n * 2"
      by (cases s rule: remdups_adj.cases) auto
    obtain x y where "nibble (of_char a) = Ok x" "nibble (of_char b) = Ok y"
      using Suc.prems(2) s by (auto simp: is_ok_iff)
    then show ?case using Suc.IH [OF s(2)] Suc.prems(2) s by auto
  qed simp
  from this [of s N] obtain bs where "hex_bytes (map of_char s) = Ok bs" "length bs = N"
    using assms nibble_of_char by (auto simp: list_all_iff)
  then show ?thesis using assms(1) by (simp add: hex_string_def hex_def const_bytes_def)
qed

lemma length_constants:
  "length ED25519_KAT_SEED = 32"
  "length X25519_KAT_D = 32"
  "length X25519_PEER = 32"
  "length X25519_SHARED = 32"
  "length ECDH_P256_KAT_D = 32"
  "length ECDH_P256_SHARED = 32"
  "length HKDF_KAT_OKM = 32"
  "length ED25519_KAT_SIG = 64"
  "length ECDH_P256_PEER = 65"
  "length HKDF_KAT_IKM = 22"
  "length HKDF_KAT_SALT = 13"
  "length HKDF_KAT_INFO = 10"
  unfolding ED25519_KAT_SEED_def X25519_KAT_D_def X25519_PEER_def X25519_SHARED_def ECDH_P256_KAT_D_def ECDH_P256_SHARED_def HKDF_KAT_OKM_def ED25519_KAT_SIG_def ECDH_P256_PEER_def HKDF_KAT_IKM_def HKDF_KAT_SALT_def HKDF_KAT_INFO_def
  by (rule length_hex_constant, code_simp, code_simp)+

lemma fill_nonzero: "r \<noteq> 0 \<Longrightarrow> snd (fill n r) \<noteq> 0"
  by (simp add: fill_stream after_nonzero)

lemma fixed_random_trial_keeps: "inputs \<noteq> 0 \<Longrightarrow> fst (snd (fixed_random_trial now n prepare oper cls (inputs, w))) \<noteq> 0"
  using fill_nonzero [of inputs n] by (auto simp: fixed_random_trial_def Let_def split: prod.splits sum.splits)

lemma fixed_random_trial_ends:
  assumes "\<And>b. prepare cls b \<noteq> Err Diverged" and "\<And>b. oper b \<noteq> Err Diverged"
  shows "fst (fixed_random_trial now n prepare oper cls s) \<noteq> Err Diverged"
  using assms by (cases s) (auto simp: fixed_random_trial_def Let_def split: prod.splits sum.splits dest!: timed_Err)

lemma load_signer_not_Diverged [simp]: "load_signer K prov ctx missing seed \<noteq> Err Diverged"
  by (simp add: load_signer_def attempt_Err)

lemma hkdf_batch_not_Diverged [simp]: "hkdf_batch n K hkdf salt secret \<noteq> Err Diverged"
  by (induction n) (simp_all add: attempt_Err)

lemma fixed_random_surfaces_end:
  "fst (certificate_verify_sign now K prov fixed message cls s) \<noteq> Err Diverged"
  "fst (hkdf_extract_expand now K hkdf salt fixed cls s) \<noteq> Err Diverged"
  "fst (kx_x25519 now K cls s) \<noteq> Err Diverged"
  "fst (isolate_ctr now K key cls s) \<noteq> Err Diverged"
  "fst (isolate_ghash now K h prepare cls s) \<noteq> Err Diverged"
  "fst (isolate_xor now pad out cls s) \<noteq> Err Diverged"
  unfolding certificate_verify_sign_def hkdf_extract_expand_def kx_x25519_def isolate_ctr_def isolate_ghash_def isolate_xor_def
  by (rule fixed_random_trial_ends, simp, simp)+

lemma known_answers_not_Diverged [simp]:
  "sign_known_answer K prov \<noteq> Err Diverged" "hkdf_known_answer K hkdf \<noteq> Err Diverged"
  "x25519_known_answer K \<noteq> Err Diverged" "p256_known_answer K \<noteq> Err Diverged"
  by (auto simp: sign_known_answer_def hkdf_known_answer_def x25519_known_answer_def p256_known_answer_def attempt_Err Let_def
      split: if_splits)

text \<open>A trial of the P-256 surface finds its scalar within three draws.\<close>

lemma kx_p256_draws:
  assumes "inputs \<noteq> 0"
  obtains bs inputs' where "draw_scalar inputs = Some (bs, inputs')" and "scalar_in_range bs N_P256"
    and "length bs = 32" and "inputs' \<noteq> 0"
proof -
  obtain k where k: "draw_scalar inputs = Some (fill 32 (after (4 * k) inputs))"
    "scalar_in_range (fst (fill 32 (after (4 * k) inputs))) N_P256"
    using draw_scalar_bounded [OF assms] by blast
  obtain bs inputs' where f: "fill 32 (after (4 * k) inputs) = (bs, inputs')" by fastforce
  have "inputs' \<noteq> 0" using fill_nonzero [OF after_nonzero [OF assms], of 32 "4 * k"] f by simp
  moreover have "length bs = 32" using length_fill [of 32 "after (4 * k) inputs"] f by simp
  ultimately show thesis using that k f by simp
qed

lemma kx_p256_ends:
  assumes "fst s \<noteq> 0"
  shows "fst (kx_p256 now K peer cls s) \<noteq> Err Diverged \<and> fst (snd (kx_p256 now K peer cls s)) \<noteq> 0"
proof -
  obtain inputs w where s: "s = (inputs, w)" by fastforce
  obtain bs inputs' where "draw_scalar inputs = Some (bs, inputs')" "inputs' \<noteq> 0"
    using kx_p256_draws [of inputs] assms s by (metis fst_conv)
  then show ?thesis using s
    by (auto simp: kx_p256_def Let_def split: sum.splits prod.splits dest!: timed_Err)
qed

section \<open>A concrete laboratory\<close>

definition demo_crypto_lab :: "(bytes, bytes, unit, bytes, bytes, bytes) crypto_lab" where
  "demo_crypto_lab = \<lparr>cl_show = (\<lambda>_. []), cl_choose_scheme = (\<lambda>key schemes. if ED25519 \<in> set schemes then Some key else None),
     cl_sign = (\<lambda>key message. Ok (if key = ed25519_pkcs8 ED25519_KAT_SEED \<and> message = [] then ED25519_KAT_SIG else key @ message)),
     cl_public_of_seed = (\<lambda>seed. seed),
     cl_extract = (\<lambda>_ salt ikm. the salt @ ikm), cl_expand_slice = (\<lambda>prk info n. Some HKDF_KAT_OKM),
     cl_x25519 = (\<lambda>scalar peer. X25519_SHARED),
     cl_from_sec1_bytes = Ok, cl_from_repr = (\<lambda>bs. if scalar_in_range bs N_P256 then Some bs else None),
     cl_diffie_hellman = (\<lambda>scalar peer. ECDH_P256_SHARED), cl_ct_eq = (=),
     cl_apply_keystream = (\<lambda>key nonce data. data), cl_ghash = (\<lambda>h data. h)\<rparr>"

section \<open>Properties\<close>

text \<open>
  The constants are what the compiler accepts: every hexadecimal literal parses to exactly the length its
  type declares, the two fixed scalars have one bit set, and the P-256 one is in range.
\<close>

theorem lab_constants_are_well_formed:
  "map length [ED25519_KAT_SEED, X25519_KAT_D, X25519_PEER, X25519_SHARED, ECDH_P256_KAT_D, ECDH_P256_SHARED, HKDF_KAT_OKM] = replicate 7 32 \<and>
   map length [ED25519_KAT_SIG, ECDH_P256_PEER, HKDF_KAT_IKM, HKDF_KAT_SALT, HKDF_KAT_INFO] = [64, 65, 22, 13, 10] \<and>
   scalar_in_range ECDH_P256_FIXED_D N_P256 \<and> length ECDH_P256_FIXED_D = 32 \<and> length X25519_FIXED_D = 32"
proof (intro conjI)
  show "map length [ED25519_KAT_SEED, X25519_KAT_D, X25519_PEER, X25519_SHARED, ECDH_P256_KAT_D, ECDH_P256_SHARED, HKDF_KAT_OKM] = replicate 7 32"
    by (simp only: list.map length_constants) code_simp
  show "map length [ED25519_KAT_SIG, ECDH_P256_PEER, HKDF_KAT_IKM, HKDF_KAT_SALT, HKDF_KAT_INFO] = [64, 65, 22, 13, 10]"
    by (simp only: list.map length_constants)
  show "scalar_in_range ECDH_P256_FIXED_D N_P256" by code_simp
  show "length ECDH_P256_FIXED_D = 32" by code_simp
  show "length X25519_FIXED_D = 32" by code_simp
qed

text \<open>
  No trial of the P-256 surface is refused for its scalar: with a crate that accepts exactly the scalars
  between one and the order, and from any state of the generator, every trial of either class draws a
  scalar, loads it and times one multiplication, so the measurement always ends in a report.
\<close>

theorem p256_surface_never_refuses_a_scalar:
  assumes "\<And>bs. length bs = 32 \<Longrightarrow> scalar_in_range bs N_P256 \<Longrightarrow> cl_from_repr K bs \<noteq> None" and "inputs \<noteq> 0"
  shows "\<exists>rep r' s'. measure_surface rnd name False samples 1 r (kx_p256 now K peer) (inputs, w) = (Ok rep, r', s')"
proof (rule measure_total_from [where I = "\<lambda>s. fst s \<noteq> 0"])
  have fx: "length ECDH_P256_FIXED_D = 32 \<and> scalar_in_range ECDH_P256_FIXED_D N_P256" by code_simp
  fix cls and s :: "rng \<times> 'g"
  assume nz: "fst s \<noteq> 0"
  obtain i w where s: "s = (i, w)" by fastforce
  obtain bs i' where d: "draw_scalar i = Some (bs, i')" "scalar_in_range bs N_P256" "length bs = 32" "i' \<noteq> 0"
    using kx_p256_draws [of i] nz s by (metis fst_conv)
  obtain sc where "cl_from_repr K (if cls then bs else ECDH_P256_FIXED_D) = Some sc"
    using assms(1) [of "if cls then bs else ECDH_P256_FIXED_D"] d fx by (cases cls) auto
  moreover obtain ns w' where "timed now (Ok (cl_diffie_hellman K sc peer)) w = (Ok ns, w')"
    using timed_Ok [of now "Ok (cl_diffie_hellman K sc peer)" w] by auto
  ultimately show "fst (snd (kx_p256 now K peer cls s)) \<noteq> 0 \<and> is_ok (fst (kx_p256 now K peer cls s))"
    using s d by (simp add: kx_p256_def ok_or_fail_def)
qed (use assms(2) in simp)

theorem p256_surface_never_refuses_a_scalar_witness:
  "\<exists>rep r' s'. measure_surface Fin ''p256'' False 3 1 7 (kx_p256 demo_clock demo_crypto_lab [4]) (5, 0) = (Ok rep, r', s')"
  by (rule p256_surface_never_refuses_a_scalar) (simp_all add: demo_crypto_lab_def)

end
