(* ===== verification/Timing_Run.thy ===== *)
theory Timing_Run
  imports Timing_Crypto Parse_Int
begin

text \<open>
  The whole run of the timing laboratory (\<^verbatim>\<open>src/timing-lab/src/main.rs\<close>, \<open>run_lab\<close> and \<open>main\<close>): its
  parameters from the environment, every surface in order on one generator, the evaluation and the
  end of the process. A block is a part of the run that pushes reports; a block that gives no
  reports ends the run.
\<close>

section \<open>Blocks\<close>

type_synonym 'w block = "rng \<times> 'w \<Rightarrow> (report list, lab_error) result \<times> rng \<times> 'w"

fun in_turn :: "'w block list \<Rightarrow> 'w block" where
  "in_turn [] s = (Ok [], s)"
| "in_turn (b # bs) s =
     (case b s of
        (Inl e, s) \<Rightarrow> (Err e, s)
      | (Inr xs, s) \<Rightarrow>
          (case in_turn bs s of
             (Inl e, s) \<Rightarrow> (Err e, s)
           | (Inr ys, s) \<Rightarrow> (Ok (xs @ ys), s)))"

definition guarded :: "('a, lab_error) result \<Rightarrow> ('a \<Rightarrow> 'w block) \<Rightarrow> 'w block" where
  "guarded res k s = (case res of Inl e \<Rightarrow> (Err e, s) | Inr v \<Rightarrow> k v s)"

definition drawn :: "nat \<Rightarrow> (bytes \<Rightarrow> 'w block) \<Rightarrow> 'w block" where
  "drawn n k s = (case s of (r, w) \<Rightarrow> case fill n r of (bs, r) \<Rightarrow> k bs (r, w))"

text \<open>
  One measured surface. Its trials work on a state of their own, built from the world and thrown away
  after it; in the second form that state has a generator seeded from the run's.
\<close>

definition surface :: "(real \<Rightarrow> f64) \<Rightarrow> nat \<Rightarrow> string \<Rightarrow> bool \<Rightarrow> nat \<Rightarrow> ('x \<times> 'w) sampler \<Rightarrow> 'x \<Rightarrow> 'w block" where
  "surface rnd samples name expect_leak batch sample x s =
     (case s of (r, w) \<Rightarrow>
        case measure_surface rnd name expect_leak samples batch r sample (x, w) of
          (Inl e, r, _, w) \<Rightarrow> (Err e, r, w)
        | (Inr rep, r, _, w) \<Rightarrow> (Ok [rep], r, w))"

definition fresh_surface :: "(real \<Rightarrow> f64) \<Rightarrow> nat \<Rightarrow> string \<Rightarrow> bool \<Rightarrow> nat \<Rightarrow> (rng \<times> 'w) sampler \<Rightarrow> 'w block" where
  "fresh_surface rnd samples name expect_leak batch sample s =
     (case s of (r, w) \<Rightarrow> case next_u64 r of (v, r) \<Rightarrow>
        surface rnd samples name expect_leak batch sample (rng_new v) (r, w))"

text \<open>A trial without a state of its own.\<close>

definition stateless :: "'w sampler \<Rightarrow> (unit \<times> 'w) sampler" where
  "stateless sample cls s = (case s of (u, w) \<Rightarrow> case sample cls w of (res, w) \<Rightarrow> (res, u, w))"

text \<open>The record seal's state also has the encrypter.\<close>

definition rotated :: "('e \<times> rng \<times> 'w) sampler \<Rightarrow> (('e \<times> rng) \<times> 'w) sampler" where
  "rotated sample cls s =
     (case s of ((enc, inputs), w) \<Rightarrow> case sample cls (enc, inputs, w) of (res, enc, inputs, w) \<Rightarrow> (res, (enc, inputs), w))"

section \<open>The surfaces in order\<close>

record ('w, 'h, 'k, 'a, 'g, 'v, 'r, 's, 'sk, 'roots, 'cl, 'sv, 'en, 'de, 'sg, 'x, 'pt, 'sc, 'c1, 'h1, 'c2, 'h2, 'th, 'tc) lab =
  lab_records :: "('w, 'h, 'k, 'a, 'g, 'v, 'r, 's, 'sk, 'roots, 'cl, 'sv, 'en, 'de) record_lab"
  lab_crypto :: "('s, 'sg, 'k, 'x, 'pt, 'sc) crypto_lab"
  lab_chacha :: "('c1, 'h1) quic_env"
  lab_aes :: "('c2, 'h2) quic_env"
  lab_token :: "('th, 'tc) token_prims"
  lab_rnd :: "real \<Rightarrow> f64"

definition control_blocks :: "('w, 'h, 'k, 'a, 'g, 'v, 'r, 's, 'sk, 'roots, 'cl, 'sv, 'en, 'de, 'sg, 'x, 'pt, 'sc, 'c1, 'h1, 'c2, 'h2, 'th, 'tc) lab
    \<Rightarrow> nat \<Rightarrow> bytes \<Rightarrow> 'w block list" where
  "control_blocks Z samples expected =
     (let now = rl_now (lab_records Z); rnd = lab_rnd Z
      in [surface rnd samples ''control/leaky-equal'' True 1 (stateless (control_compare now leaky_equal expected)) (),
          drawn TAG_LEN (\<lambda>tag. surface rnd samples ''control/leaky-tag-compare'' True TAG_BATCH
            (stateless (control_leaky_tag now tag)) ()),
          surface rnd samples ''control/subtle-ct-eq'' False 1 (stateless (control_compare now (cl_ct_eq (lab_crypto Z)) expected)) (),
          fresh_surface rnd samples ''control/data-dependent-work'' True 1 (control_data_work now)])"

definition handshake_blocks :: "('w, 'h, 'k, 'a, 'g, 'v, 'r, 's, 'sk, 'roots, 'cl, 'sv, 'en, 'de, 'sg, 'x, 'pt, 'sc, 'c1, 'h1, 'c2, 'h2, 'th, 'tc) lab
    \<Rightarrow> nat \<Rightarrow> ('h, 'k, 'a, 'g, 'v, 'r, 's) provider \<Rightarrow> 'w block list" where
  "handshake_blocks Z samples prov =
     (let L = lab_records Z; K = lab_crypto Z; now = rl_now L; rnd = lab_rnd Z
      in [guarded (sign_known_answer K prov) (\<lambda>_. drawn 32 (\<lambda>fixed_seed. drawn 130 (\<lambda>message.
            fresh_surface rnd samples ''handshake/certificate-verify-sign'' False 1
              (certificate_verify_sign now K prov fixed_seed message)))),
          drawn 32 (\<lambda>fixed_seed. guarded (handshake_guard L (cl_public_of_seed K) fixed_seed) (\<lambda>_.
            fresh_surface rnd samples ''handshake/server'' False 1 (handshake_server L prov fixed_seed))),
          guarded (or_abort (first_tls13 prov)) (\<lambda>inner.
            guarded (hkdf_known_answer K (hkdf_provider inner)) (\<lambda>_. drawn 32 (\<lambda>salt. drawn 32 (\<lambda>fixed_secret.
              fresh_surface rnd samples ''key-schedule/hkdf-extract-expand'' False HKDF_BATCH
                (hkdf_extract_expand now K (hkdf_provider inner) salt fixed_secret)))))])"

definition kx_blocks :: "('w, 'h, 'k, 'a, 'g, 'v, 'r, 's, 'sk, 'roots, 'cl, 'sv, 'en, 'de, 'sg, 'x, 'pt, 'sc, 'c1, 'h1, 'c2, 'h2, 'th, 'tc) lab
    \<Rightarrow> nat \<Rightarrow> 'w block list" where
  "kx_blocks Z samples =
     (let K = lab_crypto Z; now = rl_now (lab_records Z); rnd = lab_rnd Z
      in [guarded (x25519_known_answer K) (\<lambda>_. fresh_surface rnd samples ''key-exchange/x25519'' False 1 (kx_x25519 now K)),
          guarded (p256_known_answer K) (\<lambda>peer. fresh_surface rnd samples ''key-exchange/p256'' False 1 (kx_p256 now K peer))])"

text \<open>A block that builds a rig from the generator and the world.\<close>

definition rigged :: "(rng \<Rightarrow> 'w \<Rightarrow> ('rig, lab_error) result \<times> rng \<times> 'w) \<Rightarrow> ('rig \<Rightarrow> 'w block) \<Rightarrow> 'w block" where
  "rigged build k s =
     (case s of (r, w) \<Rightarrow>
        case build r w of
          (Inl e, r, w) \<Rightarrow> (Err e, r, w)
        | (Inr rig, r, w) \<Rightarrow> k rig (r, w))"

definition record_seal_surface :: "('w, 'h, 'k, 'a, 'g, 'v, 'r, 's, 'sk, 'roots, 'cl, 'sv, 'en, 'de) record_lab \<Rightarrow> (real \<Rightarrow> f64) \<Rightarrow> nat
    \<Rightarrow> string \<Rightarrow> ('en, 'de) record_rig \<Rightarrow> (bool \<Rightarrow> bytes \<Rightarrow> bytes) \<Rightarrow> 'w block" where
  "record_seal_surface L rnd samples name rig prepare s =
     (case s of (r, w) \<Rightarrow> case next_u64 r of (v, r) \<Rightarrow>
        surface rnd samples name False 1 (rotated (record_seal L rig prepare)) (rr_enc rig, rng_new v) (r, w))"

definition record_block :: "('w, 'h, 'k, 'a, 'g, 'v, 'r, 's, 'sk, 'roots, 'cl, 'sv, 'en, 'de) record_lab \<Rightarrow> (real \<Rightarrow> f64) \<Rightarrow> nat
    \<Rightarrow> string \<Rightarrow> string \<Rightarrow> cipher_suite \<Rightarrow> 'w block" where
  "record_block L rnd samples name_open name_seal i =
     rigged (record_rig L i) (\<lambda>rig. in_turn
       [surface rnd samples name_open False TAG_BATCH (record_open_reject L rig) (rr_dec rig),
        drawn SEAL_LEN (\<lambda>fixed. record_seal_surface L rnd samples name_seal rig (copy_prep fixed))])"

definition packet_block :: "('w \<Rightarrow> nat \<times> 'w) \<Rightarrow> (real \<Rightarrow> f64) \<Rightarrow> nat \<Rightarrow> ('c, 'hp) quic_env \<Rightarrow> string \<Rightarrow> string \<Rightarrow> string \<Rightarrow> 'w block" where
  "packet_block now rnd samples E name_open name_seal name_hp =
     rigged (\<lambda>r w. case packet_rig E r of (res, r) \<Rightarrow> (res, r, w)) (\<lambda>rig. in_turn
       [surface rnd samples name_open False TAG_BATCH (stateless (packet_open_reject now E rig)) (),
        drawn SEAL_LEN (\<lambda>fixed. fresh_surface rnd samples name_seal False 1 (packet_seal now E rig fixed)),
        drawn 16 (\<lambda>fixed_sample. fresh_surface rnd samples name_hp False HP_BATCH (packet_hp_mask now E rig fixed_sample))])"

definition TOKEN_MASTER :: bytes where "TOKEN_MASTER = map of_char ''timing-lab token master''"

definition token_block :: "('w \<Rightarrow> nat \<times> 'w) \<Rightarrow> (real \<Rightarrow> f64) \<Rightarrow> nat \<Rightarrow> ('th, 'tc) token_prims \<Rightarrow> 'w block" where
  "token_block now rnd samples T =
     rigged (\<lambda>r w. case token_rig T TOKEN_MASTER r of (res, r) \<Rightarrow> (res, r, w)) (\<lambda>(token_key, template).
       surface rnd samples ''token/aes-256-gcm/open-reject'' False TAG_BATCH
         (stateless (token_open_reject now T token_key template)) ())"

definition error_block :: "('w, 'h, 'k, 'a, 'g, 'v, 'r, 's, 'sk, 'roots, 'cl, 'sv, 'en, 'de) record_lab \<Rightarrow> (real \<Rightarrow> f64) \<Rightarrow> nat
    \<Rightarrow> ('h, 'k, 'a, 'g, 'v, 'r, 's) provider \<Rightarrow> 'w block" where
  "error_block L rnd samples prov =
     drawn 32 (\<lambda>seed.
       guarded (attempt (lab_identity L ''error-path identity: '' seed) (\<lambda>identity. lab_pair L prov identity False)) (\<lambda>(cc, sc).
         drawn TAG_PROBE_LEN (\<lambda>message.
           surface rnd samples ''error/record-reject'' False 1 (stateless (record_reject L cc sc message)) ())))"

section \<open>The isolation surfaces\<close>

definition isolate_packet_seal :: "('w \<Rightarrow> nat \<times> 'w) \<Rightarrow> ('c, 'hp) quic_env \<Rightarrow> ('c, 'hp) rig_keys \<Rightarrow> (rng \<times> 'w) sampler" where
  "isolate_packet_seal now E rig =
     fixed_random_trial now SEAL_LEN (\<lambda>cls random. Ok (mask_prep cls random))
       (\<lambda>work. context_of ''seal: '' (map_err (qe_show E) (fst (seal_packet E (pr_seal rig) work))))"

definition isolation_blocks :: "('w, 'h, 'k, 'a, 'g, 'v, 'r, 's, 'sk, 'roots, 'cl, 'sv, 'en, 'de, 'sg, 'x, 'pt, 'sc, 'c1, 'h1, 'c2, 'h2, 'th, 'tc) lab
    \<Rightarrow> nat \<Rightarrow> 'w block list" where
  "isolation_blocks Z samples =
     (let L = lab_records Z; K = lab_crypto Z; now = rl_now L; rnd = lab_rnd Z
      in [rigged (record_rig L TLS13_AES_128_GCM_SHA256) (\<lambda>rig.
            record_seal_surface L rnd samples ''isolate/record-aes-seal/mask-prep'' rig mask_prep),
          rigged (\<lambda>r w. case packet_rig (lab_aes Z) r of (res, r) \<Rightarrow> (res, r, w)) (\<lambda>rig.
            fresh_surface rnd samples ''isolate/packet-aes-seal/mask-prep'' False 1 (isolate_packet_seal now (lab_aes Z) rig)),
          drawn 16 (\<lambda>key. fresh_surface rnd samples ''isolate/aes-ctr/apply-keystream'' False 1 (isolate_ctr now K key)),
          drawn 16 (\<lambda>h. fresh_surface rnd samples ''isolate/ghash/zeros-vs-random'' False 1 (isolate_ghash now K h mask_prep)),
          drawn 16 (\<lambda>h. drawn SEAL_LEN (\<lambda>fixed_rand.
            fresh_surface rnd samples ''isolate/ghash/fixedrand-vs-random'' False 1 (isolate_ghash now K h (copy_prep fixed_rand)))),
          drawn SEAL_LEN (\<lambda>pad.
            fresh_surface rnd samples ''isolate/xor-sweep/zeros-vs-random'' False XOR_BATCH (isolate_xor now pad (replicate SEAL_LEN 0)))])"

section \<open>The run\<close>

definition lab_blocks :: "('w, 'h, 'k, 'a, 'g, 'v, 'r, 's, 'sk, 'roots, 'cl, 'sv, 'en, 'de, 'sg, 'x, 'pt, 'sc, 'c1, 'h1, 'c2, 'h2, 'th, 'tc) lab
    \<Rightarrow> nat \<Rightarrow> bool \<Rightarrow> 'w block" where
  "lab_blocks Z samples isolate =
     (let L = lab_records Z; now = rl_now L; rnd = lab_rnd Z
      in guarded (or_abort (core_provider (rl_rustcrypto L))) (\<lambda>prov. drawn COMPARE_LEN (\<lambda>expected. in_turn
           (control_blocks Z samples expected @ handshake_blocks Z samples prov @ kx_blocks Z samples @
            [record_block L rnd samples ''record/chacha20-poly1305/open-reject'' ''record/chacha20-poly1305/seal''
               TLS13_CHACHA20_POLY1305_SHA256,
             record_block L rnd samples ''record/aes-128-gcm/open-reject'' ''record/aes-128-gcm/seal''
               TLS13_AES_128_GCM_SHA256,
             packet_block now rnd samples (lab_chacha Z) ''packet/chacha20-poly1305/open-reject''
               ''packet/chacha20-poly1305/seal'' ''packet/chacha20-poly1305/hp-mask'',
             packet_block now rnd samples (lab_aes Z) ''packet/aes-128-gcm/open-reject''
               ''packet/aes-128-gcm/seal'' ''packet/aes-128-gcm/hp-mask'',
             token_block now rnd samples (lab_token Z),
             error_block L rnd samples prov] @
            (if isolate then isolation_blocks Z samples else [])))))"

datatype run_error = Lab_Error lab_error | Surprises nat

definition DEFAULT_SEED :: nat where "DEFAULT_SEED = 0x6c616e6e5f746c73"

text \<open>
  \<open>usize_max\<close> is the largest value of \<open>usize\<close> on the target; the two strings are the environment variables.
\<close>

definition run_lab :: "('w, 'h, 'k, 'a, 'g, 'v, 'r, 's, 'sk, 'roots, 'cl, 'sv, 'en, 'de, 'sg, 'x, 'pt, 'sc, 'c1, 'h1, 'c2, 'h2, 'th, 'tc) lab
    \<Rightarrow> nat \<Rightarrow> string option \<Rightarrow> string option \<Rightarrow> bool \<Rightarrow> 'w \<Rightarrow> (unit, run_error) result \<times> 'w" where
  "run_lab Z usize_max samples_var seed_var isolate w =
     (let samples = parsed_or usize_max DEFAULT_SAMPLES samples_var;
          seed = of_nat (parsed_or (2 ^ 64 - 1) DEFAULT_SEED seed_var)
      in case lab_blocks Z samples isolate (rng_new seed, w) of
           (Inl e, _, w) \<Rightarrow> (Err (Lab_Error e), w)
         | (Inr reports, _, w) \<Rightarrow>
             (case evaluate reports of
                Inl n \<Rightarrow> (Err (Surprises n), w)
              | Inr _ \<Rightarrow> (Ok (), w)))"

text \<open>How the process ends: \<open>main\<close> gives the status of a returned run; a panic ends it otherwise.\<close>

datatype process_end = Exited exit_code | Panicking string | Running

definition lab_process :: "(unit, run_error) result \<Rightarrow> process_end" where
  "lab_process run =
     (case run of
        Inl (Lab_Error Diverged) \<Rightarrow> Running
      | Inl (Lab_Error (Panicked m)) \<Rightarrow> Panicking m
      | _ \<Rightarrow> Exited (lab_main run))"

section \<open>Blocks that end\<close>

named_theorems block_ends \<open>blocks that never diverge on a live generator\<close>

definition block_ends :: "'w block \<Rightarrow> bool" where
  "block_ends b \<longleftrightarrow> (\<forall>r w. r \<noteq> 0 \<longrightarrow> fst (b (r, w)) \<noteq> Err Diverged \<and> fst (snd (b (r, w))) \<noteq> 0)"

lemma block_endsD: "block_ends b \<Longrightarrow> r \<noteq> 0 \<Longrightarrow> b (r, w) = (res, r', w') \<Longrightarrow> res \<noteq> Err Diverged \<and> r' \<noteq> 0"
  unfolding block_ends_def by (metis fst_conv snd_conv)

lemma in_turn_ends [block_ends]:
  "(\<And>b. b \<in> set bs \<Longrightarrow> block_ends b) \<Longrightarrow> block_ends (in_turn bs)"
proof (induction bs)
  case (Cons b bs)
  have ih: "block_ends (in_turn bs)" and b: "block_ends b" using Cons by simp_all
  show ?case unfolding block_ends_def
  proof (intro allI impI)
    fix r :: rng and w :: 'a
    assume r: "r \<noteq> 0"
    obtain x r1 w1 where x: "b (r, w) = (x, r1, w1)" by (metis prod_cases3)
    obtain y r2 w2 where y: "in_turn bs (r1, w1) = (y, r2, w2)" by (metis prod_cases3)
    have 1: "x \<noteq> Err Diverged \<and> r1 \<noteq> 0" by (rule block_endsD [OF b r x])
    then have "y \<noteq> Err Diverged \<and> r2 \<noteq> 0" using block_endsD [OF ih _ y] by blast
    with 1 show "fst (in_turn (b # bs) (r, w)) \<noteq> Err Diverged \<and> fst (snd (in_turn (b # bs) (r, w))) \<noteq> 0"
      using x y by (cases x; cases y) auto
  qed
qed (simp add: block_ends_def)

lemma guarded_ends [block_ends]:
  "res \<noteq> Err Diverged \<Longrightarrow> (\<And>v. block_ends (k v)) \<Longrightarrow> block_ends (guarded res k)"
  by (cases res) (auto simp: block_ends_def guarded_def)

lemma drawn_ends [block_ends]: "(\<And>bs. block_ends (k bs)) \<Longrightarrow> block_ends (drawn n k)"
  unfolding block_ends_def drawn_def by (simp add: split_beta fill_nonzero)

lemma rigged_ends [block_ends]:
  assumes "\<And>r w. r \<noteq> 0 \<Longrightarrow> fst (build r w) \<noteq> Err Diverged \<and> fst (snd (build r w)) \<noteq> 0" and "\<And>rig. block_ends (k rig)"
  shows "block_ends (rigged build k)"
  unfolding block_ends_def
proof (intro allI impI)
  fix r :: rng and w
  assume r: "r \<noteq> 0"
  obtain x r1 w1 where x: "build r w = (x, r1, w1)" by (metis prod_cases3)
  have "x \<noteq> Err Diverged" "r1 \<noteq> 0" using assms(1) [OF r, of w] x by simp_all
  then show "fst (rigged build k (r, w)) \<noteq> Err Diverged \<and> fst (snd (rigged build k (r, w))) \<noteq> 0"
    using x assms(2) by (cases x) (auto simp: rigged_def block_ends_def)
qed

lemma schedule_nonzero: "r \<noteq> 0 \<Longrightarrow> snd (schedule n r) \<noteq> 0"
  by (simp add: schedule_def shuffle_def shuffle_down_state after_nonzero)

lemma named_Diverged: "named name e = Diverged \<longleftrightarrow> e = Diverged"
  by (cases e) simp_all

text \<open>A surface ends when its trials do, from every state its invariant allows.\<close>

lemma surface_ends_from:
  assumes keep: "\<And>cls s. I s \<Longrightarrow> I (snd (sample cls s)) \<and> fst (sample cls s) \<noteq> Err Diverged" and "\<And>w. I (x, w)"
  shows "block_ends (surface rnd samples name expect_leak batch sample x)"
  unfolding block_ends_def
proof (intro allI impI)
  fix r :: rng and w
  assume r: "r \<noteq> 0"
  obtain res r1 x1 w1 where m: "measure_surface rnd name expect_leak samples batch r sample (x, w) = (res, r1, x1, w1)"
    by (metis prod_cases4)
  have "r1 \<noteq> 0" using measure_outcome(2) [where I = I and Q = "\<lambda>y. y \<noteq> Err Diverged", OF keep assms(2) m] r schedule_nonzero by metis
  moreover have "res \<noteq> Err Diverged"
    using measure_outcome(3) [where I = I and Q = "\<lambda>y. y \<noteq> Err Diverged", OF keep assms(2) m] named_Diverged by metis
  ultimately show "fst (surface rnd samples name expect_leak batch sample x (r, w)) \<noteq> Err Diverged \<and>
      fst (snd (surface rnd samples name expect_leak batch sample x (r, w))) \<noteq> 0"
    using m by (cases res) (simp_all add: surface_def)
qed

lemma surface_ends [block_ends]:
  assumes "\<And>cls s. fst (sample cls s) \<noteq> Err Diverged"
  shows "block_ends (surface rnd samples name expect_leak batch sample x)"
  by (rule surface_ends_from [where I = "\<lambda>_. True"]) (use assms in simp_all)

lemma rng_new_nonzero [simp]: "rng_new v \<noteq> 0"
proof
  assume "rng_new v = 0"
  moreover have "1 \<le> rng_new v" by (simp add: rng_new_def)
  ultimately show False by simp
qed

lemma next_u64_nonzero: "r \<noteq> 0 \<Longrightarrow> next_u64 r = (v, r') \<Longrightarrow> r' \<noteq> 0"
  using snd_next_u64 [of r] xorshift_nonzero [of r] by simp

lemma fresh_surface_ends_from:
  assumes "\<And>cls s. I s \<Longrightarrow> I (snd (sample cls s)) \<and> fst (sample cls s) \<noteq> Err Diverged" and "\<And>v w. v \<noteq> 0 \<Longrightarrow> I (v, w)"
  shows "block_ends (fresh_surface rnd samples name expect_leak batch sample)"
proof -
  have "block_ends (surface rnd samples name expect_leak batch sample (rng_new v))" for v
    by (rule surface_ends_from [where I = I]) (use assms in simp_all)
  then show ?thesis unfolding block_ends_def fresh_surface_def
    by (auto split: prod.splits dest: next_u64_nonzero)
qed

lemma fresh_surface_ends [block_ends]:
  assumes "\<And>cls s. fst (sample cls s) \<noteq> Err Diverged"
  shows "block_ends (fresh_surface rnd samples name expect_leak batch sample)"
  by (rule fresh_surface_ends_from [where I = "\<lambda>_. True"]) (use assms in simp_all)

lemma stateless_ends: "(\<And>cls w. fst (sample cls w) \<noteq> Err Diverged) \<Longrightarrow> fst (stateless sample cls s) \<noteq> Err Diverged"
  by (cases s) (auto simp: stateless_def split: prod.splits, metis fst_conv)

lemma control_trials_end [block_ends]:
  "fst (stateless (control_compare now eq expected) cls s) \<noteq> Err Diverged"
  "fst (stateless (control_leaky_tag now tag) cls s) \<noteq> Err Diverged"
  "fst (control_data_work now cls t) \<noteq> Err Diverged"
proof -
  have b: "compare_batch k tag probe \<noteq> Err Diverged" for k tag probe by (induction k) simp_all
  show "fst (stateless (control_compare now eq expected) cls s) \<noteq> Err Diverged"
    by (rule stateless_ends) (auto simp: control_compare_def Let_def split: sum.splits prod.splits)
  show "fst (stateless (control_leaky_tag now tag) cls s) \<noteq> Err Diverged"
    by (rule stateless_ends) (use b in \<open>auto simp: control_leaky_tag_def Let_def split: sum.splits prod.splits\<close>)
  show "fst (control_data_work now cls t) \<noteq> Err Diverged"
    by (cases t) (simp add: control_data_work_def Let_def split: prod.splits)
qed

lemma reject_batch_ends: "reject_batch k opener msg probe \<noteq> Err Diverged"
  by (induction k arbitrary: probe) (auto split: sum.splits prod.splits)

lemma reject_trial_ends: "fst (reject_trial now opener msg template i w) \<noteq> Err Diverged"
  using reject_batch_ends by (auto simp: reject_trial_def Let_def split: sum.splits prod.splits)

lemma mask_batch_ends: "mask_batch k E hp smp \<noteq> Err Diverged"
  by (induction k) (auto split: sum.splits prod.splits)

lemma packet_trials_end [block_ends]:
  "fst (stateless (packet_open_reject now E rig) cls s) \<noteq> Err Diverged"
  "fst (stateless (token_open_reject now T key template) cls s) \<noteq> Err Diverged"
  "fst (packet_seal now E rig fixed cls t) \<noteq> Err Diverged"
  "fst (packet_hp_mask now E rig fixed cls t) \<noteq> Err Diverged"
  "fst (isolate_packet_seal now E rig cls t) \<noteq> Err Diverged"
proof -
  show "fst (stateless (packet_open_reject now E rig) cls s) \<noteq> Err Diverged"
    "fst (stateless (token_open_reject now T key template) cls s) \<noteq> Err Diverged"
    by (rule stateless_ends, simp add: packet_open_reject_def token_open_reject_def reject_trial_ends)+
  show "fst (packet_seal now E rig fixed cls t) \<noteq> Err Diverged"
    by (cases t) (auto simp: packet_seal_def Let_def split: sum.splits prod.splits)
  show "fst (packet_hp_mask now E rig fixed cls t) \<noteq> Err Diverged"
    by (cases t) (auto simp: packet_hp_mask_def Let_def mask_batch_ends split: sum.splits prod.splits)
  show "fst (isolate_packet_seal now E rig cls t) \<noteq> Err Diverged"
    unfolding isolate_packet_seal_def by (rule fixed_random_trial_ends) simp_all
qed

lemma packet_rig_ends:
  "r \<noteq> 0 \<Longrightarrow> fst (packet_rig E r) \<noteq> Err Diverged \<and> snd (packet_rig E r) \<noteq> 0"
proof -
  assume r: "r \<noteq> 0"
  obtain cid r1 where c: "fill 8 r = (cid, r1)" by fastforce
  obtain p r2 where p: "fill TAG_PROBE_LEN r1 = (p, r2)" by fastforce
  have "r2 \<noteq> 0" using fill_nonzero [OF r, of 8] fill_nonzero [of r1 TAG_PROBE_LEN] c p by simp
  then show ?thesis using c p by (auto simp: packet_rig_def Let_def split: sum.splits prod.splits)
qed

lemma token_rig_ends:
  "r \<noteq> 0 \<Longrightarrow> fst (token_rig T master r) \<noteq> Err Diverged \<and> snd (token_rig T master r) \<noteq> 0"
proof -
  assume r: "r \<noteq> 0"
  obtain p r2 where p: "fill TAG_PROBE_LEN r = (p, r2)" by fastforce
  have "r2 \<noteq> 0" using fill_nonzero [OF r, of TAG_PROBE_LEN] p by simp
  then show ?thesis using p by (auto simp: token_rig_def Let_def split: sum.splits prod.splits)
qed

lemma record_rig_keeps:
  "r \<noteq> 0 \<Longrightarrow> fst (snd (record_rig L i r w)) \<noteq> 0"
proof -
  assume r: "r \<noteq> 0"
  have "snd (fill n (snd (fill 32 r))) \<noteq> 0" for n by (intro fill_nonzero r)
  then show ?thesis using r fill_nonzero [OF r, of 32]
    by (auto simp: record_rig_def Let_def split: sum.splits prod.splits) (metis snd_conv)+
qed

lemma record_seal_surface_ends [block_ends]: "block_ends (record_seal_surface L rnd samples name rig prepare)"
proof -
  have "fst (rotated (record_seal L rig prepare) cls s) \<noteq> Err Diverged" for cls s
    using record_seal_ends [of L rig prepare cls] by (cases s) (auto simp: rotated_def split: prod.splits, metis fst_conv)
  then have "block_ends (surface rnd samples name False 1 (rotated (record_seal L rig prepare)) x)" for x
    by (rule surface_ends)
  then show ?thesis unfolding block_ends_def record_seal_surface_def
    by (auto split: prod.splits dest: next_u64_nonzero)
qed

lemma lifted_rig [simp]:
  "fst (case x of (res, r) \<Rightarrow> (res, r, w)) = fst x" "fst (snd (case x of (res, r) \<Rightarrow> (res, r, w))) = snd x"
  by (simp_all add: split_beta)

lemma rig_blocks_end [block_ends]:
  "block_ends (packet_block now rnd samples E a b c)" "block_ends (token_block now rnd samples T)"
  "lab_progress L \<Longrightarrow> block_ends (record_block L rnd samples a b i)"
  unfolding packet_block_def token_block_def record_block_def
  by (auto intro!: block_ends record_open_reject_ends simp: packet_rig_ends token_rig_ends record_rig_ends record_rig_keeps)

lemma lab_blocks_end:
  assumes "lab_progress (lab_records Z)"
  shows "block_ends (lab_blocks Z samples isolate)"
proof -
  have hg: "handshake_guard L pub seed \<noteq> Err Diverged" for L pub seed
    by (auto simp: handshake_guard_def attempt_Err split: if_splits)
  have c: "b \<in> set (control_blocks Z samples expected) \<Longrightarrow> block_ends b" for b expected
    by (auto simp: control_blocks_def Let_def intro!: block_ends)
  have h: "b \<in> set (handshake_blocks Z samples prov) \<Longrightarrow> block_ends b" for b prov
    by (auto simp: handshake_blocks_def Let_def intro!: block_ends fixed_random_surfaces_end handshake_server_ends [OF assms] hg)
  have p: "block_ends (fresh_surface rnd samples name False 1 (kx_p256 now K peer))" for rnd name now K peer
    by (rule fresh_surface_ends_from [where I = "\<lambda>s. fst s \<noteq> 0"]) (simp_all add: kx_p256_ends)
  have x: "block_ends (fresh_surface rnd samples name False 1 (kx_x25519 now K))" for rnd name now K
    by (intro fresh_surface_ends fixed_random_surfaces_end)
  have k: "b \<in> set (kx_blocks Z samples) \<Longrightarrow> block_ends b" for b
    using p x by (auto simp: kx_blocks_def Let_def intro!: guarded_ends)
  have e: "block_ends (error_block (lab_records Z) rnd samples prov)" for rnd prov
    unfolding error_block_def
    by (auto intro!: block_ends stateless_ends record_reject_ends [OF assms] simp: attempt_Err split: prod.splits)
  have i: "b \<in> set (isolation_blocks Z samples) \<Longrightarrow> block_ends b" for b
    by (auto simp: isolation_blocks_def Let_def packet_rig_ends record_rig_ends [OF assms] record_rig_keeps
        intro!: block_ends fixed_random_surfaces_end)
  show ?thesis unfolding lab_blocks_def Let_def
    using c h k e i
    by (auto intro!: guarded_ends drawn_ends in_turn_ends rig_blocks_end(1,2) rig_blocks_end(3) [OF assms] split: if_splits)
qed

section \<open>The reports of a run\<close>

text \<open>The name and the expectation of every report a block pushes when it succeeds.\<close>

definition pushes :: "'w block \<Rightarrow> (string \<times> bool) list \<Rightarrow> bool" where
  "pushes b ss \<longleftrightarrow> (\<forall>s xs s'. b s = (Ok xs, s') \<longrightarrow> map (\<lambda>r. (r_name r, r_expect_leak r)) xs = ss)"

named_theorems pushes \<open>what the blocks report\<close>

lemma surface_pushes [pushes]: "pushes (surface rnd samples name expect_leak batch sample x) [(name, expect_leak)]"
  unfolding pushes_def
proof (intro allI impI)
  fix s xs s'
  assume e: "surface rnd samples name expect_leak batch sample x s = (Ok xs, s')"
  obtain r w where s: "s = (r, w)" by fastforce
  obtain res r1 x1 w1 where m: "measure_surface rnd name expect_leak samples batch r sample (x, w) = (res, r1, x1, w1)"
    by (metis prod_cases4)
  obtain rep where rep: "res = Ok rep" "xs = [rep]" using e m s by (cases res) (auto simp: surface_def)
  then show "map (\<lambda>r. (r_name r, r_expect_leak r)) xs = [(name, expect_leak)]"
    using measure_outcome(4) [where I = "\<lambda>_. True" and Q = "\<lambda>_. True", OF _ _ m] by auto
qed

lemma guarded_pushes [pushes]: "(\<And>v. pushes (k v) ss) \<Longrightarrow> pushes (guarded res k) ss"
  by (cases res) (auto simp: pushes_def guarded_def)

lemma drawn_pushes [pushes]: "(\<And>bs. pushes (k bs) ss) \<Longrightarrow> pushes (drawn n k) ss"
  unfolding pushes_def drawn_def by (auto simp: split_beta)

lemma rigged_pushes [pushes]: "(\<And>rig. pushes (k rig) ss) \<Longrightarrow> pushes (rigged build k) ss"
  unfolding pushes_def rigged_def by (auto split: prod.splits sum.splits)

lemma reseeded_pushes: "(\<And>v. pushes (k v) ss) \<Longrightarrow> pushes (\<lambda>s. case s of (r, w) \<Rightarrow> case next_u64 r of (v, r) \<Rightarrow> k v (r, w)) ss"
  unfolding pushes_def by (auto split: prod.splits)

lemma fresh_surface_pushes [pushes]:
  "pushes (fresh_surface rnd samples name expect_leak batch sample) [(name, expect_leak)]"
  "pushes (record_seal_surface L rnd samples name rig prepare) [(name, False)]"
  unfolding fresh_surface_def [abs_def] record_seal_surface_def [abs_def] by (rule reseeded_pushes, rule surface_pushes)+

lemma in_turn_pushes: "list_all2 pushes bs sss \<Longrightarrow> pushes (in_turn bs) (concat sss)"
proof (induction bs sss rule: list_all2_induct)
  case (Cons b bs ss sss)
  then show ?case unfolding pushes_def
    by (auto split: prod.splits sum.splits) blast
qed (simp add: pushes_def)

lemma in_turn_pushes' [pushes]: "list_all2 pushes bs sss \<Longrightarrow> concat sss = ss \<Longrightarrow> pushes (in_turn bs) ss"
  using in_turn_pushes by blast

text \<open>The surfaces of the laboratory, in order, with the positive controls marked.\<close>

definition CONTROL_SURFACES :: "(string \<times> bool) list list" where
  "CONTROL_SURFACES =
     [[(''control/leaky-equal'', True)], [(''control/leaky-tag-compare'', True)], [(''control/subtle-ct-eq'', False)],
      [(''control/data-dependent-work'', True)]]"

definition HANDSHAKE_SURFACES :: "(string \<times> bool) list list" where
  "HANDSHAKE_SURFACES =
     [[(''handshake/certificate-verify-sign'', False)], [(''handshake/server'', False)],
      [(''key-schedule/hkdf-extract-expand'', False)]]"

definition KX_SURFACES :: "(string \<times> bool) list list" where
  "KX_SURFACES = [[(''key-exchange/x25519'', False)], [(''key-exchange/p256'', False)]]"

definition RIG_SURFACES :: "(string \<times> bool) list list" where
  "RIG_SURFACES =
     [[(''record/chacha20-poly1305/open-reject'', False), (''record/chacha20-poly1305/seal'', False)],
      [(''record/aes-128-gcm/open-reject'', False), (''record/aes-128-gcm/seal'', False)],
      [(''packet/chacha20-poly1305/open-reject'', False), (''packet/chacha20-poly1305/seal'', False),
       (''packet/chacha20-poly1305/hp-mask'', False)],
      [(''packet/aes-128-gcm/open-reject'', False), (''packet/aes-128-gcm/seal'', False), (''packet/aes-128-gcm/hp-mask'', False)],
      [(''token/aes-256-gcm/open-reject'', False)], [(''error/record-reject'', False)]]"

definition ISOLATION_SURFACES :: "(string \<times> bool) list list" where
  "ISOLATION_SURFACES =
     [[(''isolate/record-aes-seal/mask-prep'', False)], [(''isolate/packet-aes-seal/mask-prep'', False)],
      [(''isolate/aes-ctr/apply-keystream'', False)], [(''isolate/ghash/zeros-vs-random'', False)],
      [(''isolate/ghash/fixedrand-vs-random'', False)], [(''isolate/xor-sweep/zeros-vs-random'', False)]]"

definition SURFACES :: "bool \<Rightarrow> (string \<times> bool) list" where
  "SURFACES isolate = concat (CONTROL_SURFACES @ HANDSHAKE_SURFACES @ KX_SURFACES @ RIG_SURFACES @
     (if isolate then ISOLATION_SURFACES else []))"

lemma rig_blocks_push [pushes]:
  "pushes (record_block L rnd samples a b i) [(a, False), (b, False)]"
  "pushes (packet_block now rnd samples E a b c) [(a, False), (b, False), (c, False)]"
  "pushes (token_block now rnd samples T) [(''token/aes-256-gcm/open-reject'', False)]"
  "pushes (error_block L rnd samples prov) [(''error/record-reject'', False)]"
proof -
  show "pushes (record_block L rnd samples a b i) [(a, False), (b, False)]"
    unfolding record_block_def
    by (intro rigged_pushes in_turn_pushes' [of _ "[[(a, False)], [(b, False)]]"]) (auto intro!: pushes)
  show "pushes (packet_block now rnd samples E a b c) [(a, False), (b, False), (c, False)]"
    unfolding packet_block_def
    by (intro rigged_pushes in_turn_pushes' [of _ "[[(a, False)], [(b, False)], [(c, False)]]"]) (auto intro!: pushes)
  show "pushes (token_block now rnd samples T) [(''token/aes-256-gcm/open-reject'', False)]"
    unfolding token_block_def by (intro rigged_pushes) (auto intro!: pushes split: prod.splits)
  show "pushes (error_block L rnd samples prov) [(''error/record-reject'', False)]"
    unfolding error_block_def by (intro drawn_pushes guarded_pushes) (auto intro!: pushes split: prod.splits)
qed

lemma lab_blocks_push: "pushes (lab_blocks Z samples isolate) (SURFACES isolate)"
  unfolding lab_blocks_def SURFACES_def Let_def
proof (intro guarded_pushes drawn_pushes in_turn_pushes list_all2_appendI)
  show "list_all2 pushes (control_blocks Z samples expected) CONTROL_SURFACES" for expected
    unfolding control_blocks_def CONTROL_SURFACES_def Let_def by (auto intro!: pushes)
  show "list_all2 pushes (handshake_blocks Z samples prov) HANDSHAKE_SURFACES" for prov
    unfolding handshake_blocks_def HANDSHAKE_SURFACES_def Let_def by (auto intro!: pushes)
  show "list_all2 pushes (kx_blocks Z samples) KX_SURFACES"
    unfolding kx_blocks_def KX_SURFACES_def Let_def by (auto intro!: pushes)
  show "list_all2 pushes (if isolate then isolation_blocks Z samples else []) (if isolate then ISOLATION_SURFACES else [])"
    unfolding isolation_blocks_def ISOLATION_SURFACES_def Let_def by (auto intro!: pushes)
qed (auto simp: RIG_SURFACES_def intro!: pushes)

lemma positive_controls: "map fst (filter snd (SURFACES isolate)) =
    [''control/leaky-equal'', ''control/leaky-tag-compare'', ''control/data-dependent-work'']"
  by (simp add: SURFACES_def CONTROL_SURFACES_def HANDSHAKE_SURFACES_def KX_SURFACES_def RIG_SURFACES_def ISOLATION_SURFACES_def)

lemma lab_process_success: "lab_process run = Exited SUCCESS \<longleftrightarrow> run = Ok ()"
  by (auto simp: lab_process_def lab_main_def split: sum.splits run_error.splits lab_error.splits)

section \<open>Properties\<close>


text \<open>
  C35. A run succeeds exactly when everything was measured and nothing surprised: the process exits with
  success if and only if the run gave a report for every surface of the laboratory, in the fixed
  order, the three positive controls were seen to leak and every other surface was quiet.
\<close>

theorem lab_success_covers_every_surface:
  "lab_process (fst (run_lab Z usize_max samples_var seed_var isolate w)) = Exited SUCCESS \<longleftrightarrow>
   (\<exists>reports r' w'. lab_blocks Z (parsed_or usize_max DEFAULT_SAMPLES samples_var) isolate
        (rng_new (of_nat (parsed_or (2 ^ 64 - 1) DEFAULT_SEED seed_var)), w) = (Ok reports, r', w') \<and>
      map (\<lambda>r. (r_name r, r_expect_leak r)) reports = SURFACES isolate \<and>
      map r_name (filter r_expect_leak reports) =
        [''control/leaky-equal'', ''control/leaky-tag-compare'', ''control/data-dependent-work''] \<and>
      list_all (\<lambda>r. r_verdict r = (if r_expect_leak r then Leak else Quiet)) reports)"
proof -
  let ?samples = "parsed_or usize_max DEFAULT_SAMPLES samples_var"
  let ?r = "rng_new (of_nat (parsed_or (2 ^ 64 - 1) DEFAULT_SEED seed_var))"
  obtain res r' w' where b: "lab_blocks Z ?samples isolate (?r, w) = (res, r', w')" by (metis prod_cases3)
  have run: "fst (run_lab Z usize_max samples_var seed_var isolate w) = Ok () \<longleftrightarrow>
      (\<exists>reports. res = Ok reports \<and> evaluate reports = Ok ())"
    using b by (cases res) (auto simp: run_lab_def Let_def split: sum.splits)
  have m: "map (\<lambda>r. (r_name r, r_expect_leak r)) reports = SURFACES isolate" if "res = Ok reports" for reports
    using lab_blocks_push [of Z ?samples isolate] b that unfolding pushes_def by blast
  have c: "map r_name (filter r_expect_leak reports) =
      [''control/leaky-equal'', ''control/leaky-tag-compare'', ''control/data-dependent-work'']" if "res = Ok reports" for reports
    unfolding positive_controls [of isolate, symmetric] m [OF that, symmetric] by (simp add: filter_map comp_def)
  show ?thesis unfolding lab_process_success run lab_evaluation b using m c by auto
qed

section \<open>A concrete run\<close>

definition demo_lab :: "(nat, unit, unit, unit, named_group, nat, unit, bytes, bytes, unit, demo_side, demo_side, u8, u8,
    bytes, bytes, bytes, bytes, u8, unit, u8, unit, bytes, u8) lab" where
  "demo_lab = \<lparr>lab_records = demo_record_lab, lab_crypto = demo_crypto_lab, lab_chacha = demo_quic_env, lab_aes = demo_quic_env,
     lab_token = demo_strict_token, lab_rnd = Fin\<rparr>"


end
