(* ===== verification/Signers.thy ===== *)
theory Signers
  imports Component
begin

text \<open>
  The two signers that can be composed with the component of theory \<^verbatim>\<open>Component\<close>: the fixture signer
  (\<^verbatim>\<open>src/examples/test-signer/src/lib.rs\<close>), which holds the key itself, and the adapter to a
  webcrypto provider (\<^verbatim>\<open>src/examples/webcrypto-signer/src/lib.rs\<close>), which only holds a handle to it. The
  Ed25519 implementation and the webcrypto provider are parameters.
\<close>

section \<open>The fixture signer\<close>

record 'sk signer_env =
  sg_dalek :: "'sk ed25519_ops"
  sg_sign :: "'sk \<Rightarrow> bytes \<Rightarrow> bytes"
  sg_show :: "wit_scheme \<Rightarrow> string"
  sg_parse_error :: string
  sg_leaf_key :: bytes

definition test_schemes :: "wit_scheme list" where
  "test_schemes = [WitEd25519]"

definition test_sign :: "'sk signer_env \<Rightarrow> wit_scheme \<Rightarrow> bytes \<Rightarrow> (bytes, string) result" where
  "test_sign E scheme message =
     (if scheme \<noteq> WitEd25519 then Err (''unsupported scheme: '' @ sg_show E scheme)
      else case dalek_from_pkcs8_der (sg_dalek E) (sg_leaf_key E) of
             None \<Rightarrow> Err (''fixture key failed to parse: '' @ sg_parse_error E)
           | Some key \<Rightarrow> Ok (sg_sign E key message))"

section \<open>The webcrypto adapter\<close>

text \<open>
  A signing operation of the provider runs beside the adapter and takes the message from a stream:
  \<open>wc_take\<close> is one read of it, given what is offered; it takes some of the bytes or drops its end.
  \<open>wc_end\<close> is its result once the stream has ended.
\<close>

record ('k, 'o, 'g) webcrypto =
  wc_options_new :: 'o
  wc_can_sign :: "bool \<Rightarrow> 'o \<Rightarrow> 'o"
  wc_import :: "bytes \<Rightarrow> 'o \<Rightarrow> ('k, string) result"
  wc_begin :: "'k \<Rightarrow> 'g"
  wc_take :: "bytes \<Rightarrow> 'g \<Rightarrow> nat option \<times> 'g"
  wc_end :: "'g \<Rightarrow> (bytes, string) result"
  wc_show :: "wit_scheme \<Rightarrow> string"
  wc_leaf_key :: bytes

definition web_schemes :: "wit_scheme list" where
  "web_schemes = [WitEd25519]"

text \<open>\<open>write_all\<close>: what the reader left when it dropped its end, or nothing.\<close>

partial_function (option) write_message :: "('k, 'o, 'g) webcrypto \<Rightarrow> bytes \<Rightarrow> 'g \<Rightarrow> (bytes \<times> 'g) option" where
  "write_message W rest g =
     (if rest = [] then Some ([], g)
      else case wc_take W rest g of
             (None, g) \<Rightarrow> Some (rest, g)
           | (Some n, g) \<Rightarrow> write_message W (drop n rest) g)"

text \<open>The two joined futures: the writer drops its end after the last byte, and the signature follows.\<close>

definition web_sign :: "('k, 'o, 'g) webcrypto \<Rightarrow> wit_scheme \<Rightarrow> bytes \<Rightarrow> (bytes, string) result or_panic option" where
  "web_sign W scheme message =
     (if scheme \<noteq> WitEd25519 then Some (Ok (Err (''unsupported scheme: '' @ wc_show W scheme)))
      else case wc_import W (wc_leaf_key W) (wc_can_sign W True (wc_options_new W)) of
             Inl e \<Rightarrow> Some (Ok (Err (''webcrypto key import failed: '' @ e)))
           | Inr key \<Rightarrow>
               (case write_message W message (wc_begin W key) of
                  None \<Rightarrow> None
                | Some (leftover, g) \<Rightarrow>
                    if leftover \<noteq> [] then Some (Panic ''assertion failed: leftover.is_empty()'')
                    else Some (Ok (map_err (\<lambda>e. ''webcrypto signing failed: '' @ e) (wc_end W g)))))"

section \<open>Composition\<close>

text \<open>
  A delegated key of the component with its import bound to a signer: the component waits for the
  call, and a trap of the signer is a trap of the composition.
\<close>

type_synonym signer_call = "wit_scheme \<Rightarrow> bytes \<Rightarrow> (bytes, string) result or_panic option"

definition composed_sign :: "signer_call \<Rightarrow> delegated_signer \<Rightarrow> bytes \<Rightarrow> (bytes, tls_error) result or_panic option" where
  "composed_sign call s message =
     (case to_wit (ds_scheme s) of
        Inl p \<Rightarrow> Some (Panic p)
      | Inr w \<Rightarrow>
          (case call w message of
             None \<Rightarrow> None
           | Some (Inl p) \<Rightarrow> Some (Panic p)
           | Some (Inr r) \<Rightarrow> Some (delegated_sign (\<lambda>_ _. r) s message)))"

section \<open>Laws\<close>

text \<open>What the component relies on in a signer of Ed25519 signatures.\<close>

locale ed25519_signer =
  fixes sound :: "'e \<Rightarrow> bool" and schemes :: "'e \<Rightarrow> wit_scheme list" and call :: "'e \<Rightarrow> signer_call"
    and signature :: "'e \<Rightarrow> bytes \<Rightarrow> bytes"
  assumes reports: "schemes E = [WitEd25519]"
    and signs: "sound E \<Longrightarrow> call E WitEd25519 m = Some (Ok (Ok (signature E m)))"
    and declines: "w \<noteq> WitEd25519 \<Longrightarrow> \<exists>e. call E w m = Some (Ok (Err e))"
begin

lemma identity_made: "identity_delegated True (schemes E) chain = Ok (Id_Delegated chain [ED25519])"
  by (simp add: identity_delegated_def reports signer_schemes_def)

lemma key_offers_ed25519:
  "choose_scheme (delegated_key_new (signer_schemes (schemes E))) offered =
     (if ED25519 \<in> set offered then Some \<lparr>ds_scheme = ED25519\<rparr> else None)"
  by (simp add: choose_scheme_def delegated_key_new_def signer_schemes_def reports)

lemma key_algorithm: "delegated_algorithm (delegated_key_new (signer_schemes (schemes E))) = SA_ED25519"
  by (simp add: delegated_algorithm_def delegated_key_new_def signer_schemes_def reports)

lemma handshake_signature:
  assumes "sound E" and "choose_scheme (delegated_key_new (signer_schemes (schemes E))) offered = Some s"
  shows "composed_sign (call E) s m = Some (Ok (Ok (signature E m)))"
proof -
  have "s = \<lparr>ds_scheme = ED25519\<rparr>" using assms(2) key_offers_ed25519 by (metis option.distinct(1) option.sel)
  then show ?thesis using signs [OF assms(1)]
    by (simp add: composed_sign_def delegated_sign_def to_wit_def map_err_def)
qed

end

lemma test_sign_ed25519:
  "dalek_from_pkcs8_der (sg_dalek E) (sg_leaf_key E) = Some key \<Longrightarrow> test_sign E WitEd25519 m = Ok (sg_sign E key m)"
  by (simp add: test_sign_def)

definition fixture_key :: "'sk signer_env \<Rightarrow> 'sk" where
  "fixture_key E = (case dalek_from_pkcs8_der (sg_dalek E) (sg_leaf_key E) of Some k \<Rightarrow> k | None \<Rightarrow> undefined)"

interpretation test_signer: ed25519_signer "\<lambda>E. dalek_from_pkcs8_der (sg_dalek E) (sg_leaf_key E) \<noteq> None"
  "\<lambda>_. test_schemes" "\<lambda>E w m. Some (Ok (test_sign E w m))" "\<lambda>E. sg_sign E (fixture_key E)"
  by unfold_locales (auto simp: test_schemes_def test_sign_def fixture_key_def)

text \<open>
  The provider's promise: an import with the right to sign gives a key; an operation reads the
  stream to its end, some bytes at a time (\<open>seen\<close> is the key it signs with and what it has read), and
  returns the signature of all it read.
\<close>

definition webcrypto_ok :: "('k, 'o, 'g) webcrypto \<Rightarrow> ('g \<Rightarrow> 'k \<times> bytes) \<Rightarrow> ('k \<Rightarrow> bytes \<Rightarrow> bytes) \<Rightarrow> bool" where
  "webcrypto_ok W seen sig \<longleftrightarrow>
     (\<forall>k. seen (wc_begin W k) = (k, [])) \<and>
     (\<forall>rest g. rest \<noteq> [] \<longrightarrow> (\<exists>n g'. wc_take W rest g = (Some n, g') \<and> 0 < n \<and> n \<le> length rest \<and>
        seen g' = (fst (seen g), snd (seen g) @ take n rest))) \<and>
     (\<forall>g. wc_end W g = Ok (sig (fst (seen g)) (snd (seen g))))"

lemma write_message_delivers:
  assumes "webcrypto_ok W seen sig"
  shows "\<exists>g'. write_message W rest g = Some ([], g') \<and> seen g' = (fst (seen g), snd (seen g) @ rest)"
proof (induction "length rest" arbitrary: rest g rule: less_induct)
  case less
  show ?case
  proof (cases "rest = []")
    case False
    then obtain n g1 where t: "wc_take W rest g = (Some n, g1)" "0 < n" "n \<le> length rest"
      "seen g1 = (fst (seen g), snd (seen g) @ take n rest)"
      using assms unfolding webcrypto_ok_def by blast
    have "length (drop n rest) < length rest" using t(2) False by simp
    from less(1) [OF this, of g1] show ?thesis using t False by (subst write_message.simps) simp
  qed (subst write_message.simps, simp)
qed

definition web_key :: "('k, 'o, 'g) webcrypto \<Rightarrow> 'k" where
  "web_key W = (case wc_import W (wc_leaf_key W) (wc_can_sign W True (wc_options_new W)) of Inr k \<Rightarrow> k | Inl _ \<Rightarrow> undefined)"

lemma web_sign_ed25519:
  assumes "webcrypto_ok W seen sig" and "wc_import W (wc_leaf_key W) (wc_can_sign W True (wc_options_new W)) = Ok key"
  shows "web_sign W WitEd25519 m = Some (Ok (Ok (sig key m)))"
proof -
  obtain g where "write_message W m (wc_begin W key) = Some ([], g)" "seen g = (key, m)"
    using write_message_delivers [OF assms(1), of m "wc_begin W key"] assms(1) by (auto simp: webcrypto_ok_def)
  then show ?thesis using assms by (simp add: web_sign_def webcrypto_ok_def map_err_def)
qed

interpretation web_signer: ed25519_signer
  "\<lambda>(W, seen, sig). webcrypto_ok W seen sig \<and> is_ok (wc_import W (wc_leaf_key W) (wc_can_sign W True (wc_options_new W)))"
  "\<lambda>_. web_schemes" "\<lambda>(W, seen, sig). web_sign W" "\<lambda>(W, seen, sig). sig (web_key W)"
proof (unfold_locales, goal_cases)
  case (2 E m)
  obtain W seen sig where E: "E = (W, seen, sig)" by (cases E)
  obtain key where "wc_import W (wc_leaf_key W) (wc_can_sign W True (wc_options_new W)) = Ok key"
    using 2 E by (auto simp: is_ok_def split: sum.splits)
  then show ?case using 2 E web_sign_ed25519 [of W seen sig key m] by (simp add: web_key_def)
qed (auto simp: web_schemes_def web_sign_def)

section \<open>Properties\<close>

definition demo_signer :: "bytes signer_env" where
  "demo_signer = \<lparr>sg_dalek = demo_dalek, sg_sign = (\<lambda>k m. k @ m), sg_show = (\<lambda>_. ''other''), sg_parse_error = ''malformed'',
     sg_leaf_key = replicate 32 7\<rparr>"

text \<open>A provider that reads two bytes at a time.\<close>

definition demo_webcrypto :: "(bytes, bool, bytes \<times> bytes) webcrypto" where
  "demo_webcrypto = \<lparr>wc_options_new = False, wc_can_sign = (\<lambda>b _. b),
     wc_import = (\<lambda>d ok. if ok \<and> length d = 32 then Ok d else Err ''invalid access''), wc_begin = (\<lambda>k. (k, [])),
     wc_take = (\<lambda>rest (k, m). (Some (min 2 (length rest)), k, m @ take 2 rest)), wc_end = (\<lambda>(k, m). Ok (k @ m)),
     wc_show = (\<lambda>_. ''other''), wc_leaf_key = replicate 32 7\<rparr>"

lemma demo_webcrypto_ok: "webcrypto_ok demo_webcrypto (\<lambda>g. g) (\<lambda>k m. k @ m)"
  by (auto simp: webcrypto_ok_def demo_webcrypto_def Suc_le_eq min_def)

text \<open>
  C30. Delegated signing is signing with the fixture's key, whichever signer is composed: both make an
  identity that presents the given chain and offers Ed25519 alone, the key signs exactly when the
  peer offers Ed25519, and then neither signer panics or fails and the signature the handshake gets is
  the one the key itself makes of the message, although the component and the adapter never hold
  the key. The provider may take the message in any pieces.
\<close>

theorem delegated_signing_is_the_fixture_keys:
  assumes "dalek_from_pkcs8_der (sg_dalek E) (sg_leaf_key E) = Some key"
    and "webcrypto_ok W seen sig" and "wc_import W (wc_leaf_key W) (wc_can_sign W True (wc_options_new W)) = Ok handle"
    and "sig handle = sg_sign E key"
  shows "(\<forall>schemes \<in> {test_schemes, web_schemes}.
       \<exists>ident. identity_delegated True schemes chain = Ok ident \<and>
         acc_identity (acceptor_new True D boxed ident) = Some (SI_External chain (boxed (delegated_key_new (signer_schemes schemes)))) \<and>
         (\<forall>offered. choose_scheme (delegated_key_new (signer_schemes schemes)) offered =
            (if ED25519 \<in> set offered then Some \<lparr>ds_scheme = ED25519\<rparr> else None))) \<and>
     composed_sign (\<lambda>w m. Some (Ok (test_sign E w m))) \<lparr>ds_scheme = ED25519\<rparr> message = Some (Ok (Ok (sg_sign E key message))) \<and>
     composed_sign (web_sign W) \<lparr>ds_scheme = ED25519\<rparr> message = Some (Ok (Ok (sg_sign E key message)))"
proof (intro conjI ballI)
  fix schemes assume "schemes \<in> {test_schemes, web_schemes}"
  then have s: "schemes = [WitEd25519]" by (auto simp: test_schemes_def web_schemes_def)
  show "\<exists>ident. identity_delegated True schemes chain = Ok ident \<and>
         acc_identity (acceptor_new True D boxed ident) = Some (SI_External chain (boxed (delegated_key_new (signer_schemes schemes)))) \<and>
         (\<forall>offered. choose_scheme (delegated_key_new (signer_schemes schemes)) offered =
            (if ED25519 \<in> set offered then Some \<lparr>ds_scheme = ED25519\<rparr> else None))"
    using test_signer.identity_made [of chain] test_signer.key_offers_ed25519
    by (simp add: s test_schemes_def acceptor_new_def signer_schemes_def)
next
  have o: "choose_scheme (delegated_key_new (signer_schemes test_schemes)) [ED25519] = Some \<lparr>ds_scheme = ED25519\<rparr>"
    "choose_scheme (delegated_key_new (signer_schemes web_schemes)) [ED25519] = Some \<lparr>ds_scheme = ED25519\<rparr>"
    using test_signer.key_offers_ed25519 web_signer.key_offers_ed25519 by simp_all
  show "composed_sign (\<lambda>w m. Some (Ok (test_sign E w m))) \<lparr>ds_scheme = ED25519\<rparr> message = Some (Ok (Ok (sg_sign E key message)))"
    using test_signer.handshake_signature [OF _ o(1), of E message] assms(1) by (simp add: fixture_key_def)
  show "composed_sign (web_sign W) \<lparr>ds_scheme = ED25519\<rparr> message = Some (Ok (Ok (sg_sign E key message)))"
    using web_signer.handshake_signature [OF _ o(2), of "(W, seen, sig)" message] assms(2-4)
    by (simp add: web_key_def is_ok_def)
qed

theorem delegated_signing_is_the_fixture_keys_witness:
  "composed_sign (\<lambda>w m. Some (Ok (test_sign demo_signer w m))) \<lparr>ds_scheme = ED25519\<rparr> [1, 2, 3] = Some (Ok (Ok (replicate 32 7 @ [1, 2, 3]))) \<and>
   composed_sign (web_sign demo_webcrypto) \<lparr>ds_scheme = ED25519\<rparr> [1, 2, 3] = Some (Ok (Ok (replicate 32 7 @ [1, 2, 3])))"
proof -
  have "dalek_from_pkcs8_der (sg_dalek demo_signer) (sg_leaf_key demo_signer) = Some (replicate 32 7)"
    "wc_import demo_webcrypto (wc_leaf_key demo_webcrypto) (wc_can_sign demo_webcrypto True (wc_options_new demo_webcrypto)) = Ok (replicate 32 7)"
    "(\<lambda>m. replicate 32 7 @ m) = sg_sign demo_signer (replicate 32 7)"
    by (simp_all add: demo_signer_def demo_dalek_def demo_webcrypto_def)
  note k = this
  from delegated_signing_is_the_fixture_keys [OF k(1) demo_webcrypto_ok k(2,3), of "[[1]]" demo_dalek "\<lambda>_. ()" "[1, 2, 3]"]
  show ?thesis unfolding k(3) [symmetric] by blast
qed

text \<open>
  A provider that ends its operation before it has read the message, an error for instance, is not
  reported: the adapter's assertion traps.
\<close>

theorem web_sign_traps_on_an_early_end:
  assumes "wc_import W (wc_leaf_key W) (wc_can_sign W True (wc_options_new W)) = Ok key"
    and "wc_take W message (wc_begin W key) = (None, g)" and "message \<noteq> []"
  shows "web_sign W WitEd25519 message = Some (Panic ''assertion failed: leftover.is_empty()'')"
  using assms by (simp add: web_sign_def write_message.simps)

end
