(* ===== verification/Conformance.thy ===== *)
theory Conformance
  imports Signers Tcp_Apps
begin

text \<open>
  The conformance suite of the component (\<^verbatim>\<open>src/conformance/guest-ct/src\<close>): the loopback connection its
  cases share (\<^verbatim>\<open>support.rs\<close>) and the cases (\<^verbatim>\<open>lib.rs\<close>). The system under test is the interface the
  suite imports, the interface record of \<^verbatim>\<open>Tcp_Apps\<close> with the calls only the suite makes; the harness that chooses
  and runs the cases is another repository's. An error is its rendered diagnostic, a failed check its message.
\<close>

section \<open>The system under test\<close>

text \<open>
  A call joined with another one is started and awaited apart: both calls are under way before the
  first is awaited.
\<close>

record 's suite_ops = "'s app_ops" +
  delegated_of :: "bytes list \<Rightarrow> 's \<Rightarrow> (u32, string) result \<times> 's"
  start_connect :: "u32 \<Rightarrow> string \<Rightarrow> bytes list \<Rightarrow> 's \<Rightarrow> u32 \<times> 's"
  start_accept :: "u32 \<Rightarrow> bytes list \<Rightarrow> 's \<Rightarrow> u32 \<times> 's"
  await_info :: "u32 \<Rightarrow> 's \<Rightarrow> (connection_info, string) result \<times> 's"
  stream_read_into :: "u32 \<Rightarrow> nat \<Rightarrow> 's \<Rightarrow> (stream_result \<times> bytes) \<times> 's"

text \<open>The embedded certificates and keys.\<close>

record fixtures =
  fx_ca :: bytes
  fx_leaf :: bytes
  fx_leaf_key :: bytes
  fx_p256_key :: bytes

definition CT_ALPN :: bytes where "CT_ALPN = string_bytes ''conformance-ct/1''"
definition CT_SERVER_NAME :: string where "CT_SERVER_NAME = ''localhost''"

section \<open>The loopback connection\<close>

definition fixture_identity :: "'s suite_ops \<Rightarrow> fixtures \<Rightarrow> 's \<Rightarrow> (u32, string) result \<times> 's" where
  "fixture_identity A F s = identity_of A [fx_leaf F] (fx_leaf_key F) s"

record loopback_pair =
  lb_client_info :: connection_info
  lb_server_info :: connection_info
  lb_client_tx :: u32
  lb_client_rx :: u32
  lb_server_tx :: u32
  lb_server_rx :: u32
  lb_client_send_done :: u32
  lb_client_recv_done :: u32
  lb_server_send_done :: u32
  lb_server_recv_done :: u32

definition ct_connect :: "'s suite_ops \<Rightarrow> fixtures \<Rightarrow> u32 \<Rightarrow> 's \<Rightarrow> (loopback_pair, string) result \<times> 's" where
  "ct_connect A F ident s =
     (let (connector, s) = connector_of A [fx_ca F] s;
          (acceptor, s) = acceptor_of A ident s;
          ((client_tx, client_app_rx), s) = stream_new A s;
          ((client_ct, client_send_done), s) = tls_send A connector client_app_rx s;
          ((server_rx, server_recv_done), s) = tls_receive A acceptor client_ct s;
          ((server_tx, server_app_rx), s) = stream_new A s;
          ((server_ct, server_send_done), s) = tls_send A acceptor server_app_rx s;
          ((client_rx, client_recv_done), s) = tls_receive A connector server_ct s;
          (client_call, s) = start_connect A connector CT_SERVER_NAME [CT_ALPN] s;
          (server_call, s) = start_accept A acceptor [CT_ALPN] s;
          (client_info, s) = await_info A client_call s;
          (server_info, s) = await_info A server_call s
      in case client_info of
           Inl e \<Rightarrow> (Err (''client handshake: '' @ e), s)
         | Inr client_info \<Rightarrow>
             (case server_info of
                Inl e \<Rightarrow> (Err (''server handshake: '' @ e), s)
              | Inr server_info \<Rightarrow>
                  (Ok \<lparr>lb_client_info = client_info, lb_server_info = server_info, lb_client_tx = client_tx,
                     lb_client_rx = client_rx, lb_server_tx = server_tx, lb_server_rx = server_rx,
                     lb_client_send_done = client_send_done, lb_client_recv_done = client_recv_done,
                     lb_server_send_done = server_send_done, lb_server_recv_done = server_recv_done\<rparr>, s)))"

text \<open>All four futures are awaited before the first error is looked for.\<close>

fun first_failure :: "(string \<times> (unit, string) result) list \<Rightarrow> (unit, string) result" where
  "first_failure [] = Ok ()"
| "first_failure ((name, Inr _) # rs) = first_failure rs"
| "first_failure ((name, Inl e) # rs) = Err (name @ '' direction: '' @ e)"

definition ct_shutdown :: "'s suite_ops \<Rightarrow> loopback_pair \<Rightarrow> 's \<Rightarrow> (unit, string) result \<times> 's" where
  "ct_shutdown A lb s =
     (let s = drop_writer A (lb_server_tx lb) (drop_writer A (lb_client_tx lb) s);
          (client_send, s) = await_tls A (lb_client_send_done lb) s;
          (server_recv, s) = await_tls A (lb_server_recv_done lb) s;
          (server_send, s) = await_tls A (lb_server_send_done lb) s;
          (client_recv, s) = await_tls A (lb_client_recv_done lb) s
      in (first_failure [(''client send'', client_send), (''server receive'', server_recv),
            (''server send'', server_send), (''client receive'', client_recv)], s))"

partial_function (option) read_exact_loop :: "'s suite_ops \<Rightarrow> u32 \<Rightarrow> nat \<Rightarrow> bytes \<Rightarrow> 's \<Rightarrow> (bytes \<times> 's) option" where
  "read_exact_loop A st len data s =
     (if length data < len
      then (case stream_read_into A st (len - length data) s of
              ((status, chunk), s) \<Rightarrow>
                let data = data @ chunk
                in if at_end status then Some (data, s) else read_exact_loop A st len data s)
      else Some (data, s))"

definition read_exact :: "'s suite_ops \<Rightarrow> u32 \<Rightarrow> nat \<Rightarrow> 's \<Rightarrow> (bytes \<times> 's) option" where
  "read_exact A st len s = read_exact_loop A st len [] s"

section \<open>The cases\<close>

datatype verdict = Passed | Failed string

text \<open>\<open>or_fail()?\<close> and the final \<open>Ok(())\<close>.\<close>

definition or_fail :: "('a, string) result \<times> 's \<Rightarrow> ('a \<Rightarrow> 's \<Rightarrow> (verdict \<times> 's) option) \<Rightarrow> (verdict \<times> 's) option" where
  "or_fail r k = (case r of (Inl e, s) \<Rightarrow> Some (Failed e, s) | (Inr v, s) \<Rightarrow> k v s)"

definition check_that :: "bool \<Rightarrow> string \<Rightarrow> 's \<Rightarrow> (verdict \<times> 's) option \<Rightarrow> (verdict \<times> 's) option" where
  "check_that c message s k = (if c then k else Some (Failed message, s))"

definition finish_case :: "'s suite_ops \<Rightarrow> loopback_pair \<Rightarrow> 's \<Rightarrow> (verdict \<times> 's) option" where
  "finish_case A lb s = or_fail (ct_shutdown A lb s) (\<lambda>_ s. Some (Passed, s))"

definition reject_foreign_key :: "'s suite_ops \<Rightarrow> fixtures \<Rightarrow> 's \<Rightarrow> (verdict \<times> 's) option" where
  "reject_foreign_key A F s =
     (case identity_of A [fx_leaf F] (fx_p256_key F) s of (r, s) \<Rightarrow>
        check_that (\<not> is_ok r) ''ed25519 identity must reject non-Ed25519 key material'' s (Some (Passed, s)))"

definition alpn_sni :: "'s suite_ops \<Rightarrow> fixtures \<Rightarrow> 's \<Rightarrow> (verdict \<times> 's) option" where
  "alpn_sni A F s =
     or_fail (fixture_identity A F s) (\<lambda>ident s.
     or_fail (ct_connect A F ident s) (\<lambda>lb s.
     check_that (ci_alpn_protocol (lb_client_info lb) = Some CT_ALPN) ''client-side negotiated ALPN'' s (
     check_that (ci_alpn_protocol (lb_server_info lb) = Some CT_ALPN) ''server-side negotiated ALPN'' s (
     check_that (ci_server_name (lb_server_info lb) = Some CT_SERVER_NAME) ''SNI as seen by the acceptor'' s (
     check_that (ci_server_name (lb_client_info lb) = None) ''server-name on an initiated connection'' s (
     finish_case A lb s))))))"

definition ECHO_MESSAGE :: bytes where "ECHO_MESSAGE = string_bytes ''hello over the polymorph:tls component''"

definition echo_exchange :: "'s suite_ops \<Rightarrow> loopback_pair \<Rightarrow> 's \<Rightarrow> (verdict \<times> 's) option" where
  "echo_exchange A lb s =
     (case write_all_to A (lb_client_tx lb) ECHO_MESSAGE s of (leftover, s) \<Rightarrow>
        check_that (leftover = []) ''client write accepted only partially'' s (
        case read_exact A (lb_server_rx lb) (length ECHO_MESSAGE) s of
          None \<Rightarrow> None
        | Some (got, s) \<Rightarrow>
        check_that (got = ECHO_MESSAGE) ''server-received bytes'' s (
        case write_all_to A (lb_server_tx lb) got s of (leftover, s) \<Rightarrow>
        check_that (leftover = []) ''server write accepted only partially'' s (
        case read_exact A (lb_client_rx lb) (length ECHO_MESSAGE) s of
          None \<Rightarrow> None
        | Some (echoed, s) \<Rightarrow>
        check_that (echoed = ECHO_MESSAGE) ''client-received echo'' s (finish_case A lb s)))))"

definition echo_case :: "'s suite_ops \<Rightarrow> fixtures \<Rightarrow> 's \<Rightarrow> (verdict \<times> 's) option" where
  "echo_case A F s =
     or_fail (fixture_identity A F s) (\<lambda>ident s. or_fail (ct_connect A F ident s) (\<lambda>lb s. echo_exchange A lb s))"

definition close_notify_case :: "'s suite_ops \<Rightarrow> fixtures \<Rightarrow> 's \<Rightarrow> (verdict \<times> 's) option" where
  "close_notify_case A F s =
     or_fail (fixture_identity A F s) (\<lambda>ident s. or_fail (ct_connect A F ident s) (\<lambda>lb s. finish_case A lb s))"

definition decline_case :: "'s suite_ops \<Rightarrow> fixtures \<Rightarrow> 's \<Rightarrow> (verdict \<times> 's) option" where
  "decline_case A F s =
     (case delegated_of A [fx_leaf F] s of (r, s) \<Rightarrow>
        check_that (\<not> is_ok r) ''delegated identity must fail without a composed signer'' s (Some (Passed, s)))"

definition delegated_handshake_case :: "'s suite_ops \<Rightarrow> fixtures \<Rightarrow> 's \<Rightarrow> (verdict \<times> 's) option" where
  "delegated_handshake_case A F s =
     or_fail (delegated_of A [fx_leaf F] s) (\<lambda>ident s.
     or_fail (ct_connect A F ident s) (\<lambda>lb s.
     check_that (ci_alpn_protocol (lb_client_info lb) = Some CT_ALPN) ''ALPN over a delegated-identity handshake'' s (
     finish_case A lb s)))"

definition coexist_case :: "'s suite_ops \<Rightarrow> fixtures \<Rightarrow> 's \<Rightarrow> (verdict \<times> 's) option" where
  "coexist_case A F s =
     or_fail (fixture_identity A F s) (\<lambda>ident s. or_fail (ct_connect A F ident s) (\<lambda>lb s. finish_case A lb s))"

section \<open>Laws\<close>

lemma check_that_Passed [simp]: "check_that c m s k = Some (Passed, s') \<longleftrightarrow> c \<and> k = Some (Passed, s')"
  by (simp add: check_that_def)

lemma or_fail_Passed [simp]: "or_fail r k = Some (Passed, s') \<longleftrightarrow> (\<exists>v s1. r = (Ok v, s1) \<and> k v s1 = Some (Passed, s'))"
  by (auto simp: or_fail_def split: prod.splits sum.splits)

lemma or_fail_simps [simp]: "or_fail (Ok v, s) k = k v s" "or_fail (Err e, s) k = Some (Failed e, s)"
  by (simp_all add: or_fail_def)

lemma first_failure_Ok: "first_failure rs = Ok () \<longleftrightarrow> (\<forall>r \<in> set rs. is_ok (snd r))"
  by (induction rs rule: first_failure.induct) (auto simp: is_ok_def)

text \<open>The four verdicts of a shutdown, in the order they are awaited.\<close>

definition closes :: "'s suite_ops \<Rightarrow> loopback_pair \<Rightarrow> 's \<Rightarrow> (unit, string) result list \<times> 's" where
  "closes A lb s =
     (let s = drop_writer A (lb_server_tx lb) (drop_writer A (lb_client_tx lb) s);
          (a, s) = await_tls A (lb_client_send_done lb) s; (b, s) = await_tls A (lb_server_recv_done lb) s;
          (c, s) = await_tls A (lb_server_send_done lb) s; (d, s) = await_tls A (lb_client_recv_done lb) s
      in ([a, b, c, d], s))"

lemma finish_case_verdict:
  assumes "closes A lb s = (vs, s')"
  shows "\<exists>v. finish_case A lb s = Some (v, s') \<and> (v = Passed \<longleftrightarrow> list_all is_ok vs)"
proof -
  obtain r where r: "ct_shutdown A lb s = (r, s')" "r = Ok () \<longleftrightarrow> list_all is_ok vs"
    using assms by (auto simp: ct_shutdown_def closes_def Let_def first_failure_Ok split: prod.splits)
  then show ?thesis by (cases r) (auto simp: finish_case_def)
qed

text \<open>Successive reads of a stream into what is left of a buffer.\<close>

inductive serves :: "'s suite_ops \<Rightarrow> u32 \<Rightarrow> nat \<Rightarrow> 's \<Rightarrow> (stream_result \<times> bytes) list \<Rightarrow> 's \<Rightarrow> bool" for A st where
  serves_none: "serves A st n s [] s"
| serves_read: "stream_read_into A st n s = (r, s1) \<Longrightarrow> serves A st (n - length (snd r)) s1 rs s' \<Longrightarrow> serves A st n s (r # rs) s'"

lemma read_exact_loop_serves:
  assumes "serves A st n s rs s'" and "going rs" and "\<forall>r \<in> set rs. snd r \<noteq> []" and "n = len - length data"
    and "length data + length (text_of rs) = len"
  shows "read_exact_loop A st len data s = Some (data @ text_of rs, s')"
  using assms
proof (induction arbitrary: data rule: serves.induct)
  case (serves_none n s)
  then show ?case by (subst read_exact_loop.simps) simp
next
  case (serves_read n s r s1 rs s')
  obtain status chunk where r: "r = (status, chunk)" by fastforce
  have "length data < len" using serves_read.prems r by (cases chunk) auto
  then have "read_exact_loop A st len data s = read_exact_loop A st len (data @ chunk) s1"
    using serves_read.hyps(1) serves_read.prems(1,3) r by (subst read_exact_loop.simps) (simp add: Let_def)
  also have "\<dots> = Some ((data @ chunk) @ text_of rs, s')"
    by (rule serves_read.IH) (use serves_read.prems r in auto)
  finally show ?case using r by simp
qed

lemma read_exact_serves:
  assumes "serves A st (length m) s rs s'" and "going rs" and "\<forall>r \<in> set rs. snd r \<noteq> []" and "text_of rs = m"
  shows "read_exact A st (length m) s = Some (m, s')"
  using read_exact_loop_serves [OF assms(1-3), of "length m" "[]"] assms(4) by (simp add: read_exact_def)

text \<open>A read gives no more than the buffer it was handed has room for.\<close>

definition reads_fit :: "'s suite_ops \<Rightarrow> bool" where
  "reads_fit A \<longleftrightarrow> (\<forall>st n s. length (snd (fst (stream_read_into A st n s))) \<le> n)"

lemma read_exact_loop_bound:
  assumes "read_exact_loop A st len data s = Some res" and "reads_fit A" and "length data \<le> len"
  shows "length (fst res) \<le> len \<and> (\<exists>rest. fst res = data @ rest) \<and>
    (length (fst res) < len \<longrightarrow> (\<exists>n s1 chunk s2 status. at_end status \<and> stream_read_into A st n s1 = ((status, chunk), s2) \<and> snd res = s2))"
proof -
  let ?Q = "\<lambda>A st len data res. length (fst res) \<le> len \<and> (\<exists>rest. fst res = data @ rest) \<and>
    (length (fst res) < len \<longrightarrow> (\<exists>n s1 chunk s2 status. at_end status \<and> stream_read_into A st n s1 = ((status, chunk), s2) \<and> snd res = s2))"
  let ?P = "\<lambda>A st len data s res. reads_fit A \<longrightarrow> length data \<le> len \<longrightarrow> ?Q A st len data res"
  have "?P A st len data s res"
  proof (rule read_exact_loop.raw_induct [where P = ?P, OF _ assms(1)], intro impI, goal_cases)
    case (1 loop A st len data s res)
    show ?case
    proof (cases "length data < len")
      case True
      obtain status chunk s1 where r: "stream_read_into A st (len - length data) s = ((status, chunk), s1)" by (metis prod.collapse)
      then have "length chunk \<le> len - length data" using 1(3) unfolding reads_fit_def by (metis fst_conv snd_conv)
      then have l: "length (data @ chunk) \<le> len" using True by simp
      show ?thesis
      proof (cases "at_end status")
        case True
        then have "res = (data @ chunk, s1)" using 1(2) r \<open>length data < len\<close> by (simp add: Let_def)
        then show ?thesis using l r True by auto
      next
        case False
        then have "loop A st len (data @ chunk) s1 = Some res" using 1(2) r True by (simp add: Let_def)
        from 1(1) [OF this] 1(3) l show ?thesis by fastforce
      qed
    next
      case False
      then show ?thesis using 1(2,4) by auto
    qed
  qed
  then show ?thesis using assms(2,3) by blast
qed

text \<open>The system under test is the component: its identities are those of theory \<^verbatim>\<open>Component\<close>.\<close>

definition sut_identities :: "'s suite_ops \<Rightarrow> 'sk ed25519_ops \<Rightarrow> bool \<Rightarrow> wit_scheme list \<Rightarrow> bool" where
  "sut_identities A D feature reported \<longleftrightarrow>
     (\<forall>chain key s. is_ok (fst (identity_of A chain key s)) = is_ok (identity_ed25519 D chain key)) \<and>
     (\<forall>chain s. is_ok (fst (delegated_of A chain s)) = is_ok (identity_delegated feature reported chain))"

lemma identity_ed25519_is_ok: "is_ok (identity_ed25519 D chain key) \<longleftrightarrow> dalek_from_pkcs8_der D key \<noteq> None"
  by (auto simp: identity_ed25519_def ed25519_identity_from_pkcs8_der_def is_ok_def split: option.splits)

lemma identity_delegated_is_ok: "is_ok (identity_delegated feature reported chain) \<longleftrightarrow> feature \<and> reported \<noteq> []"
  by (auto simp: identity_delegated_def signer_schemes_def is_ok_def Let_def)

section \<open>A concrete system\<close>

text \<open>
  Streams are queues of bytes; the transforms hand a stream on as it is; a read gives at most three
  bytes. A stream's two ends have one number.
\<close>

type_synonym queue_world = "u32 \<times> (u32 \<Rightarrow> bytes)"

definition queue_info :: "string option \<Rightarrow> connection_info" where
  "queue_info name = \<lparr>ci_alpn_protocol = Some CT_ALPN, ci_server_name = name\<rparr>"

definition queue_suite :: "bool \<Rightarrow> queue_world suite_ops" where
  "queue_suite feature = \<lparr>from_utf8_lossy = (\<lambda>_. []), parse_ip = (\<lambda>_. Err []), read_file = (\<lambda>_ s. (Err [], s)),
     tcp_create = (\<lambda>_ s. (Err NotSupported, s)), tcp_connect_to = (\<lambda>_ _ s. (Err NotSupported, s)), tcp_bind = (\<lambda>_ _ s. (Err NotSupported, s)),
     tcp_listen = (\<lambda>_ s. (Err NotSupported, s)), tcp_get_local = (\<lambda>_ s. (Err NotSupported, s)), tcp_get_remote = (\<lambda>_ s. (Err NotSupported, s)),
     accepts_next = (\<lambda>_ s. (None, s)), tcp_send = (\<lambda>_ _ s. (0, s)), tcp_receive = (\<lambda>_ s. ((0, 0), s)),
     connector_of = (\<lambda>_ s. (1, s)), identity_of = (\<lambda>chain key s. (case identity_ed25519 demo_dalek chain key of Inl e \<Rightarrow> Err e | Inr _ \<Rightarrow> Ok 7, s)),
     acceptor_of = (\<lambda>_ s. (2, s)), tls_send = (\<lambda>_ st s. ((st, st + 100), s)), tls_receive = (\<lambda>_ st s. ((st, st + 200), s)),
     tls_handshake = (\<lambda>_ _ _ s. (Err [], s)), stream_new = (\<lambda>(n, q). ((n, n), (n + 1, q(n := [])))),
     stream_read = (\<lambda>_ s. ((SDropped, []), s)), write_all_to = (\<lambda>st bs (n, q). ([], (n, q(st := q st @ bs)))),
     drop_writer = (\<lambda>_ s. s), await_tls = (\<lambda>_ s. (Ok (), s)), await_transport = (\<lambda>_ s. (Ok (), s)),
     lookup_addresses = (\<lambda>_ s. (Err NameUnresolvable, s)),
     delegated_of = (\<lambda>chain s. (case identity_delegated feature test_schemes chain of Inl e \<Rightarrow> Err e | Inr _ \<Rightarrow> Ok 8, s)),
     start_connect = (\<lambda>_ _ _ s. (20, s)), start_accept = (\<lambda>_ _ s. (21, s)),
     await_info = (\<lambda>call s. (Ok (queue_info (if call = 21 then Some CT_SERVER_NAME else None)), s)),
     stream_read_into = (\<lambda>st k (n, q). ((SCompleted, take (min 3 k) (q st)), (n, q(st := drop (min 3 k) (q st)))))\<rparr>"

lemma queue_identities: "sut_identities (queue_suite feature) demo_dalek feature test_schemes"
  by (auto simp: sut_identities_def queue_suite_def is_ok_def split: sum.splits)

definition demo_fixtures :: fixtures where
  "demo_fixtures = \<lparr>fx_ca = [1], fx_leaf = [2], fx_leaf_key = replicate 32 7, fx_p256_key = replicate 121 9\<rparr>"

section \<open>Properties\<close>

text \<open>
  The identity gates of the suite, run against the component: the foreign-key case passes exactly
  when the Ed25519 parser refuses the P-256 document; the decline case passes exactly on a build without
  the signer import or with a signer that reports no scheme, and then the delegated handshake
  cannot pass, so that on no system both halves of the gate pass; and with a leaf key that is no Ed25519
  document no case that needs the fixture identity passes.
\<close>

theorem identity_gates_of_the_suite:
  assumes "sut_identities A D feature reported"
  shows "((\<exists>s'. reject_foreign_key A F s = Some (Passed, s')) \<longleftrightarrow> dalek_from_pkcs8_der D (fx_p256_key F) = None) \<and>
    ((\<exists>s'. decline_case A F s = Some (Passed, s')) \<longleftrightarrow> \<not> feature \<or> reported = []) \<and>
    (\<not> feature \<or> reported = [] \<longrightarrow> (\<nexists>s'. delegated_handshake_case A F s = Some (Passed, s'))) \<and>
    (dalek_from_pkcs8_der D (fx_leaf_key F) = None \<longrightarrow>
       (\<nexists>s'. alpn_sni A F s = Some (Passed, s') \<or> echo_case A F s = Some (Passed, s') \<or>
          close_notify_case A F s = Some (Passed, s') \<or> coexist_case A F s = Some (Passed, s')))"
proof -
  have i: "is_ok (fst (identity_of A chain key s)) \<longleftrightarrow> dalek_from_pkcs8_der D key \<noteq> None" for chain key s
    using assms unfolding sut_identities_def by (metis identity_ed25519_is_ok)
  have d: "is_ok (fst (delegated_of A chain s)) \<longleftrightarrow> feature \<and> reported \<noteq> []" for chain s
    using assms unfolding sut_identities_def by (metis identity_delegated_is_ok)
  have "\<nexists>v s1. fixture_identity A F s = (Ok v, s1)" if "dalek_from_pkcs8_der D (fx_leaf_key F) = None"
    using i [of "[fx_leaf F]" "fx_leaf_key F" s] that by (auto simp: fixture_identity_def is_ok_def)
  moreover have "\<nexists>v s1. delegated_of A [fx_leaf F] s = (Ok v, s1)" if "\<not> feature \<or> reported = []"
    using d [of "[fx_leaf F]" s] that by (auto simp: is_ok_def)
  ultimately show ?thesis
    using i [of "[fx_leaf F]" "fx_p256_key F" s] d [of "[fx_leaf F]" s]
    by (auto simp: reject_foreign_key_def decline_case_def delegated_handshake_case_def alpn_sni_def echo_case_def
        close_notify_case_def coexist_case_def split: prod.splits)
qed

theorem identity_gates_of_the_suite_witness:
  "(\<exists>s'. reject_foreign_key (queue_suite False) demo_fixtures (0, \<lambda>_. []) = Some (Passed, s')) \<and>
   (\<exists>s'. decline_case (queue_suite False) demo_fixtures (0, \<lambda>_. []) = Some (Passed, s')) \<and>
   (\<nexists>s'. decline_case (queue_suite True) demo_fixtures (0, \<lambda>_. []) = Some (Passed, s'))"
  using identity_gates_of_the_suite [OF queue_identities [of False], of demo_fixtures "(0, \<lambda>_. [])"]
    identity_gates_of_the_suite [OF queue_identities [of True], of demo_fixtures "(0, \<lambda>_. [])"]
  by (simp add: demo_dalek_def demo_fixtures_def test_schemes_def)

text \<open>
  C32. The echo case judges the connection and not the way it cuts data into pieces: over a connection
  whose reads complete with some bytes until the message's length has arrived, in whatever chunks, the
  case ends, and it passes exactly when both directions carried the message unchanged and all four directions
  then closed without an error.
\<close>

theorem echo_case_judges_the_connection:
  assumes "fixture_identity A F s = (Ok ident, s0)" and "ct_connect A F ident s0 = (Ok lb, s1)"
    and "write_all_to A (lb_client_tx lb) ECHO_MESSAGE s1 = ([], s2)"
    and "serves A (lb_server_rx lb) (length ECHO_MESSAGE) s2 rs s3" and "going rs" and "\<forall>r \<in> set rs. snd r \<noteq> []"
    and "length (text_of rs) = length ECHO_MESSAGE"
    and "write_all_to A (lb_server_tx lb) (text_of rs) s3 = ([], s4)"
    and "serves A (lb_client_rx lb) (length ECHO_MESSAGE) s4 rs' s5" and "going rs'" and "\<forall>r \<in> set rs'. snd r \<noteq> []"
    and "length (text_of rs') = length ECHO_MESSAGE"
    and "closes A lb s5 = (vs, s6)"
  shows "\<exists>v s'. echo_case A F s = Some (v, s') \<and>
    (v = Passed \<longleftrightarrow> text_of rs = ECHO_MESSAGE \<and> text_of rs' = ECHO_MESSAGE \<and> list_all is_ok vs)"
proof -
  have r: "read_exact A (lb_server_rx lb) (length ECHO_MESSAGE) s2 = Some (text_of rs, s3)"
    using read_exact_serves [OF _ assms(5,6) refl] assms(4,7) by simp
  have r': "read_exact A (lb_client_rx lb) (length ECHO_MESSAGE) s4 = Some (text_of rs', s5)"
    using read_exact_serves [OF _ assms(10,11) refl] assms(9,12) by simp
  obtain v where v: "finish_case A lb s5 = Some (v, s6)" "v = Passed \<longleftrightarrow> list_all is_ok vs"
    using finish_case_verdict [OF assms(13)] by blast
  have "echo_case A F s = echo_exchange A lb s1" using assms(1,2) by (simp add: echo_case_def)
  then show ?thesis using assms(3,8) r r' v
    by (cases "text_of rs = ECHO_MESSAGE") (simp_all add: echo_exchange_def check_that_def)
qed

lemma queue_serves:
  "q st = m \<Longrightarrow> \<exists>rs. serves (queue_suite f) st (length m) (n, q) rs (n, q(st := [])) \<and> going rs \<and> (\<forall>r \<in> set rs. snd r \<noteq> []) \<and> text_of rs = m"
proof (induction "length m" arbitrary: m q rule: less_induct)
  case less
  show ?case
  proof (cases "m = []")
    case True
    then have "q(st := []) = q" using less.prems by (simp add: fun_upd_idem)
    then show ?thesis using True serves_none [of "queue_suite f" st 0 "(n, q)"] by (intro exI [of _ "[]"]) simp
  next
    case False
    let ?q = "q(st := drop 3 m)" and ?r = "(SCompleted, take 3 m)"
    have r: "stream_read_into (queue_suite f) st (length m) (n, q) = (?r, (n, ?q))"
      using less.prems by (auto simp: queue_suite_def min_def)
    obtain rs where rs: "serves (queue_suite f) st (length (drop 3 m)) (n, ?q) rs (n, ?q(st := []))" "going rs"
      "\<forall>r \<in> set rs. snd r \<noteq> []" "text_of rs = drop 3 m" using less.hyps [of "drop 3 m" ?q] False by auto
    have "length m - length (snd ?r) = length (drop 3 m)" by simp
    then have "serves (queue_suite f) st (length m) (n, q) (?r # rs) (n, q(st := []))"
      using serves_read [OF r, of rs] rs(1) by simp
    then show ?thesis using rs(2-4) False by (intro exI [of _ "?r # rs"]) (simp add: at_end_def)
  qed
qed

theorem echo_case_judges_the_connection_witness:
  "\<exists>s'. echo_case (queue_suite False) demo_fixtures (0, \<lambda>_. []) = Some (Passed, s')"
proof -
  let ?A = "queue_suite False" and ?lb = "\<lparr>lb_client_info = queue_info None, lb_server_info = queue_info (Some CT_SERVER_NAME),
    lb_client_tx = 0, lb_client_rx = 1, lb_server_tx = 1, lb_server_rx = 0, lb_client_send_done = 100, lb_client_recv_done = 201,
    lb_server_send_done = 101, lb_server_recv_done = 200\<rparr>"
  let ?q = "(\<lambda>_. [])(0 := ECHO_MESSAGE) :: u32 \<Rightarrow> bytes" and ?q' = "(\<lambda>_. [])(1 := ECHO_MESSAGE) :: u32 \<Rightarrow> bytes"
  have f: "fixture_identity ?A demo_fixtures (0, \<lambda>_. []) = (Ok 7, (0, \<lambda>_. []))"
    by (simp add: fixture_identity_def queue_suite_def identity_ed25519_def ed25519_identity_from_pkcs8_der_def demo_dalek_def demo_fixtures_def)
  have c: "ct_connect ?A demo_fixtures 7 (0, \<lambda>_. []) = (Ok ?lb, (2, \<lambda>_. []))"
    by (simp add: ct_connect_def queue_suite_def Let_def fun_upd_idem)
  have w: "write_all_to ?A (lb_client_tx ?lb) ECHO_MESSAGE (2, \<lambda>_. []) = ([], (2, ?q))"
    "write_all_to ?A (lb_server_tx ?lb) ECHO_MESSAGE (2, ?q(0 := [])) = ([], (2, ?q'))"
    by (simp_all add: queue_suite_def fun_eq_iff)
  obtain rs where r: "serves ?A 0 (length ECHO_MESSAGE) (2, ?q) rs (2, ?q(0 := []))" "going rs" "\<forall>r \<in> set rs. snd r \<noteq> []"
    "text_of rs = ECHO_MESSAGE" using queue_serves [of ?q 0 ECHO_MESSAGE False 2] by auto
  obtain rs' where r': "serves ?A 1 (length ECHO_MESSAGE) (2, ?q') rs' (2, ?q'(1 := []))" "going rs'" "\<forall>r \<in> set rs'. snd r \<noteq> []"
    "text_of rs' = ECHO_MESSAGE" using queue_serves [of ?q' 1 ECHO_MESSAGE False 2] by auto
  have k: "closes ?A ?lb (2, ?q'(1 := [])) = ([Ok (), Ok (), Ok (), Ok ()], (2, ?q'(1 := [])))"
    by (simp add: closes_def queue_suite_def)
  show ?thesis
    using echo_case_judges_the_connection [OF f c w(1), of rs "(2, ?q(0 := []))" "(2, ?q')" rs' "(2, ?q'(1 := []))"
        "[Ok (), Ok (), Ok (), Ok ()]" "(2, ?q'(1 := []))"] r r' w(2) k by (auto simp: is_ok_def)
qed

text \<open>
  \<open>read_exact\<close> never returns more than was asked for, and returns less only when the stream has ended.
\<close>

theorem read_exact_never_overruns:
  assumes "reads_fit A" and "read_exact A st len s = Some (data, s')"
  shows "length data \<le> len \<and>
    (length data < len \<longrightarrow> (\<exists>n s1 chunk status. at_end status \<and> stream_read_into A st n s1 = ((status, chunk), s')))"
  using read_exact_loop_bound [of A st len "[]" s "(data, s')"] assms by (auto simp: read_exact_def)

end
