(* ===== verification/Component_Bench.thy ===== *)
theory Component_Bench
  imports Conformance Quic_Setup
begin

text \<open>
  The benchmark of the composed component (\<^verbatim>\<open>src/bench/tls-component-bench/src/lib.rs\<close>): a connector and an
  acceptor in one guest, each fed with the other's ciphertext, a bulk transfer through them and
  handshakes. The component, the streams and the clock are parameters. The two futures of a
  batch are polled in turn until both are done; between two rounds the rest of the system runs.
\<close>

section \<open>The system\<close>

text \<open>
  A poll of a write or of a read is pending, or gives the status and how much was taken or the chunk.
  \<open>cb_turn\<close> is what happens until the task is woken.
\<close>

record 's bench_ops = "'s suite_ops" +
  poll_write :: "u32 \<Rightarrow> bytes \<Rightarrow> 's \<Rightarrow> (stream_result \<times> nat) option \<times> 's"
  poll_read :: "u32 \<Rightarrow> nat \<Rightarrow> 's \<Rightarrow> (stream_result \<times> bytes) option \<times> 's"
  cb_turn :: "'s \<Rightarrow> 's"
  cb_now :: "'s \<Rightarrow> instant \<times> 's"

definition CB_CHUNK :: nat where "CB_CHUNK = 32 * 1024"
definition CB_BATCHES :: nat where "CB_BATCHES = 5"

section \<open>The connection\<close>

definition cb_connect :: "'s bench_ops \<Rightarrow> fixtures \<Rightarrow> 's \<Rightarrow> ((u32 \<times> u32) \<times> 's) outcome" where
  "cb_connect A F s =
     (case identity_of A [fx_leaf F] (fx_leaf_key F) s of
        (Inl e, s) \<Rightarrow> Panics ''fixture identity''
      | (Inr ident, s) \<Rightarrow>
          let (connector, s) = connector_of A [fx_ca F] s;
              (acceptor, s) = acceptor_of A ident s;
              ((client_app_tx, client_app_rx), s) = stream_new A s;
              ((client_ct, _), s) = tls_send A connector client_app_rx s;
              ((server_app_rx, _), s) = tls_receive A acceptor client_ct s;
              ((_, server_app_reply_rx), s) = stream_new A s;
              ((server_ct, _), s) = tls_send A acceptor server_app_reply_rx s;
              (_, s) = tls_receive A connector server_ct s;
              (client_call, s) = start_connect A connector ''localhost'' [] s;
              (server_call, s) = start_accept A acceptor [] s;
              (client_info, s) = await_info A client_call s;
              (server_info, s) = await_info A server_call s
          in if \<not> is_ok client_info then Panics ''handshake (client)''
             else if \<not> is_ok server_info then Panics ''handshake (server)''
             else Done ((client_app_tx, server_app_rx), s))"

section \<open>A batch\<close>

text \<open>
  The writing future: \<open>left\<close> chunks to begin, \<open>rest\<close> of the one under way. A stream that was dropped
  leaves the rest of the chunk over, which is a panic. The first component tells whether the future is done.
\<close>

partial_function (option) poll_writer :: "'s bench_ops \<Rightarrow> u32 \<Rightarrow> nat \<Rightarrow> bytes \<Rightarrow> 's \<Rightarrow> (bool \<times> nat \<times> bytes \<times> 's) outcome option" where
  "poll_writer A tx left rest s =
     (if rest = [] then
        if left = 0 then Some (Done (True, 0, [], s))
        else poll_writer A tx (left - 1) (replicate CB_CHUNK 0xa5) s
      else case poll_write A tx rest s of
             (None, s) \<Rightarrow> Some (Done (False, left, rest, s))
           | (Some (status, n), s) \<Rightarrow>
               if at_end status \<and> drop n rest \<noteq> [] then Some (Panics ''cleartext stream rejected a chunk'')
               else poll_writer A tx left (drop n rest) s)"

partial_function (option) poll_reader :: "'s bench_ops \<Rightarrow> u32 \<Rightarrow> nat \<Rightarrow> nat \<Rightarrow> 's \<Rightarrow> (bool \<times> nat \<times> 's) outcome option" where
  "poll_reader A rx amount got s =
     (if got < amount then
        case poll_read A rx CB_CHUNK s of
          (None, s) \<Rightarrow> Some (Done (False, got, s))
        | (Some (status, chunk), s) \<Rightarrow>
            if at_end status \<and> got + length chunk < amount then Some (Panics ''stream ended early'')
            else poll_reader A rx amount (got + length chunk) s
      else Some (Done (True, got, s)))"

partial_function (option) join_batch :: "'s bench_ops \<Rightarrow> u32 \<Rightarrow> u32 \<Rightarrow> nat \<Rightarrow> nat \<Rightarrow> bytes \<Rightarrow> nat \<Rightarrow> 's \<Rightarrow> (nat \<times> 's) outcome option" where
  "join_batch A tx rx amount left rest got s =
     (case poll_writer A tx left rest s of
        None \<Rightarrow> None
      | Some (Exits n m) \<Rightarrow> Some (Exits n m)
      | Some (Panics p) \<Rightarrow> Some (Panics p)
      | Some (Done (written, left, rest, s)) \<Rightarrow>
          (case poll_reader A rx amount got s of
             None \<Rightarrow> None
           | Some (Exits n m) \<Rightarrow> Some (Exits n m)
           | Some (Panics p) \<Rightarrow> Some (Panics p)
           | Some (Done (read, got, s)) \<Rightarrow>
               if written \<and> read then Some (Done (got, s))
               else join_batch A tx rx amount left rest got (cb_turn A s)))"

definition push_batch :: "'s bench_ops \<Rightarrow> (real \<Rightarrow> f64) \<Rightarrow> nat \<Rightarrow> u32 \<times> u32 \<Rightarrow> 's \<Rightarrow> (f64 \<times> 's) outcome option" where
  "push_batch A rnd batch_bytes p s =
     (case (cb_now A s, p) of ((start, s), tx, rx) \<Rightarrow>
        let chunks = batch_bytes div CB_CHUNK
        in chain (join_batch A tx rx (chunks * CB_CHUNK) chunks [] 0 s) (\<lambda>(_, s).
             case cb_now A s of (stop, s) \<Rightarrow> Some (Done (rate rnd (chunks * CB_CHUNK) (stop - start), s))))"

section \<open>The benchmark\<close>

fun repeat_batch :: "nat \<Rightarrow> ('s \<Rightarrow> (f64 \<times> 's) outcome option) \<Rightarrow> 's \<Rightarrow> (f64 list \<times> 's) outcome option" where
  "repeat_batch 0 batch s = Some (Done ([], s))"
| "repeat_batch (Suc k) batch s =
     chain (batch s) (\<lambda>(r, s). chain (repeat_batch k batch s) (\<lambda>(rs, s). Some (Done (r # rs, s))))"

definition component_bulk :: "'s bench_ops \<Rightarrow> fixtures \<Rightarrow> (real \<Rightarrow> f64) \<Rightarrow> nat \<Rightarrow> 's \<Rightarrow> ((f64 \<times> f64 \<times> f64) \<times> 's) outcome option" where
  "component_bulk A F rnd batch_bytes s =
     chain (Some (cb_connect A F s)) (\<lambda>(p, s).
     chain (push_batch A rnd batch_bytes p s) (\<lambda>(_, s).
     chain (repeat_batch CB_BATCHES (push_batch A rnd batch_bytes p) s) (\<lambda>(rates, s).
       Some (Done (bench_row rates, s)))))"

fun connect_times :: "nat \<Rightarrow> 's bench_ops \<Rightarrow> fixtures \<Rightarrow> 's \<Rightarrow> 's outcome" where
  "connect_times 0 A F s = Done s"
| "connect_times (Suc k) A F s =
     (case cb_connect A F s of Done (_, s) \<Rightarrow> connect_times k A F s | Exits n m \<Rightarrow> Exits n m | Panics p \<Rightarrow> Panics p)"

definition run_batch :: "'s bench_ops \<Rightarrow> fixtures \<Rightarrow> (real \<Rightarrow> f64) \<Rightarrow> nat \<Rightarrow> 's \<Rightarrow> (f64 \<times> 's) outcome option" where
  "run_batch A F rnd batch s =
     (case cb_now A s of (start, s) \<Rightarrow>
        chain (Some (connect_times batch A F s)) (\<lambda>s.
        case cb_now A s of (stop, s) \<Rightarrow> Some (Done (f_div rnd (rnd (real batch)) (as_secs_f64 rnd (stop - start)), s))))"

definition component_handshakes :: "'s bench_ops \<Rightarrow> fixtures \<Rightarrow> (real \<Rightarrow> f64) \<Rightarrow> nat \<Rightarrow> 's \<Rightarrow> ((f64 \<times> f64 \<times> f64) \<times> 's) outcome option" where
  "component_handshakes A F rnd batch s =
     chain (run_batch A F rnd batch s) (\<lambda>(_, s).
     chain (repeat_batch CB_BATCHES (run_batch A F rnd batch) s) (\<lambda>(rates, s). Some (Done (bench_row rates, s))))"

text \<open>The run fails with the usage, or prints its two rows. \<open>usize\<close> has 32 bits.\<close>

definition component_bench_run :: "'s bench_ops \<Rightarrow> fixtures \<Rightarrow> (real \<Rightarrow> f64) \<Rightarrow> bool \<Rightarrow> string list \<Rightarrow> 's
    \<Rightarrow> (((f64 \<times> f64 \<times> f64) \<times> (f64 \<times> f64 \<times> f64)) \<times> 's) outcome option" where
  "component_bench_run A F rnd checked args s =
     (case args of
        [_, mib, hs] \<Rightarrow>
          (case (parse_uint (2 ^ 32 - 1) mib, parse_uint (2 ^ 32 - 1) hs) of
             (Inr mib, Inr hs) \<Rightarrow>
               chain (Some (bench_bytes 32 checked mib)) (\<lambda>amount.
               chain (component_bulk A F rnd amount s) (\<lambda>(bulk_row, s).
               chain (component_handshakes A F rnd hs s) (\<lambda>(hs_row, s). Some (Done ((bulk_row, hs_row), s)))))
           | _ \<Rightarrow> Some (Exits 1 ''usage''))
      | _ \<Rightarrow> Some (Exits 1 ''usage''))"

section \<open>Laws\<close>

text \<open>
  What the composed streams promise: \<open>sent\<close> and \<open>got\<close> are what the stream's two ends took and gave so far;
  what was given is a prefix of what was taken, and only polls change either.
\<close>

definition carries :: "'s bench_ops \<Rightarrow> u32 \<Rightarrow> u32 \<Rightarrow> ('s \<Rightarrow> bytes) \<Rightarrow> ('s \<Rightarrow> bytes) \<Rightarrow> bool" where
  "carries A tx rx sent got \<longleftrightarrow>
     (\<forall>s. \<exists>flight. sent s = got s @ flight) \<and>
     (\<forall>rest s. case poll_write A tx rest s of
        (None, s') \<Rightarrow> sent s' = sent s \<and> got s' = got s
      | (Some (status, n), s') \<Rightarrow> n \<le> length rest \<and> sent s' = sent s @ take n rest \<and> got s' = got s) \<and>
     (\<forall>n s. case poll_read A rx n s of
        (None, s') \<Rightarrow> sent s' = sent s \<and> got s' = got s
      | (Some (status, chunk), s') \<Rightarrow> sent s' = sent s \<and> got s' = got s @ chunk) \<and>
     (\<forall>s. sent (cb_turn A s) = sent s \<and> got (cb_turn A s) = got s)"

lemma carriesD:
  assumes "carries A tx rx sent got"
  shows "\<exists>flight. sent s = got s @ flight"
    and "poll_write A tx rest s = (None, s') \<Longrightarrow> sent s' = sent s \<and> got s' = got s"
    and "poll_write A tx rest s = (Some (status, n), s') \<Longrightarrow> n \<le> length rest \<and> sent s' = sent s @ take n rest \<and> got s' = got s"
    and "poll_read A rx k s = (None, s') \<Longrightarrow> sent s' = sent s \<and> got s' = got s"
    and "poll_read A rx k s = (Some (status, chunk), s') \<Longrightarrow> sent s' = sent s \<and> got s' = got s @ chunk"
    and "sent (cb_turn A s) = sent s \<and> got (cb_turn A s) = got s"
proof -
  note c = assms [unfolded carries_def]
  show "\<exists>flight. sent s = got s @ flight" "sent (cb_turn A s) = sent s \<and> got (cb_turn A s) = got s" using c by blast+
  have w: "case poll_write A tx rest s of
        (None, s') \<Rightarrow> sent s' = sent s \<and> got s' = got s
      | (Some (status, n), s') \<Rightarrow> n \<le> length rest \<and> sent s' = sent s @ take n rest \<and> got s' = got s"
    by (rule c [THEN conjunct2, THEN conjunct1, THEN spec, THEN spec])
  have r: "case poll_read A rx k s of
        (None, s') \<Rightarrow> sent s' = sent s \<and> got s' = got s
      | (Some (status, chunk), s') \<Rightarrow> sent s' = sent s \<and> got s' = got s @ chunk"
    by (rule c [THEN conjunct2, THEN conjunct2, THEN conjunct1, THEN spec, THEN spec])
  show "poll_write A tx rest s = (None, s') \<Longrightarrow> sent s' = sent s \<and> got s' = got s"
    "poll_write A tx rest s = (Some (status, n), s') \<Longrightarrow> n \<le> length rest \<and> sent s' = sent s @ take n rest \<and> got s' = got s"
    using w by auto
  show "poll_read A rx k s = (None, s') \<Longrightarrow> sent s' = sent s \<and> got s' = got s"
    "poll_read A rx k s = (Some (status, chunk), s') \<Longrightarrow> sent s' = sent s \<and> got s' = got s @ chunk"
    using r by auto
qed

text \<open>What is still to be written, and what the writing future's polls do to it.\<close>

definition to_write :: "nat \<Rightarrow> bytes \<Rightarrow> bytes" where
  "to_write left rest = rest @ replicate (left * CB_CHUNK) 0xa5"

lemma to_write_simps [simp]:
  "to_write 0 [] = []" "0 < left \<Longrightarrow> to_write (left - Suc 0) (replicate CB_CHUNK 0xa5) = to_write left []"
  "n \<le> length rest \<Longrightarrow> take n rest @ to_write left (drop n rest) = to_write left rest"
  by (cases left; simp add: to_write_def replicate_add [symmetric])+

lemma poll_writer_run:
  assumes "poll_writer A tx left rest s = Some res" and "carries A tx rx sent got"
  shows "\<forall>d l r s'. res = Done (d, l, r, s') \<longrightarrow> sent s' @ to_write l r = sent s @ to_write left rest \<and> got s' = got s \<and>
    (d \<longleftrightarrow> l = 0 \<and> r = [])"
proof -
  let ?Q = "\<lambda>left rest s res. \<forall>d l r s'. res = Done (d, l, r, s') \<longrightarrow> sent s' @ to_write l r = sent s @ to_write left rest \<and>
    got s' = got s \<and> (d \<longleftrightarrow> l = 0 \<and> r = [])"
  let ?P = "\<lambda>A tx left rest s res. carries A tx rx sent got \<longrightarrow> ?Q left rest s res"
  have "?P A tx left rest s res"
  proof (rule poll_writer.raw_induct [where P = ?P, OF _ assms(1)], intro impI, goal_cases)
    case (1 loop A tx left rest s res)
    show ?case
    proof (cases "rest = []")
      case True
      show ?thesis
      proof (cases "left = 0")
        case False
        then have "loop A tx (left - 1) (replicate CB_CHUNK 0xa5) s = Some res" using 1(2) True by simp
        from 1(1) [OF this, rule_format, OF 1(3)] show ?thesis using True False by simp
      qed (use 1(2) True in auto)
    next
      case False
      obtain r s1 where p: "poll_write A tx rest s = (r, s1)" by fastforce
      show ?thesis
      proof (cases r)
        case None
        then show ?thesis using 1(2) p False carriesD(2) [OF 1(3), of rest s s1] by auto
      next
        case (Some x)
        obtain status n where x: "x = (status, n)" by fastforce
        have c: "n \<le> length rest" "sent s1 = sent s @ take n rest" "got s1 = got s"
          using carriesD(3) [OF 1(3)] p Some x by blast+
        show ?thesis
        proof (cases "at_end status \<and> drop n rest \<noteq> []")
          case False
          then have "loop A tx left (drop n rest) s1 = Some res" using 1(2) p Some x \<open>rest \<noteq> []\<close> by auto
          from 1(1) [OF this, rule_format, OF 1(3)] show ?thesis using c by auto
        qed (use 1(2) p Some x \<open>rest \<noteq> []\<close> in auto)
      qed
    qed
  qed
  then show ?thesis using assms(2) by blast
qed

lemma poll_reader_run:
  assumes "poll_reader A rx amount n s = Some res" and "carries A tx rx sent got"
  shows "\<forall>d m s'. res = Done (d, m, s') \<longrightarrow> sent s' = sent s \<and>
    (\<exists>x. got s' = got s @ x \<and> m = n + length x) \<and> (d \<longleftrightarrow> amount \<le> m)"
proof -
  let ?Q = "\<lambda>amount n s res. \<forall>d m s'. res = Done (d, m, s') \<longrightarrow> sent s' = sent s \<and>
    (\<exists>x. got s' = got s @ x \<and> m = n + length x) \<and> (d \<longleftrightarrow> amount \<le> m)"
  let ?P = "\<lambda>A rx amount n s res. carries A tx rx sent got \<longrightarrow> ?Q amount n s res"
  have "?P A rx amount n s res"
  proof (rule poll_reader.raw_induct [where P = ?P, OF _ assms(1)], intro impI, goal_cases)
    case (1 loop A rx amount n s res)
    show ?case
    proof (cases "n < amount")
      case True
      obtain r s1 where p: "poll_read A rx CB_CHUNK s = (r, s1)" by fastforce
      show ?thesis
      proof (cases r)
        case None
        then show ?thesis using 1(2) p True carriesD(4) [OF 1(3), of CB_CHUNK s s1] by auto
      next
        case (Some x)
        obtain status chunk where x: "x = (status, chunk)" by fastforce
        have c: "sent s1 = sent s" "got s1 = got s @ chunk" using carriesD(5) [OF 1(3)] p Some x by blast+
        show ?thesis
        proof (cases "at_end status \<and> n + length chunk < amount")
          case False
          then have "loop A rx amount (n + length chunk) s1 = Some res" using 1(2) p Some x True by auto
          from 1(1) [OF this, rule_format, OF 1(3)] show ?thesis using c by fastforce
        qed (use 1(2) p Some x True in auto)
      qed
    qed (use 1(2) in auto)
  qed
  then show ?thesis using assms(2) by blast
qed

lemma join_batch_run:
  assumes "join_batch A tx rx amount left rest n s = Some res" and "carries A tx rx sent got"
  shows "\<forall>m s'. res = Done (m, s') \<longrightarrow> sent s' = sent s @ to_write left rest \<and>
    (\<exists>x. got s' = got s @ x \<and> m = n + length x) \<and> amount \<le> m"
proof -
  let ?Q = "\<lambda>amount left rest n s res. \<forall>m s'. res = Done (m, s') \<longrightarrow> sent s' = sent s @ to_write left rest \<and>
    (\<exists>x. got s' = got s @ x \<and> m = n + length x) \<and> amount \<le> m"
  let ?P = "\<lambda>A tx rx amount left rest n s res. carries A tx rx sent got \<longrightarrow> ?Q amount left rest n s res"
  have "?P A tx rx amount left rest n s res"
  proof (rule join_batch.raw_induct [where P = ?P, OF _ assms(1)], intro impI, goal_cases)
    case (1 loop A tx rx amount left rest n s res)
    show ?case
    proof (intro allI impI)
      fix m s' assume res: "res = Done (m, s')"
      obtain w l r s1 where pw: "poll_writer A tx left rest s = Some (Done (w, l, r, s1))"
        using 1(2) res by (auto split: option.splits outcome.splits prod.splits)
      obtain d k s2 where pr: "poll_reader A rx amount n s1 = Some (Done (d, k, s2))"
        using 1(2) res pw by (auto split: option.splits outcome.splits prod.splits)
      note ws = poll_writer_run [OF pw 1(3), rule_format, OF refl]
      note rs = poll_reader_run [OF pr 1(3), rule_format, OF refl]
      then obtain x where x: "got s2 = got s1 @ x" "k = n + length x" by blast
      show "sent s' = sent s @ to_write left rest \<and> (\<exists>x. got s' = got s @ x \<and> m = n + length x) \<and> amount \<le> m"
      proof (cases "w \<and> d")
        case True
        then have "m = k" "s' = s2" using 1(2) res pw pr by simp_all
        then show ?thesis using True ws rs x by auto
      next
        case False
        then have "loop A tx rx amount l r k (cb_turn A s2) = Some res" using 1(2) res pw pr by auto
        from 1(1) [OF this, rule_format, OF 1(3) res] show ?thesis using ws rs x carriesD(6) [OF 1(3), of s2] by auto
      qed
    qed
  qed
  then show ?thesis using assms(2) by blast
qed

text \<open>A batch that ends has moved exactly its bytes, and left none in flight.\<close>

lemma join_batch_exact:
  assumes "carries A tx rx sent got" and "sent s = got s"
    and "join_batch A tx rx (chunks * CB_CHUNK) chunks [] 0 s = Some (Done (n, s'))"
  shows "n = chunks * CB_CHUNK \<and> got s' = got s @ replicate (chunks * CB_CHUNK) 0xa5 \<and> sent s' = got s'"
proof -
  obtain x where x: "sent s' = sent s @ to_write chunks []" "got s' = got s @ x" "n = length x" "chunks * CB_CHUNK \<le> n"
    using join_batch_run [OF assms(3,1)] by auto
  obtain flight where "sent s' = got s' @ flight" using carriesD(1) [OF assms(1)] by blast
  then have f: "to_write chunks [] = x @ flight" using x(1,2) assms(2) by simp
  have "length x + length flight = chunks * CB_CHUNK" using arg_cong [OF f, of length] by (simp add: to_write_def)
  then have "flight = []" "length x = chunks * CB_CHUNK" using x(3,4) by (simp_all add: length_0_conv [symmetric] del: length_0_conv)
  then show ?thesis using x f assms(2) by (simp add: to_write_def)
qed

section \<open>Termination\<close>

text \<open>
  Progress of the composed streams: a poll that is not pending moves a byte or reports the end; while
  bytes are in flight a pending read, and while none are a pending write, is ready after \<open>lag\<close> turns.
\<close>

definition moves :: "'s bench_ops \<Rightarrow> u32 \<Rightarrow> u32 \<Rightarrow> ('s \<Rightarrow> bytes) \<Rightarrow> ('s \<Rightarrow> bytes) \<Rightarrow> ('s \<Rightarrow> nat) \<Rightarrow> bool" where
  "moves A tx rx sent got lag \<longleftrightarrow>
     (\<forall>rest s status n s'. rest \<noteq> [] \<longrightarrow> poll_write A tx rest s = (Some (status, n), s') \<longrightarrow> 0 < n \<or> at_end status) \<and>
     (\<forall>s status chunk s'. poll_read A rx CB_CHUNK s = (Some (status, chunk), s') \<longrightarrow> chunk \<noteq> [] \<or> at_end status) \<and>
     (\<forall>rest s s'. rest \<noteq> [] \<longrightarrow> poll_write A tx rest s = (None, s') \<longrightarrow> lag s' = lag s \<and> (sent s = got s \<longrightarrow> 0 < lag s)) \<and>
     (\<forall>s s'. poll_read A rx CB_CHUNK s = (None, s') \<longrightarrow> lag s' = lag s \<and> (sent s \<noteq> got s \<longrightarrow> 0 < lag s)) \<and>
     (\<forall>s. 0 < lag s \<longrightarrow> lag (cb_turn A s) < lag s)"

lemma movesD:
  assumes "moves A tx rx sent got lag"
  shows "rest \<noteq> [] \<Longrightarrow> poll_write A tx rest s = (Some (status, n), s') \<Longrightarrow> 0 < n \<or> at_end status"
    and "poll_read A rx CB_CHUNK s = (Some (status, chunk), s') \<Longrightarrow> chunk \<noteq> [] \<or> at_end status"
    and "rest \<noteq> [] \<Longrightarrow> poll_write A tx rest s = (None, s') \<Longrightarrow> lag s' = lag s \<and> (sent s = got s \<longrightarrow> 0 < lag s)"
    and "poll_read A rx CB_CHUNK s = (None, s') \<Longrightarrow> lag s' = lag s \<and> (sent s \<noteq> got s \<longrightarrow> 0 < lag s)"
    and "0 < lag s \<Longrightarrow> lag (cb_turn A s) < lag s"
  using assms unfolding moves_def by blast+

lemma poll_writer_shrinks:
  assumes "poll_writer A tx left rest s = Some res"
  shows "\<forall>d l r s'. res = Done (d, l, r, s') \<longrightarrow> length (to_write l r) \<le> length (to_write left rest)"
proof (rule poll_writer.raw_induct [where P = "\<lambda>A tx left rest s res. \<forall>d l r s'. res = Done (d, l, r, s') \<longrightarrow>
      length (to_write l r) \<le> length (to_write left rest)", OF _ assms], goal_cases)
  case (1 loop A tx left rest s res)
  show ?case
  proof (cases "rest = []")
    case True
    show ?thesis
    proof (cases "left = 0")
      case False
      then have "loop A tx (left - 1) (replicate CB_CHUNK 0xa5) s = Some res" using 1(2) True by simp
      from 1(1) [OF this] show ?thesis using True False by simp
    qed (use 1(2) True in auto)
  next
    case False
    obtain p s1 where p: "poll_write A tx rest s = (p, s1)" by fastforce
    show ?thesis
    proof (cases p)
      case (Some y)
      obtain status n where y: "y = (status, n)" by fastforce
      show ?thesis
      proof (cases "at_end status \<and> drop n rest \<noteq> []")
        case go: False
        then have "loop A tx left (drop n rest) s1 = Some res" using 1(2) False p Some y by auto
        from 1(1) [OF this] show ?thesis by (auto simp: to_write_def)
      qed (use 1(2) False p Some y in auto)
    qed (use 1(2) False p in auto)
  qed
qed

lemma poll_writer_ends:
  assumes M: "moves A tx rx sent got lag"
  shows "\<exists>res. poll_writer A tx left rest s = Some res \<and> (\<forall>d l r s'. res = Done (d, l, r, s') \<longrightarrow>
    length (to_write l r) < length (to_write left rest) \<or> lag s' = lag s \<and> (\<not> d \<longrightarrow> sent s = got s \<longrightarrow> 0 < lag s))"
proof (induction "left * Suc CB_CHUNK + length rest" arbitrary: left rest s rule: less_induct)
  case less
  show ?case
  proof (cases "rest = []")
    case True
    show ?thesis
    proof (cases left)
      case 0
      then show ?thesis using True by (subst poll_writer.simps) simp
    next
      case (Suc k)
      have m: "k * Suc CB_CHUNK + length (replicate CB_CHUNK (0xa5 :: u8)) < left * Suc CB_CHUNK + length rest" using Suc True by simp
      have t: "to_write k (replicate CB_CHUNK 0xa5) = to_write left rest" using to_write_simps(2) [of left] Suc True by simp
      have e: "poll_writer A tx left rest s = poll_writer A tx k (replicate CB_CHUNK 0xa5) s"
        using Suc True by (subst poll_writer.simps) simp
      from less [OF m, of s] show ?thesis unfolding e t .
    qed
  next
    case False
    obtain p s1 where p: "poll_write A tx rest s = (p, s1)" by fastforce
    show ?thesis
    proof (cases p)
      case None
      then have "poll_writer A tx left rest s = Some (Done (False, left, rest, s1))" using False p by (subst poll_writer.simps) simp
      then show ?thesis using movesD(3) [OF M False] p None by auto
    next
      case (Some y)
      obtain status n where y: "y = (status, n)" by fastforce
      show ?thesis
      proof (cases "at_end status \<and> drop n rest \<noteq> []")
        case True
        then show ?thesis using False p Some y by (subst poll_writer.simps) simp
      next
        case go: False
        have "0 < n \<or> drop n rest = []" using movesD(1) [OF M False] p Some y go by blast
        then have l: "length (drop n rest) < length rest" using False by (cases "n = 0") auto
        then have "left * Suc CB_CHUNK + length (drop n rest) < left * Suc CB_CHUNK + length rest" by simp
        from less [OF this, of s1] obtain res where r: "poll_writer A tx left (drop n rest) s1 = Some res"
          "\<forall>d k r s'. res = Done (d, k, r, s') \<longrightarrow> length (to_write k r) < length (to_write left (drop n rest)) \<or>
             lag s' = lag s1 \<and> (\<not> d \<longrightarrow> sent s1 = got s1 \<longrightarrow> 0 < lag s1)" by blast
        have e: "poll_writer A tx left rest s = Some res" using False p Some y go r(1) by (subst poll_writer.simps) auto
        have "length (to_write k r) \<le> length (to_write left (drop n rest))" if "res = Done (d, k, r, s')" for d k r s'
          using poll_writer_shrinks [OF r(1)] that by blast
        moreover have "length (to_write left (drop n rest)) < length (to_write left rest)" using l by (simp add: to_write_def)
        ultimately show ?thesis using e by (meson le_less_trans)
      qed
    qed
  qed
qed

lemma poll_reader_ends:
  assumes M: "moves A tx rx sent got lag" and C: "carries A tx rx sent got"
  shows "\<exists>res. poll_reader A rx amount n s = Some res \<and> (\<forall>d m s'. res = Done (d, m, s') \<longrightarrow>
    n < m \<or> lag s' = lag s \<and> (\<not> d \<longrightarrow> sent s \<noteq> got s \<longrightarrow> 0 < lag s))"
proof (induction "amount - n" arbitrary: n s rule: less_induct)
  case less
  show ?case
  proof (cases "n < amount")
    case True
    obtain p s1 where p: "poll_read A rx CB_CHUNK s = (p, s1)" by fastforce
    show ?thesis
    proof (cases p)
      case None
      then have "poll_reader A rx amount n s = Some (Done (False, n, s1))" using True p by (subst poll_reader.simps) simp
      then show ?thesis using movesD(4) [OF M] p None by auto
    next
      case (Some y)
      obtain status chunk where y: "y = (status, chunk)" by fastforce
      show ?thesis
      proof (cases "at_end status \<and> n + length chunk < amount")
        case early: True
        then show ?thesis using True p Some y by (subst poll_reader.simps) simp
      next
        case False
        have "0 < length chunk" using movesD(2) [OF M] p Some y False True by (cases chunk) auto
        then have "amount - (n + length chunk) < amount - n" using True by linarith
        from less [OF this, of s1] obtain res where r: "poll_reader A rx amount (n + length chunk) s1 = Some res" by blast
        have "n < m" if "res = Done (d, m, s')" for d m s'
          using poll_reader_run [OF r C] that \<open>0 < length chunk\<close> by auto
        moreover have "poll_reader A rx amount n s = Some res" using True p Some y False r by (subst poll_reader.simps) auto
        ultimately show ?thesis by blast
      qed
    qed
  qed (subst poll_reader.simps, simp)
qed

text \<open>A round that moves nothing and does not end the batch brings the next turn nearer.\<close>

lemma idle_round:
  assumes M: "moves A tx rx sent got lag" and C: "carries A tx rx sent got"
    and I: "n + length (sent s) + length (to_write left rest) = amount + length (got s)"
    and W: "poll_writer A tx left rest s = Some (Done (wd, l, r, s1))" and R: "poll_reader A rx amount n s1 = Some (Done (rd, n, s2))"
    and "length (to_write l r) = length (to_write left rest)" and "\<not> (wd \<and> rd)"
  shows "lag (cb_turn A s2) < lag s"
proof -
  have sw: "sent s1 @ to_write l r = sent s @ to_write left rest" "got s1 = got s" "wd \<longleftrightarrow> l = 0 \<and> r = []"
    using poll_writer_run [OF W C] by blast+
  have lw: "lag s1 = lag s" "\<not> wd \<longrightarrow> sent s = got s \<longrightarrow> 0 < lag s"
    using poll_writer_ends [OF M, of left rest s] W assms(6) by auto
  have lr: "lag s2 = lag s1" "\<not> rd \<longrightarrow> sent s1 \<noteq> got s1 \<longrightarrow> 0 < lag s1"
    using poll_reader_ends [OF M C, of amount n s1] R by auto
  have rd: "rd \<longleftrightarrow> amount \<le> n" using poll_reader_run [OF R C] by blast
  have same: "sent s1 = sent s" using sw(1) assms(6) by (metis append_eq_append_conv)
  obtain flight where f: "sent s1 = got s1 @ flight" using carriesD(1) [OF C] by blast
  have b: "n + length flight + length (to_write l r) = amount" using I arg_cong [OF f, of length] assms(6) by (simp add: same sw(2))
  have "0 < lag s2"
  proof (cases "flight = []")
    case True
    then have "\<not> wd" using assms(7) b sw(3) rd by (auto simp: to_write_def)
    then show ?thesis using lw lr True f same sw(2) by simp
  next
    case False
    then have "\<not> rd" using b rd by (cases flight) auto
    then show ?thesis using lr f False by simp
  qed
  then show ?thesis using movesD(5) [OF M] lw(1) lr(1) by metis
qed

lemma round_measure:
  assumes M: "moves A tx rx sent got lag" and C: "carries A tx rx sent got"
    and I: "n + length (sent s) + length (to_write left rest) = amount + length (got s)"
    and W: "poll_writer A tx left rest s = Some (Done (wd, l, r, s1))" and R: "poll_reader A rx amount n s1 = Some (Done (rd, m, s2))"
    and "\<not> (wd \<and> rd)"
  shows "((length (to_write l r) + (amount - m), lag (cb_turn A s2)), (length (to_write left rest) + (amount - n), lag s)) \<in> less_than <*lex*> less_than"
    and "m + length (sent (cb_turn A s2)) + length (to_write l r) = amount + length (got (cb_turn A s2))"
proof -
  obtain x where sr: "sent s2 = sent s1" "got s2 = got s1 @ x" "m = n + length x" using poll_reader_run [OF R C] by blast
  have sw: "sent s1 @ to_write l r = sent s @ to_write left rest" "got s1 = got s" using poll_writer_run [OF W C] by blast+
  have sh: "length (to_write l r) \<le> length (to_write left rest)" using poll_writer_shrinks [OF W] by blast
  show "m + length (sent (cb_turn A s2)) + length (to_write l r) = amount + length (got (cb_turn A s2))"
    using carriesD(6) [OF C, of s2] sr sw(2) arg_cong [OF sw(1), of length] I by simp
  show "((length (to_write l r) + (amount - m), lag (cb_turn A s2)), (length (to_write left rest) + (amount - n), lag s)) \<in> less_than <*lex*> less_than"
  proof (cases "length (to_write l r) < length (to_write left rest) \<or> n < m \<and> n < amount")
    case True
    then have "length (to_write l r) + (amount - m) < length (to_write left rest) + (amount - n)" using sh sr(3) by linarith
    then show ?thesis by simp
  next
    case False
    then have eq: "length (to_write l r) = length (to_write left rest)" using sh by simp
    have "m = n"
    proof (cases "n < amount")
      case False
      then have "poll_reader A rx amount n s1 = Some (Done (True, n, s1))" by (subst poll_reader.simps) simp
      then show ?thesis using R by simp
    qed (use False sr(3) in auto)
    then show ?thesis using idle_round [OF M C I W _ eq assms(6)] R eq by simp
  qed
qed

lemma join_batch_ends:
  assumes M: "moves A tx rx sent got lag" and C: "carries A tx rx sent got"
    and "n + length (sent s) + length (to_write left rest) = amount + length (got s)"
  shows "\<exists>res. join_batch A tx rx amount left rest n s = Some res"
  using assms(3)
proof (induction "(length (to_write left rest) + (amount - n), lag s)" arbitrary: left rest n s
    rule: wf_induct_rule [OF wf_lex_prod [OF wf_less_than wf_less_than]])
  case less: 1
  obtain w where w: "poll_writer A tx left rest s = Some w" using poll_writer_ends [OF M] by blast
  show ?case
  proof (cases w)
    case W: (Done y)
    obtain wd l r s1 where y: "y = (wd, l, r, s1)" by (cases y)
    obtain v where v: "poll_reader A rx amount n s1 = Some v" using poll_reader_ends [OF M C] by blast
    show ?thesis
    proof (cases v)
      case V: (Done z)
      obtain rd m s2 where z: "z = (rd, m, s2)" by (cases z)
      show ?thesis
      proof (cases "wd \<and> rd")
        case False
        note m = round_measure [OF M C less.prems w [unfolded W y] v [unfolded V z] False]
        obtain res where "join_batch A tx rx amount l r m (cb_turn A s2) = Some res" using less.hyps [OF m] by blast
        then show ?thesis using w v W V y z False by (subst join_batch.simps) auto
      qed (use w v W V y z in \<open>subst join_batch.simps, simp\<close>)
    qed (use w v W y in \<open>subst join_batch.simps, simp\<close>)+
  qed (use w in \<open>subst join_batch.simps, simp\<close>)+
qed

text \<open>While no end of the streams is reported no assertion fails.\<close>

definition stays_open :: "'s bench_ops \<Rightarrow> u32 \<Rightarrow> u32 \<Rightarrow> bool" where
  "stays_open A tx rx \<longleftrightarrow> (\<forall>rest s status n s'. poll_write A tx rest s = (Some (status, n), s') \<longrightarrow> \<not> at_end status) \<and>
     (\<forall>k s status chunk s'. poll_read A rx k s = (Some (status, chunk), s') \<longrightarrow> \<not> at_end status)"

lemma poll_writer_open:
  assumes "poll_writer A tx left rest s = Some res" and "stays_open A tx rx"
  shows "\<exists>v. res = Done v"
proof (rule poll_writer.raw_induct [where P = "\<lambda>A tx left rest s res. stays_open A tx rx \<longrightarrow> (\<exists>v. res = Done v)",
      OF _ assms(1), rule_format, OF _ assms(2)], goal_cases)
  case (1 loop A tx left rest s res)
  obtain p s1 where p: "poll_write A tx rest s = (p, s1)" by fastforce
  show ?case
  proof (cases "rest = [] \<or> p = None")
    case False
    then obtain status n where y: "p = Some (status, n)" by auto
    then have "\<not> at_end status" using 1(3) p unfolding stays_open_def by blast
    then show ?thesis using 1 p y False by auto
  qed (use 1 p in \<open>auto split: if_splits\<close>)
qed

lemma poll_reader_open:
  assumes "poll_reader A rx amount n s = Some res" and "stays_open A tx rx"
  shows "\<exists>v. res = Done v"
proof (rule poll_reader.raw_induct [where P = "\<lambda>A rx amount n s res. stays_open A tx rx \<longrightarrow> (\<exists>v. res = Done v)",
      OF _ assms(1), rule_format, OF _ assms(2)], goal_cases)
  case (1 loop A rx amount n s res)
  obtain p s1 where p: "poll_read A rx CB_CHUNK s = (p, s1)" by fastforce
  show ?case
  proof (cases "n < amount \<and> p \<noteq> None")
    case True
    then obtain status chunk where y: "p = Some (status, chunk)" by auto
    then have "\<not> at_end status" using 1(3) p unfolding stays_open_def by blast
    then show ?thesis using 1 p y True by auto
  qed (use 1 p in \<open>auto split: if_splits option.splits\<close>)
qed

lemma join_batch_open:
  assumes "join_batch A tx rx amount left rest n s = Some res" and "stays_open A tx rx"
  shows "\<exists>v. res = Done v"
proof (rule join_batch.raw_induct [where P = "\<lambda>A tx rx amount left rest n s res. stays_open A tx rx \<longrightarrow> (\<exists>v. res = Done v)",
      OF _ assms(1), rule_format, OF _ assms(2)], goal_cases)
  case (1 loop A tx rx amount left rest n s res)
  then obtain w where w: "poll_writer A tx left rest s = Some w" by (auto split: option.splits)
  obtain d l r s1 where d: "w = Done (d, l, r, s1)" using poll_writer_open [OF w 1(3)] by (metis prod.exhaust)
  obtain v where v: "poll_reader A rx amount n s1 = Some v" using 1(2) w d by (auto split: option.splits)
  obtain e m s2 where e: "v = Done (e, m, s2)" using poll_reader_open [OF v 1(3)] by (metis prod.exhaust)
  show ?case using 1 w d v e by (auto split: if_splits)
qed

section \<open>A concrete system\<close>

text \<open>The transforms hand the bytes on at once; the world is what was read and what was written and not yet read.\<close>

definition log_bench :: "(bytes \<times> bytes) bench_ops" where
  "log_bench = \<lparr>from_utf8_lossy = (\<lambda>_. []), parse_ip = (\<lambda>_. Err []), read_file = (\<lambda>_ s. (Err [], s)),
     tcp_create = (\<lambda>_ s. (Err NotSupported, s)), tcp_connect_to = (\<lambda>_ _ s. (Err NotSupported, s)), tcp_bind = (\<lambda>_ _ s. (Err NotSupported, s)),
     tcp_listen = (\<lambda>_ s. (Err NotSupported, s)), tcp_get_local = (\<lambda>_ s. (Err NotSupported, s)), tcp_get_remote = (\<lambda>_ s. (Err NotSupported, s)),
     accepts_next = (\<lambda>_ s. (None, s)), tcp_send = (\<lambda>_ _ s. (0, s)), tcp_receive = (\<lambda>_ s. ((0, 0), s)),
     connector_of = (\<lambda>_ s. (1, s)), identity_of = (\<lambda>_ _ s. (Ok 7, s)), acceptor_of = (\<lambda>_ s. (2, s)),
     tls_send = (\<lambda>_ st s. ((st, 0), s)), tls_receive = (\<lambda>_ st s. ((st, 0), s)), tls_handshake = (\<lambda>_ _ _ s. (Err [], s)),
     stream_new = (\<lambda>_. ((3, 3), ([], []))), stream_read = (\<lambda>_ s. ((SDropped, []), s)), write_all_to = (\<lambda>_ bs s. ([], s)),
     drop_writer = (\<lambda>_ s. s), await_tls = (\<lambda>_ s. (Ok (), s)), await_transport = (\<lambda>_ s. (Ok (), s)),
     lookup_addresses = (\<lambda>_ s. (Err NameUnresolvable, s)), delegated_of = (\<lambda>_ s. (Err [], s)),
     start_connect = (\<lambda>_ _ _ s. (20, s)), start_accept = (\<lambda>_ _ s. (21, s)), await_info = (\<lambda>_ s. (Ok (queue_info None), s)),
     stream_read_into = (\<lambda>_ _ s. ((SDropped, []), s)),
     poll_write = (\<lambda>_ rest (g, f). (Some (SCompleted, length rest), (g, f @ rest))),
     poll_read = (\<lambda>_ n (g, f). if f = [] \<or> n = 0 then (None, (g, f)) else (Some (SCompleted, take n f), (g @ take n f, drop n f))),
     cb_turn = (\<lambda>s. s), cb_now = (\<lambda>s. (0, s))\<rparr>"

definition log_sent :: "bytes \<times> bytes \<Rightarrow> bytes" where "log_sent s = fst s @ snd s"
definition log_got :: "bytes \<times> bytes \<Rightarrow> bytes" where "log_got s = fst s"

lemma log_carries: "carries log_bench tx rx log_sent log_got"
  by (auto simp: carries_def log_bench_def log_sent_def log_got_def split: prod.splits)

lemma log_moves: "moves log_bench tx rx log_sent log_got (\<lambda>_. 0)"
  unfolding moves_def by (auto simp: log_bench_def log_sent_def log_got_def CB_CHUNK_def split: if_splits)

lemma log_open: "stays_open log_bench tx rx"
  by (auto simp: stays_open_def log_bench_def at_end_def split: if_splits)

section \<open>Properties\<close>

text \<open>
  C31. A batch through the composed component moves exactly its bytes: from a connection with nothing in
  flight the two joined futures end, however the streams cut and delay the data; if they end without a
  panic the reader counted the whole chunks of the batch, no byte more, it read the bytes the writer wrote, and
  nothing is left in flight for the next batch; and while the streams stay open there is no panic.
\<close>

theorem batch_moves_exactly_its_bytes:
  assumes "carries A tx rx sent got" and "moves A tx rx sent got lag" and "sent s = got s"
  shows "\<exists>out. join_batch A tx rx (chunks * CB_CHUNK) chunks [] 0 s = Some out \<and>
    (\<forall>n s'. out = Done (n, s') \<longrightarrow> n = chunks * CB_CHUNK \<and> got s' = got s @ replicate (chunks * CB_CHUNK) 0xa5 \<and> sent s' = got s') \<and>
    (stays_open A tx rx \<longrightarrow> (\<exists>v. out = Done v))"
proof -
  obtain out where "join_batch A tx rx (chunks * CB_CHUNK) chunks [] 0 s = Some out"
    using join_batch_ends [OF assms(2,1), of 0 s chunks "[]" "chunks * CB_CHUNK"] assms(3) by (auto simp: to_write_def)
  note o = this
  have "n = chunks * CB_CHUNK \<and> got s' = got s @ replicate (chunks * CB_CHUNK) 0xa5 \<and> sent s' = got s'" if "out = Done (n, s')" for n s'
    using join_batch_exact [OF assms(1,3)] o that by simp
  moreover have "\<exists>v. out = Done v" if "stays_open A tx rx" by (rule join_batch_open [OF o that])
  ultimately show ?thesis using o by blast
qed

theorem batch_moves_exactly_its_bytes_witness:
  "\<exists>n s'. join_batch log_bench 3 3 (256 * CB_CHUNK) 256 [] 0 ([], []) = Some (Done (n, s')) \<and> n = 256 * CB_CHUNK"
  using batch_moves_exactly_its_bytes [OF log_carries log_moves, of "([], [])" 3 3 256] log_open [of 3 3]
  by (auto simp: log_sent_def log_got_def)

text \<open>A connection of the system carries and moves, starts with nothing in flight, and is not changed by the clock.\<close>

definition streams_run :: "'s bench_ops \<Rightarrow> fixtures \<Rightarrow> bool" where
  "streams_run A F \<longleftrightarrow> (\<forall>s tx rx s'. cb_connect A F s = Done ((tx, rx), s') \<longrightarrow>
     (\<exists>sent got lag. carries A tx rx sent got \<and> moves A tx rx sent got lag \<and> sent s' = got s' \<and>
        (\<forall>s. sent (snd (cb_now A s)) = sent s \<and> got (snd (cb_now A s)) = got s)))"

lemma push_batch_ends:
  assumes "carries A tx rx sent got" and "moves A tx rx sent got lag" and "sent s = got s"
    and now: "\<forall>s. sent (snd (cb_now A s)) = sent s \<and> got (snd (cb_now A s)) = got s"
  shows "\<exists>out. push_batch A rnd amount (tx, rx) s = Some out \<and> (\<forall>r s'. out = Done (r, s') \<longrightarrow> sent s' = got s')"
proof -
  obtain start s1 where s1: "cb_now A s = (start, s1)" by fastforce
  have e: "sent s1 = got s1" using now [rule_format, of s] assms(3) s1 by simp
  obtain out where o: "join_batch A tx rx (amount div CB_CHUNK * CB_CHUNK) (amount div CB_CHUNK) [] 0 s1 = Some out"
    using join_batch_ends [OF assms(2,1), of 0 s1 "amount div CB_CHUNK" "[]"] e by (auto simp: to_write_def)
  have "sent s2 = got s2" if "out = Done (n, s2)" for n s2 using join_batch_exact [OF assms(1) e] o that by blast
  then have "sent (snd (cb_now A s2)) = got (snd (cb_now A s2))" if "out = Done (n, s2)" for n s2 using now that by metis
  then show ?thesis using o s1 by (cases out) (auto simp: push_batch_def Let_def split: prod.splits)
qed

lemma repeat_batch_ends:
  assumes "\<And>s. J s \<Longrightarrow> \<exists>out. batch s = Some out \<and> (\<forall>r s'. out = Done (r, s') \<longrightarrow> J s')" and "J s"
  shows "\<exists>out. repeat_batch k batch s = Some out"
  using assms(2)
proof (induction k arbitrary: s)
  case (Suc k)
  obtain out where o: "batch s = Some out" "\<forall>r s'. out = Done (r, s') \<longrightarrow> J s'" using assms(1) [OF Suc.prems] by blast
  then show ?case using Suc.IH by (auto intro!: chain_total)
qed simp

lemma component_bulk_ends:
  assumes "streams_run A F"
  shows "\<exists>out. component_bulk A F rnd amount s = Some out"
proof (cases "cb_connect A F s")
  case (Done y)
  obtain tx rx s1 where y: "y = ((tx, rx), s1)" by (metis prod.exhaust)
  obtain sent got lag where c: "carries A tx rx sent got" "moves A tx rx sent got lag" "sent s1 = got s1"
    "\<forall>s. sent (snd (cb_now A s)) = sent s \<and> got (snd (cb_now A s)) = got s"
    using assms Done y unfolding streams_run_def by blast
  note b = push_batch_ends [OF c(1,2) _ c(4), of _ rnd amount]
  obtain out where o: "push_batch A rnd amount (tx, rx) s1 = Some out" "\<forall>r s'. out = Done (r, s') \<longrightarrow> sent s' = got s'"
    using b [OF c(3)] by blast
  have "\<exists>out. repeat_batch CB_BATCHES (push_batch A rnd amount (tx, rx)) s2 = Some out" if "sent s2 = got s2" for s2
    by (rule repeat_batch_ends [where J = "\<lambda>s. sent s = got s", OF b that])
  then show ?thesis using o Done y by (auto simp: component_bulk_def intro!: chain_total)
qed (simp_all add: component_bulk_def)

lemma component_handshakes_end: "\<exists>out. component_handshakes A F rnd batch s = Some out"
proof -
  have r: "\<exists>out. run_batch A F rnd batch s = Some out" for s
    by (auto simp: run_batch_def intro!: chain_total split: prod.splits)
  have "\<exists>out. repeat_batch k (run_batch A F rnd batch) s = Some out" for k s
    by (rule repeat_batch_ends [where J = "\<lambda>_. True"]) (use r in auto)
  then show ?thesis using r by (auto simp: component_handshakes_def intro!: chain_total)
qed

text \<open>
  The benchmark of the composed component ends whatever its arguments, the handshakes' outcome and
  the clock: it prints its rows, reports the usage or panics.
\<close>

theorem component_benchmark_always_ends:
  assumes "streams_run A F"
  shows "\<exists>out. component_bench_run A F rnd checked args s = Some out"
proof -
  have "\<exists>out. chain (Some (bench_bytes 32 checked mib)) (\<lambda>amount.
      chain (component_bulk A F rnd amount s) (\<lambda>(bulk_row, s).
      chain (component_handshakes A F rnd hs s) (\<lambda>(hs_row, s). Some (Done ((bulk_row, hs_row), s))))) = Some out" for mib hs
    by (auto intro!: chain_total component_bulk_ends [OF assms] component_handshakes_end)
  then show ?thesis by (auto simp: component_bench_run_def split: list.split sum.split)
qed

theorem component_benchmark_always_ends_witness:
  "\<exists>out. component_bench_run log_bench demo_fixtures Fin True [''tls-component-bench'', ''8'', ''50''] ([], []) = Some out"
proof -
  have n: "\<forall>s. log_sent (snd (cb_now log_bench s)) = log_sent s \<and> log_got (snd (cb_now log_bench s)) = log_got s"
    by (simp add: log_bench_def)
  have "log_sent s' = log_got s'" if "cb_connect log_bench demo_fixtures s = Done (p, s')" for s p s'
    using that by (auto simp: cb_connect_def log_bench_def is_ok_def log_sent_def log_got_def)
  then have "streams_run log_bench demo_fixtures" unfolding streams_run_def using log_carries log_moves n by blast
  then show ?thesis by (rule component_benchmark_always_ends)
qed

end
