(* ===== verification/P2_Demo.thy ===== *)
theory P2_Demo
  imports Tcp_Apps
begin

text \<open>
  The WASI 0.2 demo (\<^verbatim>\<open>src/examples/tls-virt-demo-p2/src/main.rs\<close>): a program over \<open>std::net\<close> that sends a
  line, closes its side and checks the answer. What the source uses of the standard library is modelled:
  \<open>TcpStream::connect\<close> over several addresses, \<open>write_all\<close> and \<open>read_to_end\<close> with their retries; the resolver and the calls
  on one socket are parameters. Arguments are ASCII; output is left out.
\<close>

section \<open>The standard library\<close>

datatype std_error = Interrupted | Std_Error string

record ('ad, 'so, 's) std_net =
  sn_from_utf8_lossy :: "bytes \<Rightarrow> string"
  sn_resolve :: "string \<Rightarrow> u16 \<Rightarrow> 's \<Rightarrow> ('ad list, string) result \<times> 's"
  sn_connect :: "'ad \<Rightarrow> 's \<Rightarrow> ('so, string) result \<times> 's"
  sn_peer_addr :: "'so \<Rightarrow> 's \<Rightarrow> ('ad, string) result \<times> 's"
  sn_write :: "'so \<Rightarrow> bytes \<Rightarrow> 's \<Rightarrow> (nat, std_error) result \<times> 's"
  sn_shutdown_write :: "'so \<Rightarrow> 's \<Rightarrow> (unit, string) result \<times> 's"
  sn_read :: "'so \<Rightarrow> 's \<Rightarrow> (bytes, std_error) result \<times> 's"

text \<open>The addresses in order until one connects; the last error, or that there was none to try.\<close>

fun std_connect :: "('ad, 'so, 's) std_net \<Rightarrow> 'ad list \<Rightarrow> string \<Rightarrow> 's \<Rightarrow> ('so, string) result \<times> 's" where
  "std_connect N [] last_error s = (Err last_error, s)"
| "std_connect N (a # as) last_error s =
     (case sn_connect N a s of
        (Inl e, s) \<Rightarrow> std_connect N as e s
      | (Inr so, s) \<Rightarrow> (Ok so, s))"

partial_function (option) std_write_all :: "('ad, 'so, 's) std_net \<Rightarrow> 'so \<Rightarrow> bytes \<Rightarrow> 's \<Rightarrow> ((unit, string) result \<times> 's) option" where
  "std_write_all N so data s =
     (if data = [] then Some (Ok (), s)
      else case sn_write N so data s of
             (Inl Interrupted, s) \<Rightarrow> std_write_all N so data s
           | (Inl (Std_Error e), s) \<Rightarrow> Some (Err e, s)
           | (Inr n, s) \<Rightarrow> if n = 0 then Some (Err ''failed to write whole buffer'', s) else std_write_all N so (drop n data) s)"

partial_function (option) std_read_to_end :: "('ad, 'so, 's) std_net \<Rightarrow> 'so \<Rightarrow> bytes \<Rightarrow> 's \<Rightarrow> ((bytes, string) result \<times> 's) option" where
  "std_read_to_end N so data s =
     (case sn_read N so s of
        (Inl Interrupted, s) \<Rightarrow> std_read_to_end N so data s
      | (Inl (Std_Error e), s) \<Rightarrow> Some (Err e, s)
      | (Inr chunk, s) \<Rightarrow> if chunk = [] then Some (Ok data, s) else std_read_to_end N so (data @ chunk) s)"

section \<open>The demo\<close>

datatype p2_demo_error =
    P2_Bad_Port string int_error | P2_Resolve string string | P2_No_Addresses | P2_Connect string
  | P2_Send string | P2_Shutdown string | P2_Receive string | P2_Wrong_Response string string | P2_Usage

definition p2_exchange :: "('ad, 'so, 's) std_net \<Rightarrow> 'so \<Rightarrow> string \<Rightarrow> 's \<Rightarrow> ((unit, p2_demo_error) result \<times> 's) option" where
  "p2_exchange N so payload s =
     (case std_write_all N so (string_bytes payload @ [LF]) s of
        None \<Rightarrow> None
      | Some (Inl e, s) \<Rightarrow> Some (Err (P2_Send e), s)
      | Some (Inr _, s) \<Rightarrow>
          (case sn_shutdown_write N so s of
             (Inl e, s) \<Rightarrow> Some (Err (P2_Shutdown e), s)
           | (Inr _, s) \<Rightarrow>
               (case std_read_to_end N so [] s of
                  None \<Rightarrow> None
                | Some (Inl e, s) \<Rightarrow> Some (Err (P2_Receive e), s)
                | Some (Inr response, s) \<Rightarrow>
                    let response = trim_line_end (sn_from_utf8_lossy N response)
                    in Some (if response \<noteq> rev payload then Err (P2_Wrong_Response response (rev payload)) else Ok (), s))))"

definition p2_demo :: "('ad, 'so, 's) std_net \<Rightarrow> string \<Rightarrow> string \<Rightarrow> string \<Rightarrow> 's \<Rightarrow> ((unit, p2_demo_error) result \<times> 's) option" where
  "p2_demo N name port payload s =
     (case parse_u16 port of
        Inl e \<Rightarrow> Some (Err (P2_Bad_Port port e), s)
      | Inr p \<Rightarrow>
          (case sn_resolve N name p s of
             (Inl e, s) \<Rightarrow> Some (Err (P2_Resolve name e), s)
           | (Inr [], s) \<Rightarrow> Some (Err P2_No_Addresses, s)
           | (Inr as, s) \<Rightarrow>
               (case std_connect N as ''could not resolve to any addresses'' s of
                  (Inl e, s) \<Rightarrow> Some (Err (P2_Connect e), s)
                | (Inr so, s) \<Rightarrow> (case sn_peer_addr N so s of (_, s) \<Rightarrow> p2_exchange N so payload s))))"

definition p2_main :: "('ad, 'so, 's) std_net \<Rightarrow> string list \<Rightarrow> 's \<Rightarrow> (nat \<times> 's) option" where
  "p2_main N args s =
     (case (case args of
              [_, name, port, payload] \<Rightarrow> p2_demo N name port payload s
            | _ \<Rightarrow> Some (Err P2_Usage, s)) of
        None \<Rightarrow> None
      | Some (r, s) \<Rightarrow> Some (if is_ok r then 0 else 1, s))"

section \<open>Laws\<close>

text \<open>
  A socket's promise: a write that returns sent as many of the bytes as it says, one that failed sent
  none; \<open>patience\<close> bounds how often a call is interrupted in a row.
\<close>

definition socket_ok :: "('ad, 'so, 's) std_net \<Rightarrow> 'so \<Rightarrow> ('s \<Rightarrow> bytes) \<Rightarrow> ('s \<Rightarrow> nat) \<Rightarrow> bool" where
  "socket_ok N so out patience \<longleftrightarrow>
     (\<forall>data s n s'. sn_write N so data s = (Ok n, s') \<longrightarrow> n \<le> length data \<and> out s' = out s @ take n data) \<and>
     (\<forall>data s e s'. sn_write N so data s = (Err e, s') \<longrightarrow> out s' = out s) \<and>
     (\<forall>data s s'. sn_write N so data s = (Err Interrupted, s') \<longrightarrow> patience s' < patience s)"

lemma std_write_all_sends:
  assumes "socket_ok N so out patience"
  shows "\<exists>r s'. std_write_all N so data s = Some (r, s') \<and>
    (\<exists>k \<le> length data. out s' = out s @ take k data \<and> (r = Ok () \<longrightarrow> k = length data))"
proof (induction "(length data, patience s)" arbitrary: data s rule: wf_induct_rule [OF wf_lex_prod [OF wf_less_than wf_less_than]])
  case less: 1
  obtain w s1 where w: "sn_write N so data s = (w, s1)" by fastforce
  have sent: "w = Ok n \<Longrightarrow> n \<le> length data \<and> out s1 = out s @ take n data" for n using assms w unfolding socket_ok_def by blast
  have kept: "w = Err e \<Longrightarrow> out s1 = out s" for e using assms w unfolding socket_ok_def by blast
  consider "data = []" | "data \<noteq> []" "w = Err Interrupted" | e where "data \<noteq> []" "w = Err (Std_Error e)"
    | "data \<noteq> []" "w = Ok 0" | n where "data \<noteq> []" "w = Ok n" "0 < n"
    by (metis neq0_conv std_error.exhaust sum.exhaust_sel)
  then show ?case
  proof cases
    case 2
    then have "patience s1 < patience s" using assms w unfolding socket_ok_def by blast
    then have "((length data, patience s1), (length data, patience s)) \<in> less_than <*lex*> less_than" by simp
    from less [OF this] show ?thesis using 2 w kept [OF 2(2)] by (subst std_write_all.simps) simp
  next
    case 3
    then show ?thesis using w kept [OF 3(2)] by (subst std_write_all.simps) (auto intro!: exI [of _ 0])
  next
    case 4
    then show ?thesis using w sent [of 0] by (subst std_write_all.simps) (auto intro!: exI [of _ 0])
  next
    case 5
    have "((length (drop n data), patience s1), (length data, patience s)) \<in> less_than <*lex*> less_than" using 5 by simp
    from less [OF this] obtain r s' k where r: "std_write_all N so (drop n data) s1 = Some (r, s')" "k \<le> length (drop n data)"
      "out s' = out s1 @ take k (drop n data)" "r = Ok () \<longrightarrow> k = length (drop n data)" by blast
    have "n + k \<le> length data" "out s' = out s @ take (n + k) data" "r = Ok () \<longrightarrow> n + k = length data"
      using sent [OF 5(2)] r(2-4) by (auto simp: take_add)
    then show ?thesis using 5 w r(1) by (subst std_write_all.simps) auto
  qed (subst std_write_all.simps, simp)
qed

text \<open>The reads of a socket up to its end: chunks, and interrupted calls between them.\<close>

inductive gives :: "('ad, 'so, 's) std_net \<Rightarrow> 'so \<Rightarrow> 's \<Rightarrow> bytes \<Rightarrow> 's \<Rightarrow> bool" for N so where
  gives_end: "sn_read N so s = (Ok [], s') \<Longrightarrow> gives N so s [] s'"
| gives_chunk: "sn_read N so s = (Ok chunk, s1) \<Longrightarrow> chunk \<noteq> [] \<Longrightarrow> gives N so s1 data s' \<Longrightarrow> gives N so s (chunk @ data) s'"
| gives_again: "sn_read N so s = (Err Interrupted, s1) \<Longrightarrow> gives N so s1 data s' \<Longrightarrow> gives N so s data s'"

lemma std_read_to_end_gives:
  assumes "gives N so s data s'"
  shows "std_read_to_end N so acc s = Some (Ok (acc @ data), s')"
  using assms
proof (induction arbitrary: acc rule: gives.induct)
  case (gives_chunk s chunk s1 data s')
  then show ?case by (subst std_read_to_end.simps) simp
qed (subst std_read_to_end.simps, simp)+

text \<open>The first address that connects is the one used; the others before it were tried.\<close>

lemma std_connect_Ok:
  assumes "std_connect N as e s = (Ok so, s')"
  shows "\<exists>before a after s1. as = before @ a # after \<and> sn_connect N a s1 = (Ok so, s') \<and> (\<exists>e'. std_connect N before e s = (Err e', s1))"
  using assms
proof (induction as arbitrary: e s)
  case (Cons a as)
  obtain r s1 where r: "sn_connect N a s = (r, s1)" by fastforce
  show ?case
  proof (cases r)
    case (Inl e1)
    then have "std_connect N as e1 s1 = (Ok so, s')" using Cons.prems r by simp
    then obtain before b after s2 e' where "as = before @ b # after" "sn_connect N b s2 = (Ok so, s')" "std_connect N before e1 s1 = (Err e', s2)"
      using Cons.IH by blast
    then show ?thesis using r Inl by (intro exI [of _ "a # before"]) auto
  qed (use Cons.prems r in \<open>auto intro!: exI [of _ "[]"]\<close>)
qed simp

section \<open>Properties\<close>

text \<open>
  The demo over a socket that writes in any parts and reads in any chunks, interrupted now and then: it
  ends; what it sent is the payload with its line feed, or a prefix of it when sending failed; and it
  exits with success exactly when sending succeeded, its side was closed and the answer, read to its
  end and less its line ends, is the payload reversed.
\<close>

theorem p2_demo_checks_the_reversed_echo:
  assumes "parse_u16 port = Ok p" and "sn_resolve N name p s = (Ok (a # as), s1)"
    and "std_connect N (a # as) ''could not resolve to any addresses'' s1 = (Ok so, s2)" and "sn_peer_addr N so s2 = (peer, s3)"
    and "socket_ok N so out patience"
    and "\<forall>s s'. sn_shutdown_write N so s = (Ok (), s') \<longrightarrow> (\<exists>s''. gives N so s' answer s'')"
  shows "\<exists>r s4 code s'. std_write_all N so (string_bytes payload @ [LF]) s3 = Some (r, s4) \<and>
    (\<exists>k. out s4 = out s3 @ take k (string_bytes payload @ [LF])) \<and>
    p2_main N [prog, name, port, payload] s = Some (code, s') \<and>
    (code = 0 \<longleftrightarrow> r = Ok () \<and> is_ok (fst (sn_shutdown_write N so s4)) \<and> trim_line_end (sn_from_utf8_lossy N answer) = rev payload) \<and>
    (code = 0 \<longrightarrow> out s4 = out s3 @ string_bytes payload @ [LF])"
proof -
  let ?d = "string_bytes payload @ [LF]"
  obtain r s4 k where w: "std_write_all N so ?d s3 = Some (r, s4)" "out s4 = out s3 @ take k ?d" "r = Ok () \<longrightarrow> k = length ?d"
    using std_write_all_sends [OF assms(5)] by blast
  have m: "p2_main N [prog, name, port, payload] s = (case p2_exchange N so payload s3 of
      None \<Rightarrow> None | Some (r, s) \<Rightarrow> Some (if is_ok r then 0 else 1, s))"
    using assms(1-4) by (simp add: p2_main_def p2_demo_def)
  obtain h s5 where h: "sn_shutdown_write N so s4 = (h, s5)" by fastforce
  have "\<exists>code s'. p2_main N [prog, name, port, payload] s = Some (code, s') \<and>
    (code = 0 \<longleftrightarrow> r = Ok () \<and> is_ok h \<and> trim_line_end (sn_from_utf8_lossy N answer) = rev payload)"
  proof (cases "r = Ok () \<and> h = Ok ()")
    case True
    then obtain s6 where "gives N so s5 answer s6" using assms(6) h by blast
    from std_read_to_end_gives [OF this, of "[]"] show ?thesis
      using m w(1) h True by (simp add: p2_exchange_def Let_def is_ok_def)
  next
    case False
    then show ?thesis using m w(1) h by (cases r; cases h) (auto simp: p2_exchange_def is_ok_def)
  qed
  moreover have "out s4 = out s3 @ ?d" if "r = Ok ()" using w(2,3) that by simp
  ultimately show ?thesis using w(1,2) h by (metis fst_conv)
qed

text \<open>A socket that takes two bytes at a time, is interrupted once, and answers in two chunks.\<close>

type_synonym demo_socket = "nat \<times> bytes \<times> (bytes, std_error) result list"

definition demo_std_net :: "(nat, nat, demo_socket) std_net" where
  "demo_std_net = \<lparr>sn_from_utf8_lossy = map (\<lambda>b. char_of (unat b)), sn_resolve = (\<lambda>_ _ s. (Ok [1, 2], s)),
     sn_connect = (\<lambda>a s. (if a = 1 then Err ''refused'' else Ok 9, s)), sn_peer_addr = (\<lambda>_ s. (Ok 2, s)),
     sn_write = (\<lambda>_ data (i, out, rs). if 0 < i then (Err Interrupted, (i - 1, out, rs)) else (Ok (min 2 (length data)), (i, out @ take 2 data, rs))),
     sn_shutdown_write = (\<lambda>_ (i, out, rs). (Ok (), (i, out, [Ok [105], Err Interrupted, Ok [104, 10], Ok []]))),
     sn_read = (\<lambda>_ (i, out, rs). case rs of [] \<Rightarrow> (Ok [], (i, out, rs)) | r # rs \<Rightarrow> (r, (i, out, rs)))\<rparr>"

theorem p2_demo_checks_the_reversed_echo_witness:
  "\<exists>s'. p2_main demo_std_net [''demo'', ''example.org.tls-virt.alt'', ''443'', ''hi''] (1, [], []) = Some (0, s')"
proof -
  have p: "parse_u16 ''443'' = Ok 443" by (simp add: parse_u16_def parse_uint_def digit_of_def)
  have so: "socket_ok demo_std_net 9 (fst \<circ> snd) fst"
    by (auto simp: socket_ok_def demo_std_net_def min_def split: if_splits)
  have "\<exists>s''. gives demo_std_net 9 s' ([105] @ [104, 10] @ []) s''" if h: "sn_shutdown_write demo_std_net 9 s = (Ok (), s')" for s s'
  proof -
    obtain i out where s': "s' = (i, out, [Ok [105], Err Interrupted, Ok [104, 10], Ok []])"
      using h by (cases s) (auto simp: demo_std_net_def)
    have "gives demo_std_net 9 (i, out, [Ok []]) [] (i, out, [])" by (rule gives_end) (simp add: demo_std_net_def)
    from gives_chunk [OF _ _ this, of "(i, out, [Ok [104, 10], Ok []])" "[104, 10]"]
    have "gives demo_std_net 9 (i, out, [Ok [104, 10], Ok []]) ([104, 10] @ []) (i, out, [])" by (simp add: demo_std_net_def)
    from gives_again [OF _ this, of "(i, out, [Err Interrupted, Ok [104, 10], Ok []])"]
    have "gives demo_std_net 9 (i, out, [Err Interrupted, Ok [104, 10], Ok []]) ([104, 10] @ []) (i, out, [])"
      by (simp add: demo_std_net_def)
    from gives_chunk [OF _ _ this, of s' "[105]"] show ?thesis by (auto simp: s' demo_std_net_def)
  qed
  then have g: "\<forall>s s'. sn_shutdown_write demo_std_net 9 s = (Ok (), s') \<longrightarrow> (\<exists>s''. gives demo_std_net 9 s' ([105] @ [104, 10] @ []) s'')"
    by blast
  have c: "std_connect demo_std_net [1, 2] ''could not resolve to any addresses'' (1, [], []) = (Ok 9, (1, [], []))"
    by (simp add: demo_std_net_def)
  have r: "sn_resolve demo_std_net ''example.org.tls-virt.alt'' 443 (1, [], []) = (Ok [1, 2], (1, [], []))"
    "sn_peer_addr demo_std_net 9 (1, [], []) = (Ok 2, (1, [], []))" by (simp_all add: demo_std_net_def)
  have w: "\<exists>s4. std_write_all demo_std_net 9 (string_bytes ''hi'' @ [LF]) (1, [], []) = Some (Ok (), s4)"
    by (subst std_write_all.simps, simp add: demo_std_net_def string_bytes_def LF_def)
      (subst std_write_all.simps, simp, subst std_write_all.simps, simp, subst std_write_all.simps, simp)
  have "is_ok (fst (sn_shutdown_write demo_std_net 9 s4))" for s4 by (cases s4) (simp add: demo_std_net_def is_ok_def)
  moreover have "trim_line_end (sn_from_utf8_lossy demo_std_net ([105] @ [104, 10] @ [])) = rev ''hi''"
    by (simp add: demo_std_net_def demo_chars trim_line_end_def)
  moreover obtain s4 where "std_write_all demo_std_net 9 (string_bytes ''hi'' @ [LF]) (1, [], []) = Some (Ok (), s4)" using w by blast
  moreover obtain r s5 code s' where "std_write_all demo_std_net 9 (string_bytes ''hi'' @ [LF]) (1, [], []) = Some (r, s5)"
    "p2_main demo_std_net [''demo'', ''example.org.tls-virt.alt'', ''443'', ''hi''] (1, [], []) = Some (code, s')"
    "code = 0 \<longleftrightarrow> r = Ok () \<and> is_ok (fst (sn_shutdown_write demo_std_net 9 s5)) \<and>
       trim_line_end (sn_from_utf8_lossy demo_std_net ([105] @ [104, 10] @ [])) = rev ''hi''"
    using p2_demo_checks_the_reversed_echo [OF p r(1) c r(2) so g, where prog = "''demo''" and payload = "''hi''"] by blast
  ultimately show ?thesis by (cases s') simp
qed

end
