(* ===== verification/Spec2Isabelle.thy ===== *)
theory Spec2Isabelle
  imports Keys Component P2_Host Virt_Guest Host_Driver Native_Bench Tls_Bench Timing_Run
    Component_Bench P2_Demo
begin

text \<open>
  A verification development for polymorph-tls: TLS 1.3 and QUIC for WebAssembly components on
  rustls, restricted to one algorithm profile, and the tls-virt scheme that gives
  unmodified socket programs a TLS tunnel behind an opted-in host name.

  \<^bold>\<open>The program and its parts.\<close>

    \<^item> \<^emph>\<open>Profile and providers.\<close> The crate under \<^verbatim>\<open>src/rust/profile\<close> fixes the suites, groups and
      signature schemes, the two forms of an identity's key (in memory, external signer) and
      the raw-public-key identity with its 44-byte encoding. The crates under \<^verbatim>\<open>src/rust/tls\<close> and
      \<^verbatim>\<open>src/rust/quic\<close> each cut a base rustls provider down to that profile and build the client
      and server configurations from it.
    \<^item> \<^emph>\<open>QUIC protection.\<close> The crate under \<^verbatim>\<open>src/rust/quic\<close> implements what rustls asks of a QUIC
      suite: packet protection, header protection, the retry-token and stateless-reset keys.
    \<^item> \<^emph>\<open>The TLS component.\<close> The crate under \<^verbatim>\<open>src/rust/component\<close> exports connector and acceptor
      resources. Each of them hands a rustls connection to the pump, three tasks over one shared
      connection that move bytes between four streams and report three verdicts.
    \<^item> \<^emph>\<open>The tls-virt scheme.\<close> \<^verbatim>\<open>src/rust/tls-virt-common\<close> has the name suffix, the table of handle
      addresses and the choice of a resolved address. A name with the suffix resolves to a handle
      address; a connect to the handle becomes a TCP connect with a TLS handshake. Two
      deliveries use it: the host delivery (\<^verbatim>\<open>src/rust/tls-virt-wasmtime\<close>), which interposes on
      wasmtime-wasi's sockets for WASI 0.3 (\<^verbatim>\<open>main.rs\<close>) and WASI 0.2 (\<^verbatim>\<open>p2.rs\<close>), and the guest
      delivery (\<^verbatim>\<open>src/rust/tls-virt-guest\<close>), a component that does the same over the component of
      the previous item.
    \<^item> \<^emph>\<open>Programs around it.\<close> The QUIC example (\<^verbatim>\<open>src/examples/quic-loopback\<close>) drives noq-proto with
      the QUIC crate over WASI UDP sockets; \<^verbatim>\<open>src/examples/tls-tcp\<close> uses the component over TCP;
      \<^verbatim>\<open>src/examples/tls-virt-demo\<close> and \<^verbatim>\<open>src/examples/tls-virt-demo-p2\<close> are plain TCP programs for the deliveries;
      \<^verbatim>\<open>src/examples/test-signer\<close> and \<^verbatim>\<open>src/examples/webcrypto-signer\<close> are signers to compose with the
      component; the conformance suite (\<^verbatim>\<open>src/conformance/guest-ct\<close>) drives the component through its
      interfaces; the timing laboratory
      (\<^verbatim>\<open>src/timing-lab\<close>) tests the crates' secret-bearing operations for timing leaks; the benchmarks
      (\<^verbatim>\<open>src/bench\<close>) measure packet protection, handshakes and transfers, of the crates and of the composed component.

  \<^bold>\<open>The theories and the code they model.\<close>

    \<^item> \<^verbatim>\<open>Prelude\<close>: bytes, machine integers and results; the byte-order conversions and slice
      operations of the Rust standard library with their lemmas.
    \<^item> \<^verbatim>\<open>Rustls_Iface\<close>: the rustls data types the sources build or match on; no rustls code.
    \<^item> \<^verbatim>\<open>Packet\<close> (\<^verbatim>\<open>quic/src/packet.rs\<close>): key constructors, usage limits, the nonce, sealing and
      opening with and without a path, the AES and ChaCha20 header masks, the constant-shape loop
      \<open>xor_in_place\<close>.
    \<^item> \<^verbatim>\<open>Keys\<close> (\<^verbatim>\<open>quic/src/keys.rs\<close>): the HMAC reset key and the HKDF-derived retry-token AEAD.
    \<^item> \<^verbatim>\<open>Profile\<close> (\<^verbatim>\<open>profile/src/lib.rs\<close>), \<^verbatim>\<open>Provider\<close> (the providers of \<^verbatim>\<open>tls/src/lib.rs\<close>,
      \<^verbatim>\<open>quic/src/lib.rs\<close> and \<^verbatim>\<open>quic/src/suites.rs\<close>), \<^verbatim>\<open>Rpk\<close> (\<^verbatim>\<open>tls/src/rpk.rs\<close>: verifiers and
      certificate resolvers; and the configuration constructors of both crates).
    \<^item> \<^verbatim>\<open>Pump\<close> (\<^verbatim>\<open>component/src/pump.rs\<close>): the shared connection, the helpers \<open>drain_tls_writes\<close>,
      \<open>read_plaintext_loop\<close> and \<open>ingest\<close>, and the reader, writer and transmit tasks as a step
      relation whose steps are the code between two awaits.
    \<^item> \<^verbatim>\<open>Component\<close> (\<^verbatim>\<open>component/src/component.rs\<close>): connector, acceptor, identity, the delegated
      signing key and the entry points \<open>connect\<close> and \<open>accept\<close>.
    \<^item> \<^verbatim>\<open>Virt_Common\<close> (\<^verbatim>\<open>tls-virt-common/src/lib.rs\<close>): \<open>strip_suffix\<close>, the handle table with its hash map
      as a partial map from 64-bit keys, \<open>mint\<close>, \<open>lookup\<close>, \<open>pick_addr\<close>.
    \<^item> \<^verbatim>\<open>Virt_Ctx\<close>: the state of the host delivery (the context record, tunnels, the socket maps) and
      its shared operations. \<^verbatim>\<open>Virt_Host\<close> (\<^verbatim>\<open>tls-virt-wasmtime/src/main.rs\<close>): name resolution, connect,
      send, receive and all other socket methods of WASI 0.3, with the send and receive tasks.
    \<^item> \<^verbatim>\<open>P2_Streams\<close> (the stream halves of \<^verbatim>\<open>tls-virt-wasmtime/src/p2.rs\<close>): the output stream with its
      writer task and the input stream, each as a step relation over the stream's state;
      \<^verbatim>\<open>P2_Host\<close> (the rest of \<^verbatim>\<open>p2.rs\<close>): start and finish of a connect, shutdown, resolution streams
      and the pass-through methods.
    \<^item> \<^verbatim>\<open>Virt_Guest\<close> (\<^verbatim>\<open>tls-virt-guest/src/lib.rs\<close>): the guest's resolution, connect, send, receive and
      the copying task \<open>splice\<close>.
    \<^item> \<^verbatim>\<open>Host_Driver\<close> (the end of \<^verbatim>\<open>tls-virt-wasmtime/src/main.rs\<close>): the interfaces the driver
      registers, the context it gives a guest and the exit status of a run.
    \<^item> \<^verbatim>\<open>Udp_Socket\<close> (\<^verbatim>\<open>quic-loopback/src/addr.rs\<close>, \<^verbatim>\<open>socket.rs\<close>), \<^verbatim>\<open>Quic_Driver\<close> (\<^verbatim>\<open>driver.rs\<close>: the driver with
      its pump in phases), \<^verbatim>\<open>Quic_Drive\<close> (the loop that drives two endpoints of one process, over an arena of
      their pumps), \<^verbatim>\<open>Quic_Loopback\<close>, \<^verbatim>\<open>Quic_Interop\<close>, \<^verbatim>\<open>Quic_Bench\<close> and \<^verbatim>\<open>Quic_Setup\<close> (\<^verbatim>\<open>main.rs\<close>: the loops around one
      driver and around two, the interop client and server, the bulk transfers and their report, the
      set-up of the endpoints, the smoke test and \<open>main\<close>).
    \<^item> \<^verbatim>\<open>Native_Bench\<close> (\<^verbatim>\<open>bench/quic-native-bench/src/main.rs\<close>): the driver over a socket of the standard library and the
      same benchmark in its arena; \<^verbatim>\<open>Tls_Bench\<close> (\<^verbatim>\<open>bench/tls-bench/src/main.rs\<close>): measuring, packet protection,
      handshakes and the record path.
    \<^item> \<^verbatim>\<open>Tcp_Apps\<close> (\<^verbatim>\<open>tls-tcp/src/lib.rs\<close>, \<^verbatim>\<open>tls-virt-demo/src/lib.rs\<close>): both programs from their arguments
      to their result; \<^verbatim>\<open>P2_Demo\<close> (\<^verbatim>\<open>tls-virt-demo-p2/src/main.rs\<close>): the demo over the standard library's sockets, with
      the library's loops around single connects, writes and reads.
    \<^item> \<^verbatim>\<open>Signers\<close> (\<^verbatim>\<open>test-signer/src/lib.rs\<close>, \<^verbatim>\<open>webcrypto-signer/src/lib.rs\<close>): the two signers and the delegated
      key with its import bound to one of them; \<^verbatim>\<open>Conformance\<close> (\<^verbatim>\<open>conformance/guest-ct/src/support.rs\<close>, \<^verbatim>\<open>lib.rs\<close>): the
      loopback connection and every case of the suite; \<^verbatim>\<open>Component_Bench\<close> (\<^verbatim>\<open>bench/tls-component-bench/src/lib.rs\<close>):
      batches as two futures polled in turn, handshakes, and the program.
    \<^item> \<^verbatim>\<open>Timing_Stats\<close> (\<^verbatim>\<open>timing-lab/src/stats.rs\<close>): the statistic, over floating-point numbers with an
      arbitrary rounding; of \<^verbatim>\<open>timing-lab/src/main.rs\<close> \<^verbatim>\<open>Timing_Inputs\<close> and \<^verbatim>\<open>Timing_Draw\<close> (the generator, the probes, the
      draw of a scalar), \<^verbatim>\<open>Timing_Lab\<close> (the measurement with the surfaces on this repository's own keys),
      \<^verbatim>\<open>Timing_Handshake\<close> and \<^verbatim>\<open>Timing_Records\<close> (the rustls plumbing and the record surfaces), \<^verbatim>\<open>Timing_Crypto\<close>
      (the surfaces on other crates' primitives, which are parameters) and \<^verbatim>\<open>Timing_Run\<close> (the program: its
      blocks, the isolation experiments, the verdict and the exit status). \<^verbatim>\<open>Parse_Int\<close> has the standard
      library's \<open>parse\<close> of unsigned integers.

  \<^bold>\<open>Conventions.\<close> A Rust struct is a record, an enum a datatype with the source's variants, a
  method a function on an explicit state that returns the new state. \<open>Result\<close> is the sum type
  \<open>('a, 'e) result\<close> with \<open>Ok\<close> and \<open>Err\<close>; a panic is a value of its own (\<open>'a or_panic\<close>), so that a
  theorem that an operation succeeds also says that it does not panic. Integers of a fixed
  width are words of that width. An asynchronous method that awaits takes an argument
  \<open>others\<close>, an arbitrary function on the shared state that stands for the calls other tasks
  make during the await; tasks that run for as long as a connection are inductive
  step relations, and their properties hold in every reachable state.

  \<^bold>\<open>Code outside the repository.\<close> rustls, the RustCrypto crates, tokio-rustls, wasmtime-wasi, the
  WASI host and the operating system are parameters: records of functions given to the
  definitions that call them. What a theorem needs of them is a named predicate that states
  documented behaviour: \<open>aead_ok\<close> (opening a sealed text returns it), \<open>nonces_ok\<close> (rustls's
  nonce is the documented exclusive or), \<open>hp_prims_ok\<close> (subtle's constant-time selection, the block length of AES), \<open>hmac_ok\<close>,
  \<open>token_prims_ok\<close>, \<open>ed25519_ok\<close>, \<open>single_cert_ok\<close>, \<open>half_ok\<close>, \<open>poll_write_ok\<close>, \<open>poll_read_ok\<close> and \<open>write_all_ok\<close>
  (what a write or read call reports is what it passed on or received), \<open>conn_ok\<close> (the bytes a rustls connection
  reports are the ones it produced or took) and \<open>conn_finite\<close> (its buffers are finite),
  \<open>p2_conv_ok\<close> (address conversion), \<open>yields\<close> (a resolution stream ends); for the programs \<open>udp_ok\<close> and \<open>backlog_finite\<close>
  (the UDP streams of the host), \<open>noq_ok\<close> (a connection's queues are finite and its transmits fit their
  buffer), \<open>visit_ok\<close> (a hash map is visited in some order), \<open>settles\<close> and \<open>clock_ok\<close> (pumping comes to
  rest, time passes), \<open>reads_end\<close>, \<open>supplies\<close> (the chunks of a stream), \<open>aead_strict\<close> (a wrong tag is refused
  before the buffer is touched), \<open>quic_env_ok\<close>, \<open>token_env_ok\<close>, \<open>record_protects\<close> (the same for rustls's record
  layer), \<open>hs_ok\<close>, \<open>hs_progress\<close> and \<open>lab_progress\<close> (rustls connections in a handshake), \<open>linker_ok\<close> (wasmtime's linker),
  \<open>settle_together\<close> and \<open>native_runs\<close> (two endpoints come to rest, time passes), \<open>binds_end\<close> (binding returns), \<open>initial_suites_ok\<close>
  (noq-proto wants AES-128-GCM for initial packets), \<open>writes_fit\<close> (a stream takes no more than it was given),
  \<open>native_ok\<close> (what a send returned is what was sent), \<open>seals_records\<close> and \<open>mask_ready\<close> (sealing and masking do not
  fail on the sizes of the benchmark), \<open>peers_settle\<close> and \<open>reads_something\<close> (two rustls peers come to rest, a reader has
  plaintext or says that it has none); \<open>webcrypto_ok\<close> (a signing operation signs what it read from its
  stream), \<open>reads_fit\<close> (a read gives no more than its buffer holds), \<open>sut_identities\<close> (the system under test makes the identities of theory
  \<^verbatim>\<open>Component\<close>), \<open>carries\<close>, \<open>moves\<close>, \<open>stays_open\<close> and \<open>streams_run\<close> (the composed streams give what they took in
  order, do not rest with data in flight, and do not end by themselves), \<open>socket_ok\<close> (what a write of a standard socket reports is what was sent).
  Every theorem under such a predicate is applied to a concrete instance in a witness.

  \<^bold>\<open>Interfaces.\<close> The locales of the library, each interpreted on the model's definitions:
  \<open>header_protection\<close> (masking and unmasking from one sample, for AES and for ChaCha20);
  \<open>seal_open\<close> (sealing then opening, for packets, for packets with a path and for tokens);
  \<open>identity_source\<close> (in-memory and external raw-public-key identities); \<open>profile_provider\<close> and
  \<open>rpk_deployment\<close> (the core and the QUIC crate); \<open>handle_store\<close> (mint and lookup of the handle
  table); \<open>guarded_dial\<close> (policy check before dialing, for the WASI 0.3 and the WASI 0.2 path);
  \<open>tag_checked\<close> (a template with a flipped tag byte is refused and kept, for packets, tokens and records);
  \<open>ed25519_signer\<close> (a signer of Ed25519 signatures, for the test signer and the webcrypto adapter);
  \<open>driving\<close> and \<open>benching\<close> (an arena whose pumps rest and whose clock advances: driving ends, transfers and
  the benchmark end; for the example and for the native driver).

  \<^bold>\<open>What is shown.\<close>

    \<^item> \<^emph>\<open>QUIC protection\<close>: header protection and packet protection are undone by their inverses,
      packets of different paths or numbers have different nonces, opening is authentic,
      the masking loop of uniform shape masks exactly the packet number, tokens round-trip.
    \<^item> \<^emph>\<open>Policy\<close>: both providers offer exactly the profile in its order, every configuration
      signs with the identity it was given, raw-public-key peers authenticate each other by
      the pinned keys, the key encoding has a unique inverse.
    \<^item> \<^emph>\<open>Component\<close>: a client connection verifies the server against the connector's roots for
      the parsed name; the pump passes every byte on in order in every interleaving, ends its
      loops, signals the handshake once, reports a truncated connection as an error and orders
      the release of its streams and its verdicts.
    \<^item> \<^emph>\<open>tls-virt\<close>: a handle stands for the name and addresses it was minted with and for nothing
      else; a connect to it dials an admitted address and makes a TLS handshake for the name; a
      denied destination is not dialed; sockets that are no tunnel behave as wasmtime-wasi's
      own; send and receive futures are resolved once and truthfully; the WASI 0.2 streams
      deliver in order, report their capacity exactly and never sleep on work; the driver
      interposes on TCP sockets and name lookup and on nothing else, and passes the guest's status on.
    \<^item> \<^emph>\<open>QUIC example\<close>: a pump returns, neither loses, repeats nor reorders a datagram, and keeps the
      connection table a map; the program sleeps no longer than its timers allow; the program ends in
      every mode, whatever its arguments and the peer; its endpoints use the profile; the bulk writer
      counts exactly, and the benchmark reports three whole transfers.
    \<^item> \<^emph>\<open>Benchmarks\<close>: the native driver, too, keeps its datagrams, and its program ends; the packet benchmark
      opens every packet it sealed and prints its lines; the TLS benchmark ends; a batch through the composed
      component moves exactly its bytes in every order of polls, and that benchmark ends.
    \<^item> \<^emph>\<open>Signers and conformance suite\<close>: a handshake with either signer gets the signature the fixture's key makes;
      the identity cases of the suite pass exactly on the systems they are meant for, the echo case
      depends on what a connection carries and not on how it cuts it, and reads never overrun.
    \<^item> \<^emph>\<open>TCP programs\<close>: lines do not depend on how a stream is cut into chunks; the client classifies
      the end of a connection by the verdicts of both layers; server and demos check and echo what
      they say they do.
    \<^item> \<^emph>\<open>Timing laboratory\<close>: a measurement is a balanced, permuted run of trials; the verdict is the
      one of the largest crop, and in exact arithmetic a textbook difference is reported; probes differ in
      one byte, scalars are range-checked numerically and drawn at most three times, the packet, token and
      record surfaces measure refusals of an unchanged probe; the timed handshake ends with both sides done;
      the laboratory always ends, and with success exactly when every surface was measured and gave the
      verdict expected of it.

  Two theorems of \<^verbatim>\<open>P2_Streams\<close> state defects of the code as it is. By \<open>accepted_bytes_can_be_lost\<close>
  the writer task can discard bytes whose write had returned ok: before it sleeps it calls
  \<open>next_work\<close> a second time, and the work that call takes from the queue is dropped; \<open>writer_task_delivers_in_order\<close> therefore states
  delivery as a subsequence and gives equality under the absence of that race. By
  \<open>cancelled_poll_wedges_the_stream\<close> a poll that is cancelled while it awaits the read half loses
  the half, after which the stream is always ready and always empty. Two more are about the programs:
  by \<open>read_line_can_keep_the_line_feed\<close> of \<^verbatim>\<open>Tcp_Apps\<close> a line that ends with its stream keeps its line feed,
  and by \<open>short_write_loses_the_rest\<close> of \<^verbatim>\<open>Quic_Interop\<close> the interop endpoints finish a stream after a
  short write. Two are about the benchmarks: by \<open>header_mask_columns_swapped\<close> of \<^verbatim>\<open>Tls_Bench\<close> the least time of a
  header mask is printed as the greatest and conversely, and by \<open>native_pump_leaves_late_events\<close> of \<^verbatim>\<open>Native_Bench\<close> the
  native pump does not mirror the last step of the example's.

  \<^bold>\<open>Loops.\<close> No definition uses fuel; the sixteen rounds of \<open>handshake_timed\<close> are the source's own
  bound. Loops over data are structural recursion or have a measure (\<open>fill\<close>, \<open>flush\<close>, \<open>bulk_write\<close>). Loops whose end
  depends on code outside the repository are partial functions into \<open>option\<close>, with \<open>None\<close> for a loop
  that does not end, and theorems show that they return under the promises above: \<open>pump_loops_end\<close>,
  \<open>p2_resolution_yields_one_handle\<close>, \<open>pump_returns\<close>, \<open>drive_one_ends\<close>, \<open>quic_program_always_ends\<close>, \<open>native_program_always_ends\<close>,
  \<open>tls_benchmark_always_ends\<close>, \<open>component_benchmark_always_ends\<close>, \<open>p2_demo_checks_the_reversed_echo\<close>, \<open>handshake_timed_completes\<close>, \<open>lab_always_ends\<close>; for the stream readers of the programs the
  theorems derive the result from the chunks supplied. The rejection sampling of \<open>draw_scalar\<close> ends by
  \<open>scalar_draw_ends_within_three\<close>, a fact about the generator alone.

  \<^bold>\<open>What is not modelled.\<close> The cryptographic primitives, certificate path validation and the TLS and
  QUIC state machines (code of other crates). Of the programs the formatting of what they print; of the conformance
  suite the harness that registers and selects its cases. The unit and integration tests of the crates.
  The \<open>Drop\<close> order of values with no observable effect, logging, and the generated bindings of the
  WIT files.
\<close>

section \<open>The deliveries agree\<close>

text \<open>
  What each delivery does with an opted-in name whose resolution succeeded is one step of the shared
  handle table: the 0.3 host provider and the guest at once, the 0.2 host provider at the first
  address its resolution stream is asked for.
\<close>

lemma host_resolution_step:
  assumes "strip_suffix name = Some host" and "wasi_resolve wasi host (sockets v) = (Ok (Ok as), s)" and "as \<noteq> []"
    and "mint_with (names (virt (others (v\<lparr>sockets := s\<rparr>)))) \<lparr>hostname = host, addrs = map ip_to_std as\<rparr> sfx = (h, t)"
  shows "\<exists>v'. resolve_addresses wasi others (Some sfx) name v = Ok (Ok (Ok [Ipv6 h]), v') \<and> names (virt v') = t"
  using assms by (simp add: resolve_addresses_def on_sockets_def Let_def mint_handle_def mint_eq_mint_with)

lemma guest_resolution_step:
  assumes "strip_suffix name = Some host" and "h_resolve ops host (g_world g) = (Ok as, s)" and "as \<noteq> []"
    and "mint_with (g_table (others (g\<lparr>g_world := s\<rparr>))) \<lparr>hostname = host, addrs = map ip_to_std as\<rparr> sfx = (h, t)"
  shows "\<exists>g'. guest_resolve_addresses ops others (Some sfx) name g = Ok (Ok [Ipv6 h], g') \<and> g_table g' = t"
  using assms by (simp add: guest_resolve_addresses_def on_world_def Let_def guest_mint_handle_def
      mint_eq_mint_with addr_to_std_eq)

lemma p2_resolution_step:
  assumes "strip_suffix name = Some host" and "p2_resolve wasi network host (sockets (view st)) = (Ok rep, s)"
    and "yields wasi rep s as s'" and "as \<noteq> []"
    and "mint_with (names (virt (view st))) \<lparr>hostname = host, addrs = map ip_to_std as\<rparr> sfx = (h, t)"
  shows "\<exists>st1 st2. p2_resolve_addresses wasi network name st = (Ok rep, st1) \<and>
    resolve_next_address wasi (Some sfx) rep st1 = Some (Ok (Ok (Some (Ipv6 h)), st2)) \<and>
    names (virt (view st2)) = t"
proof -
  let ?st1 = "set_p2_resolve rep (Some (Draining host [])) (set_sockets s st)"
  have "p2_resolve_addresses wasi network name st = (Ok rep, ?st1)"
    using assms(1,2) by (simp add: p2_resolve_addresses_def p2_on_sockets_eq)
  moreover have "resolve_next_address wasi (Some sfx) rep ?st1 = Some (Ok (Ok (Some (Ipv6 h)),
      set_names t (set_p2_resolve rep (Some Yielded) (set_sockets s' st))))"
    using drain_yields [OF assms(3), of ?st1 host "[]" sfx] assms(4,5) by (simp add: resolve_next_address_def)
  ultimately show ?thesis by (metis set_simps(9))
qed

text \<open>
  C11. The three deliveries of the scheme are interchangeable: with the same handle table, the same
  answer of the underlying resolver and the same randomness, the 0.3 provider, the guest component and
  the 0.2 resolution stream give a guest the same single handle, which at every port means the
  opted-in name with the resolved addresses, and every address a guest may connect to afterwards
  means the same name, addresses and port in each.
\<close>

theorem deliveries_resolve_alike:
  assumes "strip_suffix name = Some host" and "as \<noteq> []" and "length sfx = 8"
    and "wasi_resolve wasi host (sockets v) = (Ok (Ok as), s1)"
    and "h_resolve ops host (g_world g) = (Ok as, s2)"
    and "p2_resolve p2 network host (sockets (view st)) = (Ok rep, s3)" and "yields p2 rep s3 as s4"
    and "table_wf table" and "names (virt (others (v\<lparr>sockets := s1\<rparr>))) = table"
    and "g_table (g_others (g\<lparr>g_world := s2\<rparr>)) = table" and "names (virt (view st)) = table"
  shows "\<exists>h v' g' st1 st'.
    resolve_addresses wasi others (Some sfx) name v = Ok (Ok (Ok [Ipv6 h]), v') \<and>
    guest_resolve_addresses ops g_others (Some sfx) name g = Ok (Ok [Ipv6 h], g') \<and>
    p2_resolve_addresses p2 network name st = (Ok rep, st1) \<and>
    resolve_next_address p2 (Some sfx) rep st1 = Some (Ok (Ok (Some (Ipv6 h)), st')) \<and>
    (\<forall>v6. v6_address v6 = h \<longrightarrow>
       lookup_handle (virt v') (SockV6 v6) = Some (host, map ip_to_std as, v6_port v6)) \<and>
    (\<forall>remote. guest_lookup_handle (g_table g') remote = lookup_handle (virt v') remote \<and>
       lookup_handle (virt (view st')) remote = lookup_handle (virt v') remote)"
proof -
  let ?e = "\<lparr>hostname = host, addrs = map ip_to_std as\<rparr>"
  obtain h t where m: "mint_with table ?e sfx = (h, t)" by fastforce
  obtain v' where v': "resolve_addresses wasi others (Some sfx) name v = Ok (Ok (Ok [Ipv6 h]), v')"
    "names (virt v') = t"
    using host_resolution_step [OF assms(1,4,2), of others sfx h t] m assms(9) by auto
  obtain g' where g': "guest_resolve_addresses ops g_others (Some sfx) name g = Ok (Ok [Ipv6 h], g')"
    "g_table g' = t"
    using guest_resolution_step [OF assms(1,5,2), of g_others sfx h t] m assms(10) by auto
  obtain st1 st' where st': "p2_resolve_addresses p2 network name st = (Ok rep, st1)"
    "resolve_next_address p2 (Some sfx) rep st1 = Some (Ok (Ok (Some (Ipv6 h)), st'))"
    "names (virt (view st')) = t"
    using p2_resolution_step [OF assms(1,6,7,2), of sfx h t] m assms(11) by auto
  have "lookup t h = Some ?e" using handles.find_minted [OF assms(8,3), of ?e h] m by simp
  then have "\<forall>v6. v6_address v6 = h \<longrightarrow>
      lookup_handle (virt v') (SockV6 v6) = Some (host, map ip_to_std as, v6_port v6)" by (simp add: v'(2))
  moreover have "\<forall>remote. guest_lookup_handle (g_table g') remote = lookup_handle (virt v') remote \<and>
      lookup_handle (virt (view st')) remote = lookup_handle (virt v') remote"
    using v'(2) g'(2) st'(3) by (metis guest_lookup_handle_eq)
  ultimately show ?thesis using v'(1) g'(1) st'(1,2) by blast
qed

theorem deliveries_resolve_alike_witness:
  "\<exists>h v' g' st1 st'.
    resolve_addresses demo_wasi (\<lambda>v. v) (Some [1, 2, 3, 4, 5, 6, 7, 8]) (''example.org'' @ SUFFIX) demo_view =
      Ok (Ok (Ok [Ipv6 h]), v') \<and>
    guest_resolve_addresses demo_guest (\<lambda>g. g) (Some [1, 2, 3, 4, 5, 6, 7, 8]) (''example.org'' @ SUFFIX)
      demo_guest_state = Ok (Ok [Ipv6 h], g') \<and>
    p2_resolve_addresses demo_p2 0 (''example.org'' @ SUFFIX) (set_names demo_table demo_p2_state) = (Ok 5, st1) \<and>
    resolve_next_address demo_p2 (Some [1, 2, 3, 4, 5, 6, 7, 8]) 5 st1 = Some (Ok (Ok (Some (Ipv6 h)), st'))"
proof -
  let ?as = "[Ipv4 (192, 0, 2, 1)]" and ?st = "set_names demo_table demo_p2_state"
  have n: "strip_suffix (''example.org'' @ SUFFIX) = Some ''example.org''" by (simp add: strip_suffix_iff)
  have l: "?as \<noteq> []" "length [1, 2, 3, 4, 5, 6, 7, 8 :: u8] = 8" by simp_all
  have w: "wasi_resolve demo_wasi ''example.org'' (sockets demo_view) = (Ok (Ok ?as), ())"
    by (simp add: demo_wasi_def)
  have g: "h_resolve demo_guest ''example.org'' (g_world demo_guest_state) = (Ok ?as, [])"
    by (simp add: demo_guest_def demo_guest_state_def)
  have p: "p2_resolve demo_p2 0 ''example.org'' (sockets (view ?st)) = (Ok 5, ?as)"
    by (simp add: demo_p2_def demo_p2_state_def set_names_def)
  have y: "yields demo_p2 5 ?as ?as []"
    by (rule yields.yields_more [of _ _ _ _ "[]"], simp add: demo_p2_def)
      (rule yields.yields_end, simp add: demo_p2_def)
  have t: "names (virt ((\<lambda>v. v) (demo_view\<lparr>sockets := ()\<rparr>))) = demo_table"
    "g_table ((\<lambda>g. g) (demo_guest_state\<lparr>g_world := []\<rparr>)) = demo_table" "names (virt (view ?st)) = demo_table"
    by (simp_all add: demo_view_def demo_guest_state_def)
  show ?thesis
    using deliveries_resolve_alike [where others = "\<lambda>v. v" and g_others = "\<lambda>g. g",
        OF n l w g p y demo_table_wf t] by blast
qed

end
